(* ===== verification/Prelude.thy ===== *)
theory Prelude
  imports Main "HOL-Library.Word"
begin

text \<open>
  What every component of the development shares: the machine integers of
  \<^verbatim>\<open>kernel/types.h\<close>, the outcome of running kernel code up to its next
  scheduling point, little-endian encodings of words as bytes, byte memory with block
  reads and writes, and the first-match search that most of the kernel's table scans
  perform. The collections declared here carry the component proofs:
  \<open>outcome_simps\<close> (running an operation), \<open>mem_simps\<close> (byte memory) and
  \<open>lock_simps\<close> (critical sections).
\<close>

unbundle bit_operations_syntax

named_theorems outcome_simps \<open>rules that run kernel code through the outcome type\<close>
named_theorems mem_simps \<open>reads over writes in byte memory\<close>
named_theorems lock_simps \<open>what taking and dropping a free spinlock does\<close>

section \<open>Machine integers\<close>

type_synonym uint8 = "8 word"
type_synonym uint16 = "16 word"
type_synonym uint32 = "32 word"
type_synonym uint64 = "64 word"

section \<open>Wait channels and outcomes\<close>

text \<open>
  A wait channel is the address of a kernel object that \<^verbatim>\<open>sleep\<close> and
  \<^verbatim>\<open>wakeup\<close> agree on; one constructor per object the code uses.
\<close>

datatype sleeplock_id = Buf_lock nat | Inode_lock nat

datatype chan =
    Ch_null
  | Ch_proc nat
  | Ch_ticks
  | Ch_bsem nat
  | Ch_pipe_nread uint64
  | Ch_pipe_nwrite uint64
  | Ch_sleeplock sleeplock_id
  | Ch_log
  | Ch_cons_r
  | Ch_uart_tx_r
  | Ch_buf nat
  | Ch_disk_free

text \<open>
  Running kernel code up to the next scheduling point returns a value, panics with a
  message, or spins on something only another hart or a device can change.
\<close>

datatype 'a outcome =
    Ok (the_ok: 'a)
  | Panic (message: string)
  | Spin

primrec bindO :: "'a outcome \<Rightarrow> ('a \<Rightarrow> 'b outcome) \<Rightarrow> 'b outcome" where
  "bindO (Ok x) f = f x"
| "bindO (Panic e) f = Panic e"
| "bindO Spin f = Spin"

lemma bindO_cong [fundef_cong]:
  assumes "m = m'" and "\<And>x. m' = Ok x \<Longrightarrow> f x = g x"
  shows "bindO m f = bindO m' g"
  using assms by (cases m') auto

lemma bindO_eq_Ok [outcome_simps]:
  "bindO m f = Ok y \<longleftrightarrow> (\<exists>x. m = Ok x \<and> f x = Ok y)"
  by (cases m) auto

lemma bindO_OkE:
  assumes "bindO m f = Ok y"
  obtains x where "m = Ok x" and "f x = Ok y"
  using assms by (cases m) auto

lemma bindO_assoc: "bindO (bindO m f) g = bindO m (\<lambda>x. bindO (f x) g)"
  by (cases m) auto

lemma if_Ok_iff [outcome_simps]:
  "(if b then Panic e else m) = Ok x \<longleftrightarrow> \<not> b \<and> m = Ok x"
  "(if b then Spin else m) = Ok x \<longleftrightarrow> \<not> b \<and> m = Ok x"
  by auto

section \<open>Little-endian encodings\<close>

fun le_enc :: "nat \<Rightarrow> 'w::len word \<Rightarrow> uint8 list" where
  "le_enc 0 w = []"
| "le_enc (Suc n) w = ucast w # le_enc n (drop_bit 8 w)"

fun le_dec :: "uint8 list \<Rightarrow> 'w::len word" where
  "le_dec [] = 0"
| "le_dec (b # bs) = ucast b OR push_bit 8 (le_dec bs)"

lemma length_le_enc [simp]: "length (le_enc n w) = n"
  by (induction n arbitrary: w) auto

lemma le_dec_enc_take_bit: "le_dec (le_enc n w) = take_bit (8 * n) w"
proof (induction n arbitrary: w)
  case 0
  show ?case by simp
next
  case (Suc n)
  have "ucast (ucast w :: uint8) OR push_bit 8 (take_bit (8 * n) (drop_bit 8 w))
      = take_bit (8 * Suc n) w"
    by (rule bit_word_eqI) (auto simp: bit_simps)
  then show ?case using Suc by simp
qed

lemma take_bit_word_ge: "LENGTH('w) \<le> n \<Longrightarrow> take_bit n (w :: 'w::len word) = w"
  by (rule bit_word_eqI) (auto simp: bit_simps)

lemma le_dec_enc:
  fixes w :: "'w::len word"
  assumes "LENGTH('w) \<le> 8 * n"
  shows "le_dec (le_enc n w) = w"
  using assms by (simp add: le_dec_enc_take_bit take_bit_word_ge)

lemma le_dec_enc_64 [simp]: "le_dec (le_enc 8 (w :: uint64)) = w"
  by (simp add: le_dec_enc)

lemma le_dec_enc_32 [simp]: "le_dec (le_enc 4 (w :: uint32)) = w"
  by (simp add: le_dec_enc)

lemma le_dec_enc_16 [simp]: "le_dec (le_enc 2 (w :: uint16)) = w"
  by (simp add: le_dec_enc)

lemma le_enc_dec:
  assumes "8 * length bs \<le> LENGTH('w)"
  shows "le_enc (length bs) (le_dec bs :: 'w::len word) = bs"
  using assms
proof (induction bs)
  case Nil
  show ?case by simp
next
  case (Cons b bs)
  let ?d = "le_dec bs :: 'w word"
  from Cons.prems have len: "8 + 8 * length bs \<le> LENGTH('w)" by simp
  have low: "ucast (ucast b OR push_bit 8 ?d :: 'w word) = b"
    by (rule bit_word_eqI) (use len in \<open>auto simp: bit_simps\<close>)
  have high: "drop_bit 8 (ucast b OR push_bit 8 ?d :: 'w word) = take_bit (LENGTH('w) - 8) ?d"
    by (rule bit_word_eqI) (use len in \<open>auto simp: bit_simps dest: bit_imp_le_length\<close>)
  have small: "take_bit (LENGTH('w) - 8) ?d = ?d"
  proof (rule bit_word_eqI)
    fix i
    assume "i < LENGTH('w)"
    have dec_bit: "\<not> bit (le_dec cs :: 'w word) i" if "8 * length cs \<le> i" for cs
      using that
    proof (induction cs arbitrary: i)
      case (Cons c cs)
      then have "\<not> bit (le_dec cs :: 'w word) (i - 8)" by (intro Cons.IH) auto
      with Cons.prems show ?case by (auto simp: bit_simps dest: bit_imp_le_length)
    qed simp
    show "bit (take_bit (LENGTH('w) - 8) ?d) i = bit ?d i"
    proof (cases "8 * length bs \<le> i")
      case True
      then show ?thesis using dec_bit [of bs] by (simp add: bit_simps)
    next
      case False
      with len have "i < LENGTH('w) - 8" by linarith
      then show ?thesis by (simp add: bit_simps)
    qed
  qed
  show ?case using Cons len low high small by simp
qed

section \<open>Byte memory\<close>

type_synonym bytemem = "uint64 \<Rightarrow> uint8"

definition mread :: "bytemem \<Rightarrow> uint64 \<Rightarrow> nat \<Rightarrow> uint8 list" where
  "mread m a n = map (\<lambda>i. m (a + of_nat i)) [0..<n]"

primrec mwrite :: "bytemem \<Rightarrow> uint64 \<Rightarrow> uint8 list \<Rightarrow> bytemem" where
  "mwrite m a [] = m"
| "mwrite m a (b # bs) = mwrite (m(a := b)) (a + 1) bs"

definition load64 :: "bytemem \<Rightarrow> uint64 \<Rightarrow> uint64" where
  "load64 m a = le_dec (mread m a 8)"

definition store64 :: "bytemem \<Rightarrow> uint64 \<Rightarrow> uint64 \<Rightarrow> bytemem" where
  "store64 m a v = mwrite m a (le_enc 8 v)"

text \<open>The bytes from \<open>a\<close> on, \<open>n\<close> of them, as a set of addresses.\<close>

definition range_of :: "uint64 \<Rightarrow> nat \<Rightarrow> uint64 set" where
  "range_of a n = {x. unat (x - a) < n}"

lemma length_mread [simp]: "length (mread m a n) = n"
  by (simp add: mread_def)

lemma nth_mread [simp]: "i < n \<Longrightarrow> mread m a n ! i = m (a + of_nat i)"
  by (simp add: mread_def)

lemma unat_diff_one:
  fixes x a :: uint64
  assumes "x \<noteq> a"
  shows "unat (x - a) = Suc (unat (x - (a + 1)))"
proof -
  have "x - a \<noteq> 0" using assms by simp
  then have "unat (x - a - 1) = unat (x - a) - 1" by (simp add: unat_minus_one)
  moreover have "0 < unat (x - a)" using \<open>x - a \<noteq> 0\<close> unat_gt_0 by blast
  ultimately show ?thesis by (simp add: algebra_simps)
qed

lemma mwrite_apply:
  assumes "length bs \<le> 2 ^ 64"
  shows "mwrite m a bs x = (if unat (x - a) < length bs then bs ! unat (x - a) else m x)"
  using assms
proof (induction bs arbitrary: m a)
  case Nil
  show ?case by simp
next
  case (Cons b bs)
  then have IH: "mwrite (m(a := b)) (a + 1) bs x =
      (if unat (x - (a + 1)) < length bs then bs ! unat (x - (a + 1)) else (m(a := b)) x)"
    by simp
  show ?case
  proof (cases "x = a")
    case True
    have "unat (- 1 :: uint64) = 2 ^ 64 - 1" by (simp add: unsigned_minus_1_eq_mask mask_eq_exp_minus_1)
    then have "\<not> unat (- 1 :: uint64) < length bs" using Cons.prems by simp
    with True IH show ?thesis by simp
  next
    case False
    with IH show ?thesis by (simp add: unat_diff_one)
  qed
qed

lemma mwrite_other [mem_simps]:
  "length bs \<le> 2 ^ 64 \<Longrightarrow> x \<notin> range_of a (length bs) \<Longrightarrow> mwrite m a bs x = m x"
  by (simp add: mwrite_apply range_of_def)

lemma mread_0 [simp]: "mread m a 0 = []"
  by (simp add: mread_def)

lemma unat_ucast_32_64 [simp]: "unat (ucast (n :: uint32) :: uint64) = unat n"
proof -
  have "unat n < 2 ^ 32" using unsigned_less [of n] by simp
  then show ?thesis by (simp add: unsigned_ucast_eq take_bit_nat_eq_self)
qed

lemma unat_of_nat_64: "n < 2 ^ 64 \<Longrightarrow> unat (of_nat n :: uint64) = n"
  by (simp add: unat_of_nat)

lemma mread_mwrite_same [mem_simps]:
  assumes "length bs \<le> 2 ^ 64"
  shows "mread (mwrite m a bs) a (length bs) = bs"
  using assms by (auto intro!: nth_equalityI simp: mwrite_apply unat_of_nat_64)

lemma in_range_of: "i < n \<Longrightarrow> n \<le> 2 ^ 64 \<Longrightarrow> a + of_nat i \<in> range_of a n"
  by (simp add: range_of_def unat_of_nat_64)

lemma mread_cong:
  assumes "\<And>x. x \<in> range_of a n \<Longrightarrow> m x = m' x" and "n \<le> 2 ^ 64"
  shows "mread m a n = mread m' a n"
  using assms by (auto intro!: nth_equalityI simp: in_range_of)

lemma mread_mwrite_other [mem_simps]:
  assumes "range_of a n \<inter> range_of b (length bs) = {}"
    and "n \<le> 2 ^ 64" and "length bs \<le> 2 ^ 64"
  shows "mread (mwrite m b bs) a n = mread m a n"
proof (rule mread_cong)
  fix x
  assume "x \<in> range_of a n"
  with assms(1) have "x \<notin> range_of b (length bs)" by auto
  with assms(3) show "mwrite m b bs x = m x" by (rule mwrite_other)
qed (rule assms(2))

lemma load64_store64_same [simp, mem_simps]: "load64 (store64 m a v) a = v"
  using mread_mwrite_same [of "le_enc 8 v" m a] by (simp add: load64_def store64_def)

lemma load64_store64_other [mem_simps]:
  assumes "range_of a 8 \<inter> range_of b 8 = {}"
  shows "load64 (store64 m b v) a = load64 m a"
  using assms by (simp add: load64_def store64_def mread_mwrite_other)

lemma store64_other [mem_simps]: "x \<notin> range_of a 8 \<Longrightarrow> store64 m a v x = m x"
  by (simp add: store64_def mwrite_other)

lemma load64_mwrite_other [mem_simps]:
  assumes "range_of a 8 \<inter> range_of b (length bs) = {}" and "length bs \<le> 2 ^ 64"
  shows "load64 (mwrite m b bs) a = load64 m a"
  using assms by (simp add: load64_def mread_mwrite_other)

section \<open>First match in a table\<close>

text \<open>
  Most of the kernel's tables are searched from index 0 for the first slot with some
  property. \<open>first_match P n\<close> is that slot among the first \<open>n\<close>.
\<close>

definition first_match :: "(nat \<Rightarrow> bool) \<Rightarrow> nat \<Rightarrow> nat option" where
  "first_match P n = List.find P [0..<n]"

lemma first_match_SomeD:
  assumes "first_match P n = Some i"
  shows "i < n" and "P i" and "\<And>j. j < i \<Longrightarrow> \<not> P j"
proof -
  from assms obtain k where k: "k < n" "P k" "i = k" "\<And>j. j < k \<Longrightarrow> \<not> P j"
    unfolding first_match_def find_Some_iff by auto
  then show "i < n" "P i" "\<And>j. j < i \<Longrightarrow> \<not> P j" by auto
qed

lemma first_match_None_iff: "first_match P n = None \<longleftrightarrow> (\<forall>i<n. \<not> P i)"
  by (auto simp: first_match_def find_None_iff)

lemma first_match_SomeI:
  assumes "i < n" and "P i" and "\<And>j. j < i \<Longrightarrow> \<not> P j"
  shows "first_match P n = Some i"
  unfolding first_match_def find_Some_iff using assms by (intro exI [of _ i]) auto

end
