(* ===== verification/Riscv.thy ===== *)
theory Riscv
  imports Prelude
begin

text \<open>
  The constants and macros of \<^verbatim>\<open>kernel/riscv.h\<close>,
  \<^verbatim>\<open>kernel/memlayout.h\<close> and \<^verbatim>\<open>kernel/param.h\<close>: page arithmetic,
  page-table entries, the three nine-bit indices of a virtual address, the address map
  of the machine, the sizes of the kernel's tables. The lemmas give the arithmetic
  meaning of the bit operations and the two round trips the page tables rest on: an entry
  gives back the physical address and the flags it was made from, and a page of virtual
  addresses is determined by its three indices.
\<close>

section \<open>Table sizes (param.h)\<close>

definition NPROC :: nat where [simp]: "NPROC = 64"
definition NCPU :: nat where [simp]: "NCPU = 8"
definition NOFILE :: nat where [simp]: "NOFILE = 16"
definition NFILE :: nat where [simp]: "NFILE = 100"
definition NINODE :: nat where [simp]: "NINODE = 50"
definition NDEV :: nat where [simp]: "NDEV = 10"
definition ROOTDEV :: uint32 where [simp]: "ROOTDEV = 1"
definition MAXARG :: nat where [simp]: "MAXARG = 32"
definition MAXOPBLOCKS :: nat where [simp]: "MAXOPBLOCKS = 10"
definition LOGSIZE :: nat where [simp]: "LOGSIZE = MAXOPBLOCKS * 3"
definition NBUF :: nat where [simp]: "NBUF = MAXOPBLOCKS * 3"
definition FSSIZE :: nat where [simp]: "FSSIZE = 1000"
definition MAXPATH :: nat where [simp]: "MAXPATH = 128"

section \<open>Pages and page-table entries (riscv.h)\<close>

definition PGSIZE :: uint64 where [simp]: "PGSIZE = 4096"
definition PGSHIFT :: nat where [simp]: "PGSHIFT = 12"

definition PGROUNDUP :: "uint64 \<Rightarrow> uint64" where
  "PGROUNDUP sz = (sz + PGSIZE - 1) AND NOT (PGSIZE - 1)"

definition PGROUNDDOWN :: "uint64 \<Rightarrow> uint64" where
  "PGROUNDDOWN a = a AND NOT (PGSIZE - 1)"

definition PTE_V :: uint64 where [simp]: "PTE_V = 1"
definition PTE_R :: uint64 where [simp]: "PTE_R = 2"
definition PTE_W :: uint64 where [simp]: "PTE_W = 4"
definition PTE_X :: uint64 where [simp]: "PTE_X = 8"
definition PTE_U :: uint64 where [simp]: "PTE_U = 16"

definition PA2PTE :: "uint64 \<Rightarrow> uint64" where
  "PA2PTE pa = push_bit 10 (drop_bit 12 pa)"

definition PTE2PA :: "uint64 \<Rightarrow> uint64" where
  "PTE2PA pte = push_bit 12 (drop_bit 10 pte)"

definition PTE_FLAGS :: "uint64 \<Rightarrow> uint64" where
  "PTE_FLAGS pte = pte AND 0x3FF"

definition PXMASK :: uint64 where [simp]: "PXMASK = 0x1FF"

definition PXSHIFT :: "nat \<Rightarrow> nat" where
  "PXSHIFT level = PGSHIFT + 9 * level"

definition PX :: "nat \<Rightarrow> uint64 \<Rightarrow> uint64" where
  "PX level va = drop_bit (PXSHIFT level) va AND PXMASK"

definition MAXVA :: uint64 where [simp]: "MAXVA = 2 ^ (9 + 9 + 9 + 12 - 1)"

definition SATP_SV39 :: uint64 where [simp]: "SATP_SV39 = push_bit 60 8"

definition MAKE_SATP :: "uint64 \<Rightarrow> uint64" where
  "MAKE_SATP pagetable = SATP_SV39 OR drop_bit 12 pagetable"

definition SSTATUS_SPP :: uint64 where [simp]: "SSTATUS_SPP = 2 ^ 8"
definition SSTATUS_SPIE :: uint64 where [simp]: "SSTATUS_SPIE = 2 ^ 5"
definition SSTATUS_SIE :: uint64 where [simp]: "SSTATUS_SIE = 2 ^ 1"

section \<open>The address map (memlayout.h)\<close>

definition UART0 :: uint64 where [simp]: "UART0 = 0x10000000"
definition UART0_IRQ :: int where [simp]: "UART0_IRQ = 10"
definition VIRTIO0 :: uint64 where [simp]: "VIRTIO0 = 0x10001000"
definition VIRTIO0_IRQ :: int where [simp]: "VIRTIO0_IRQ = 1"
definition PLIC :: uint64 where [simp]: "PLIC = 0x0c000000"
definition KERNBASE :: uint64 where [simp]: "KERNBASE = 0x80000000"
definition PHYSTOP :: uint64 where [simp]: "PHYSTOP = KERNBASE + 128 * 1024 * 1024"
definition TRAMPOLINE :: uint64 where [simp]: "TRAMPOLINE = MAXVA - PGSIZE"

definition KSTACK :: "nat \<Rightarrow> uint64" where
  "KSTACK p = TRAMPOLINE - (of_nat p + 1) * 2 * PGSIZE"

definition TRAPFRAME :: uint64 where [simp]: "TRAPFRAME = TRAMPOLINE - PGSIZE"

section \<open>Page arithmetic\<close>

lemma and_not_4095: "a AND - 4096 = push_bit 12 (drop_bit 12 (a :: uint64))"
proof -
  have "(- 4096 :: uint64) = NOT (mask 12)"
    by (simp add: mask_eq_exp_minus_1 not_eq_complement)
  moreover have "a AND NOT (mask 12) = push_bit 12 (drop_bit 12 a)"
    by (rule bit_word_eqI) (auto simp only: bit_simps o_apply le_add_diff_inverse not_less)
  ultimately show ?thesis by (simp only:)
qed

lemma unat_drop_bit: "unat (drop_bit n (a :: uint64)) = unat a div 2 ^ n"
proof -
  have "take_bit 64 (unat a) = unat a"
    by (rule take_bit_nat_eq_self) (use unsigned_less [of a, where 'a = nat] in simp)
  then show ?thesis by (simp only: unsigned_drop_bit_eq) (simp add: drop_bit_eq_div)
qed

lemma unat_take_bit: "unat (take_bit n (a :: uint64)) = unat a mod 2 ^ n"
  by (simp only: unsigned_take_bit_eq) (simp add: take_bit_eq_mod)

lemma unat_push_drop:
  assumes "k \<le> n"
  shows "unat (push_bit k (drop_bit n (a :: uint64))) = unat a div 2 ^ n * 2 ^ k"
proof -
  have "unat a div 2 ^ n * 2 ^ k \<le> unat a div 2 ^ n * 2 ^ n"
    using assms by (simp add: power_increasing)
  also have "\<dots> \<le> unat a" by simp
  also have "\<dots> < 2 ^ 64" using unsigned_less [of a] by simp
  finally have less: "unat a div 2 ^ n * 2 ^ k < 2 ^ 64" .
  have "push_bit k (drop_bit n a) = of_nat (unat a div 2 ^ n * 2 ^ k)"
    by (simp add: push_bit_eq_mult unat_drop_bit [symmetric])
  then show ?thesis using less by (simp only: unat_of_nat) simp
qed

lemma unat_PGROUNDDOWN: "unat (PGROUNDDOWN a) = unat a div 4096 * 4096"
  using unat_push_drop [of 12 12 a] by (simp add: PGROUNDDOWN_def and_not_4095)

lemma PGROUNDDOWN_le: "PGROUNDDOWN a \<le> a"
  by (simp add: word_le_nat_alt unat_PGROUNDDOWN)

lemma unat_PGROUNDUP:
  assumes "unat a + 4095 < 2 ^ 64"
  shows "unat (PGROUNDUP a) = (unat a + 4095) div 4096 * 4096"
proof -
  have "unat (a + 4095) = unat a + 4095"
    using assms by (simp add: unat_word_ariths)
  then show ?thesis
    using unat_push_drop [of 12 12 "a + 4095"]
    by (simp add: PGROUNDUP_def and_not_4095 add_diff_eq [symmetric])
qed

definition page_aligned :: "uint64 \<Rightarrow> bool" where
  "page_aligned a \<longleftrightarrow> unat a mod 4096 = 0"

lemma page_aligned_PGROUNDDOWN [simp]: "page_aligned (PGROUNDDOWN a)"
  by (simp add: page_aligned_def unat_PGROUNDDOWN)

lemma PGROUNDDOWN_aligned [simp]: "page_aligned a \<Longrightarrow> PGROUNDDOWN a = a"
  by (simp add: page_aligned_def word_unat_eq_iff unat_PGROUNDDOWN)
    (metis add.right_neutral div_mult_mod_eq)

lemma page_aligned_0 [simp]: "page_aligned 0"
  by (simp add: page_aligned_def)

lemma page_aligned_mod: "page_aligned a \<longleftrightarrow> a mod 4096 = 0"
  by (simp add: page_aligned_def word_unat_eq_iff unat_mod)

section \<open>Entries round-trip\<close>

lemma PTE2PA_PA2PTE:
  assumes "page_aligned pa" and "pa < 2 ^ 56" and "perm < 2 ^ 10"
  shows "PTE2PA (PA2PTE pa OR perm) = pa" and "PTE_FLAGS (PA2PTE pa OR perm) = perm"
proof -
  have pa: "take_bit 12 pa = 0"
    using assms(1) by (simp only: word_unat_eq_iff unat_take_bit) (simp add: page_aligned_def)
  have pa_hi: "take_bit 56 pa = pa" and perm_hi: "take_bit 10 perm = perm"
    using assms(2,3) by (simp_all only: word_unat_eq_iff unat_take_bit) (simp_all add: word_less_nat_alt)
  have 1: "push_bit 12 (drop_bit 10 (push_bit 10 (drop_bit 12 pa) OR perm)) = pa"
  proof (rule bit_word_eqI)
    fix n assume "n < LENGTH(64)"
    have "bit pa n \<Longrightarrow> 12 \<le> n \<and> n < 56"
      using pa pa_hi by (metis bit_take_bit_iff bit_0_eq bot_apply bot_bool_def not_le)
    moreover have "\<not> bit perm (n - 2)" if "12 \<le> n"
    proof
      assume "bit perm (n - 2)"
      with perm_hi have "n - 2 < 10" by (metis bit_take_bit_iff)
      with that show False by simp
    qed
    ultimately show "bit (push_bit 12 (drop_bit 10 (push_bit 10 (drop_bit 12 pa) OR perm))) n
        = bit pa n"
      using \<open>n < LENGTH(64)\<close> by (auto simp: bit_simps)
  qed
  then show "PTE2PA (PA2PTE pa OR perm) = pa"
    by (simp add: PTE2PA_def PA2PTE_def)
  have "0x3FF = (mask 10 :: uint64)" by (simp add: mask_eq_exp_minus_1)
  then have "PTE_FLAGS (PA2PTE pa OR perm) = take_bit 10 (PA2PTE pa OR perm)"
    by (simp only: PTE_FLAGS_def take_bit_eq_mask)
  also have "\<dots> = take_bit 10 perm"
    by (rule bit_word_eqI) (auto simp: PA2PTE_def bit_simps)
  finally show "PTE_FLAGS (PA2PTE pa OR perm) = perm" using perm_hi by simp
qed

section \<open>The three indices of a virtual address\<close>

lemma PX_take_bit: "PX level va = take_bit 9 (drop_bit (12 + 9 * level) va)"
proof -
  have "0x1FF = (mask 9 :: uint64)" by (simp add: mask_eq_exp_minus_1)
  then show ?thesis by (simp only: PX_def PXSHIFT_def PXMASK_def PGSHIFT_def take_bit_eq_mask)
qed

lemma unat_PX: "unat (PX level va) = unat va div 2 ^ (12 + 9 * level) mod 512"
  by (simp only: PX_take_bit unat_take_bit unat_drop_bit) simp

lemma PX_less: "unat (PX level va) < 512"
  by (simp add: unat_PX)

lemma PX_inject:
  assumes "va < MAXVA" and "va' < MAXVA" and "page_aligned va" and "page_aligned va'"
    and "PX 2 va = PX 2 va'" and "PX 1 va = PX 1 va'" and "PX 0 va = PX 0 va'"
  shows "va = va'"
proof -
  have split: "unat v = ((unat (PX 2 v) * 512 + unat (PX 1 v)) * 512 + unat (PX 0 v)) * 4096"
    if "v < MAXVA" and "page_aligned v" for v
  proof -
    have "unat v < 2 ^ 38" using that(1) by (simp add: word_less_nat_alt)
    then have "unat v div 2 ^ 30 < 512" by (simp add: less_mult_imp_div_less)
    moreover have "unat v = unat v div 4096 * 4096"
      using that(2) by (simp add: page_aligned_def mod_0_imp_dvd)
    moreover have "unat v div 2 ^ 21 = unat v div 4096 div 512"
      and "unat v div 2 ^ 30 = unat v div 4096 div 512 div 512"
      by (simp_all add: div_mult2_eq [symmetric])
    ultimately show ?thesis
      by (simp add: unat_PX)
  qed
  show ?thesis
    using split [OF assms(1,3)] split [OF assms(2,4)] assms(5-7)
    by (simp add: word_unat_eq_iff)
qed

end
