(* ===== verification/Spinlock.thy ===== *)
theory Spinlock
  imports Riscv
begin

text \<open>
  The machine state every kernel component works on, and \<^verbatim>\<open>kernel/spinlock.c\<close>.
  The state is an extensible record: memory, the registers of the hart that runs the
  code, the per-CPU structures of \<^verbatim>\<open>kernel/proc.h\<close> and all spinlocks of the
  kernel; the components extend it with their own globals. The lemmas show that a
  critical section on a free lock never panics and leaves lock, nesting depth and
  interrupt enable as they were, and, on the instruction-level interleaving of
  \<open>acquire\<close> and \<open>release\<close> by any number of CPUs, that at most one is inside.
\<close>

section \<open>State\<close>

record spinlock =
  locked :: uint32
  lk_name :: string
  lk_cpu :: "nat option"

text \<open>Every spinlock of the kernel, by the object it is in.\<close>

datatype lock_id =
    L_kmem | L_pid | L_wait | L_bsem | L_proc nat | L_ticks
  | L_bcache | L_log | L_itable | L_ftable | L_pipe uint64
  | L_cons | L_uart | L_pr | L_vdisk | L_sleep sleeplock_id

record cpu =
  c_proc :: "nat option"
  c_noff :: int
  c_intena :: bool

record machine =
  mem :: bytemem
  tp :: nat
  sstatus :: uint64
  satp :: uint64
  stvec :: uint64
  sepc :: uint64
  scause :: uint64
  stval :: uint64
  sip :: uint64
  cpus :: "nat \<Rightarrow> cpu"
  locks :: "lock_id \<Rightarrow> spinlock"

section \<open>Interrupt enable (riscv.h) and the current CPU (proc.c)\<close>

definition intr_on :: "'a machine_scheme \<Rightarrow> 'a machine_scheme" where
  "intr_on s = s\<lparr>sstatus := sstatus s OR SSTATUS_SIE\<rparr>"

definition intr_off :: "'a machine_scheme \<Rightarrow> 'a machine_scheme" where
  "intr_off s = s\<lparr>sstatus := sstatus s AND NOT SSTATUS_SIE\<rparr>"

definition intr_get :: "'a machine_scheme \<Rightarrow> bool" where
  "intr_get s \<longleftrightarrow> sstatus s AND SSTATUS_SIE \<noteq> 0"

definition cpuid :: "'a machine_scheme \<Rightarrow> nat" where
  "cpuid s = tp s"

definition mycpu :: "'a machine_scheme \<Rightarrow> cpu" where
  "mycpu s = cpus s (cpuid s)"

definition set_mycpu :: "(cpu \<Rightarrow> cpu) \<Rightarrow> 'a machine_scheme \<Rightarrow> 'a machine_scheme" where
  "set_mycpu f s = s\<lparr>cpus := (cpus s)(cpuid s := f (mycpu s))\<rparr>"

section \<open>spinlock.c\<close>

definition initlock :: "lock_id \<Rightarrow> string \<Rightarrow> 'a machine_scheme \<Rightarrow> 'a machine_scheme" where
  "initlock lk name s =
     s\<lparr>locks := (locks s)(lk := (locks s lk)\<lparr>lk_name := name, locked := 0, lk_cpu := None\<rparr>)\<rparr>"

definition holding :: "lock_id \<Rightarrow> 'a machine_scheme \<Rightarrow> bool" where
  "holding lk s \<longleftrightarrow> locked (locks s lk) \<noteq> 0 \<and> lk_cpu (locks s lk) = Some (cpuid s)"

definition push_off :: "'a machine_scheme \<Rightarrow> 'a machine_scheme" where
  "push_off s =
     (let old = intr_get s;
          s = intr_off s;
          s = (if c_noff (mycpu s) = 0 then set_mycpu (\<lambda>c. c\<lparr>c_intena := old\<rparr>) s else s)
      in set_mycpu (\<lambda>c. c\<lparr>c_noff := c_noff c + 1\<rparr>) s)"

definition pop_off :: "'a machine_scheme \<Rightarrow> 'a machine_scheme outcome" where
  "pop_off s =
     (if intr_get s then Panic ''pop_off - interruptible''
      else if c_noff (mycpu s) < 1 then Panic ''pop_off''
      else let s = set_mycpu (\<lambda>c. c\<lparr>c_noff := c_noff c - 1\<rparr>) s
           in Ok (if c_noff (mycpu s) = 0 \<and> c_intena (mycpu s) then intr_on s else s))"

text \<open>
  The loop on the atomic swap ends at once on a free lock; on a lock another hart holds
  the code spins until that hart releases it.
\<close>

definition acquire :: "lock_id \<Rightarrow> 'a machine_scheme \<Rightarrow> 'a machine_scheme outcome" where
  "acquire lk s =
     (let s = push_off s in
      if holding lk s then Panic ''acquire''
      else if locked (locks s lk) \<noteq> 0 then Spin
      else Ok (s\<lparr>locks := (locks s)(lk := (locks s lk)\<lparr>locked := 1, lk_cpu := Some (cpuid s)\<rparr>)\<rparr>))"

definition release :: "lock_id \<Rightarrow> 'a machine_scheme \<Rightarrow> 'a machine_scheme outcome" where
  "release lk s =
     (if \<not> holding lk s then Panic ''release''
      else pop_off (s\<lparr>locks := (locks s)(lk := (locks s lk)\<lparr>lk_cpu := None, locked := 0\<rparr>)\<rparr>))"

section \<open>Critical sections\<close>

text \<open>
  \<open>cpu_ok\<close>: interrupts are off whenever the running CPU has a \<open>push_off\<close> pending.
  \<open>acquired lk s\<close> is the state inside the critical section of \<open>lk\<close>, and
  \<open>tidy s\<close> is \<open>s\<close> after a matched \<open>push_off\<close> and \<open>pop_off\<close>: only the
  saved interrupt flag of an otherwise idle CPU can change.
\<close>

definition cpu_ok :: "'a machine_scheme \<Rightarrow> bool" where
  "cpu_ok s \<longleftrightarrow> 0 \<le> c_noff (mycpu s) \<and> (0 < c_noff (mycpu s) \<longrightarrow> \<not> intr_get s)"

definition lock_free :: "lock_id \<Rightarrow> 'a machine_scheme \<Rightarrow> bool" where
  "lock_free lk s \<longleftrightarrow> locked (locks s lk) = 0 \<and> lk_cpu (locks s lk) = None"

definition acquired :: "lock_id \<Rightarrow> 'a machine_scheme \<Rightarrow> 'a machine_scheme" where
  "acquired lk s =
     s\<lparr>sstatus := sstatus s AND NOT SSTATUS_SIE,
       cpus := (cpus s)(tp s := (cpus s (tp s))
         \<lparr>c_intena := (if c_noff (cpus s (tp s)) = 0 then intr_get s else c_intena (cpus s (tp s))),
          c_noff := c_noff (cpus s (tp s)) + 1\<rparr>),
       locks := (locks s)(lk := (locks s lk)\<lparr>locked := 1, lk_cpu := Some (tp s)\<rparr>)\<rparr>"

definition tidy :: "'a machine_scheme \<Rightarrow> 'a machine_scheme" where
  "tidy s =
     s\<lparr>cpus := (cpus s)(tp s := (cpus s (tp s))
         \<lparr>c_intena := (if c_noff (cpus s (tp s)) = 0 then intr_get s else c_intena (cpus s (tp s)))\<rparr>)\<rparr>"

lemmas cpu_defs = mycpu_def cpuid_def set_mycpu_def intr_get_def intr_on_def intr_off_def

lemma and_2_bit: "(x :: uint64) AND 2 \<noteq> 0 \<longleftrightarrow> bit x 1"
proof -
  have "x AND 2 = (if bit x 1 then 2 else 0)"
    by (rule bit_word_eqI) (auto simp: bit_simps bit_2_iff)
  then show ?thesis by simp
qed

lemma minus_3_not_2: "(- 3 :: uint64) = NOT 2"
  by simp

lemma sie_off: "((x :: uint64) AND - 3) AND 2 = 0"
  unfolding minus_3_not_2 by (rule bit_word_eqI) (auto simp only: bit_simps bit_0_eq bot_apply bot_bool_def possible_bit_word One_nat_def)

lemma sie_off_bit: "\<not> bit ((x :: uint64) AND - 3) (Suc 0)"
  unfolding minus_3_not_2 by (simp only: bit_simps bit_2_iff One_nat_def possible_bit_word) simp

lemma sie_back: "bit (x :: uint64) (Suc 0) \<Longrightarrow> (x AND - 3) OR 2 = x"
  unfolding minus_3_not_2 by (rule bit_word_eqI) (auto simp only: bit_simps bit_2_iff One_nat_def possible_bit_word)

lemma sie_stays_off: "\<not> bit (x :: uint64) (Suc 0) \<Longrightarrow> x AND - 3 = x"
  unfolding minus_3_not_2 by (rule bit_word_eqI) (auto simp only: bit_simps bit_2_iff One_nat_def possible_bit_word)

lemma acquire_free [lock_simps]:
  assumes "lock_free lk s"
  shows "acquire lk s = Ok (acquired lk s)"
  using assms
  by (simp add: acquire_def acquired_def push_off_def holding_def lock_free_def cpu_defs Let_def)

lemma release_acquired [lock_simps]:
  assumes "cpu_ok s" and "lock_free lk s"
  shows "release lk (acquired lk s) = Ok (tidy s)"
proof -
  let ?c = "cpus s (tp s)"
  have lk: "(locks s lk)\<lparr>lk_cpu := None, locked := 0\<rparr> = locks s lk"
    using assms(2) by (simp add: lock_free_def)
  have cpu: "?c\<lparr>c_intena := i, c_noff := k\<rparr> = ?c\<lparr>c_intena := i\<rparr>" if "c_noff ?c = k" for i k
    using that by simp
  consider (outer) "c_noff ?c = 0" | (inner) "0 < c_noff ?c" "\<not> bit (sstatus s) (Suc 0)"
    using assms(1) by (cases "c_noff ?c = 0") (auto simp: cpu_ok_def cpu_defs and_2_bit)
  then show ?thesis
  proof cases
    case outer
    then show ?thesis
      using lk
      by (cases "intr_get s") (simp_all add: cpu release_def acquired_def tidy_def holding_def
          pop_off_def cpu_defs Let_def sie_off and_2_bit sie_off_bit sie_back sie_stays_off)
  next
    case inner
    then show ?thesis
      using lk
      by (simp add: cpu release_def acquired_def tidy_def holding_def
          pop_off_def cpu_defs Let_def sie_off and_2_bit sie_off_bit sie_stays_off)
  qed
qed

lemma acquired_simps [lock_simps]:
  "tp (acquired lk s) = tp s" "mem (acquired lk s) = mem s"
  "satp (acquired lk s) = satp s" "stvec (acquired lk s) = stvec s"
  "sepc (acquired lk s) = sepc s" "scause (acquired lk s) = scause s"
  "stval (acquired lk s) = stval s" "sip (acquired lk s) = sip s"
  "cpuid (acquired lk s) = cpuid s" "c_proc (cpus (acquired lk s) c) = c_proc (cpus s c)"
  "(acquired lk s)\<lparr>mem := m\<rparr> = acquired lk (s\<lparr>mem := m\<rparr>)"
  by (simp_all add: acquired_def cpuid_def intr_get_def)

lemma tidy_simps [lock_simps]:
  "tp (tidy s) = tp s" "mem (tidy s) = mem s" "locks (tidy s) = locks s"
  "sstatus (tidy s) = sstatus s"
  "satp (tidy s) = satp s" "stvec (tidy s) = stvec s"
  "sepc (tidy s) = sepc s" "scause (tidy s) = scause s"
  "stval (tidy s) = stval s" "sip (tidy s) = sip s"
  "cpuid (tidy s) = cpuid s" "c_proc (cpus (tidy s) c) = c_proc (cpus s c)"
  "c_noff (cpus (tidy s) c) = c_noff (cpus s c)"
  "tidy (tidy s) = tidy s"
  "(tidy s)\<lparr>mem := m\<rparr> = tidy (s\<lparr>mem := m\<rparr>)"
  by (simp_all add: tidy_def cpuid_def intr_get_def)

lemma lock_free_acquired [lock_simps]:
  "lock_free lk' (acquired lk s) \<longleftrightarrow> lk' \<noteq> lk \<and> lock_free lk' s"
  by (auto simp: lock_free_def acquired_def)

lemma lock_free_tidy [lock_simps]: "lock_free lk (tidy s) = lock_free lk s"
  by (simp add: lock_free_def tidy_def)

lemma cpu_ok_acquired [lock_simps]: "cpu_ok s \<Longrightarrow> cpu_ok (acquired lk s)"
  by (simp add: cpu_ok_def acquired_def cpu_defs sie_off)

lemma cpu_ok_tidy [lock_simps]: "cpu_ok (tidy s) = cpu_ok s"
  by (simp add: cpu_ok_def tidy_def cpu_defs)

lemma tidy_acquired [lock_simps]: "cpu_ok s \<Longrightarrow> tidy (acquired lk s) = acquired lk s"
  by (cases s) (auto simp: tidy_def acquired_def cpu_ok_def cpu_defs intro: cpu.equality)

lemma holding_acquired [lock_simps]:
  "holding lk' (acquired lk s) \<longleftrightarrow> lk' = lk \<or> holding lk' s"
  by (auto simp: holding_def acquired_def cpuid_def)

lemma holding_tidy [lock_simps]: "holding lk (tidy s) = holding lk s"
  by (simp add: holding_def lock_simps)

lemma intr_get_acquired [lock_simps]: "\<not> intr_get (acquired lk s)"
  by (simp add: acquired_def intr_get_def sie_off)

lemma intr_get_tidy [lock_simps]: "intr_get (tidy s) = intr_get s"
  by (simp add: tidy_def intr_get_def)

lemma noff_tidy: "c_noff (mycpu (tidy s)) = c_noff (mycpu s)"
  by (simp add: tidy_def cpu_defs)

lemma acquired_mem_upd [lock_simps]:
  "lock_free lk (s\<lparr>mem := m\<rparr>) = lock_free lk s" "cpu_ok (s\<lparr>mem := m\<rparr>) = cpu_ok s"
  "holding lk (s\<lparr>mem := m\<rparr>) = holding lk s" "intr_get (s\<lparr>mem := m\<rparr>) = intr_get s"
  by (simp_all add: lock_free_def cpu_ok_def holding_def cpu_defs)

text \<open>\<open>acquire\<close> panics exactly when this CPU already holds the lock.\<close>

lemma acquire_Panic_iff: "(\<exists>e. acquire lk s = Panic e) \<longleftrightarrow> holding lk s"
  by (auto simp: acquire_def push_off_def holding_def cpu_defs Let_def)

lemma acquire_holding: "holding lk s \<Longrightarrow> acquire lk s = Panic ''acquire''"
  by (simp add: acquire_def push_off_def holding_def cpu_defs Let_def)

section \<open>Matched interrupt nesting\<close>

lemma pop_push: "cpu_ok s \<Longrightarrow> pop_off (push_off s) = Ok (tidy s)"
  by (auto simp: push_off_def pop_off_def tidy_def cpu_ok_def cpu_defs Let_def sie_off
      and_2_bit sie_back sie_stays_off sie_off_bit)

section \<open>Mutual exclusion of the lock's instructions\<close>

text \<open>
  One lock, any number of CPUs, every access to the lock a step of its own. The position
  of a CPU in the code: outside; at the atomic swap in \<open>acquire\<close>; past it, before
  \<open>lk->cpu\<close> is written; in the critical section; in \<open>release\<close> between clearing
  \<open>lk->cpu\<close> and the releasing store.
\<close>

datatype lock_pc = Outside | Swapping | Won | Inside | Leaving

record lock_sys =
  the_lock :: spinlock
  pcs :: "nat \<Rightarrow> lock_pc"

definition lock_sys_holding :: "nat \<Rightarrow> lock_sys \<Rightarrow> bool" where
  "lock_sys_holding i t \<longleftrightarrow> locked (the_lock t) \<noteq> 0 \<and> lk_cpu (the_lock t) = Some i"

inductive lock_step :: "lock_sys \<Rightarrow> lock_sys \<Rightarrow> bool" where
  enter: "pcs t i = Outside \<Longrightarrow> \<not> lock_sys_holding i t \<Longrightarrow>
     lock_step t (t\<lparr>pcs := (pcs t)(i := Swapping)\<rparr>)"
| swap_busy: "pcs t i = Swapping \<Longrightarrow> locked (the_lock t) \<noteq> 0 \<Longrightarrow>
     lock_step t (t\<lparr>the_lock := (the_lock t)\<lparr>locked := 1\<rparr>\<rparr>)"
| swap_win: "pcs t i = Swapping \<Longrightarrow> locked (the_lock t) = 0 \<Longrightarrow>
     lock_step t (t\<lparr>the_lock := (the_lock t)\<lparr>locked := 1\<rparr>, pcs := (pcs t)(i := Won)\<rparr>)"
| record_cpu: "pcs t i = Won \<Longrightarrow>
     lock_step t (t\<lparr>the_lock := (the_lock t)\<lparr>lk_cpu := Some i\<rparr>, pcs := (pcs t)(i := Inside)\<rparr>)"
| clear_cpu: "pcs t i = Inside \<Longrightarrow> lock_sys_holding i t \<Longrightarrow>
     lock_step t (t\<lparr>the_lock := (the_lock t)\<lparr>lk_cpu := None\<rparr>, pcs := (pcs t)(i := Leaving)\<rparr>)"
| unlock: "pcs t i = Leaving \<Longrightarrow>
     lock_step t (t\<lparr>the_lock := (the_lock t)\<lparr>locked := 0\<rparr>, pcs := (pcs t)(i := Outside)\<rparr>)"

inductive lock_reachable :: "lock_sys \<Rightarrow> bool" where
  initial: "locked (the_lock t) = 0 \<Longrightarrow> lk_cpu (the_lock t) = None \<Longrightarrow>
     (\<forall>i. pcs t i = Outside) \<Longrightarrow> lock_reachable t"
| step: "lock_reachable t \<Longrightarrow> lock_step t u \<Longrightarrow> lock_reachable u"

definition past_swap :: "lock_pc \<Rightarrow> bool" where
  "past_swap pc \<longleftrightarrow> pc = Won \<or> pc = Inside \<or> pc = Leaving"

text \<open>
  The CPU that owns the lock, if any, is the only one past the swap, and \<open>lk->cpu\<close>
  names it exactly while it is in the critical section.
\<close>

fun lock_owner :: "nat option \<Rightarrow> lock_sys \<Rightarrow> bool" where
  "lock_owner None t \<longleftrightarrow> (\<forall>j. \<not> past_swap (pcs t j)) \<and> lk_cpu (the_lock t) = None"
| "lock_owner (Some i) t \<longleftrightarrow> past_swap (pcs t i) \<and> (\<forall>j. j \<noteq> i \<longrightarrow> \<not> past_swap (pcs t j)) \<and>
     locked (the_lock t) \<noteq> 0 \<and>
     lk_cpu (the_lock t) = (if pcs t i = Inside then Some i else None)"

lemma past_swap_simps [simp]:
  "past_swap Won" "past_swap Inside" "past_swap Leaving" "\<not> past_swap Outside" "\<not> past_swap Swapping"
  by (simp_all add: past_swap_def)

lemma lock_owner_past: "lock_owner h t \<Longrightarrow> past_swap (pcs t i) \<Longrightarrow> h = Some i"
  by (cases h) (simp_all, metis)

lemma lock_step_owner: "lock_step t u \<Longrightarrow> lock_owner h t \<Longrightarrow> \<exists>h'. lock_owner h' u"
proof (induction rule: lock_step.induct)
  case (enter t i)
  then have "lock_owner h (t\<lparr>pcs := (pcs t)(i := Swapping)\<rparr>)" by (cases h) force+
  then show ?case by blast
next
  case (swap_busy t i)
  then have "lock_owner h (t\<lparr>the_lock := (the_lock t)\<lparr>locked := 1\<rparr>\<rparr>)" by (cases h) simp_all
  then show ?case by blast
next
  case (swap_win t i)
  then have "h = None" by (cases h) auto
  with swap_win show ?case by (intro exI [of _ "Some i"]) simp
next
  case (record_cpu t i)
  then have "h = Some i" by (intro lock_owner_past) auto
  with record_cpu show ?case by (intro exI [of _ "Some i"]) simp
next
  case (clear_cpu t i)
  then have "h = Some i" by (intro lock_owner_past) auto
  with clear_cpu show ?case by (intro exI [of _ "Some i"]) simp
next
  case (unlock t i)
  then have "h = Some i" by (intro lock_owner_past) auto
  with unlock show ?case by (intro exI [of _ None]) simp
qed

lemma lock_reachable_owner: "lock_reachable t \<Longrightarrow> \<exists>h. lock_owner h t"
proof (induction rule: lock_reachable.induct)
  case (initial t)
  then show ?case by (intro exI [of _ None]) simp
qed (blast intro: lock_step_owner)

section \<open>Properties\<close>

text \<open>
  C1: at most one CPU is ever inside the critical section of a spinlock, whatever the
  interleaving of the lock's instructions, and while a CPU is inside, the lock word is
  taken and names that CPU, so that the check of \<open>release\<close> cannot panic.
\<close>

theorem spinlock_mutual_exclusion:
  assumes "lock_reachable t" and "pcs t i = Inside"
  shows "lock_sys_holding i t \<and> {j. pcs t j = Inside} = {i}"
proof -
  from lock_reachable_owner [OF assms(1)] obtain h where h: "lock_owner h t" by blast
  moreover from h have "h = Some i" using assms(2) by (intro lock_owner_past) auto
  ultimately show ?thesis using assms(2) by (auto simp: lock_sys_holding_def past_swap_def)
qed

definition lock_run_start :: lock_sys where
  "lock_run_start = \<lparr>the_lock = \<lparr>locked = 0, lk_name = ''kmem'', lk_cpu = None\<rparr>, pcs = (\<lambda>_. Outside)\<rparr>"

definition lock_run_end :: lock_sys where
  "lock_run_end = \<lparr>the_lock = \<lparr>locked = 1, lk_name = ''kmem'', lk_cpu = Some 2\<rparr>,
     pcs = (\<lambda>_. Outside)(1 := Swapping, 2 := Inside)\<rparr>"

lemma lock_run_reachable: "lock_reachable lock_run_end"
proof -
  let ?s1 = "lock_run_start\<lparr>pcs := (pcs lock_run_start)(1 := Swapping)\<rparr>"
  let ?s2 = "?s1\<lparr>pcs := (pcs ?s1)(2 := Swapping)\<rparr>"
  let ?s3 = "?s2\<lparr>the_lock := (the_lock ?s2)\<lparr>locked := 1\<rparr>, pcs := (pcs ?s2)(2 := Won)\<rparr>"
  let ?s4 = "?s3\<lparr>the_lock := (the_lock ?s3)\<lparr>lk_cpu := Some 2\<rparr>, pcs := (pcs ?s3)(2 := Inside)\<rparr>"
  have "lock_reachable lock_run_start" by (rule initial) (simp_all add: lock_run_start_def)
  then have "lock_reachable ?s1"
    by (rule step) (rule enter, simp_all add: lock_run_start_def lock_sys_holding_def)
  then have "lock_reachable ?s2"
    by (rule step) (rule enter, simp_all add: lock_run_start_def lock_sys_holding_def)
  then have "lock_reachable ?s3" by (rule step) (rule swap_win, simp_all add: lock_run_start_def)
  then have "lock_reachable ?s4" by (rule step) (rule record_cpu, simp)
  moreover have "?s4 = lock_run_end"
    by (simp add: lock_run_start_def lock_run_end_def fun_eq_iff)
  ultimately show ?thesis by simp
qed

theorem spinlock_mutual_exclusion_witness:
  "lock_sys_holding 2 lock_run_end \<and> {j. pcs lock_run_end j = Inside} = {2}"
  by (rule spinlock_mutual_exclusion [OF lock_run_reachable]) (simp add: lock_run_end_def)

text \<open>
  C2: a critical section entered on a free lock never panics or spins; inside it the lock
  is held and interrupts are off; afterwards the lock is free again, and the interrupt
  enable, the nesting depth and every other lock are as before.
\<close>

theorem critical_section_restores:
  assumes "cpu_ok s" and "lock_free lk s"
  shows "\<exists>s1 s2. acquire lk s = Ok s1 \<and> holding lk s1 \<and> \<not> intr_get s1 \<and> acquire lk s1 = Panic ''acquire'' \<and>
     release lk s1 = Ok s2 \<and> intr_get s2 = intr_get s \<and> c_noff (mycpu s2) = c_noff (mycpu s) \<and>
     cpu_ok s2 \<and> locks s2 = locks s \<and> mem s2 = mem s"
  using assms by (simp add: lock_simps acquire_holding noff_tidy)

definition boot_machine :: machine where
  "boot_machine = \<lparr>mem = (\<lambda>_. 0), tp = 1, sstatus = 2, satp = 0, stvec = 0, sepc = 0, scause = 0,
     stval = 0, sip = 0, cpus = (\<lambda>_. \<lparr>c_proc = None, c_noff = 0, c_intena = False\<rparr>),
     locks = (\<lambda>_. \<lparr>locked = 0, lk_name = [], lk_cpu = None\<rparr>)\<rparr>"

theorem critical_section_restores_witness:
  "\<exists>s1 s2. acquire L_kmem boot_machine = Ok s1 \<and> holding L_kmem s1 \<and> \<not> intr_get s1 \<and>
     acquire L_kmem s1 = Panic ''acquire'' \<and>
     release L_kmem s1 = Ok s2 \<and> intr_get s2 = intr_get boot_machine \<and>
     c_noff (mycpu s2) = c_noff (mycpu boot_machine) \<and>
     cpu_ok s2 \<and> locks s2 = locks boot_machine \<and> mem s2 = mem boot_machine"
  by (rule critical_section_restores) (simp_all add: boot_machine_def cpu_ok_def lock_free_def cpu_defs)

end
