(* ===== verification/Kstring.thy ===== *)
theory Kstring
  imports Prelude
begin

text \<open>
  The routines of \<^verbatim>\<open>kernel/string.c\<close>. The \<open>mem*\<close> routines work on the
  byte memory, because what \<open>memmove\<close> does depends on how the two ranges overlap; the
  \<open>str*\<close> routines work on a character array seen from a pointer, a function that gives
  the byte at each offset. The theorems: \<open>memset\<close> and \<open>memmove\<close> are block writes
  whatever the overlap, \<open>memcmp\<close> and \<open>strncmp\<close> decide equality of the ranges and
  of the strings, \<open>strncpy\<close> pads with zeros, \<open>safestrcpy\<close> always terminates the
  string.
\<close>

section \<open>Definitions\<close>

type_synonym chars = "nat \<Rightarrow> uint8"

definition memset :: "bytemem \<Rightarrow> uint64 \<Rightarrow> int \<Rightarrow> uint32 \<Rightarrow> bytemem" where
  "memset m dst c n = fold (\<lambda>i m. m(dst + of_nat i := word_of_int c)) [0..<unat n] m"

primrec memcmp_from :: "chars \<Rightarrow> chars \<Rightarrow> nat \<Rightarrow> nat \<Rightarrow> int" where
  "memcmp_from s1 s2 i 0 = 0"
| "memcmp_from s1 s2 i (Suc n) =
     (if s1 i \<noteq> s2 i then uint (s1 i) - uint (s2 i) else memcmp_from s1 s2 (Suc i) n)"

definition memcmp :: "chars \<Rightarrow> chars \<Rightarrow> uint32 \<Rightarrow> int" where
  "memcmp v1 v2 n = memcmp_from v1 v2 0 (unat n)"

text \<open>The two copy loops of \<open>memmove\<close>: \<open>*d++ = *s++\<close> and \<open>*--d = *--s\<close>.\<close>

primrec copy_up :: "nat \<Rightarrow> uint64 \<Rightarrow> uint64 \<Rightarrow> bytemem \<Rightarrow> bytemem" where
  "copy_up 0 d s m = m"
| "copy_up (Suc n) d s m = copy_up n (d + 1) (s + 1) (m(d := m s))"

primrec copy_down :: "nat \<Rightarrow> uint64 \<Rightarrow> uint64 \<Rightarrow> bytemem \<Rightarrow> bytemem" where
  "copy_down 0 d s m = m"
| "copy_down (Suc n) d s m = copy_down n (d - 1) (s - 1) (m(d - 1 := m (s - 1)))"

definition memmove :: "bytemem \<Rightarrow> uint64 \<Rightarrow> uint64 \<Rightarrow> uint32 \<Rightarrow> bytemem" where
  "memmove m dst src n =
     (if src < dst \<and> src + ucast n > dst
      then copy_down (unat n) (dst + ucast n) (src + ucast n) m
      else copy_up (unat n) dst src m)"

definition memcpy :: "bytemem \<Rightarrow> uint64 \<Rightarrow> uint64 \<Rightarrow> uint32 \<Rightarrow> bytemem" where
  "memcpy m dst src n = memmove m dst src n"

primrec strncmp_from :: "chars \<Rightarrow> chars \<Rightarrow> nat \<Rightarrow> nat \<Rightarrow> int" where
  "strncmp_from p q i 0 = 0"
| "strncmp_from p q i (Suc n) =
     (if p i \<noteq> 0 \<and> p i = q i then strncmp_from p q (Suc i) n
      else uint (p i) - uint (q i))"

definition strncmp :: "chars \<Rightarrow> chars \<Rightarrow> uint32 \<Rightarrow> int" where
  "strncmp p q n = strncmp_from p q 0 (unat n)"

text \<open>
  \<open>strncpy\<close>: the first loop copies up to and including a terminator, the second fills
  what is left of the \<open>n\<close> bytes with zeros.
\<close>

primrec strncpy_fill :: "chars \<Rightarrow> nat \<Rightarrow> nat \<Rightarrow> chars" where
  "strncpy_fill s i 0 = s"
| "strncpy_fill s i (Suc n) = strncpy_fill (s(i := 0)) (Suc i) n"

primrec strncpy_from :: "chars \<Rightarrow> chars \<Rightarrow> nat \<Rightarrow> nat \<Rightarrow> chars" where
  "strncpy_from s t i 0 = s"
| "strncpy_from s t i (Suc n) =
     (if t i \<noteq> 0 then strncpy_from (s(i := t i)) t (Suc i) n
      else strncpy_fill (s(i := t i)) (Suc i) n)"

definition strncpy :: "chars \<Rightarrow> chars \<Rightarrow> int \<Rightarrow> chars" where
  "strncpy s t n = strncpy_from s t 0 (nat n)"

text \<open>\<open>k\<close> is what \<open>n\<close> is after the decrement in the loop condition.\<close>

primrec safestrcpy_from :: "chars \<Rightarrow> chars \<Rightarrow> nat \<Rightarrow> nat \<Rightarrow> chars" where
  "safestrcpy_from s t i 0 = s(i := 0)"
| "safestrcpy_from s t i (Suc k) =
     (if t i \<noteq> 0 then safestrcpy_from (s(i := t i)) t (Suc i) k
      else s(i := t i, Suc i := 0))"

definition safestrcpy :: "chars \<Rightarrow> chars \<Rightarrow> int \<Rightarrow> chars" where
  "safestrcpy s t n = (if n \<le> 0 then s else safestrcpy_from s t 0 (nat (n - 1)))"

partial_function (option) strlen_from :: "chars \<Rightarrow> nat \<Rightarrow> nat option" where
  "strlen_from s n = (if s n \<noteq> 0 then strlen_from s (Suc n) else Some n)"

definition strlen :: "chars \<Rightarrow> nat option" where
  "strlen s = strlen_from s 0"

text \<open>The string a character array holds within its first \<open>n\<close> bytes.\<close>

definition cstrn :: "chars \<Rightarrow> nat \<Rightarrow> uint8 list" where
  "cstrn s n = takeWhile (\<lambda>c. c \<noteq> 0) (map s [0..<n])"

section \<open>Block operations\<close>

lemma mwrite_append:
  "mwrite m a (xs @ [y]) = (mwrite m a xs)(a + of_nat (length xs) := y)"
  by (induction xs arbitrary: m a) (simp_all add: algebra_simps)

lemma memset_loop:
  "fold (\<lambda>i m. m(dst + of_nat i := v)) [0..<k] m = mwrite m dst (replicate k v)"
proof (induction k)
  case (Suc k)
  have "replicate (Suc k) v = replicate k v @ [v]"
    by (simp add: replicate_append_same)
  with Suc show ?case by (simp add: mwrite_append del: fun_upd_apply replicate.simps)
qed simp

lemma memset_eq_mwrite [mem_simps]:
  "memset m dst c n = mwrite m dst (replicate (unat n) (word_of_int c))"
  by (simp add: memset_def memset_loop)

lemma mread_Suc: "mread m a (Suc n) = m a # mread m (a + 1) n"
  by (simp add: mread_def upt_conv_Cons map_Suc_upt [symmetric] add.assoc del: upt_Suc map_Suc_upt)

lemma mread_snoc: "mread m a (Suc n) = mread m a n @ [m (a + of_nat n)]"
  by (simp add: mread_def)

lemma mread_upd_other:
  assumes "\<And>i. i < n \<Longrightarrow> a + of_nat i \<noteq> x"
  shows "mread (m(x := v)) a n = mread m a n"
  using assms by (auto intro: nth_equalityI)

lemma word64_neq_by_unat:
  fixes s x :: uint64
  assumes "unat s + n \<le> 2 ^ 64" and "unat x < unat s \<or> unat s + n \<le> unat x" and "i < n"
  shows "s + of_nat i \<noteq> x"
proof
  assume eq: "s + of_nat i = x"
  have "unat (s + of_nat i) = unat s + i"
    using assms(1,3) by (simp add: unat_word_ariths unat_of_nat)
  with eq assms(2,3) show False by auto
qed

lemma copy_up_eq:
  assumes "unat s + n \<le> 2 ^ 64" and "unat d \<le> unat s \<or> unat s + n \<le> unat d"
  shows "copy_up n d s m = mwrite m d (mread m s n)"
  using assms
proof (induction n arbitrary: d s m)
  case (Suc n)
  show ?case
  proof (cases n)
    case 0
    then show ?thesis by (simp add: mread_def)
  next
    case (Suc n')
    have s1: "unat (s + 1) = unat s + 1"
      using Suc.prems(1) Suc by (simp add: unat_word_ariths)
    have rd: "mread (m(d := m s)) (s + 1) n = mread m (s + 1) n"
    proof (cases "d = s")
      case False
      then have "unat d \<noteq> unat s" by (simp add: word_unat_eq_iff)
      with Suc.prems s1 show ?thesis
        by (intro mread_upd_other word64_neq_by_unat [where n = n]) auto
    qed simp
    have IH: "copy_up n (d + 1) (s + 1) (m(d := m s))
        = mwrite (m(d := m s)) (d + 1) (mread (m(d := m s)) (s + 1) n)"
    proof (rule Suc.IH)
      show "unat (s + 1) + n \<le> 2 ^ 64" using Suc.prems(1) s1 by simp
      have "unat (d + 1) \<le> unat (s + 1) \<or> unat (s + 1) + n \<le> unat (d + 1)"
        if "unat d \<le> unat s"
        using that s1 by (simp add: unat_word_ariths)
      moreover have "unat (d + 1) \<le> unat (s + 1) \<or> unat (s + 1) + n \<le> unat (d + 1)"
        if "unat s + Suc n \<le> unat d"
        using that s1 unatSuc [of d] by (cases "1 + d = 0") (auto simp: add.commute)
      ultimately show "unat (d + 1) \<le> unat (s + 1) \<or> unat (s + 1) + n \<le> unat (d + 1)"
        using Suc.prems(2) by blast
    qed
    show ?thesis using IH rd by (simp add: mread_Suc)
  qed
qed simp

lemma copy_down_eq:
  assumes "unat d + n \<le> 2 ^ 64" and "unat s < unat d"
  shows "copy_down n (d + of_nat n) (s + of_nat n) m = mwrite m d (mread m s n)"
  using assms
proof (induction n arbitrary: m)
  case (Suc n)
  let ?m = "m(d + of_nat n := m (s + of_nat n))"
  have ud: "unat (d + of_nat n) = unat d + n"
    using Suc.prems by (simp add: unat_word_ariths unat_of_nat)
  have rd: "mread ?m s n = mread m s n"
    using Suc.prems ud by (intro mread_upd_other word64_neq_by_unat [where n = n]) auto
  have "copy_down n (d + of_nat n) (s + of_nat n) ?m = mwrite ?m d (mread m s n)"
    using Suc.IH [of ?m] Suc.prems rd by (simp del: fun_upd_apply)
  also have "\<dots> = (mwrite m d (mread m s n))(d + of_nat n := m (s + of_nat n))"
  proof
    fix x
    have "unat (d + of_nat n - d) = n" using Suc.prems by (simp add: unat_of_nat)
    then show "mwrite ?m d (mread m s n) x
        = ((mwrite m d (mread m s n))(d + of_nat n := m (s + of_nat n))) x"
      using Suc.prems by (auto simp: mwrite_apply)
  qed
  also have "\<dots> = mwrite m d (mread m s (Suc n))"
    by (simp add: mread_snoc mwrite_append)
  finally show ?case by (simp add: algebra_simps)
qed simp

lemma ucast_32_64: "(ucast (n :: uint32) :: uint64) = of_nat (unat n)"
  by simp

lemma memmove_eq_mwrite [mem_simps]:
  assumes "unat dst + unat n < 2 ^ 64" and "unat src + unat n < 2 ^ 64"
  shows "memmove m dst src n = mwrite m dst (mread m src (unat n))"
proof (cases "src < dst \<and> src + ucast n > dst")
  case True
  with assms show ?thesis
    using copy_down_eq [of dst "unat n" src m] by (simp add: memmove_def word_less_nat_alt)
next
  case False
  have "unat (src + ucast n) = unat src + unat n"
    using assms(2) by (simp add: unat_word_ariths)
  with False have "unat dst \<le> unat src \<or> unat src + unat n \<le> unat dst"
    by (auto simp: word_less_nat_alt)
  with False assms show ?thesis
    by (auto simp: memmove_def copy_up_eq)
qed

section \<open>Comparisons\<close>

lemma upt_Suc_front: "[i..<i + Suc n] = i # [Suc i..<Suc i + n]"
  by (simp add: upt_conv_Cons)

lemma memcmp_from_eq_0: "memcmp_from p q i n = 0 \<longleftrightarrow> (\<forall>j. i \<le> j \<and> j < i + n \<longrightarrow> p j = q j)"
proof (induction n arbitrary: i)
  case (Suc n)
  have "(\<forall>j. i \<le> j \<and> j < i + Suc n \<longrightarrow> p j = q j) \<longleftrightarrow>
      p i = q i \<and> (\<forall>j. Suc i \<le> j \<and> j < Suc i + n \<longrightarrow> p j = q j)"
    by (metis Suc_le_eq add_Suc_right add_Suc_shift le_eq_less_or_eq less_add_Suc1)
  with Suc show ?case by (simp add: word_uint_eq_iff)
qed auto

lemma memcmp_eq_0: "memcmp p q n = 0 \<longleftrightarrow> (\<forall>j < unat n. p j = q j)"
  by (simp add: memcmp_def memcmp_from_eq_0)

lemma strncmp_from_eq_0:
  "strncmp_from p q i n = 0 \<longleftrightarrow>
     takeWhile (\<lambda>c. c \<noteq> 0) (map p [i..<i + n]) = takeWhile (\<lambda>c. c \<noteq> 0) (map q [i..<i + n])"
proof (induction n arbitrary: i)
  case (Suc n)
  then show ?case
    by (auto simp: upt_Suc_front word_uint_eq_iff simp del: upt_Suc add_Suc_right)
qed simp

lemma strncmp_eq_0: "strncmp p q n = 0 \<longleftrightarrow> cstrn p (unat n) = cstrn q (unat n)"
  using strncmp_from_eq_0 [of p q 0] by (simp add: strncmp_def cstrn_def)

section \<open>Copies\<close>

lemma strncpy_fill_apply:
  "strncpy_fill s i n j = (if i \<le> j \<and> j < i + n then 0 else s j)"
  by (induction n arbitrary: s i) auto

text \<open>The number of bytes before the terminator, within \<open>n\<close> bytes from \<open>i\<close>.\<close>

lemma cstrn_from_Suc:
  "takeWhile (\<lambda>c. c \<noteq> 0) (map t [i..<i + Suc n]) =
     (if t i \<noteq> 0 then t i # takeWhile (\<lambda>c. c \<noteq> 0) (map t [Suc i..<Suc i + n]) else [])"
  by (simp add: upt_Suc_front del: upt_Suc add_Suc_right)

lemma strncpy_from_apply:
  "strncpy_from s t i n j =
     (if i \<le> j \<and> j < i + n
      then if j < i + length (takeWhile (\<lambda>c. c \<noteq> 0) (map t [i..<i + n])) then t j else 0
      else s j)"
proof (induction n arbitrary: s i)
  case (Suc n)
  show ?case
  proof (cases "t i \<noteq> 0")
    case True
    then show ?thesis
      by (auto simp: Suc cstrn_from_Suc simp del: upt_Suc add_Suc_right)
  next
    case False
    then show ?thesis
      by (auto simp: cstrn_from_Suc strncpy_fill_apply simp del: upt_Suc add_Suc_right)
  qed
qed auto

lemma strncpy_apply:
  "strncpy s t n j =
     (if j < nat n then if j < length (cstrn t (nat n)) then t j else 0 else s j)"
  by (simp add: strncpy_def strncpy_from_apply cstrn_def)

lemma safestrcpy_from_beyond: "i + k < j \<Longrightarrow> safestrcpy_from s t i k j = s j"
  by (induction k arbitrary: s i) auto

lemma safestrcpy_from_before: "j < i \<Longrightarrow> safestrcpy_from s t i k j = s j"
  by (induction k arbitrary: s i) auto

lemma safestrcpy_from_string:
  "takeWhile (\<lambda>c. c \<noteq> 0) (map (safestrcpy_from s t i k) [i..<i + Suc k]) =
     takeWhile (\<lambda>c. c \<noteq> 0) (map t [i..<i + k])"
proof (induction k arbitrary: s i)
  case (Suc k)
  show ?case
  proof (cases "t i \<noteq> 0")
    case True
    then show ?thesis
      using safestrcpy_from_before [of i "Suc i" "s(i := t i)" t k]
      by (simp add: cstrn_from_Suc [of _ _ "Suc k"] cstrn_from_Suc [of t _ k] Suc
          del: upt_Suc add_Suc_right add_Suc)
  next
    case False
    then show ?thesis by (simp add: cstrn_from_Suc del: upt_Suc add_Suc_right)
  qed
qed simp

text \<open>
  \<open>safestrcpy\<close> leaves a terminated string, the longest prefix of the source that fits,
  and writes nothing past its \<open>n\<close> bytes.
\<close>

lemma safestrcpy_string:
  assumes "0 < n"
  shows "cstrn (safestrcpy s t n) (nat n) = cstrn t (nat n - 1)"
    and "nat n \<le> j \<Longrightarrow> safestrcpy s t n j = s j"
proof -
  from assms obtain k where k: "nat n = Suc k" by (cases "nat n") auto
  with assms have "nat (n - 1) = k" by linarith
  with k assms show "cstrn (safestrcpy s t n) (nat n) = cstrn t (nat n - 1)"
    using safestrcpy_from_string [of s t 0 k]
    by (simp add: safestrcpy_def cstrn_def del: upt_Suc)
  show "safestrcpy s t n j = s j" if "nat n \<le> j"
    using that k assms \<open>nat (n - 1) = k\<close>
    by (simp add: safestrcpy_def safestrcpy_from_beyond)
qed

lemma strlen_from_SomeI:
  "s (i + k) = 0 \<Longrightarrow> (\<And>j. j < k \<Longrightarrow> s (i + j) \<noteq> 0) \<Longrightarrow> strlen_from s i = Some (i + k)"
proof (induction k arbitrary: i)
  case 0
  then show ?case by (simp add: strlen_from.simps)
next
  case (Suc k)
  have "s i \<noteq> 0" using Suc.prems(2) [of 0] by simp
  moreover have "strlen_from s (Suc i) = Some (Suc i + k)"
    using Suc.prems by (intro Suc.IH) (auto dest: Suc.prems(2) [of "Suc _", simplified])
  ultimately show ?case by (simp add: strlen_from.simps)
qed

lemma strlen_SomeI: "s k = 0 \<Longrightarrow> (\<And>j. j < k \<Longrightarrow> s j \<noteq> 0) \<Longrightarrow> strlen s = Some k"
  using strlen_from_SomeI [of s 0 k] by (simp add: strlen_def)

end
