(* ===== verification/Kalloc.thy ===== *)
theory Kalloc
  imports Spinlock Kstring
begin

text \<open>
  The physical page allocator, \<^verbatim>\<open>kernel/kalloc.c\<close>. Free pages form a list linked
  through their own first eight bytes, as in the code (\<open>struct run\<close>). The
  invariant \<open>kmem_inv s xs\<close> says that the list starting at \<open>kmem.freelist\<close> holds
  exactly the pages \<open>xs\<close>, each aligned, inside the managed range and listed once;
  the lemmas give the effect of \<open>kfree\<close>, \<open>kalloc\<close> and \<open>freerange\<close> on it. The
  interface the rest of the kernel relies on is the locale \<open>page_allocator\<close>.
\<close>

section \<open>Definitions\<close>

record kmem = machine +
  freelist :: uint64
  kernel_end :: uint64

definition kfree :: "uint64 \<Rightarrow> 'a kmem_scheme \<Rightarrow> 'a kmem_scheme outcome" where
  "kfree pa s =
     (if pa mod PGSIZE \<noteq> 0 \<or> pa < kernel_end s \<or> pa \<ge> PHYSTOP then Panic ''kfree''
      else
        let s = s\<lparr>mem := memset (mem s) pa 1 4096\<rparr> in
        bindO (acquire L_kmem s) (\<lambda>s.
        let s = s\<lparr>mem := store64 (mem s) pa (freelist s)\<rparr>;
            s = s\<lparr>freelist := pa\<rparr>
        in release L_kmem s))"

definition kalloc :: "'a kmem_scheme \<Rightarrow> (uint64 \<times> 'a kmem_scheme) outcome" where
  "kalloc s =
     bindO (acquire L_kmem s) (\<lambda>s.
     let r = freelist s;
         s = (if r \<noteq> 0 then s\<lparr>freelist := load64 (mem s) r\<rparr> else s) in
     bindO (release L_kmem s) (\<lambda>s.
     Ok (r, if r \<noteq> 0 then s\<lparr>mem := memset (mem s) r 5 4096\<rparr> else s)))"

text \<open>
  The loop of \<open>freerange\<close> steps through the pages of a 64-bit address space, so one that
  has not ended after \<open>2 ^ 52\<close> pages has come back to where it started and never ends.
\<close>

function freerange_from :: "nat \<Rightarrow> uint64 \<Rightarrow> uint64 \<Rightarrow> 'a kmem_scheme \<Rightarrow> 'a kmem_scheme outcome" where
  "freerange_from fuel p pa_end s =
     (if p + PGSIZE \<le> pa_end
      then if fuel = 0 then Spin
           else bindO (kfree p s) (\<lambda>s. freerange_from (fuel - 1) (p + PGSIZE) pa_end s)
      else Ok s)"
  by pat_completeness auto
termination by (relation "measure (\<lambda>(fuel, p, pa_end, s). fuel)") auto

declare freerange_from.simps [simp del]

definition freerange :: "uint64 \<Rightarrow> uint64 \<Rightarrow> 'a kmem_scheme \<Rightarrow> 'a kmem_scheme outcome" where
  "freerange pa_start pa_end s = freerange_from (2 ^ 52) (PGROUNDUP pa_start) pa_end s"

definition kinit :: "'a kmem_scheme \<Rightarrow> 'a kmem_scheme outcome" where
  "kinit s = freerange (kernel_end s) PHYSTOP (initlock L_kmem ''kmem'' s)"

section \<open>Frame rules for the allocator's fields\<close>

lemma kmem_lock_simps [lock_simps]:
  "freelist (acquired lk s) = freelist s" "kernel_end (acquired lk s) = kernel_end s"
  "freelist (tidy s) = freelist s" "kernel_end (tidy s) = kernel_end s"
  "(acquired lk s)\<lparr>freelist := p\<rparr> = acquired lk (s\<lparr>freelist := p\<rparr>)"
  "(tidy s)\<lparr>freelist := p\<rparr> = tidy (s\<lparr>freelist := p\<rparr>)"
  "lock_free lk (s\<lparr>freelist := p\<rparr>) = lock_free lk s"
  "cpu_ok (s\<lparr>freelist := p\<rparr>) = cpu_ok s"
  by (simp_all add: acquired_def tidy_def lock_free_def cpu_ok_def cpu_defs)

lemma kfree_eq:
  assumes "lock_free L_kmem s" and "cpu_ok s"
  shows "kfree pa s =
     (if pa mod PGSIZE \<noteq> 0 \<or> pa < kernel_end s \<or> pa \<ge> PHYSTOP then Panic ''kfree''
      else Ok (tidy (s\<lparr>mem := store64 (memset (mem s) pa 1 4096) pa (freelist s), freelist := pa\<rparr>)))"
  using assms by (simp add: kfree_def Let_def lock_simps)

lemma kalloc_eq:
  assumes "lock_free L_kmem s" and "cpu_ok s"
  shows "kalloc s =
     Ok (freelist s, tidy (if freelist s \<noteq> 0
           then s\<lparr>freelist := load64 (mem s) (freelist s), mem := memset (mem s) (freelist s) 5 4096\<rparr>
           else s))"
  using assms by (simp add: kalloc_def Let_def lock_simps)

section \<open>The free list\<close>

primrec freelist_chain :: "bytemem \<Rightarrow> uint64 \<Rightarrow> uint64 list \<Rightarrow> bool" where
  "freelist_chain m p [] \<longleftrightarrow> p = 0"
| "freelist_chain m p (q # qs) \<longleftrightarrow> p = q \<and> p \<noteq> 0 \<and> freelist_chain m (load64 m p) qs"

definition managed :: "'a kmem_scheme \<Rightarrow> uint64 \<Rightarrow> bool" where
  "managed s p \<longleftrightarrow> p \<noteq> 0 \<and> page_aligned p \<and> kernel_end s \<le> p \<and> p < PHYSTOP"

definition kmem_inv :: "'a kmem_scheme \<Rightarrow> uint64 list \<Rightarrow> bool" where
  "kmem_inv s xs \<longleftrightarrow> freelist_chain (mem s) (freelist s) xs \<and> distinct xs \<and> (\<forall>x \<in> set xs. managed s x)"

definition page_of :: "uint64 \<Rightarrow> uint64 set" where
  "page_of p = range_of p 4096"

lemma in_page_unat:
  assumes "page_aligned p" and "x \<in> page_of p"
  shows "unat p = unat x div 4096 * 4096"
proof -
  have d: "unat (x - p) < 4096" using assms(2) by (simp add: page_of_def range_of_def)
  have "unat p \<le> 2 ^ 64 - 4096"
  proof -
    have "unat p < 2 ^ 64" using unsigned_less [of p, where 'a = nat] by simp
    moreover have p: "unat p = 4096 * (unat p div 4096)"
      using assms(1) by (auto simp: page_aligned_def)
    ultimately have "unat p div 4096 < 2 ^ 52" by (simp add: less_mult_imp_div_less)
    then show ?thesis using p by simp
  qed
  then have "unat (p + e) = unat p + unat e" if "unat e < 4096" for e
    using that by (simp add: unat_word_ariths)
  from this [OF d] have "unat x = unat p + unat (x - p)" by simp
  moreover have "unat p = unat p div 4096 * 4096"
    using assms(1) by (auto simp: page_aligned_def)
  ultimately show ?thesis using d by (metis div_mult_self3 add.commute div_less add_0 zero_neq_numeral)
qed

lemma page_disjoint:
  assumes "page_aligned p" and "page_aligned q" and "p \<noteq> q"
  shows "page_of p \<inter> page_of q = {}"
  using in_page_unat [OF assms(1)] in_page_unat [OF assms(2)] assms(3)
  by (metis disjoint_iff word_unat_eq_iff)

lemma range_of_mono: "n \<le> k \<Longrightarrow> range_of a n \<subseteq> range_of a k"
  by (auto simp: range_of_def)

lemma head_in_page: "range_of p 8 \<subseteq> page_of p"
  by (simp add: page_of_def range_of_mono)

lemma load64_cong:
  assumes "\<And>x. x \<in> range_of a 8 \<Longrightarrow> m x = m' x"
  shows "load64 m a = load64 m' a"
  unfolding load64_def using mread_cong [of a 8 m m'] assms by simp

lemma freelist_chain_cong:
  assumes "\<And>p x. p \<in> set xs \<Longrightarrow> x \<in> page_of p \<Longrightarrow> m x = m' x"
  shows "freelist_chain m p xs = freelist_chain m' p xs"
  using assms
proof (induction xs arbitrary: p)
  case (Cons q qs)
  have "load64 m q = load64 m' q"
    using Cons.prems [of q] head_in_page by (intro load64_cong) auto
  moreover have "freelist_chain m r qs = freelist_chain m' r qs" for r
    using Cons.prems by (intro Cons.IH) auto
  ultimately show ?case by (cases "p = q") simp_all
qed simp

lemma memset_page_other:
  "x \<notin> page_of p \<Longrightarrow> memset m p c 4096 x = m x"
  by (simp add: memset_eq_mwrite mwrite_other page_of_def)

lemma memset_page_same:
  "x \<in> page_of p \<Longrightarrow> memset m p c 4096 x = word_of_int c"
  by (simp add: memset_eq_mwrite mwrite_apply page_of_def range_of_def)

lemma store64_page_other: "x \<notin> page_of p \<Longrightarrow> store64 m p v x = m x"
  using head_in_page by (intro store64_other) auto

lemma kmem_inv_tidy [lock_simps]: "kmem_inv (tidy s) xs = kmem_inv s xs"
  by (simp add: kmem_inv_def managed_def lock_simps)

text \<open>\<open>kfree\<close> pushes the page; every byte outside it is untouched.\<close>

lemma kfree_inv:
  assumes inv: "kmem_inv s xs" and "managed s pa" and "pa \<notin> set xs"
    and "lock_free L_kmem s" and "cpu_ok s"
  obtains m' where "kfree pa s = Ok (tidy (s\<lparr>mem := m', freelist := pa\<rparr>))"
    and "kmem_inv (s\<lparr>mem := m', freelist := pa\<rparr>) (pa # xs)"
    and "\<And>x. x \<notin> page_of pa \<Longrightarrow> m' x = mem s x"
proof
  let ?m = "store64 (memset (mem s) pa 1 4096) pa (freelist s)"
  let ?s = "s\<lparr>mem := ?m, freelist := pa\<rparr>"
  show other: "?m x = mem s x" if "x \<notin> page_of pa" for x
    using that by (simp add: store64_page_other memset_page_other)
  show "kfree pa s = Ok (tidy ?s)"
    using assms(2,4,5) by (auto simp: kfree_eq managed_def page_aligned_mod)
  have "freelist_chain ?m (freelist s) xs = freelist_chain (mem s) (freelist s) xs"
  proof (rule freelist_chain_cong, rule other)
    fix p x
    assume "p \<in> set xs" and "x \<in> page_of p"
    with inv assms(2,3) show "x \<notin> page_of pa"
      using page_disjoint [of p pa] by (auto simp: kmem_inv_def managed_def)
  qed
  with inv assms(2,3) show "kmem_inv ?s (pa # xs)"
    by (simp add: kmem_inv_def managed_def)
qed

text \<open>\<open>kalloc\<close> pops the head page and fills it with junk, or returns 0.\<close>

lemma kalloc_inv_Cons:
  assumes inv: "kmem_inv s (x # xs)" and "lock_free L_kmem s" and "cpu_ok s"
  obtains m' fl where "kalloc s = Ok (x, tidy (s\<lparr>freelist := fl, mem := m'\<rparr>))"
    and "kmem_inv (s\<lparr>freelist := fl, mem := m'\<rparr>) xs"
    and "\<And>y. y \<notin> page_of x \<Longrightarrow> m' y = mem s y"
proof
  let ?m = "memset (mem s) x 5 4096"
  let ?s = "s\<lparr>freelist := load64 (mem s) x, mem := ?m\<rparr>"
  from inv have fl: "freelist s = x" and nz: "x \<noteq> 0" by (auto simp: kmem_inv_def)
  show "kalloc s = Ok (x, tidy ?s)" using assms(2,3) fl nz by (simp add: kalloc_eq)
  have "freelist_chain ?m (load64 (mem s) x) xs = freelist_chain (mem s) (load64 (mem s) x) xs"
  proof (rule freelist_chain_cong, rule memset_page_other)
    fix p y
    assume "p \<in> set xs" and "y \<in> page_of p"
    with inv show "y \<notin> page_of x"
      using page_disjoint [of p x] by (auto simp: kmem_inv_def managed_def)
  qed
  with inv show "kmem_inv ?s xs"
    by (auto simp: kmem_inv_def managed_def)
  show "\<And>y. y \<notin> page_of x \<Longrightarrow> ?m y = mem s y" by (simp add: memset_page_other)
qed

lemma kalloc_inv_Nil:
  assumes "kmem_inv s []" and "lock_free L_kmem s" and "cpu_ok s"
  shows "kalloc s = Ok (0, tidy s)"
  using assms by (simp add: kalloc_eq kmem_inv_def)

section \<open>The allocator's interface\<close>

text \<open>
  What the rest of the kernel relies on: allocation takes a page off the free pages or
  returns 0 when there is none; freeing puts one back. \<open>inv s xs\<close> says that \<open>xs\<close>
  are the free pages of \<open>s\<close>.
\<close>

locale page_allocator =
  fixes alloc :: "'s \<Rightarrow> (uint64 \<times> 's) outcome"
    and free :: "uint64 \<Rightarrow> 's \<Rightarrow> 's outcome"
    and inv :: "'s \<Rightarrow> uint64 list \<Rightarrow> bool"
    and usable :: "'s \<Rightarrow> uint64 \<Rightarrow> bool"
  assumes alloc_Cons: "inv s (x # xs) \<Longrightarrow>
      \<exists>s'. alloc s = Ok (x, s') \<and> inv s' xs \<and> (\<forall>p. usable s' p = usable s p)"
    and alloc_Nil: "inv s [] \<Longrightarrow> \<exists>s'. alloc s = Ok (0, s') \<and> inv s' []"
    and free_inv: "inv s xs \<Longrightarrow> usable s p \<Longrightarrow> p \<notin> set xs \<Longrightarrow>
      \<exists>s'. free p s = Ok s' \<and> inv s' (p # xs) \<and> (\<forall>q. usable s' q = usable s q)"
    and inv_distinct: "inv s xs \<Longrightarrow> distinct xs"
    and inv_usable: "inv s xs \<Longrightarrow> x \<in> set xs \<Longrightarrow> usable s x"
    and usable_nonzero: "usable s p \<Longrightarrow> p \<noteq> 0"
begin

primrec alloc_many :: "nat \<Rightarrow> 's \<Rightarrow> (uint64 list \<times> 's) outcome" where
  "alloc_many 0 s = Ok ([], s)"
| "alloc_many (Suc n) s =
     bindO (alloc s) (\<lambda>(p, s). bindO (alloc_many n s) (\<lambda>(ps, s). Ok (p # ps, s)))"

lemma alloc_many_prefix:
  assumes "inv s xs" and "n \<le> length xs"
  shows "\<exists>s'. alloc_many n s = Ok (take n xs, s') \<and> inv s' (drop n xs)"
  using assms
proof (induction n arbitrary: s xs)
  case (Suc n)
  from Suc.prems obtain y ys where xs: "xs = y # ys" by (cases xs) auto
  from Suc.prems(1) xs obtain s1 where s1: "alloc s = Ok (y, s1)" "inv s1 ys"
    using alloc_Cons by blast
  from Suc.IH [OF s1(2)] Suc.prems(2) xs obtain s2
    where "alloc_many n s1 = Ok (take n ys, s2)" "inv s2 (drop n ys)" by auto
  with s1 xs show ?case by auto
qed auto

lemma alloc_result:
  assumes "inv s xs" and "alloc s = Ok (p, s')"
  shows "p = 0 \<and> xs = [] \<or> (\<exists>ys. xs = p # ys \<and> p \<notin> set ys \<and> inv s' ys)"
proof (cases xs)
  case Nil
  with assms alloc_Nil [of s] show ?thesis by auto
next
  case (Cons y ys)
  with assms alloc_Cons [of s y ys] inv_distinct [of s xs] show ?thesis by auto
qed

lemma free_alloc:
  assumes "inv s xs" and "usable s p" and "p \<notin> set xs"
  shows "\<exists>s1 s2. free p s = Ok s1 \<and> alloc s1 = Ok (p, s2) \<and> inv s2 xs"
  using free_inv [OF assms] alloc_Cons by blast

lemma alloc_free:
  assumes "inv s (x # xs)"
  shows "\<exists>s1 s2. alloc s = Ok (x, s1) \<and> free x s1 = Ok s2 \<and> inv s2 (x # xs)"
proof -
  from alloc_Cons [OF assms] obtain s1 where s1: "alloc s = Ok (x, s1)" "inv s1 xs"
    and u: "\<forall>p. usable s1 p = usable s p" by blast
  have "x \<notin> set xs" using inv_distinct [OF assms] by simp
  moreover have "usable s1 x" using inv_usable [OF assms, of x] u by simp
  ultimately show ?thesis using free_inv [OF s1(2)] s1(1) by blast
qed

end

text \<open>\<open>kmem_ready s xs\<close>: the free pages of \<open>s\<close> are \<open>xs\<close> and the allocator's lock can be taken.\<close>

definition kmem_ready :: "'a kmem_scheme \<Rightarrow> uint64 list \<Rightarrow> bool" where
  "kmem_ready s xs \<longleftrightarrow> kmem_inv s xs \<and> lock_free L_kmem s \<and> cpu_ok s"

lemma managed_mem_upd [simp]: "managed (s\<lparr>mem := m\<rparr>) p = managed s p"
  "managed (s\<lparr>freelist := q\<rparr>) p = managed s p" "managed (tidy s) p = managed s p"
  by (simp_all add: managed_def lock_simps)

interpretation kpages: page_allocator kalloc kfree kmem_ready managed
proof unfold_locales
  fix s :: "'a kmem_scheme" and x xs
  assume "kmem_ready s (x # xs)"
  then have inv: "kmem_inv s (x # xs)" and lk: "lock_free L_kmem s" "cpu_ok s"
    by (simp_all add: kmem_ready_def)
  show "\<exists>s'. kalloc s = Ok (x, s') \<and> kmem_ready s' xs \<and> (\<forall>p. managed s' p = managed s p)"
    by (rule kalloc_inv_Cons [OF inv lk]) (auto simp: kmem_ready_def lock_simps lk)
next
  fix s :: "'a kmem_scheme"
  assume "kmem_ready s []"
  then show "\<exists>s'. kalloc s = Ok (0, s') \<and> kmem_ready s' []"
    by (auto simp: kmem_ready_def kalloc_inv_Nil lock_simps)
next
  fix s :: "'a kmem_scheme" and xs p
  assume "kmem_ready s xs" and "managed s p" and "p \<notin> set xs"
  then have inv: "kmem_inv s xs" "managed s p" "p \<notin> set xs"
    and lk: "lock_free L_kmem s" "cpu_ok s"
    by (simp_all add: kmem_ready_def)
  show "\<exists>s'. kfree p s = Ok s' \<and> kmem_ready s' (p # xs) \<and> (\<forall>q. managed s' q = managed s q)"
    by (rule kfree_inv [OF inv lk]) (auto simp: kmem_ready_def lock_simps lk)
qed (auto simp: kmem_ready_def kmem_inv_def managed_def)

section \<open>Filling the free list at boot\<close>

definition pages_from :: "uint64 \<Rightarrow> nat \<Rightarrow> uint64 list" where
  "pages_from p n = map (\<lambda>i. p + of_nat i * 4096) [0..<n]"

lemma pages_from_Suc: "pages_from p (Suc n) = p # pages_from (p + 4096) n"
  by (simp add: pages_from_def upt_conv_Cons map_Suc_upt [symmetric] algebra_simps
      del: upt_Suc map_Suc_upt)

lemma unat_add_page:
  fixes p e :: uint64
  assumes "unat p + 4096 \<le> unat e"
  shows "unat (p + 4096) = unat p + 4096"
proof -
  have "unat e < 2 ^ 64" using unsigned_less [of e, where 'a = nat] by simp
  with assms show ?thesis by (simp add: unat_word_ariths)
qed

lemma kfree_kernel_end:
  assumes "kmem_ready s xs" and "managed s p" and "p \<notin> set xs" and "kfree p s = Ok s'"
  shows "kernel_end s' = kernel_end s"
  using assms by (auto simp: kmem_ready_def kfree_eq lock_simps split: if_splits)

lemma freerange_from_inv:
  assumes "kmem_ready s xs" and "page_aligned p" and "\<forall>x \<in> set (pages_from p n). managed s x \<and> x \<notin> set xs"
    and "distinct (pages_from p n)"
    and "unat p + 4096 * n \<le> unat e" and "unat e < unat p + 4096 * Suc n" and "n \<le> fuel"
    and "unat e + 4096 < 2 ^ 64"
  shows "\<exists>s'. freerange_from fuel p e s = Ok s' \<and> kmem_ready s' (rev (pages_from p n) @ xs) \<and>
     kernel_end s' = kernel_end s"
  using assms
proof (induction n arbitrary: s xs p fuel)
  case 0
  then have "\<not> p + 4096 \<le> e"
    by (simp add: word_le_nat_alt unat_word_ariths)
  with 0 show ?case by (simp add: freerange_from.simps pages_from_def)
next
  case (Suc n)
  have p4: "unat (p + 4096) = unat p + 4096" using Suc.prems(5) by (intro unat_add_page [of p e]) simp
  have "managed s p" "p \<notin> set xs" using Suc.prems(3) by (simp_all add: pages_from_Suc)
  from kpages.free_inv [OF Suc.prems(1) \<open>managed s p\<close> \<open>p \<notin> set xs\<close>] obtain s1
    where s1: "kfree p s = Ok s1" "kmem_ready s1 (p # xs)" "\<And>q. managed s1 q = managed s q" by blast
  have "\<exists>s'. freerange_from (fuel - 1) (p + 4096) e s1 = Ok s' \<and>
      kmem_ready s' (rev (pages_from (p + 4096) n) @ p # xs) \<and> kernel_end s' = kernel_end s1"
  proof (rule Suc.IH [OF s1(2)])
    show "page_aligned (p + 4096)"
      using Suc.prems(2) p4 by (simp add: page_aligned_def)
    show "\<forall>x \<in> set (pages_from (p + 4096) n). managed s1 x \<and> x \<notin> set (p # xs)"
      using Suc.prems(3,4) s1(3) by (auto simp: pages_from_Suc)
  qed (use Suc.prems p4 in \<open>auto simp: pages_from_Suc\<close>)
  moreover have "p + 4096 \<le> e" using p4 Suc.prems(5) by (simp add: word_le_nat_alt)
  ultimately show ?case
    using s1(1) Suc.prems(7) kfree_kernel_end [OF Suc.prems(1) \<open>managed s p\<close> \<open>p \<notin> set xs\<close> s1(1)]
    by (subst freerange_from.simps) (auto simp: pages_from_Suc)
qed

lemma kmem_ready_initial:
  assumes "freelist s = 0" and "cpu_ok s"
  shows "kmem_ready (initlock L_kmem ''kmem'' s) []"
  using assms by (simp add: kmem_ready_def kmem_inv_def initlock_def lock_free_def cpu_ok_def cpu_defs)

lemma kinit_pages:
  assumes "freelist s = 0" and "cpu_ok s" and "kernel_end s \<noteq> 0" and "kernel_end s \<le> PHYSTOP"
  shows "\<exists>s'. kinit s = Ok s' \<and>
     kmem_ready s' (rev (pages_from (PGROUNDUP (kernel_end s))
       ((unat PHYSTOP - unat (PGROUNDUP (kernel_end s))) div 4096))) \<and>
     kernel_end s' = kernel_end s"
proof -
  let ?s = "initlock L_kmem ''kmem'' s"
  let ?p = "PGROUNDUP (kernel_end s)"
  let ?n = "(unat PHYSTOP - unat ?p) div 4096"
  have stop: "unat PHYSTOP = 0x88000000" by simp
  have kend: "unat (kernel_end s) \<le> 0x88000000"
    using assms(4) by (simp add: word_le_nat_alt)
  then have p: "unat ?p = (unat (kernel_end s) + 4095) div 4096 * 4096"
    by (intro unat_PGROUNDUP) simp
  have lo: "unat (kernel_end s) \<le> unat ?p" and hi: "unat ?p \<le> 0x88000000"
    using p kend by auto
  have al: "page_aligned ?p" using p by (simp add: page_aligned_def)
  have n: "unat ?p + 4096 * ?n = 0x88000000"
  proof -
    have "(0x88000000 - unat ?p) mod 4096 = 0" using p hi by (simp add: mod_diff_right_eq) 
    then show ?thesis using hi stop by auto
  qed
  have pg: "unat (?p + of_nat i * 4096) = unat ?p + i * 4096" if "i < ?n" for i
    using that n by (simp add: unat_word_ariths unat_of_nat)
  have "\<exists>s'. freerange_from (2 ^ 52) ?p PHYSTOP ?s = Ok s' \<and> kmem_ready s' (rev (pages_from ?p ?n) @ []) \<and>
     kernel_end s' = kernel_end ?s"
  proof (rule freerange_from_inv)
    show "kmem_ready ?s []" by (rule kmem_ready_initial [OF assms(1,2)])
    show "\<forall>x \<in> set (pages_from ?p ?n). managed ?s x \<and> x \<notin> set []"
    proof
      fix x assume "x \<in> set (pages_from ?p ?n)"
      then obtain i where i: "i < ?n" "x = ?p + of_nat i * 4096" by (auto simp: pages_from_def)
      with pg have ux: "unat x = unat ?p + i * 4096" by simp
      have "kernel_end ?s = kernel_end s" by (simp add: initlock_def)
      moreover have "unat x < 0x88000000" using ux i(1) n by simp
      moreover have "x \<noteq> 0" 
        using ux lo assms(3) by (metis add_is_0 le_zero_eq unat_eq_zero)
      ultimately show "managed ?s x \<and> x \<notin> set []"
        using ux al lo by (simp add: managed_def page_aligned_def word_le_nat_alt word_less_nat_alt)
    qed
    show "distinct (pages_from ?p ?n)"
    proof -
      have "i = j" if "i < ?n" "j < ?n" "?p + of_nat i * 4096 = ?p + of_nat j * 4096" for i j
      proof -
        have "unat ?p + i * 4096 = unat ?p + j * 4096"
          unfolding pg [OF that(1), symmetric] pg [OF that(2), symmetric] that(3) ..
        then show ?thesis by simp
      qed
      then show ?thesis unfolding pages_from_def distinct_map by (auto simp: inj_on_def)
    qed
  qed (use al n stop in simp_all)
  then show ?thesis by (simp add: kinit_def freerange_def initlock_def)
qed

definition boot_kmem :: kmem where
  "boot_kmem = machine.extend boot_machine (kmem.fields 0 0x80021000)"

lemma boot_kmem_simps [simp]:
  "freelist boot_kmem = 0" "kernel_end boot_kmem = 0x80021000" "cpu_ok boot_kmem" "lock_free lk boot_kmem"
  "mem boot_kmem = (\<lambda>_. 0)"
  by (simp_all add: boot_kmem_def boot_machine_def machine.defs kmem.defs cpu_ok_def lock_free_def cpu_defs)

lemma boot_kinit:
  "\<exists>s'. kinit boot_kmem = Ok s' \<and> kmem_ready s' (rev (pages_from 0x80021000 32735)) \<and>
     kernel_end s' = 0x80021000"
proof -
  have "unat (PGROUNDUP 0x80021000) = 0x80021000" by (subst unat_PGROUNDUP) simp_all
  then have "PGROUNDUP 0x80021000 = 0x80021000" by (simp add: word_unat_eq_iff)
  then show ?thesis using kinit_pages [of boot_kmem] by simp
qed

text \<open>The state after \<open>kinit\<close> on this machine, for examples.\<close>

definition booted :: kmem where
  "booted = (case kinit boot_kmem of Ok s \<Rightarrow> s | _ \<Rightarrow> boot_kmem)"

lemma pages_from_snoc: "pages_from p (Suc n) = pages_from p n @ [p + of_nat n * 4096]"
  by (simp add: pages_from_def)

lemma booted_ready: "kmem_ready booted (rev (pages_from 0x80021000 32735))"
  using boot_kinit by (auto simp: booted_def)

lemma booted_kernel_end: "kernel_end booted = 0x80021000"
  using boot_kinit by (auto simp: booted_def)

section \<open>Properties\<close>

text \<open>
  C3: \<open>kinit\<close> ends without a panic, and afterwards the free list holds every page between
  the end of the kernel and the end of physical memory, once each, last page first.
\<close>

theorem kinit_frees_memory:
  assumes "freelist s = 0" and "cpu_ok s" and "kernel_end s \<noteq> 0" and "kernel_end s \<le> PHYSTOP"
  shows "\<exists>s'. kinit s = Ok s' \<and>
     kmem_ready s' (rev (pages_from (PGROUNDUP (kernel_end s))
       ((unat PHYSTOP - unat (PGROUNDUP (kernel_end s))) div 4096)))"
  using kinit_pages [OF assms] by blast

theorem kinit_frees_memory_witness:
  "\<exists>s'. kinit boot_kmem = Ok s' \<and> kmem_ready s' (rev (pages_from 0x80021000 32735))"
proof -
  have "unat (PGROUNDUP 0x80021000) = 0x80021000" by (subst unat_PGROUNDUP) simp_all
  then have "PGROUNDUP 0x80021000 = 0x80021000" by (simp add: word_unat_eq_iff)
  then show ?thesis using kinit_frees_memory [of boot_kmem] by simp
qed

text \<open>
  C4: \<open>kalloc\<close> returns the first free page, takes only that page off the free list and
  writes no byte outside it; giving the page back with \<open>kfree\<close> never panics and restores
  the free list.
\<close>

theorem kalloc_then_kfree:
  assumes "kmem_ready s (x # xs)"
  shows "\<exists>s1 s2. kalloc s = Ok (x, s1) \<and> managed s1 x \<and> x \<notin> set xs \<and> kmem_ready s1 xs \<and>
     {y. mem s1 y \<noteq> mem s y} \<subseteq> page_of x \<and>
     kfree x s1 = Ok s2 \<and> kmem_ready s2 (x # xs)"
proof -
  from kpages.alloc_free [OF assms] obtain s1 s2
    where s12: "kalloc s = Ok (x, s1)" "kfree x s1 = Ok s2" "kmem_ready s2 (x # xs)" by blast
  from kpages.alloc_Cons [OF assms] s12(1) have s1: "kmem_ready s1 xs" "\<And>p. managed s1 p = managed s p"
    by auto
  have lk: "lock_free L_kmem s" "cpu_ok s" "freelist s = x" "x \<noteq> 0"
    using assms by (auto simp: kmem_ready_def kmem_inv_def)
  then have "mem s1 y = mem s y" if "y \<notin> page_of x" for y
    using s12(1) that by (auto simp: kalloc_eq lock_simps memset_page_other)
  then show ?thesis
    using s12 s1 kpages.inv_distinct [OF assms] kpages.inv_usable [OF assms, of x] by auto
qed

theorem kalloc_then_kfree_witness:
  "\<exists>s1 s2. kalloc (boot_kmem\<lparr>freelist := 0x80021000\<rparr>) = Ok (0x80021000, s1) \<and> managed s1 0x80021000 \<and>
     0x80021000 \<notin> set ([] :: uint64 list) \<and> kmem_ready s1 [] \<and>
     {y. mem s1 y \<noteq> mem (boot_kmem\<lparr>freelist := 0x80021000\<rparr>) y} \<subseteq> page_of 0x80021000 \<and>
     kfree 0x80021000 s1 = Ok s2 \<and> kmem_ready s2 [0x80021000]"
proof (rule kalloc_then_kfree)
  have "load64 (\<lambda>_. 0) 0x80021000 = 0" by (simp add: load64_def mread_def numeral_eq_Suc)
  then show "kmem_ready (boot_kmem\<lparr>freelist := 0x80021000\<rparr>) [0x80021000]"
    by (simp add: kmem_ready_def kmem_inv_def managed_def page_aligned_def lock_simps)
qed

end
