(* ===== verification/Vm.thy ===== *)
theory Vm
  imports Kalloc
begin

text \<open>
  Virtual memory, \<^verbatim>\<open>kernel/vm.c\<close>: the three-level page tables in physical memory,
  user memory, and the copies between kernel and user space. A page table is the address
  of its root page and its entries are read and written in the byte memory. Kernel
  buffers that are copied from or to user space are character arrays seen from a pointer.
  What the operations do to the map an address space represents is proved in
  \<open>Pagetable\<close> and \<open>Usermem\<close>.
\<close>

section \<open>Definitions\<close>

record vmst = kmem +
  kernel_pagetable :: uint64
  etext :: uint64
  trampoline :: uint64

text \<open>\<open>level\<close> counts down; the loop body runs for levels 2 and 1.\<close>

primrec walk_from :: "nat \<Rightarrow> uint64 \<Rightarrow> uint64 \<Rightarrow> bool \<Rightarrow> 'a kmem_scheme \<Rightarrow>
    (uint64 \<times> 'a kmem_scheme) outcome" where
  "walk_from 0 pagetable va alloc s = Ok (pagetable + 8 * PX 0 va, s)"
| "walk_from (Suc l) pagetable va alloc s =
     (let pte = pagetable + 8 * PX (Suc l) va in
      if load64 (mem s) pte AND PTE_V \<noteq> 0
      then walk_from l (PTE2PA (load64 (mem s) pte)) va alloc s
      else if \<not> alloc then Ok (0, s)
      else bindO (kalloc s) (\<lambda>(pagetable, s).
        if pagetable = 0 then Ok (0, s)
        else let s = s\<lparr>mem := memset (mem s) pagetable 0 4096\<rparr>;
                 s = s\<lparr>mem := store64 (mem s) pte (PA2PTE pagetable OR PTE_V)\<rparr>
             in walk_from l pagetable va alloc s))"

definition walk :: "uint64 \<Rightarrow> uint64 \<Rightarrow> bool \<Rightarrow> 'a kmem_scheme \<Rightarrow>
    (uint64 \<times> 'a kmem_scheme) outcome" where
  "walk pagetable va alloc s =
     (if va \<ge> MAXVA then Panic ''walk'' else walk_from 2 pagetable va alloc s)"

definition walkaddr :: "uint64 \<Rightarrow> uint64 \<Rightarrow> 'a kmem_scheme \<Rightarrow>
    (uint64 \<times> 'a kmem_scheme) outcome" where
  "walkaddr pagetable va s =
     (if va \<ge> MAXVA then Ok (0, s)
      else bindO (walk pagetable va False s) (\<lambda>(pte, s).
        if pte = 0 then Ok (0, s)
        else if load64 (mem s) pte AND PTE_V = 0 then Ok (0, s)
        else if load64 (mem s) pte AND PTE_U = 0 then Ok (0, s)
        else Ok (PTE2PA (load64 (mem s) pte), s)))"

text \<open>
  The loops over pages carry fuel: one that is still running after \<open>2 ^ 52\<close> pages has
  gone round the address space. They stop long before, since \<open>walk\<close> panics at \<open>MAXVA\<close>.
\<close>

function mappages_from :: "nat \<Rightarrow> uint64 \<Rightarrow> uint64 \<Rightarrow> uint64 \<Rightarrow> uint64 \<Rightarrow> uint64 \<Rightarrow>
    'a kmem_scheme \<Rightarrow> (int \<times> 'a kmem_scheme) outcome" where
  "mappages_from fuel pagetable a last' pa perm s =
     (if fuel = 0 then Spin
      else bindO (walk pagetable a True s) (\<lambda>(pte, s).
        if pte = 0 then Ok (-1, s)
        else if load64 (mem s) pte AND PTE_V \<noteq> 0 then Panic ''remap''
        else
          let s = s\<lparr>mem := store64 (mem s) pte (PA2PTE pa OR perm OR PTE_V)\<rparr> in
          if a = last' then Ok (0, s)
          else mappages_from (fuel - 1) pagetable (a + PGSIZE) last' (pa + PGSIZE) perm s))"
  by pat_completeness auto
termination by (relation "measure fst") auto

declare mappages_from.simps [simp del]

definition mappages :: "uint64 \<Rightarrow> uint64 \<Rightarrow> uint64 \<Rightarrow> uint64 \<Rightarrow> uint64 \<Rightarrow> 'a kmem_scheme \<Rightarrow>
    (int \<times> 'a kmem_scheme) outcome" where
  "mappages pagetable va size' pa perm s =
     mappages_from (2 ^ 52) pagetable (PGROUNDDOWN va) (PGROUNDDOWN (va + size' - 1)) pa perm s"

definition kvmmap :: "uint64 \<Rightarrow> uint64 \<Rightarrow> uint64 \<Rightarrow> uint64 \<Rightarrow> uint64 \<Rightarrow> 'a kmem_scheme \<Rightarrow>
    'a kmem_scheme outcome" where
  "kvmmap kpgtbl va pa sz perm s =
     bindO (mappages kpgtbl va sz pa perm s) (\<lambda>(r, s).
     if r \<noteq> 0 then Panic ''kvmmap'' else Ok s)"

text \<open>\<open>proc_mapstacks\<close> of \<^verbatim>\<open>kernel/proc.c\<close>.\<close>

primrec proc_mapstacks_from :: "uint64 \<Rightarrow> nat list \<Rightarrow> 'a kmem_scheme \<Rightarrow> 'a kmem_scheme outcome" where
  "proc_mapstacks_from kpgtbl [] s = Ok s"
| "proc_mapstacks_from kpgtbl (i # is) s =
     bindO (kalloc s) (\<lambda>(pa, s).
     if pa = 0 then Panic ''kalloc''
     else bindO (kvmmap kpgtbl (KSTACK i) pa PGSIZE (PTE_R OR PTE_W) s) (\<lambda>s.
       proc_mapstacks_from kpgtbl is s))"

definition proc_mapstacks :: "uint64 \<Rightarrow> 'a kmem_scheme \<Rightarrow> 'a kmem_scheme outcome" where
  "proc_mapstacks kpgtbl s = proc_mapstacks_from kpgtbl [0..<NPROC] s"

text \<open>
  An access through a null pointer faults, and the trap handler panics.
\<close>

definition fault_if_null :: "uint64 \<Rightarrow> 'a \<Rightarrow> 'a outcome" where
  "fault_if_null p x = (if p = 0 then Panic ''kerneltrap'' else Ok x)"

definition kvmmake :: "'a vmst_scheme \<Rightarrow> (uint64 \<times> 'a vmst_scheme) outcome" where
  "kvmmake s =
     bindO (kalloc s) (\<lambda>(kpgtbl, s).
     bindO (fault_if_null kpgtbl (s\<lparr>mem := memset (mem s) kpgtbl 0 4096\<rparr>)) (\<lambda>s.
     bindO (kvmmap kpgtbl UART0 UART0 PGSIZE (PTE_R OR PTE_W) s) (\<lambda>s.
     bindO (kvmmap kpgtbl VIRTIO0 VIRTIO0 PGSIZE (PTE_R OR PTE_W) s) (\<lambda>s.
     bindO (kvmmap kpgtbl PLIC PLIC 0x400000 (PTE_R OR PTE_W) s) (\<lambda>s.
     bindO (kvmmap kpgtbl KERNBASE KERNBASE (etext s - KERNBASE) (PTE_R OR PTE_X) s) (\<lambda>s.
     bindO (kvmmap kpgtbl (etext s) (etext s) (PHYSTOP - etext s) (PTE_R OR PTE_W) s) (\<lambda>s.
     bindO (kvmmap kpgtbl TRAMPOLINE (trampoline s) PGSIZE (PTE_R OR PTE_X) s) (\<lambda>s.
     bindO (proc_mapstacks kpgtbl s) (\<lambda>s.
     Ok (kpgtbl, s))))))))))"

definition kvminit :: "'a vmst_scheme \<Rightarrow> 'a vmst_scheme outcome" where
  "kvminit s = bindO (kvmmake s) (\<lambda>(p, s). Ok (s\<lparr>kernel_pagetable := p\<rparr>))"

definition kvminithart :: "'a vmst_scheme \<Rightarrow> 'a vmst_scheme" where
  "kvminithart s = s\<lparr>satp := MAKE_SATP (kernel_pagetable s)\<rparr>"

function uvmunmap_from :: "nat \<Rightarrow> uint64 \<Rightarrow> uint64 \<Rightarrow> uint64 \<Rightarrow> bool \<Rightarrow>
    'a kmem_scheme \<Rightarrow> 'a kmem_scheme outcome" where
  "uvmunmap_from fuel pagetable a stop do_free s =
     (if \<not> a < stop then Ok s
      else if fuel = 0 then Spin
      else bindO (walk pagetable a False s) (\<lambda>(pte, s).
        if pte = 0 then Panic ''uvmunmap: walk''
        else if load64 (mem s) pte AND PTE_V = 0 then Panic ''uvmunmap: not mapped''
        else if PTE_FLAGS (load64 (mem s) pte) = PTE_V then Panic ''uvmunmap: not a leaf''
        else bindO (if do_free then kfree (PTE2PA (load64 (mem s) pte)) s else Ok s) (\<lambda>s.
          uvmunmap_from (fuel - 1) pagetable (a + PGSIZE) stop do_free
            (s\<lparr>mem := store64 (mem s) pte 0\<rparr>))))"
  by pat_completeness auto
termination by (relation "measure fst") auto

declare uvmunmap_from.simps [simp del]

definition uvmunmap :: "uint64 \<Rightarrow> uint64 \<Rightarrow> uint64 \<Rightarrow> bool \<Rightarrow> 'a kmem_scheme \<Rightarrow> 'a kmem_scheme outcome" where
  "uvmunmap pagetable va npages do_free s =
     (if va mod PGSIZE \<noteq> 0 then Panic ''uvmunmap: not aligned''
      else uvmunmap_from (2 ^ 52) pagetable va (va + npages * PGSIZE) do_free s)"

definition uvmcreate :: "'a kmem_scheme \<Rightarrow> (uint64 \<times> 'a kmem_scheme) outcome" where
  "uvmcreate s =
     bindO (kalloc s) (\<lambda>(pagetable, s).
     if pagetable = 0 then Ok (0, s)
     else Ok (pagetable, s\<lparr>mem := memset (mem s) pagetable 0 4096\<rparr>))"

text \<open>The bytes of \<open>src\<close> are given by a character array; \<open>mappages\<close>'s result is not looked at.\<close>

definition uvminit :: "uint64 \<Rightarrow> chars \<Rightarrow> uint32 \<Rightarrow> 'a kmem_scheme \<Rightarrow> 'a kmem_scheme outcome" where
  "uvminit pagetable src sz s =
     (if ucast sz \<ge> PGSIZE then Panic ''inituvm: more than a page''
      else bindO (kalloc s) (\<lambda>(page, s).
        bindO (fault_if_null page (s\<lparr>mem := memset (mem s) page 0 4096\<rparr>)) (\<lambda>s.
        bindO (mappages pagetable 0 PGSIZE page (PTE_W OR PTE_R OR PTE_X OR PTE_U) s) (\<lambda>(_, s).
        Ok (s\<lparr>mem := mwrite (mem s) page (map src [0..<unat sz])\<rparr>)))))"

text \<open>\<open>npages\<close> is an \<open>int\<close>: the page count is cut to 32 bits and sign-extended again.\<close>

definition uvmdealloc :: "uint64 \<Rightarrow> uint64 \<Rightarrow> uint64 \<Rightarrow> 'a kmem_scheme \<Rightarrow>
    (uint64 \<times> 'a kmem_scheme) outcome" where
  "uvmdealloc pagetable oldsz newsz s =
     (if newsz \<ge> oldsz then Ok (oldsz, s)
      else if PGROUNDUP newsz < PGROUNDUP oldsz
      then let npages = scast (ucast ((PGROUNDUP oldsz - PGROUNDUP newsz) div PGSIZE) :: uint32) in
        bindO (uvmunmap pagetable (PGROUNDUP newsz) npages True s) (\<lambda>s. Ok (newsz, s))
      else Ok (newsz, s))"

function uvmalloc_from :: "nat \<Rightarrow> uint64 \<Rightarrow> uint64 \<Rightarrow> uint64 \<Rightarrow> uint64 \<Rightarrow> 'a kmem_scheme \<Rightarrow>
    (uint64 \<times> 'a kmem_scheme) outcome" where
  "uvmalloc_from fuel pagetable a oldsz newsz s =
     (if \<not> a < newsz then Ok (newsz, s)
      else if fuel = 0 then Spin
      else bindO (kalloc s) (\<lambda>(page, s).
        if page = 0
        then bindO (uvmdealloc pagetable a oldsz s) (\<lambda>(_, s). Ok (0, s))
        else
          let s = s\<lparr>mem := memset (mem s) page 0 4096\<rparr> in
          bindO (mappages pagetable a PGSIZE page (PTE_W OR PTE_X OR PTE_R OR PTE_U) s) (\<lambda>(r, s).
          if r \<noteq> 0
          then bindO (kfree page s) (\<lambda>s.
            bindO (uvmdealloc pagetable a oldsz s) (\<lambda>(_, s). Ok (0, s)))
          else uvmalloc_from (fuel - 1) pagetable (a + PGSIZE) oldsz newsz s)))"
  by pat_completeness auto
termination by (relation "measure fst") auto

declare uvmalloc_from.simps [simp del]

definition uvmalloc :: "uint64 \<Rightarrow> uint64 \<Rightarrow> uint64 \<Rightarrow> 'a kmem_scheme \<Rightarrow>
    (uint64 \<times> 'a kmem_scheme) outcome" where
  "uvmalloc pagetable oldsz newsz s =
     (if newsz < oldsz then Ok (oldsz, s)
      else let oldsz = PGROUNDUP oldsz in uvmalloc_from (2 ^ 52) pagetable oldsz oldsz newsz s)"

text \<open>
  \<open>freewalk\<close> calls itself on every lower-level table. The recursion is bounded by the
  depth of the tree; a table with a cycle exhausts the fuel as it would the kernel stack.
\<close>

primrec freewalk_entries :: "(uint64 \<Rightarrow> 'a kmem_scheme \<Rightarrow> 'a kmem_scheme outcome) \<Rightarrow> uint64 \<Rightarrow>
    nat list \<Rightarrow> 'a kmem_scheme \<Rightarrow> 'a kmem_scheme outcome" where
  "freewalk_entries rec pagetable [] s = Ok s"
| "freewalk_entries rec pagetable (i # is) s =
     (let pte = load64 (mem s) (pagetable + 8 * of_nat i) in
      if pte AND PTE_V \<noteq> 0 \<and> pte AND (PTE_R OR PTE_W OR PTE_X) = 0
      then bindO (rec (PTE2PA pte) s) (\<lambda>s.
        freewalk_entries rec pagetable is
          (s\<lparr>mem := store64 (mem s) (pagetable + 8 * of_nat i) 0\<rparr>))
      else if pte AND PTE_V \<noteq> 0 then Panic ''freewalk: leaf''
      else freewalk_entries rec pagetable is s)"

primrec freewalk_depth :: "nat \<Rightarrow> uint64 \<Rightarrow> 'a kmem_scheme \<Rightarrow> 'a kmem_scheme outcome" where
  "freewalk_depth 0 pagetable s = Spin"
| "freewalk_depth (Suc d) pagetable s =
     bindO (freewalk_entries (freewalk_depth d) pagetable [0..<512] s) (\<lambda>s. kfree pagetable s)"

definition freewalk :: "uint64 \<Rightarrow> 'a kmem_scheme \<Rightarrow> 'a kmem_scheme outcome" where
  "freewalk pagetable s = freewalk_depth (2 ^ 52) pagetable s"

definition uvmfree :: "uint64 \<Rightarrow> uint64 \<Rightarrow> 'a kmem_scheme \<Rightarrow> 'a kmem_scheme outcome" where
  "uvmfree pagetable sz s =
     bindO (if sz > 0 then uvmunmap pagetable 0 (PGROUNDUP sz div PGSIZE) True s else Ok s) (\<lambda>s.
     freewalk pagetable s)"

text \<open>\<open>goto err\<close> undoes the \<open>i / PGSIZE\<close> pages mapped so far.\<close>

definition uvmcopy_err :: "uint64 \<Rightarrow> uint64 \<Rightarrow> 'a kmem_scheme \<Rightarrow> (int \<times> 'a kmem_scheme) outcome" where
  "uvmcopy_err new i s = bindO (uvmunmap new 0 (i div PGSIZE) True s) (\<lambda>s. Ok (-1, s))"

function uvmcopy_from :: "nat \<Rightarrow> uint64 \<Rightarrow> uint64 \<Rightarrow> uint64 \<Rightarrow> uint64 \<Rightarrow> 'a kmem_scheme \<Rightarrow>
    (int \<times> 'a kmem_scheme) outcome" where
  "uvmcopy_from fuel old new i sz s =
     (if \<not> i < sz then Ok (0, s)
      else if fuel = 0 then Spin
      else bindO (walk old i False s) (\<lambda>(pte, s).
        if pte = 0 then Panic ''uvmcopy: pte should exist''
        else if load64 (mem s) pte AND PTE_V = 0 then Panic ''uvmcopy: page not present''
        else
          let pa = PTE2PA (load64 (mem s) pte);
              flags = PTE_FLAGS (load64 (mem s) pte) in
          bindO (kalloc s) (\<lambda>(page, s).
          if page = 0 then uvmcopy_err new i s
          else
            let s = s\<lparr>mem := memmove (mem s) page pa 4096\<rparr> in
            bindO (mappages new i PGSIZE page flags s) (\<lambda>(r, s).
            if r \<noteq> 0 then bindO (kfree page s) (\<lambda>s. uvmcopy_err new i s)
            else uvmcopy_from (fuel - 1) old new (i + PGSIZE) sz s))))"
  by pat_completeness auto
termination by (relation "measure fst") auto

declare uvmcopy_from.simps [simp del]

definition uvmcopy :: "uint64 \<Rightarrow> uint64 \<Rightarrow> uint64 \<Rightarrow> 'a kmem_scheme \<Rightarrow> (int \<times> 'a kmem_scheme) outcome" where
  "uvmcopy old new sz s = uvmcopy_from (2 ^ 52) old new 0 sz s"

definition uvmclear :: "uint64 \<Rightarrow> uint64 \<Rightarrow> 'a kmem_scheme \<Rightarrow> 'a kmem_scheme outcome" where
  "uvmclear pagetable va s =
     bindO (walk pagetable va False s) (\<lambda>(pte, s).
     if pte = 0 then Panic ''uvmclear''
     else Ok (s\<lparr>mem := store64 (mem s) pte (load64 (mem s) pte AND NOT PTE_U)\<rparr>))"

text \<open>What is left of the page from \<open>va\<close> on, at most \<open>len\<close>.\<close>

definition chunk :: "uint64 \<Rightarrow> uint64 \<Rightarrow> uint64" where
  "chunk va len = (let n = PGSIZE - (va - PGROUNDDOWN va) in if n > len then len else n)"

lemma unat_page_offset: "unat (va - PGROUNDDOWN va) = unat va mod 4096"
proof -
  have "unat (va - PGROUNDDOWN va) = unat va - unat (PGROUNDDOWN va)"
    using PGROUNDDOWN_le [of va] by (simp add: unat_sub)
  then show ?thesis by (simp add: unat_PGROUNDDOWN minus_div_mult_eq_mod)
qed

lemma unat_chunk: "unat (chunk va len) = min (4096 - unat va mod 4096) (unat len)"
proof -
  have "unat va mod 4096 < 4096" by simp
  then have "va - PGROUNDDOWN va \<le> 4096"
    by (simp add: word_le_nat_alt unat_page_offset less_imp_le)
  then have "unat (4096 - (va - PGROUNDDOWN va)) = 4096 - unat va mod 4096"
    by (simp add: unat_sub unat_page_offset)
  then show ?thesis by (auto simp: chunk_def Let_def word_less_nat_alt)
qed

lemma chunk_decreases: "len > 0 \<Longrightarrow> unat (len - chunk va len) < unat len"
proof -
  assume "len > 0"
  then have "0 < unat len" by (simp add: word_less_nat_alt)
  have le: "unat (chunk va len) \<le> unat len" and pos: "0 < unat (chunk va len)"
    using \<open>0 < unat len\<close> by (auto simp: unat_chunk)
  then show ?thesis by (simp add: unat_sub word_le_nat_alt)
qed

function copyout :: "uint64 \<Rightarrow> uint64 \<Rightarrow> chars \<Rightarrow> uint64 \<Rightarrow> 'a kmem_scheme \<Rightarrow>
    (int \<times> 'a kmem_scheme) outcome" where
  "copyout pagetable dstva src len s =
     (if len > 0
      then
        let va0 = PGROUNDDOWN dstva in
        bindO (walkaddr pagetable va0 s) (\<lambda>(pa0, s).
        if pa0 = 0 then Ok (-1, s)
        else
          let n = chunk dstva len;
              s = s\<lparr>mem := mwrite (mem s) (pa0 + (dstva - va0)) (map src [0..<unat n])\<rparr>
          in copyout pagetable (va0 + PGSIZE) (\<lambda>i. src (i + unat n)) (len - n) s)
      else Ok (0, s))"
  by pat_completeness auto
termination by (relation "measure (\<lambda>(pagetable, dstva, src, len, s). unat len)")
  (auto simp: chunk_decreases)

declare copyout.simps [simp del]

text \<open>\<open>copyin\<close> returns the destination buffer as it is afterwards, whether it failed or not.\<close>

function copyin_from :: "uint64 \<Rightarrow> chars \<Rightarrow> nat \<Rightarrow> uint64 \<Rightarrow> uint64 \<Rightarrow> 'a kmem_scheme \<Rightarrow>
    (int \<times> chars \<times> 'a kmem_scheme) outcome" where
  "copyin_from pagetable dst k srcva len s =
     (if len > 0
      then
        let va0 = PGROUNDDOWN srcva in
        bindO (walkaddr pagetable va0 s) (\<lambda>(pa0, s).
        if pa0 = 0 then Ok (-1, dst, s)
        else
          let n = chunk srcva len;
              dst = (\<lambda>i. if k \<le> i \<and> i < k + unat n then mem s (pa0 + (srcva - va0) + of_nat (i - k)) else dst i)
          in copyin_from pagetable dst (k + unat n) (va0 + PGSIZE) (len - n) s)
      else Ok (0, dst, s))"
  by pat_completeness auto
termination by (relation "measure (\<lambda>(pagetable, dst, k, srcva, len, s). unat len)")
  (auto simp: chunk_decreases)

declare copyin_from.simps [simp del]

definition copyin :: "uint64 \<Rightarrow> chars \<Rightarrow> uint64 \<Rightarrow> uint64 \<Rightarrow> 'a kmem_scheme \<Rightarrow>
    (int \<times> chars \<times> 'a kmem_scheme) outcome" where
  "copyin pagetable dst srcva len s = copyin_from pagetable dst 0 srcva len s"

text \<open>
  The inner loop of \<open>copyinstr\<close>: copies at most \<open>n\<close> bytes from \<open>p\<close>; whether it met
  the terminator, and how many bytes before it.
\<close>

primrec copyinstr_page :: "nat \<Rightarrow> uint64 \<Rightarrow> nat \<Rightarrow> bytemem \<Rightarrow> chars \<Rightarrow> bool \<times> nat \<times> chars" where
  "copyinstr_page 0 p k m dst = (False, k, dst)"
| "copyinstr_page (Suc n) p k m dst =
     (if m p = 0 then (True, k, dst(k := 0))
      else copyinstr_page n (p + 1) (Suc k) m (dst(k := m p)))"

function copyinstr_from :: "uint64 \<Rightarrow> chars \<Rightarrow> nat \<Rightarrow> uint64 \<Rightarrow> uint64 \<Rightarrow> 'a kmem_scheme \<Rightarrow>
    (int \<times> chars \<times> 'a kmem_scheme) outcome" where
  "copyinstr_from pagetable dst k srcva max' s =
     (if max' > 0
      then
        let va0 = PGROUNDDOWN srcva in
        bindO (walkaddr pagetable va0 s) (\<lambda>(pa0, s).
        if pa0 = 0 then Ok (-1, dst, s)
        else
          let n = chunk srcva max' in
          case copyinstr_page (unat n) (pa0 + (srcva - va0)) k (mem s) dst of
            (got_null, k', dst) \<Rightarrow>
              if got_null then Ok (0, dst, s)
              else copyinstr_from pagetable dst k' (va0 + PGSIZE) (max' - n) s)
      else Ok (-1, dst, s))"
  by pat_completeness auto
termination by (relation "measure (\<lambda>(pagetable, dst, k, srcva, max', s). unat max')")
  (auto simp: chunk_decreases)

declare copyinstr_from.simps [simp del]

definition copyinstr :: "uint64 \<Rightarrow> chars \<Rightarrow> uint64 \<Rightarrow> uint64 \<Rightarrow> 'a kmem_scheme \<Rightarrow>
    (int \<times> chars \<times> 'a kmem_scheme) outcome" where
  "copyinstr pagetable dst srcva max' s = copyinstr_from pagetable dst 0 srcva max' s"

end
