(* ===== verification/Pagetable.thy ===== *)
theory Pagetable
  imports Vm "HOL-Library.Sublist"
begin

text \<open>
  The page tables of \<^verbatim>\<open>kernel/vm.c\<close> refined to a map from virtual pages to
  entries. \<open>pt_rep m tab root\<close> says that the tree under \<open>root\<close> in memory \<open>m\<close> consists
  of the pages \<open>tab\<close>; \<open>pte_at m tab\<close> is the map it represents. \<open>walk\<close> finds entries
  and adds table pages without changing the map, \<open>mappages\<close> updates the map at the
  pages it is given and nowhere else, or runs out of memory, and \<open>walkaddr\<close> reads the
  translation off the map.
\<close>

section \<open>Page tables as trees of pages\<close>

text \<open>
  The table pages of an address space, named by their place in the tree: the root, the
  table under entry \<open>i\<close> of the root, the table under entry \<open>j\<close> of that one.
\<close>

datatype node = Root | N1 nat | N0 nat nat

fun node_ok :: "node \<Rightarrow> bool" where
  "node_ok Root \<longleftrightarrow> True"
| "node_ok (N1 i) \<longleftrightarrow> i < 512"
| "node_ok (N0 i j) \<longleftrightarrow> i < 512 \<and> j < 512"

fun parent :: "node \<Rightarrow> node" where
  "parent Root = Root"
| "parent (N1 i) = Root"
| "parent (N0 i j) = N1 i"

fun slot :: "node \<Rightarrow> nat" where
  "slot Root = 0"
| "slot (N1 i) = i"
| "slot (N0 i j) = j"

definition entry :: "bytemem \<Rightarrow> uint64 \<Rightarrow> nat \<Rightarrow> uint64" where
  "entry m p i = load64 m (p + 8 * of_nat i)"

fun points_to :: "uint64 \<Rightarrow> uint64 option \<Rightarrow> bool" where
  "points_to e None \<longleftrightarrow> e AND PTE_V = 0"
| "points_to e (Some q) \<longleftrightarrow> e = PA2PTE q OR PTE_V"

definition table_page :: "uint64 \<Rightarrow> bool" where
  "table_page p \<longleftrightarrow> page_aligned p \<and> p \<noteq> 0 \<and> p < PHYSTOP"

type_synonym tables = "node \<Rightarrow> uint64 option"

text \<open>\<open>pt_rep m tab root\<close>: in memory \<open>m\<close> the tree under \<open>root\<close> consists of the pages \<open>tab\<close>.\<close>

definition pt_rep :: "bytemem \<Rightarrow> tables \<Rightarrow> uint64 \<Rightarrow> bool" where
  "pt_rep m tab root \<longleftrightarrow>
     tab Root = Some root \<and>
     (\<forall>n p. tab n = Some p \<longrightarrow> table_page p \<and> node_ok n \<and> tab (parent n) \<noteq> None) \<and>
     (\<forall>n n' p. tab n = Some p \<longrightarrow> tab n' = Some p \<longrightarrow> n = n') \<and>
     (\<forall>n p. n \<noteq> Root \<longrightarrow> node_ok n \<longrightarrow> tab (parent n) = Some p \<longrightarrow>
        points_to (entry m p (slot n)) (tab n))"

definition leaf_node :: "uint64 \<Rightarrow> node" where
  "leaf_node va = N0 (unat (PX 2 va)) (unat (PX 1 va))"

definition leaf_addr :: "tables \<Rightarrow> uint64 \<Rightarrow> uint64 option" where
  "leaf_addr tab va = map_option (\<lambda>p. p + 8 * PX 0 va) (tab (leaf_node va))"

text \<open>The map a tree represents: the entry of each virtual page, 0 where there is no table.\<close>

definition pte_at :: "bytemem \<Rightarrow> tables \<Rightarrow> uint64 \<Rightarrow> uint64" where
  "pte_at m tab va = (case leaf_addr tab va of None \<Rightarrow> 0 | Some a \<Rightarrow> load64 m a)"

section \<open>Entries of a page\<close>

lemma entry_offset:
  assumes "i < 512" and "x \<in> range_of (p + 8 * of_nat i) 8"
  shows "8 * i \<le> unat (x - p)" and "unat (x - p) < 8 * i + 8"
proof -
  let ?d = "x - (p + 8 * of_nat i)"
  have d: "unat ?d < 8" using assms(2) by (simp add: range_of_def)
  have i: "unat (8 * of_nat i :: uint64) = 8 * i"
    using assms(1) by (simp add: unat_word_ariths unat_of_nat)
  have "x - p = 8 * of_nat i + ?d" by simp
  then have "unat (x - p) = 8 * i + unat ?d"
    using d i assms(1) by (simp only: unat_word_ariths) simp
  with d show "8 * i \<le> unat (x - p)" "unat (x - p) < 8 * i + 8" by auto
qed

lemma entry_in_page: "i < 512 \<Longrightarrow> range_of (p + 8 * of_nat i) 8 \<subseteq> page_of p"
  using entry_offset [of i] by (fastforce simp: page_of_def range_of_def)

lemma entry_store_same [mem_simps]: "entry (store64 m (p + 8 * of_nat i) v) p i = v"
  by (simp add: entry_def)

lemma entry_ranges_disjoint:
  assumes "i < 512" and "j < 512" and "page_aligned p" and "page_aligned q" and "p \<noteq> q \<or> i \<noteq> j"
  shows "range_of (p + 8 * of_nat i) 8 \<inter> range_of (q + 8 * of_nat j) 8 = {}"
proof (cases "p = q")
  case True
  have False if "x \<in> range_of (p + 8 * of_nat i) 8" "x \<in> range_of (p + 8 * of_nat j) 8" for x
    using entry_offset [OF assms(1) that(1)] entry_offset [OF assms(2) that(2)] assms(5) True
    by linarith
  with True show ?thesis by blast
next
  case False
  then show ?thesis
    using page_disjoint [OF assms(3,4)] entry_in_page [OF assms(1)] entry_in_page [OF assms(2)] by blast
qed

lemma entry_store_other:
  assumes "i < 512" and "j < 512" and "page_aligned p" and "page_aligned q" and "p \<noteq> q \<or> i \<noteq> j"
  shows "entry (store64 m (q + 8 * of_nat j) v) p i = entry m p i"
  unfolding entry_def by (rule load64_store64_other [OF entry_ranges_disjoint [OF assms]])

lemma entry_cong:
  assumes "i < 512" and "\<And>x. x \<in> page_of p \<Longrightarrow> m x = m' x"
  shows "entry m p i = entry m' p i"
  unfolding entry_def using entry_in_page [OF assms(1)] assms(2) by (intro load64_cong) blast

lemma entry_memset_other:
  assumes "i < 512" and "page_aligned p" and "page_aligned q" and "p \<noteq> q"
  shows "entry (memset m q c 4096) p i = entry m p i"
  using page_disjoint [OF assms(2-4)] by (intro entry_cong [OF assms(1)] memset_page_other) blast

lemma le_dec_zeros: "le_dec (replicate n 0) = 0"
  by (induction n) auto

lemma load64_zero:
  assumes "\<And>x. x \<in> range_of a 8 \<Longrightarrow> m x = 0"
  shows "load64 m a = 0"
proof -
  have "mread m a 8 = replicate 8 0"
    using assms in_range_of [of _ 8 a] by (intro nth_equalityI) auto
  then show ?thesis by (simp only: load64_def le_dec_zeros)
qed

lemma entry_memset_zero: "i < 512 \<Longrightarrow> entry (memset m q 0 4096) q i = 0"
  unfolding entry_def using entry_in_page [of i q] memset_page_same [of _ q m 0]
  by (intro load64_zero) auto

lemma slot_less: "node_ok n \<Longrightarrow> slot n < 512"
  by (cases n) auto

lemma entry_PX: "entry m p (unat (PX l va)) = load64 m (p + 8 * PX l va)"
  by (simp add: entry_def)

lemma pte_at_entry:
  "pte_at m tab va = (case tab (leaf_node va) of None \<Rightarrow> 0 | Some p \<Rightarrow> entry m p (unat (PX 0 va)))"
  by (simp add: pte_at_def leaf_addr_def entry_PX split: option.splits)

lemma table_pageD: "table_page p \<Longrightarrow> page_aligned p" "table_page p \<Longrightarrow> p \<noteq> 0"
  by (simp_all add: table_page_def)

lemma pt_repD:
  assumes "pt_rep m tab root"
  shows "tab Root = Some root"
    and "tab n = Some p \<Longrightarrow> table_page p" and "tab n = Some p \<Longrightarrow> node_ok n"
    and "tab n = Some p \<Longrightarrow> tab (parent n) \<noteq> None"
    and "tab n = Some p \<Longrightarrow> tab n' = Some p \<Longrightarrow> n = n'"
    and "n \<noteq> Root \<Longrightarrow> node_ok n \<Longrightarrow> tab (parent n) = Some p \<Longrightarrow> points_to (entry m p (slot n)) (tab n)"
  using assms unfolding pt_rep_def by blast+

text \<open>A tree stays the same when memory changes only outside its pages.\<close>

lemma pt_rep_cong:
  assumes "pt_rep m tab root" and "\<And>n p x. tab n = Some p \<Longrightarrow> x \<in> page_of p \<Longrightarrow> m' x = m x"
  shows "pt_rep m' tab root" and "pte_at m' tab va = pte_at m tab va"
proof -
  have e: "entry m' p i = entry m p i" if "tab n = Some p" "i < 512" for n p i
    using assms(2) that by (intro entry_cong) auto
  show "pt_rep m' tab root"
    using assms(1) unfolding pt_rep_def by (auto simp: e slot_less)
  show "pte_at m' tab va = pte_at m tab va"
    by (auto simp: pte_at_entry e PX_less split: option.splits)
qed

text \<open>Linking a new, cleared table page into an empty slot of the tree.\<close>

definition link_table :: "bytemem \<Rightarrow> uint64 \<Rightarrow> uint64 \<Rightarrow> nat \<Rightarrow> bytemem" where
  "link_table m q p i = store64 (memset m q 0 4096) (p + 8 * of_nat i) (PA2PTE q OR PTE_V)"

lemma entry_link_table:
  assumes "table_page p" "table_page q" "p \<noteq> q" "i < 512"
  shows "entry (link_table m q p i) p i = PA2PTE q OR PTE_V"
    and "j < 512 \<Longrightarrow> entry (link_table m q p i) q j = 0"
    and "j < 512 \<Longrightarrow> table_page r \<Longrightarrow> r \<noteq> q \<Longrightarrow> r \<noteq> p \<or> j \<noteq> i \<Longrightarrow> entry (link_table m q p i) r j = entry m r j"
  using assms
  by (simp_all add: link_table_def entry_store_same entry_store_other entry_memset_other
      entry_memset_zero table_pageD del: PTE_V_def)

lemma pt_rep_link:
  assumes rep: "pt_rep m tab root" and n: "n \<noteq> Root" "node_ok n" "tab n = None" "tab (parent n) = Some p"
    and q: "table_page q" "q \<notin> ran tab"
  shows "pt_rep (link_table m q p (slot n)) (tab(n \<mapsto> q)) root"
proof -
  note D = pt_repD [OF rep]
  have pq: "table_page p" "p \<noteq> q" using D(2) [OF n(4)] q(2) n(4) by (auto simp: ran_def)
  note E = entry_link_table [OF pq(1) q(1) pq(2) slot_less [OF n(2)]]
  have par: "parent n \<noteq> n" using n(1) by (cases n) auto
  have "points_to (entry (link_table m q p (slot n)) r (slot c)) ((tab(n \<mapsto> q)) c)"
    if c: "c \<noteq> Root" "node_ok c" "(tab(n \<mapsto> q)) (parent c) = Some r" for c r
  proof (cases "c = n")
    case True
    with c n E(1) par show ?thesis by auto
  next
    case cn: False
    show ?thesis
    proof (cases "parent c = n")
      case True
      have "tab c = None"
        using D(4) [of c] True n(3) by (cases "tab c") auto
      with True c cn E(2) [OF slot_less [OF c(2)]] show ?thesis by simp
    next
      case False
      with c have r: "tab (parent c) = Some r" by simp
      then have "table_page r" "r \<noteq> q" using D(2) q(2) by (auto simp: ran_def)
      moreover have "r \<noteq> p \<or> slot c \<noteq> slot n"
      proof (rule ccontr)
        assume "\<not> (r \<noteq> p \<or> slot c \<noteq> slot n)"
        then have "parent c = parent n" "slot c = slot n" using D(5) [OF r] n(4) by auto
        then have "c = n" using c(1) n(1) by (cases c; cases n) auto
        with cn show False by simp
      qed
      ultimately show ?thesis
        using E(3) [OF slot_less [OF c(2)]] D(6) [OF c(1,2) r] cn by simp
    qed
  qed
  moreover have "n' = n''" if "(tab(n \<mapsto> q)) n' = Some r" "(tab(n \<mapsto> q)) n'' = Some r" for n' n'' r
    using that D(5) q(2) by (auto split: if_splits simp: ran_def)
  moreover have "table_page r \<and> node_ok c \<and> (tab(n \<mapsto> q)) (parent c) \<noteq> None"
    if "(tab(n \<mapsto> q)) c = Some r" for c r
    using that D(2-4) n q(1) by (auto split: if_splits)
  moreover have "(tab(n \<mapsto> q)) Root = Some root" using D(1) n(1) by simp
  ultimately show ?thesis unfolding pt_rep_def by blast
qed

lemma pte_at_link:
  assumes rep: "pt_rep m tab root" and n: "n \<noteq> Root" "node_ok n" "tab n = None" "tab (parent n) = Some p"
    and q: "table_page q" "q \<notin> ran tab"
  shows "pte_at (link_table m q p (slot n)) (tab(n \<mapsto> q)) va = pte_at m tab va"
proof -
  note D = pt_repD [OF rep]
  have pq: "table_page p" "p \<noteq> q" using D(2) [OF n(4)] q(2) n(4) by (auto simp: ran_def)
  note E = entry_link_table [OF pq(1) q(1) pq(2) slot_less [OF n(2)]]
  show ?thesis
  proof (cases "leaf_node va = n")
    case True
    with n(3) show ?thesis by (simp add: pte_at_entry E(2) PX_less)
  next
    case False
    have "entry (link_table m q p (slot n)) r (unat (PX 0 va)) = entry m r (unat (PX 0 va))"
      if r: "tab (leaf_node va) = Some r" for r
    proof (rule E(3))
      show "table_page r" "r \<noteq> q" using D(2) [OF r] q(2) r by (auto simp: ran_def)
      have "parent n \<noteq> leaf_node va" by (cases n) (auto simp: leaf_node_def)
      then show "r \<noteq> p \<or> unat (PX 0 va) \<noteq> slot n" using D(5) [OF r] n(4) by auto
    qed (rule PX_less)
    with False show ?thesis by (simp add: pte_at_entry split: option.splits)
  qed
qed

section \<open>Address spaces over the allocator\<close>

text \<open>\<open>vm_ok s root tab xs\<close>: the tables of \<open>root\<close> are the pages \<open>tab\<close>, none of which is free.\<close>

definition vm_ok :: "'a kmem_scheme \<Rightarrow> uint64 \<Rightarrow> tables \<Rightarrow> uint64 list \<Rightarrow> bool" where
  "vm_ok s root tab xs \<longleftrightarrow>
     kmem_ready s xs \<and> pt_rep (mem s) tab root \<and> (\<forall>p \<in> ran tab. managed s p \<and> p \<notin> set xs)"

text \<open>Only memory, the free list and the saved interrupt flag differ.\<close>

definition mem_frame :: "'a kmem_scheme \<Rightarrow> 'a kmem_scheme \<Rightarrow> bool" where
  "mem_frame s s' \<longleftrightarrow> (\<exists>m fl. tidy s' = tidy (s\<lparr>mem := m, freelist := fl\<rparr>))"

text \<open>The tree has grown by pages taken off the free list, and only table pages were written.\<close>

definition grows :: "'a kmem_scheme \<Rightarrow> tables \<Rightarrow> uint64 list \<Rightarrow> 'a kmem_scheme \<Rightarrow> tables \<Rightarrow> uint64 list \<Rightarrow> bool" where
  "grows s tab xs s' tab' xs' \<longleftrightarrow>
     mem_frame s s' \<and> tab \<subseteq>\<^sub>m tab' \<and> ran tab' \<union> set xs' = ran tab \<union> set xs \<and>
     suffix xs' xs \<and> {x. mem s' x \<noteq> mem s x} \<subseteq> \<Union> (page_of ` ran tab')"

lemma mem_frame_refl [simp]: "mem_frame s s"
  unfolding mem_frame_def by (rule exI [of _ "mem s"], rule exI [of _ "freelist s"]) simp

lemma mem_frame_trans [trans]: "mem_frame s t \<Longrightarrow> mem_frame t u \<Longrightarrow> mem_frame s u"
proof -
  assume "mem_frame s t" and "mem_frame t u"
  then obtain m fl m' fl' where
    t: "tidy t = tidy (s\<lparr>mem := m, freelist := fl\<rparr>)" and u: "tidy u = tidy (t\<lparr>mem := m', freelist := fl'\<rparr>)"
    by (auto simp: mem_frame_def)
  have "tidy u = (tidy t)\<lparr>mem := m', freelist := fl'\<rparr>" using u by (simp add: lock_simps)
  also have "\<dots> = tidy (s\<lparr>mem := m', freelist := fl'\<rparr>)" by (simp add: t lock_simps)
  finally show "mem_frame s u" unfolding mem_frame_def by blast
qed

lemma mem_frame_tidy [simp]: "mem_frame s (tidy t) = mem_frame s t"
  by (simp add: mem_frame_def lock_simps)

lemma mem_frame_upd [simp]:
  "mem_frame s (s\<lparr>mem := m\<rparr>)" "mem_frame s (s\<lparr>mem := m, freelist := fl\<rparr>)"
  "mem_frame s (s\<lparr>freelist := fl, mem := m\<rparr>)"
proof -
  show *: "mem_frame s (s\<lparr>mem := m, freelist := fl\<rparr>)" for m fl unfolding mem_frame_def by blast
  have "s\<lparr>freelist := fl, mem := m\<rparr> = s\<lparr>mem := m, freelist := fl\<rparr>"
    by (rule kmem.equality) simp_all
  with * show "mem_frame s (s\<lparr>freelist := fl, mem := m\<rparr>)" by (simp only:)
  have "s\<lparr>mem := m\<rparr> = s\<lparr>mem := m, freelist := freelist s\<rparr>"
    by (rule kmem.equality) simp_all
  then show "mem_frame s (s\<lparr>mem := m\<rparr>)" by (rule ssubst) (rule *)
qed

lemma mem_frame_step: "mem_frame s t \<Longrightarrow> mem_frame s (t\<lparr>mem := m\<rparr>)"
  by (rule mem_frame_trans [OF _ mem_frame_upd(1)])

lemma mem_frame_simps:
  assumes "mem_frame s s'"
  shows "kernel_end s' = kernel_end s" and "managed s' p = managed s p" and "locks s' = locks s"
    and "tp s' = tp s" and "lock_free lk s' = lock_free lk s" and "cpu_ok s' = cpu_ok s"
proof -
  from assms obtain m fl where s': "tidy s' = tidy (s\<lparr>mem := m, freelist := fl\<rparr>)"
    by (auto simp: mem_frame_def)
  from arg_cong [OF s', of kernel_end] show ke: "kernel_end s' = kernel_end s" by (simp add: lock_simps)
  from arg_cong [OF s', of locks] show "locks s' = locks s" by (simp add: lock_simps)
  from arg_cong [OF s', of tp] show "tp s' = tp s" by (simp add: lock_simps)
  from arg_cong [OF s', of cpu_ok] show "cpu_ok s' = cpu_ok s" by (simp add: lock_simps)
  from arg_cong [OF s', of "lock_free lk"] show "lock_free lk s' = lock_free lk s" by (simp add: lock_simps)
  show "managed s' p = managed s p" using ke by (simp add: managed_def)
qed

lemma kmem_ready_mem:
  assumes "kmem_ready s xs" and "\<And>p x. p \<in> set xs \<Longrightarrow> x \<in> page_of p \<Longrightarrow> m x = mem s x"
  shows "kmem_ready (s\<lparr>mem := m\<rparr>) xs"
  using assms freelist_chain_cong [of xs m "mem s" "freelist s"]
  by (simp add: kmem_ready_def kmem_inv_def lock_simps)

lemma kmem_ready_tidy [simp]: "kmem_ready (tidy s) xs = kmem_ready s xs"
  by (simp add: kmem_ready_def lock_simps)

lemma managed_table_page: "managed s p \<Longrightarrow> table_page p"
  by (simp add: managed_def table_page_def)

lemma vm_okD:
  assumes "vm_ok s root tab xs"
  shows "kmem_ready s xs" and "pt_rep (mem s) tab root"
    and "tab n = Some p \<Longrightarrow> managed s p" and "tab n = Some p \<Longrightarrow> p \<notin> set xs"
  using assms by (auto simp: vm_ok_def intro: ranI)

lemma PTE_V_set: "(PA2PTE q OR PTE_V) AND PTE_V \<noteq> 0"
proof -
  have "(PA2PTE q OR 1) AND 1 = (1 :: uint64)"
    by (rule bit_word_eqI) (auto simp: bit_simps bit_1_iff)
  then show ?thesis by simp
qed

lemma PTE2PA_table: "table_page q \<Longrightarrow> PTE2PA (PA2PTE q OR PTE_V) = q"
  by (rule PTE2PA_PA2PTE) (auto simp: table_page_def word_less_nat_alt)

text \<open>One level of \<open>walk\<close>, from the page \<open>p\<close> of the parent of node \<open>n\<close>.\<close>

lemma walk_down:
  assumes rep: "pt_rep (mem s) tab root" and n: "n \<noteq> Root" "node_ok n" "tab (parent n) = Some p"
    and slot: "slot n = unat (PX (Suc l) va)"
  shows "tab n = Some q \<Longrightarrow> walk_from (Suc l) p va alloc s = walk_from l q va alloc s"
    and "tab n = None \<Longrightarrow> walk_from (Suc l) p va False s = Ok (0, s)"
    and "tab n = None \<Longrightarrow> kmem_ready s [] \<Longrightarrow> walk_from (Suc l) p va True s = Ok (0, tidy s)"
proof -
  have pt: "points_to (load64 (mem s) (p + 8 * PX (Suc l) va)) (tab n)"
    using pt_repD(6) [OF rep n] slot by (simp add: entry_PX)
  show "walk_from (Suc l) p va alloc s = walk_from l q va alloc s" if "tab n = Some q"
    using that pt PTE_V_set [of q] PTE2PA_table [OF pt_repD(2) [OF rep that]] by simp
  show "walk_from (Suc l) p va False s = Ok (0, s)" if "tab n = None"
    using that pt by simp
  show "walk_from (Suc l) p va True s = Ok (0, tidy s)" if "tab n = None" "kmem_ready s []"
    using that pt kalloc_inv_Nil [of s] by (simp add: kmem_ready_def)
qed

lemma walk_link:
  assumes ok: "vm_ok s root tab (q # xs)" and n: "n \<noteq> Root" "node_ok n" "tab (parent n) = Some p"
    and slot: "slot n = unat (PX (Suc l) va)" and none: "tab n = None"
  shows "\<exists>s'. walk_from (Suc l) p va True s = walk_from l q va True s' \<and>
     vm_ok s' root (tab(n \<mapsto> q)) xs \<and> grows s tab (q # xs) s' (tab(n \<mapsto> q)) xs \<and>
     pte_at (mem s') (tab(n \<mapsto> q)) = pte_at (mem s) tab"
proof -
  note D = vm_okD [OF ok]
  have lk: "kmem_inv s (q # xs)" "lock_free L_kmem s" "cpu_ok s" and dist: "q \<notin> set xs"
    using D(1) kpages.inv_distinct [OF D(1)] by (simp_all add: kmem_ready_def)
  have q: "managed s q" "table_page q" "q \<noteq> 0" "q \<notin> ran tab"
    using kpages.inv_usable [OF D(1), of q] D(4) by (auto simp: managed_table_page ran_def managed_def)
  have pt: "load64 (mem s) (p + 8 * PX (Suc l) va) AND PTE_V = 0"
    using pt_repD(6) [OF D(2) n] slot none by (simp add: entry_PX)
  obtain m fl where k: "kalloc s = Ok (q, tidy (s\<lparr>freelist := fl, mem := m\<rparr>))"
    "kmem_inv (s\<lparr>freelist := fl, mem := m\<rparr>) xs" "\<And>y. y \<notin> page_of q \<Longrightarrow> m y = mem s y"
    using kalloc_inv_Cons [OF lk] by blast
  let ?m = "link_table m q p (slot n)"
  let ?s = "tidy (s\<lparr>freelist := fl, mem := ?m\<rparr>)"
  have tab_off: "x \<notin> page_of q" if "tab c = Some r" "x \<in> page_of r" for c r x
    using that page_disjoint [of r q] q D(3) by (fastforce simp: managed_def ran_def)
  have rep: "pt_rep m tab root" "pte_at m tab = pte_at (mem s) tab"
    using pt_rep_cong [OF D(2), of m] tab_off k(3) by (auto simp: fun_eq_iff)
  have p: "table_page p" "p \<notin> set xs" using D(3) [OF n(3)] D(4) [OF n(3)] by (simp_all add: managed_table_page)
  have m': "?m x = mem s x" if "x \<notin> page_of q" "x \<notin> page_of p" for x
  proof -
    have "x \<notin> range_of (p + 8 * of_nat (slot n)) 8"
      using that(2) entry_in_page [OF slot_less [OF n(2)], of p] by blast
    then show ?thesis using that(1) k(3) by (simp add: link_table_def store64_other memset_page_other)
  qed
  have "kmem_ready (s\<lparr>freelist := fl, mem := m\<rparr>) xs"
    using k(2) lk by (simp add: kmem_ready_def lock_simps)
  then have "kmem_ready ((s\<lparr>freelist := fl, mem := m\<rparr>)\<lparr>mem := ?m\<rparr>) xs"
  proof (rule kmem_ready_mem)
    fix r x assume r: "r \<in> set xs" and x: "x \<in> page_of r"
    then have "managed s r" using kpages.inv_usable [OF D(1)] by simp
    then have "x \<notin> page_of q" "x \<notin> page_of p"
      using x r dist p q page_disjoint [of r q] page_disjoint [of r p]
      by (auto simp: managed_def table_page_def)
    then show "?m x = mem (s\<lparr>freelist := fl, mem := m\<rparr>) x" using m' k(3) by simp
  qed
  then have ready: "kmem_ready ?s xs" by simp
  have run: "walk_from (Suc l) p va True s = walk_from l q va True ?s"
    using pt k(1) q(3) slot by (simp add: Let_def link_table_def lock_simps)
  have ok': "vm_ok ?s root (tab(n \<mapsto> q)) xs"
    using ready pt_rep_link [OF rep(1) n(1,2) none n(3) q(2,4)] D(3,4) q(1) dist
    by (auto simp: vm_ok_def lock_simps ran_def split: if_splits)
  have "ran (tab(n \<mapsto> q)) = insert q (ran tab)" using none by simp
  moreover have "p \<in> ran tab" using n(3) by (rule ranI)
  ultimately have "grows s tab (q # xs) ?s (tab(n \<mapsto> q)) xs"
    using m' none by (auto simp: grows_def lock_simps map_le_def suffix_Cons)
  moreover have "pte_at (mem ?s) (tab(n \<mapsto> q)) = pte_at (mem s) tab"
    using pte_at_link [OF rep(1) n(1,2) none n(3) q(2,4)] rep(2) by (simp add: fun_eq_iff lock_simps)
  ultimately show ?thesis using run ok' by blast
qed

lemma grows_refl: "grows s tab xs s tab xs" "grows s tab xs (tidy s) tab xs"
  by (simp_all add: grows_def lock_simps)

lemma ran_map_le: "f \<subseteq>\<^sub>m g \<Longrightarrow> ran f \<subseteq> ran g"
  by (force simp: map_le_def ran_def dom_def)

lemma grows_trans:
  assumes "grows s tab xs s1 tab1 xs1" and "grows s1 tab1 xs1 s2 tab2 xs2"
  shows "grows s tab xs s2 tab2 xs2"
proof -
  have "{x. mem s2 x \<noteq> mem s x} \<subseteq> {x. mem s2 x \<noteq> mem s1 x} \<union> {x. mem s1 x \<noteq> mem s x}" by auto
  also have "\<dots> \<subseteq> \<Union> (page_of ` ran tab2) \<union> \<Union> (page_of ` ran tab1)"
    using assms unfolding grows_def by blast
  also have "\<dots> = \<Union> (page_of ` ran tab2)"
    using assms(2) ran_map_le [of tab1 tab2] unfolding grows_def by blast
  finally show ?thesis
    using assms unfolding grows_def by (auto intro: mem_frame_trans map_le_trans suffix_order.order_trans)
qed

lemma vm_ok_tidy [simp]: "vm_ok (tidy s) root tab xs = vm_ok s root tab xs"
  by (simp add: vm_ok_def lock_simps)

lemma leaf_addr_nonzero:
  assumes "pt_rep m tab root" and "leaf_addr tab va = Some a"
  shows "a \<noteq> 0"
proof -
  from assms(2) obtain p where p: "tab (leaf_node va) = Some p" "a = p + 8 * PX 0 va"
    by (auto simp: leaf_addr_def)
  have "unat p < 0x88000000" "0 < unat p"
    using pt_repD(2) [OF assms(1) p(1)] by (auto simp: table_page_def word_less_nat_alt unat_gt_0)
  then have "unat a = unat p + 8 * unat (PX 0 va)"
    using p(2) PX_less [of 0 va] by (simp add: unat_word_ariths)
  with \<open>0 < unat p\<close> show ?thesis by auto
qed

lemma path_nodes:
  "N1 (unat (PX 2 va)) \<noteq> Root" "node_ok (N1 (unat (PX 2 va)))" "parent (N1 (unat (PX 2 va))) = Root"
  "slot (N1 (unat (PX 2 va))) = unat (PX (Suc 1) va)"
  "leaf_node va \<noteq> Root" "node_ok (leaf_node va)" "parent (leaf_node va) = N1 (unat (PX 2 va))"
  "slot (leaf_node va) = unat (PX (Suc 0) va)"
  by (simp_all add: leaf_node_def PX_less numeral_2_eq_2)

lemma walk_unfold: "va < MAXVA \<Longrightarrow> walk root va alloc s = walk_from (Suc 1) root va alloc s"
  by (auto simp: walk_def numeral_2_eq_2 simp del: walk_from.simps dest: leD)

declare walk_from.simps(2) [simp del]

lemma walk_lookup:
  assumes rep: "pt_rep (mem s) tab root" and "va < MAXVA"
  shows "walk root va False s = Ok (case leaf_addr tab va of None \<Rightarrow> 0 | Some a \<Rightarrow> a, s)"
proof (cases "tab (N1 (unat (PX 2 va)))")
  case None
  then have "leaf_addr tab va = None"
    using pt_repD(4) [OF rep, of "leaf_node va"] path_nodes(7)
    by (cases "tab (leaf_node va)") (auto simp: leaf_addr_def)
  then show ?thesis
    using walk_down(2) [OF rep path_nodes(1,2) _ path_nodes(4), where p = root] None pt_repD(1) [OF rep]
    by (simp add: walk_unfold [OF assms(2)])
next
  case (Some p)
  have 1: "walk root va False s = walk_from (Suc 0) p va False s"
    using walk_down(1) [OF rep path_nodes(1,2) _ path_nodes(4), where p = root] Some pt_repD(1) [OF rep]
    by (simp add: walk_unfold [OF assms(2)])
  show ?thesis
  proof (cases "tab (leaf_node va)")
    case None
    then show ?thesis
      using 1 walk_down(2) [OF rep path_nodes(5,6) _ path_nodes(8), where p = p] Some path_nodes(7)
      by (simp add: leaf_addr_def)
  next
    case (Some q)
    then show ?thesis
      using 1 walk_down(1) [OF rep path_nodes(5,6) _ path_nodes(8), where p = p and q = q] \<open>tab (N1 _) = Some p\<close> path_nodes(7)
      by (simp add: leaf_addr_def)
  qed
qed

text \<open>
  One level of \<open>walk\<close> with allocation: it comes to the table of node \<open>n\<close>, which it has
  linked in if need be, or has run out of pages.
\<close>

lemma walk_alloc_level:
  assumes ok: "vm_ok s root tab xs" and n: "n \<noteq> Root" "node_ok n" "tab (parent n) = Some p"
    and slot: "slot n = unat (PX (Suc l) va)"
  shows "(xs = [] \<and> walk_from (Suc l) p va True s = Ok (0, tidy s)) \<or>
    (\<exists>s' tab' xs' q. walk_from (Suc l) p va True s = walk_from l q va True s' \<and> tab' n = Some q \<and>
       vm_ok s' root tab' xs' \<and> grows s tab xs s' tab' xs' \<and> pte_at (mem s') tab' = pte_at (mem s) tab \<and>
       length xs \<le> Suc (length xs'))"
proof (cases "tab n")
  case (Some q)
  then show ?thesis
    using walk_down(1) [OF vm_okD(2) [OF ok] n slot] ok grows_refl(1) le_SucI [OF order_refl] by metis
next
  case None
  show ?thesis
  proof (cases xs)
    case Nil
    then show ?thesis using walk_down(3) [OF vm_okD(2) [OF ok] n slot None] vm_okD(1) [OF ok] by simp
  next
    case (Cons q ys)
    with walk_link [of s root tab q ys, OF _ n slot None] ok show ?thesis by fastforce
  qed
qed

lemma walk_alloc:
  assumes ok: "vm_ok s root tab xs" and "va < MAXVA"
  obtains a s' tab' xs' where "walk root va True s = Ok (a, s')" and "vm_ok s' root tab' xs'"
    and "grows s tab xs s' tab' xs'" and "pte_at (mem s') tab' = pte_at (mem s) tab"
    and "a = 0 \<and> xs' = [] \<and> length xs < 2 \<or> leaf_addr tab' va = Some a" and "length xs \<le> length xs' + 2"
proof -
  note w = walk_unfold [OF assms(2), of root True s]
  have root: "tab (parent (N1 (unat (PX 2 va)))) = Some root"
    using pt_repD(1) [OF vm_okD(2) [OF ok]] by simp
  from walk_alloc_level [OF ok path_nodes(1,2) root path_nodes(4)] show thesis
  proof
    assume "xs = [] \<and> walk_from (Suc 1) root va True s = Ok (0, tidy s)"
    then show thesis
      using that [of 0 "tidy s" tab "[]"] ok w grows_refl(2) [of s tab "[]"] by (simp add: lock_simps)
  next
    assume "\<exists>s' tab' xs' q. walk_from (Suc 1) root va True s = walk_from 1 q va True s' \<and>
       tab' (N1 (unat (PX 2 va))) = Some q \<and>
       vm_ok s' root tab' xs' \<and> grows s tab xs s' tab' xs' \<and> pte_at (mem s') tab' = pte_at (mem s) tab \<and>
       length xs \<le> Suc (length xs')"
    then obtain s1 tab1 xs1 q where
      1: "walk_from (Suc 1) root va True s = walk_from (Suc 0) q va True s1" "tab1 (N1 (unat (PX 2 va))) = Some q"
        "vm_ok s1 root tab1 xs1" "grows s tab xs s1 tab1 xs1" "pte_at (mem s1) tab1 = pte_at (mem s) tab"
        "length xs \<le> Suc (length xs1)" by auto
    from 1(2) have p: "tab1 (parent (leaf_node va)) = Some q" by (simp add: path_nodes(7))
    from walk_alloc_level [OF 1(3) path_nodes(5,6) p path_nodes(8)] show thesis
    proof
      assume "xs1 = [] \<and> walk_from (Suc 0) q va True s1 = Ok (0, tidy s1)"
      then show thesis
        using that [of 0 "tidy s1" tab1 "[]"] 1 w grows_trans [OF 1(4) grows_refl(2)] by (simp add: lock_simps)
    next
      assume "\<exists>s' tab' xs' r. walk_from (Suc 0) q va True s1 = walk_from 0 r va True s' \<and> tab' (leaf_node va) = Some r \<and>
       vm_ok s' root tab' xs' \<and> grows s1 tab1 xs1 s' tab' xs' \<and> pte_at (mem s') tab' = pte_at (mem s1) tab1 \<and>
       length xs1 \<le> Suc (length xs')"
      then obtain s2 tab2 xs2 r where
        2: "walk_from (Suc 0) q va True s1 = walk_from 0 r va True s2" "tab2 (leaf_node va) = Some r"
          "vm_ok s2 root tab2 xs2" "grows s1 tab1 xs1 s2 tab2 xs2" "pte_at (mem s2) tab2 = pte_at (mem s1) tab1"
          "length xs1 \<le> Suc (length xs2)"
        by blast
      show thesis
        using that [of "r + 8 * PX 0 va" s2 tab2 xs2] 1 2 w grows_trans [OF 1(4) 2(4)]
        by (simp add: leaf_addr_def del: walk_from.simps(2))
    qed
  qed
qed

section \<open>Changing leaf entries\<close>

definition vpage :: "uint64 \<Rightarrow> bool" where
  "vpage va \<longleftrightarrow> page_aligned va \<and> va < MAXVA"

lemma leaf_slot:
  assumes "vpage va" and "vpage va'" and "leaf_node va' = leaf_node va" and "PX 0 va' = PX 0 va"
  shows "va' = va"
  by (rule PX_inject) (use assms in \<open>auto simp: vpage_def leaf_node_def word_unat_eq_iff\<close>)

lemma leaf_addr_entry:
  assumes "leaf_addr tab va = Some a"
  obtains p where "tab (leaf_node va) = Some p" and "a = p + 8 * of_nat (unat (PX 0 va))"
  using assms by (auto simp: leaf_addr_def)

lemma pt_rep_store_leaf:
  assumes rep: "pt_rep m tab root" and a: "leaf_addr tab va = Some a"
  shows "pt_rep (store64 m a v) tab root"
proof -
  note D = pt_repD [OF rep]
  obtain p where p: "tab (leaf_node va) = Some p" "a = p + 8 * of_nat (unat (PX 0 va))"
    by (rule leaf_addr_entry [OF a])
  have "entry (store64 m a v) q (slot n) = entry m q (slot n)"
    if n: "n \<noteq> Root" "node_ok n" "tab (parent n) = Some q" for n q
  proof -
    have "parent n \<noteq> leaf_node va" by (cases n) (auto simp: leaf_node_def)
    then have "q \<noteq> p" using D(5) [OF n(3)] p(1) by auto
    then show ?thesis
      unfolding p(2) using D(2) [OF n(3)] D(2) [OF p(1)] n(2)
      by (intro entry_store_other) (auto simp: slot_less PX_less table_pageD)
  qed
  then show ?thesis using rep unfolding pt_rep_def by simp
qed

lemma pte_at_store_leaf:
  assumes rep: "pt_rep m tab root" and a: "leaf_addr tab va = Some a" and va: "vpage va" "vpage va'"
  shows "pte_at (store64 m a v) tab va' = (if va' = va then v else pte_at m tab va')"
proof -
  note D = pt_repD [OF rep]
  obtain p where p: "tab (leaf_node va) = Some p" "a = p + 8 * of_nat (unat (PX 0 va))"
    by (rule leaf_addr_entry [OF a])
  show ?thesis
  proof (cases "va' = va")
    case True
    then show ?thesis using a by (simp add: pte_at_def)
  next
    case False
    have "entry (store64 m a v) q (unat (PX 0 va')) = entry m q (unat (PX 0 va'))"
      if q: "tab (leaf_node va') = Some q" for q
    proof -
      have "q \<noteq> p \<or> unat (PX 0 va') \<noteq> unat (PX 0 va)"
        using D(5) [OF q] p(1) leaf_slot [OF va] False by (auto simp: word_unat_eq_iff)
      then show ?thesis
        unfolding p(2) using D(2) [OF q] D(2) [OF p(1)]
        by (intro entry_store_other) (auto simp: PX_less table_pageD)
    qed
    then show ?thesis using False by (simp add: pte_at_entry split: option.splits)
  qed
qed

lemma store_leaf_in_page:
  assumes "leaf_addr tab va = Some a" and "store64 m a v x \<noteq> m x"
  shows "\<exists>p \<in> ran tab. x \<in> page_of p"
proof -
  obtain p where p: "tab (leaf_node va) = Some p" "a = p + 8 * of_nat (unat (PX 0 va))"
    by (rule leaf_addr_entry [OF assms(1)])
  have "x \<in> range_of a 8" using assms(2) store64_other by blast
  then have "x \<in> page_of p" using entry_in_page [OF PX_less] unfolding p(2) by blast
  with p(1) show ?thesis by (blast intro: ranI)
qed

lemma vm_ok_pages_apart:
  assumes "vm_ok s root tab xs" and "p \<in> ran tab" and "q \<in> set xs"
  shows "page_of p \<inter> page_of q = {}"
proof -
  have "managed s p" "p \<notin> set xs" using assms(1,2) by (auto simp: vm_ok_def)
  moreover have "managed s q" using kpages.inv_usable [OF vm_okD(1) [OF assms(1)] assms(3)] .
  ultimately show ?thesis using assms(3) by (intro page_disjoint) (auto simp: managed_def)
qed

lemma vm_ok_store_leaf:
  assumes ok: "vm_ok s root tab xs" and a: "leaf_addr tab va = Some a"
  shows "vm_ok (s\<lparr>mem := store64 (mem s) a v\<rparr>) root tab xs"
    and "grows s tab xs (s\<lparr>mem := store64 (mem s) a v\<rparr>) tab xs"
proof -
  have "kmem_ready (s\<lparr>mem := store64 (mem s) a v\<rparr>) xs"
  proof (rule kmem_ready_mem [OF vm_okD(1) [OF ok]])
    fix p x assume "p \<in> set xs" "x \<in> page_of p"
    then show "store64 (mem s) a v x = mem s x"
      using store_leaf_in_page [OF a] vm_ok_pages_apart [OF ok] by blast
  qed
  then show "vm_ok (s\<lparr>mem := store64 (mem s) a v\<rparr>) root tab xs"
    using ok pt_rep_store_leaf [OF _ a] by (simp add: vm_ok_def)
  show "grows s tab xs (s\<lparr>mem := store64 (mem s) a v\<rparr>) tab xs"
    using store_leaf_in_page [OF a] by (auto simp: grows_def)
qed

section \<open>Mapping pages\<close>

text \<open>The map \<open>pm\<close> with \<open>k\<close> pages from \<open>va\<close> on mapped to consecutive pages from \<open>pa\<close> on.\<close>

definition mapped :: "(uint64 \<Rightarrow> uint64) \<Rightarrow> uint64 \<Rightarrow> nat \<Rightarrow> uint64 \<Rightarrow> uint64 \<Rightarrow> uint64 \<Rightarrow> uint64" where
  "mapped pm va k pa perm v =
     (if unat va \<le> unat v \<and> unat v < unat va + 4096 * k
      then PA2PTE (pa + (v - va)) OR perm OR PTE_V else pm v)"

lemma aligned_between:
  assumes "page_aligned a" and "page_aligned v" and "unat a \<le> unat v" and "unat v < unat a + 4096"
  shows "v = a"
proof -
  obtain i j where "unat a = 4096 * i" "unat v = 4096 * j"
    using assms(1,2) by (auto simp: page_aligned_def elim!: dvdE)
  with assms(3,4) show ?thesis by (simp add: word_unat_eq_iff)
qed

lemma unat_next_page:
  assumes "vpage a"
  shows "unat (a + 4096) = unat a + 4096" and "page_aligned (a + 4096)"
proof -
  have "unat a < 2 ^ 38" using assms by (simp add: vpage_def word_less_nat_alt)
  then show "unat (a + 4096) = unat a + 4096" by (simp add: unat_word_ariths)
  then show "page_aligned (a + 4096)" using assms by (simp add: vpage_def page_aligned_def)
qed

lemma mapped_Suc:
  assumes a: "vpage a" and v: "vpage v"
  shows "mapped (pm(a := PA2PTE pa OR perm OR PTE_V)) (a + 4096) k (pa + 4096) perm v = mapped pm a (Suc k) pa perm v"
proof (cases "v = a")
  case True
  then show ?thesis using unat_next_page(1) [OF a] by (simp add: mapped_def)
next
  case False
  then have "unat a \<le> unat v \<Longrightarrow> unat a + 4096 \<le> unat v"
    using aligned_between [of a v] a v unfolding vpage_def by (meson leI)
  then have "unat a \<le> unat v \<longleftrightarrow> unat (a + 4096) \<le> unat v"
    using unat_next_page(1) [OF a] by auto
  with False show ?thesis using unat_next_page(1) [OF a] by (simp add: mapped_def)
qed

lemma mapped_0 [simp]: "mapped pm a 0 pa perm = pm"
  by (auto simp: mapped_def fun_eq_iff)

lemma mapped_cong: "pm v = pm' v \<Longrightarrow> mapped pm a k pa perm v = mapped pm' a k pa perm v"
  by (simp add: mapped_def)

lemma mapped_1:
  "vpage a \<Longrightarrow> vpage v \<Longrightarrow>
   mapped pm a (Suc 0) pa perm v = (if v = a then PA2PTE pa OR perm OR PTE_V else pm v)"
  using aligned_between [of a v] by (auto simp: mapped_def vpage_def)

lemma mappages_step:
  assumes ok: "vm_ok s root tab xs" and a: "vpage a" and clear: "pte_at (mem s) tab a AND PTE_V = 0"
    and fuel: "fuel \<noteq> 0"
  shows "(\<exists>s' tab'. mappages_from fuel root a last' pa perm s = Ok (-1, s') \<and> vm_ok s' root tab' [] \<and>
       grows s tab xs s' tab' [] \<and> pte_at (mem s') tab' = pte_at (mem s) tab \<and> length xs < 2) \<or>
     (\<exists>s' tab' xs'. mappages_from fuel root a last' pa perm s =
         (if a = last' then Ok (0, s') else mappages_from (fuel - 1) root (a + 4096) last' (pa + 4096) perm s') \<and>
       vm_ok s' root tab' xs' \<and> grows s tab xs s' tab' xs' \<and> length xs \<le> length xs' + 2 \<and>
       (\<forall>v. vpage v \<longrightarrow> pte_at (mem s') tab' v = ((pte_at (mem s) tab)(a := PA2PTE pa OR perm OR PTE_V)) v))"
proof -
  obtain p s1 tab1 xs1 where w: "walk root a True s = Ok (p, s1)" "vm_ok s1 root tab1 xs1"
    "grows s tab xs s1 tab1 xs1" "pte_at (mem s1) tab1 = pte_at (mem s) tab"
    "p = 0 \<and> xs1 = [] \<and> length xs < 2 \<or> leaf_addr tab1 a = Some p" "length xs \<le> length xs1 + 2"
    using walk_alloc [OF ok, of a] a unfolding vpage_def by blast
  show ?thesis
  proof (cases "p = 0")
    case True
    have "xs1 = []" "length xs < 2" using w(5) leaf_addr_nonzero [OF vm_okD(2) [OF w(2)]] True by blast+
    with True w fuel have "mappages_from fuel root a last' pa perm s = Ok (-1, s1)"
      by (subst mappages_from.simps) simp
    with w \<open>xs1 = []\<close> \<open>length xs < 2\<close> show ?thesis by blast
  next
    case False
    with w(5) have leaf: "leaf_addr tab1 a = Some p" by simp
    then have clear1: "load64 (mem s1) p AND PTE_V = 0"
      using clear w(4) by (metis pte_at_def option.simps(5))
    let ?s = "s1\<lparr>mem := store64 (mem s1) p (PA2PTE pa OR perm OR PTE_V)\<rparr>"
    have "mappages_from fuel root a last' pa perm s =
        (if a = last' then Ok (0, ?s) else mappages_from (fuel - 1) root (a + 4096) last' (pa + 4096) perm ?s)"
      using w(1) False clear1 fuel by (subst mappages_from.simps) simp
    moreover have "\<forall>v. vpage v \<longrightarrow> pte_at (mem ?s) tab1 v = ((pte_at (mem s) tab)(a := PA2PTE pa OR perm OR PTE_V)) v"
      using pte_at_store_leaf [OF vm_okD(2) [OF w(2)] leaf a] w(4) by (simp del: PTE_V_def)
    ultimately show ?thesis
      using vm_ok_store_leaf [OF w(2) leaf] grows_trans [OF w(3)] w(6) by blast
  qed
qed

lemma mappages_from_spec:
  assumes "vm_ok s root tab xs" and "page_aligned a" and "unat a + 4096 * Suc n \<le> unat MAXVA"
    and "last' = a + of_nat n * 4096" and "n < fuel"
    and "\<forall>v. vpage v \<and> unat a \<le> unat v \<and> unat v < unat a + 4096 * Suc n \<longrightarrow> pte_at (mem s) tab v AND PTE_V = 0"
  shows "\<exists>r s' tab' xs' k. mappages_from fuel root a last' pa perm s = Ok (r, s') \<and>
     vm_ok s' root tab' xs' \<and> grows s tab xs s' tab' xs' \<and>
     (\<forall>v. vpage v \<longrightarrow> pte_at (mem s') tab' v = mapped (pte_at (mem s) tab) a k pa perm v) \<and>
     (r = 0 \<and> k = Suc n \<or> r = -1 \<and> k \<le> n \<and> xs' = [] \<and> length xs < 2 * Suc n)"
  using assms
proof (induction n arbitrary: s tab xs a pa fuel)
  case (0 s tab xs a pa fuel)
  then have a: "vpage a" by (simp add: vpage_def word_less_nat_alt)
  have clear: "pte_at (mem s) tab a AND PTE_V = 0" using 0(6) a by simp
  with mappages_step [OF 0(1) a clear, of fuel last' pa perm] 0(4,5) show ?case
    by (fastforce simp: mapped_1 [OF a] mapped_0 simp del: PTE_V_def)
next
  case (Suc n s tab xs a pa fuel)
  then have a: "vpage a" by (simp add: vpage_def word_less_nat_alt)
  note a4 = unat_next_page [OF a]
  have clear: "pte_at (mem s) tab a AND PTE_V = 0" using Suc.prems(6) a by simp
  have neq: "a \<noteq> last'"
  proof -
    have "unat (of_nat (Suc n) * 4096 :: uint64) = Suc n * 4096"
      using Suc.prems(3) by (simp add: unat_word_ariths unat_of_nat)
    then have "of_nat (Suc n) * 4096 \<noteq> (0 :: uint64)" by (metis mult_is_0 nat.distinct(1) unat_0 zero_neq_numeral)
    then show ?thesis using Suc.prems(4) by simp
  qed
  from mappages_step [OF Suc.prems(1) a clear, of fuel last' pa perm] Suc.prems(5) neq
  consider (oom) s' tab' where "mappages_from fuel root a last' pa perm s = Ok (-1, s')" "vm_ok s' root tab' []"
      "grows s tab xs s' tab' []" "pte_at (mem s') tab' = pte_at (mem s) tab" "length xs < 2"
    | (next_page) s' tab' xs' where
      "mappages_from fuel root a last' pa perm s = mappages_from (fuel - 1) root (a + 4096) last' (pa + 4096) perm s'"
      "vm_ok s' root tab' xs'" "grows s tab xs s' tab' xs'" "length xs \<le> length xs' + 2"
      "\<forall>v. vpage v \<longrightarrow> pte_at (mem s') tab' v = ((pte_at (mem s) tab)(a := PA2PTE pa OR perm OR PTE_V)) v"
    by auto
  then show ?case
  proof cases
    case oom
    then show ?thesis
      by (intro exI [of _ "-1"] exI [of _ s'] exI [of _ tab'] exI [of _ "[]"] exI [of _ 0]) auto
  next
    case next_page
    have "\<exists>r s'' tab'' xs'' k. mappages_from (fuel - 1) root (a + 4096) last' (pa + 4096) perm s' = Ok (r, s'') \<and>
       vm_ok s'' root tab'' xs'' \<and> grows s' tab' xs' s'' tab'' xs'' \<and>
       (\<forall>v. vpage v \<longrightarrow> pte_at (mem s'') tab'' v = mapped (pte_at (mem s') tab') (a + 4096) k (pa + 4096) perm v) \<and>
       (r = 0 \<and> k = Suc n \<or> r = -1 \<and> k \<le> n \<and> xs'' = [] \<and> length xs' < 2 * Suc n)"
    proof (rule Suc.IH [OF next_page(2) a4(2)])
      show "last' = a + 4096 + of_nat n * 4096" using Suc.prems(4) by (simp add: algebra_simps)
      show "\<forall>v. vpage v \<and> unat (a + 4096) \<le> unat v \<and> unat v < unat (a + 4096) + 4096 * Suc n \<longrightarrow>
          pte_at (mem s') tab' v AND PTE_V = 0"
        using next_page(5) Suc.prems(6) a4(1) by auto
    qed (use Suc.prems(3,5) a4(1) in auto)
    then obtain r s'' tab'' xs'' k where
      IH: "mappages_from (fuel - 1) root (a + 4096) last' (pa + 4096) perm s' = Ok (r, s'')"
        "vm_ok s'' root tab'' xs''" "grows s' tab' xs' s'' tab'' xs''"
        "\<forall>v. vpage v \<longrightarrow> pte_at (mem s'') tab'' v = mapped (pte_at (mem s') tab') (a + 4096) k (pa + 4096) perm v"
        "r = 0 \<and> k = Suc n \<or> r = -1 \<and> k \<le> n \<and> xs'' = [] \<and> length xs' < 2 * Suc n" by blast
    have "pte_at (mem s'') tab'' v = mapped (pte_at (mem s) tab) a (Suc k) pa perm v" if v: "vpage v" for v
    proof -
      have "pte_at (mem s'') tab'' v = mapped (pte_at (mem s') tab') (a + 4096) k (pa + 4096) perm v"
        using IH(4) v by blast
      also have "\<dots> = mapped ((pte_at (mem s) tab)(a := PA2PTE pa OR perm OR PTE_V)) (a + 4096) k (pa + 4096) perm v"
        using next_page(5) v by (intro mapped_cong) blast
      finally show ?thesis by (simp only: mapped_Suc [OF a v])
    qed
    with IH next_page grows_trans [OF next_page(3) IH(3)] show ?thesis
      by (intro exI [of _ r] exI [of _ s''] exI [of _ tab''] exI [of _ xs''] exI [of _ "Suc k"]) auto
  qed
qed

lemma mappages_last:
  assumes "page_aligned va" and "unat va + 4096 * Suc n \<le> 2 ^ 38"
  shows "PGROUNDDOWN (va + of_nat (Suc n) * 4096 - 1) = va + of_nat n * 4096"
proof -
  have n: "unat (of_nat n * 4096 :: uint64) = n * 4096"
    using assms(2) by (simp add: unat_word_ariths unat_of_nat)
  have 1: "unat (va + of_nat n * 4096) = unat va + n * 4096"
    using assms(2) n by (simp only: unat_word_ariths(1)) simp
  have "va + of_nat (Suc n) * 4096 - 1 = (va + of_nat n * 4096) + 4095" by (simp add: algebra_simps)
  then have "unat (va + of_nat (Suc n) * 4096 - 1) = unat va + n * 4096 + 4095"
    using assms(2) by (simp only: unat_word_ariths(1) [of "va + of_nat n * 4096"] 1) simp
  moreover obtain i where "unat va = 4096 * i" using assms(1) by (auto simp: page_aligned_def elim: dvdE)
  moreover have "(4096 * i + n * 4096 + 4095) div 4096 = i + n" for i by simp
  ultimately show ?thesis by (simp add: word_unat_eq_iff unat_PGROUNDDOWN 1)
qed

lemma mappages_spec:
  assumes "vm_ok s root tab xs" and "page_aligned va" and "unat va + 4096 * Suc n \<le> unat MAXVA"
    and "\<forall>v. vpage v \<and> unat va \<le> unat v \<and> unat v < unat va + 4096 * Suc n \<longrightarrow> pte_at (mem s) tab v AND PTE_V = 0"
  shows "\<exists>r s' tab' xs' k. mappages root va (of_nat (Suc n) * 4096) pa perm s = Ok (r, s') \<and>
     vm_ok s' root tab' xs' \<and> grows s tab xs s' tab' xs' \<and>
     (\<forall>v. vpage v \<longrightarrow> pte_at (mem s') tab' v = mapped (pte_at (mem s) tab) va k pa perm v) \<and>
     (r = 0 \<and> k = Suc n \<or> r = -1 \<and> k \<le> n \<and> xs' = [] \<and> length xs < 2 * Suc n)"
proof -
  have "unat va + 4096 * Suc n \<le> 2 ^ 38" using assms(3) by simp
  then have last: "PGROUNDDOWN (va + of_nat (Suc n) * 4096 - 1) = va + of_nat n * 4096"
    by (rule mappages_last [OF assms(2)])
  show ?thesis
    unfolding mappages_def last PGROUNDDOWN_aligned [OF assms(2)]
    by (rule mappages_from_spec [OF assms(1-3) refl _ assms(4)]) (use assms(3) in simp)
qed

section \<open>Translation\<close>

text \<open>The physical page a user may reach at virtual page \<open>v\<close>, 0 if none.\<close>

definition xlate :: "bytemem \<Rightarrow> tables \<Rightarrow> uint64 \<Rightarrow> uint64" where
  "xlate m tab v =
     (if v < MAXVA \<and> pte_at m tab v AND PTE_V \<noteq> 0 \<and> pte_at m tab v AND PTE_U \<noteq> 0
      then PTE2PA (pte_at m tab v) else 0)"

lemma walkaddr_spec:
  assumes "pt_rep (mem s) tab root"
  shows "walkaddr root v s = Ok (xlate (mem s) tab v, s)"
  using walk_lookup [OF assms, of v] leaf_addr_nonzero [OF assms, of v]
  by (auto simp: walkaddr_def xlate_def pte_at_def split: option.splits)

lemma page_aligned_PTE2PA [simp]: "page_aligned (PTE2PA e)"
proof -
  have "take_bit 12 (PTE2PA e) = 0"
    by (rule bit_word_eqI) (auto simp: PTE2PA_def bit_simps)
  then have "unat (take_bit 12 (PTE2PA e)) = 0" by simp
  then show ?thesis by (simp add: page_aligned_def unat_take_bit)
qed

lemma page_aligned_xlate [simp]: "page_aligned (xlate m tab v)"
  by (simp add: xlate_def)

text \<open>
  A sound address space: no user page is a table page and no physical page is mapped
  twice.
\<close>

definition aspace :: "bytemem \<Rightarrow> tables \<Rightarrow> uint64 \<Rightarrow> bool" where
  "aspace m tab root \<longleftrightarrow> pt_rep m tab root \<and>
     (\<forall>v. vpage v \<and> xlate m tab v \<noteq> 0 \<longrightarrow> xlate m tab v \<notin> ran tab) \<and>
     (\<forall>v v'. vpage v \<and> vpage v' \<and> xlate m tab v \<noteq> 0 \<and> xlate m tab v = xlate m tab v' \<longrightarrow> v = v')"

text \<open>The user's view: where the byte at a virtual address lies, and whether there is one.\<close>

definition upage :: "bytemem \<Rightarrow> tables \<Rightarrow> uint64 \<Rightarrow> uint64" where
  "upage m tab va = xlate m tab (PGROUNDDOWN va)"

definition uaddr :: "bytemem \<Rightarrow> tables \<Rightarrow> uint64 \<Rightarrow> uint64" where
  "uaddr m tab va = upage m tab va + (va - PGROUNDDOWN va)"

definition umapped :: "bytemem \<Rightarrow> tables \<Rightarrow> uint64 \<Rightarrow> uint64 \<Rightarrow> bool" where
  "umapped m tab va len \<longleftrightarrow> (\<forall>i < unat len. upage m tab (va + of_nat i) \<noteq> 0)"

lemma upage_vpage: "upage m tab va \<noteq> 0 \<Longrightarrow> vpage (PGROUNDDOWN va)"
  by (auto simp: upage_def xlate_def vpage_def split: if_splits)

lemma uaddr_in_page: "uaddr m tab va \<in> page_of (upage m tab va)"
  by (simp add: uaddr_def page_of_def range_of_def unat_page_offset)

lemma uaddr_inject:
  assumes "aspace m tab root" and "upage m tab va \<noteq> 0" and "upage m tab va' \<noteq> 0"
    and "uaddr m tab va = uaddr m tab va'"
  shows "va = va'"
proof -
  have up: "upage m tab va = upage m tab va'"
    using page_disjoint [of "upage m tab va" "upage m tab va'"] uaddr_in_page [of m tab va]
      uaddr_in_page [of m tab va'] assms(4) by (auto simp: upage_def)
  then have pg: "PGROUNDDOWN va = PGROUNDDOWN va'"
    using assms(1-3) upage_vpage [OF assms(2)] upage_vpage [OF assms(3)] unfolding aspace_def upage_def by blast
  from assms(4) have "va - PGROUNDDOWN va' = va' - PGROUNDDOWN va'"
    unfolding uaddr_def up pg by (rule add_left_imp_eq)
  then show ?thesis by (simp only: diff_add_cancel diff_eq_eq)
qed

lemma uaddr_not_table:
  assumes "aspace m tab root" and "upage m tab va \<noteq> 0" and "p \<in> ran tab"
  shows "uaddr m tab va \<notin> page_of p"
proof -
  have "upage m tab va \<notin> ran tab"
    using assms(1,2) upage_vpage [OF assms(2)] unfolding aspace_def upage_def by blast
  then have "p \<noteq> upage m tab va" using assms(3) by auto
  moreover have "page_aligned p"
    using assms(1,3) pt_repD(2) table_pageD(1) unfolding aspace_def ran_def by fast
  ultimately have "page_of p \<inter> page_of (upage m tab va) = {}"
    by (intro page_disjoint) (simp_all add: upage_def)
  then show ?thesis using uaddr_in_page [of m tab va] by blast
qed

end
