(* ===== verification/Usermem.thy ===== *)
theory Usermem
  imports Pagetable
begin

text \<open>
  User memory on top of the page-table refinement: what \<open>copyin\<close>, \<open>copyout\<close> and
  \<open>copyinstr\<close> of \<^verbatim>\<open>kernel/vm.c\<close> do to the bytes a user address denotes, for
  ranges that cross page boundaries, and when they fail.
\<close>

section \<open>The chunks of a range\<close>

lemma page_div: "b < 4096 \<Longrightarrow> (q * 4096 + b) div 4096 = (q :: nat)"
  by simp

lemma unat_in_chunk:
  assumes "i < unat (chunk va len)"
  shows "unat (va + of_nat i) = unat va + i" and "PGROUNDDOWN (va + of_nat i) = PGROUNDDOWN va"
proof -
  have i: "i < 4096 - unat va mod 4096" using assms by (simp add: unat_chunk)
  have "unat va < 2 ^ 64" using unsigned_less [of va, where 'a = nat] by simp
  then have q: "unat va div 4096 < 2 ^ 52" by (simp add: less_mult_imp_div_less)
  have d: "unat va = unat va div 4096 * 4096 + unat va mod 4096" by simp
  have "unat va div 4096 \<le> 4503599627370495" using q by simp
  then have "unat va div 4096 * 4096 \<le> 18446744073709547520" by linarith
  moreover have "unat va mod 4096 + i < 4096" using i by simp
  ultimately have "unat va + i < 18446744073709551616" using d by linarith
  then show u: "unat (va + of_nat i) = unat va + i" by (simp add: unat_word_ariths unat_of_nat)
  have "(unat va div 4096 * 4096 + (unat va mod 4096 + i)) div 4096 = unat va div 4096"
    by (rule page_div) (use i in simp)
  then have "(unat va + i) div 4096 = unat va div 4096" by (simp only: add.assoc [symmetric] d [symmetric])
  then show "PGROUNDDOWN (va + of_nat i) = PGROUNDDOWN va"
    by (simp add: word_unat_eq_iff unat_PGROUNDDOWN u)
qed

lemma uaddr_in_chunk:
  assumes "i < unat (chunk va len)"
  shows "uaddr m tab (va + of_nat i) = upage m tab va + (va - PGROUNDDOWN va) + of_nat i"
    and "upage m tab (va + of_nat i) = upage m tab va"
  by (simp_all add: uaddr_def upage_def unat_in_chunk(2) [OF assms])

lemma chunk_next:
  assumes "unat (chunk va len) < unat len"
  shows "PGROUNDDOWN va + 4096 = va + chunk va len"
proof -
  have "chunk va len = 4096 - (va - PGROUNDDOWN va)"
    using assms by (auto simp: chunk_def Let_def)
  then show ?thesis by simp
qed

lemma chunk_le: "unat (chunk va len) \<le> unat len"
  by (simp add: unat_chunk)

lemma chunk_pos: "0 < len \<Longrightarrow> 0 < unat (chunk va len)"
  by (simp add: unat_chunk word_less_nat_alt)

lemma unat_rest: "unat (len - chunk va len) = unat len - unat (chunk va len)"
  using chunk_le [of va len] by (simp add: unat_sub word_le_nat_alt)

text \<open>Byte \<open>i\<close> of the range, past the first chunk, is byte \<open>i - n\<close> of what remains.\<close>

lemma past_chunk:
  assumes "unat (chunk va len) \<le> i" and "i < unat len"
  shows "va + of_nat i = PGROUNDDOWN va + 4096 + of_nat (i - unat (chunk va len))"
proof -
  have "va + of_nat i = va + chunk va len + of_nat (i - unat (chunk va len))"
    using assms(1) by (simp add: of_nat_diff)
  then show ?thesis using chunk_next [of va len] assms by simp
qed

lemma umapped_split:
  assumes "0 < len"
  shows "umapped m tab va len \<longleftrightarrow>
     upage m tab va \<noteq> 0 \<and> umapped m tab (PGROUNDDOWN va + 4096) (len - chunk va len)"
proof -
  let ?n = "unat (chunk va len)"
  have "umapped m tab va len \<longleftrightarrow>
      (\<forall>i < ?n. upage m tab (va + of_nat i) \<noteq> 0) \<and> (\<forall>i < unat len. ?n \<le> i \<longrightarrow> upage m tab (va + of_nat i) \<noteq> 0)"
    using chunk_le [of va len] by (auto simp: umapped_def not_less dest: leI)
  also have "(\<forall>i < ?n. upage m tab (va + of_nat i) \<noteq> 0) \<longleftrightarrow> upage m tab va \<noteq> 0"
    using chunk_pos [OF assms, of va] by (auto simp: uaddr_in_chunk(2))
  also have "(\<forall>i < unat len. ?n \<le> i \<longrightarrow> upage m tab (va + of_nat i) \<noteq> 0) \<longleftrightarrow>
      umapped m tab (PGROUNDDOWN va + 4096) (len - chunk va len)"
    unfolding umapped_def unat_rest
  proof (intro iffI allI impI)
    fix j assume "\<forall>i < unat len. ?n \<le> i \<longrightarrow> upage m tab (va + of_nat i) \<noteq> 0" and "j < unat len - ?n"
    then have "upage m tab (va + of_nat (?n + j)) \<noteq> 0" by (simp del: of_nat_add)
    moreover have "va + of_nat (?n + j) = PGROUNDDOWN va + 4096 + of_nat j"
      using past_chunk [of va len "?n + j"] \<open>j < unat len - ?n\<close> by (simp del: of_nat_add)
    ultimately show "upage m tab (PGROUNDDOWN va + 4096 + of_nat j) \<noteq> 0" by (simp del: of_nat_add)
  next
    fix i assume "\<forall>j < unat len - ?n. upage m tab (PGROUNDDOWN va + 4096 + of_nat j) \<noteq> 0"
      and "i < unat len" and "?n \<le> i"
    moreover from this have "va + of_nat i = PGROUNDDOWN va + 4096 + of_nat (i - ?n)" by (intro past_chunk)
    moreover have "i - ?n < unat len - ?n" using \<open>i < unat len\<close> \<open>?n \<le> i\<close> by simp
    ultimately show "upage m tab (va + of_nat i) \<noteq> 0" by (simp only: not_False_eq_True)
  qed
  finally show ?thesis .
qed

lemma umapped_0 [simp]: "umapped m tab va 0"
  by (simp add: umapped_def)

section \<open>copyin\<close>

lemma copyin_from_spec:
  assumes rep: "pt_rep (mem s) tab root"
  shows "\<exists>dst'. copyin_from root dst k va len s =
       Ok (if umapped (mem s) tab va len then 0 else -1, dst', s) \<and>
     (\<forall>i. i < k \<or> k + unat len \<le> i \<longrightarrow> dst' i = dst i) \<and>
     (umapped (mem s) tab va len \<longrightarrow>
       (\<forall>i < unat len. dst' (k + i) = mem s (uaddr (mem s) tab (va + of_nat i))))"
proof (induction "unat len" arbitrary: dst k va len rule: less_induct)
  case less
  show ?case
  proof (cases "0 < len")
    case False
    then have "len = 0" by (simp add: word_less_nat_alt word_unat_eq_iff)
    then show ?thesis by (simp add: copyin_from.simps)
  next
    case True
    let ?n = "unat (chunk va len)"
    let ?va = "PGROUNDDOWN va + 4096"
    let ?dst = "\<lambda>i. if k \<le> i \<and> i < k + ?n
      then mem s (upage (mem s) tab va + (va - PGROUNDDOWN va) + of_nat (i - k)) else dst i"
    note w = walkaddr_spec [OF rep, of "PGROUNDDOWN va", folded upage_def]
    show ?thesis
    proof (cases "upage (mem s) tab va = 0")
      case True
      then have "\<not> umapped (mem s) tab va len" using umapped_split [OF \<open>0 < len\<close>] by blast
      with True \<open>0 < len\<close> w show ?thesis by (simp add: copyin_from.simps)
    next
      case False
      have run: "copyin_from root dst k va len s = copyin_from root ?dst (k + ?n) ?va (len - chunk va len) s"
        using w False \<open>0 < len\<close> by (subst copyin_from.simps) (simp add: Let_def)
      from less(1) [OF chunk_decreases [OF \<open>0 < len\<close>], of ?dst "k + ?n" ?va va] obtain dst' where
        IH: "copyin_from root ?dst (k + ?n) ?va (len - chunk va len) s =
            Ok (if umapped (mem s) tab ?va (len - chunk va len) then 0 else -1, dst', s)"
          "\<forall>i. i < k + ?n \<or> k + ?n + unat (len - chunk va len) \<le> i \<longrightarrow> dst' i = ?dst i"
          "umapped (mem s) tab ?va (len - chunk va len) \<longrightarrow>
            (\<forall>i < unat (len - chunk va len). dst' (k + ?n + i) = mem s (uaddr (mem s) tab (?va + of_nat i)))"
        by blast
      have um: "umapped (mem s) tab va len = umapped (mem s) tab ?va (len - chunk va len)"
        using umapped_split [OF \<open>0 < len\<close>] False by blast
      have 1: "dst' i = dst i" if "i < k \<or> k + unat len \<le> i" for i
      proof -
        have "i < k + ?n \<or> k + ?n + unat (len - chunk va len) \<le> i" and out: "\<not> (k \<le> i \<and> i < k + ?n)"
          using that chunk_le [of va len] unat_rest [of len va] by linarith+
        then have "dst' i = ?dst i" using IH(2) by blast
        then show ?thesis using out by argo
      qed
      have 2: "dst' (k + i) = mem s (uaddr (mem s) tab (va + of_nat i))"
        if u: "umapped (mem s) tab va len" and i: "i < unat len" for i
      proof (cases "i < ?n")
        case True
        then have "dst' (k + i) = ?dst (k + i)" using IH(2) by simp
        also have "\<dots> = mem s (upage (mem s) tab va + (va - PGROUNDDOWN va) + of_nat i)"
          using True by simp
        finally show ?thesis by (simp only: uaddr_in_chunk(1) [OF True])
      next
        case False
        have "va + of_nat i = ?va + of_nat (i - ?n)"
          by (rule past_chunk) (use i False in simp_all)
        moreover have "i - ?n < unat (len - chunk va len)" "k + ?n + (i - ?n) = k + i"
          using i False chunk_le [of va len] unat_rest [of len va] by linarith+
        ultimately show ?thesis using IH(3) u um by metis
      qed
      show ?thesis
      proof (intro exI conjI)
        show "copyin_from root dst k va len s = Ok (if umapped (mem s) tab va len then 0 else -1, dst', s)"
          by (simp only: run IH(1) um)
      qed (use 1 2 in blast)+
    qed
  qed
qed

lemma copyin_spec:
  assumes "pt_rep (mem s) tab root"
  obtains dst' where "copyin root dst va len s = Ok (if umapped (mem s) tab va len then 0 else -1, dst', s)"
    and "\<And>i. unat len \<le> i \<Longrightarrow> dst' i = dst i"
    and "\<And>i. umapped (mem s) tab va len \<Longrightarrow> i < unat len \<Longrightarrow> dst' i = mem s (uaddr (mem s) tab (va + of_nat i))"
  using copyin_from_spec [OF assms, of dst 0 va len] by (auto simp: copyin_def)

section \<open>copyout\<close>

lemma aspace_cong:
  assumes "aspace m tab root" and "\<And>p x. p \<in> ran tab \<Longrightarrow> x \<in> page_of p \<Longrightarrow> m' x = m x"
  shows "aspace m' tab root" and "xlate m' tab = xlate m tab"
proof -
  have rep: "pt_rep m tab root" using assms(1) by (simp add: aspace_def)
  have "pt_rep m' tab root" and pte: "pte_at m' tab = pte_at m tab"
    using pt_rep_cong [OF rep, of m'] assms(2) by (auto intro!: ext intro: ranI)
  then show x: "xlate m' tab = xlate m tab" by (simp add: xlate_def fun_eq_iff)
  show "aspace m' tab root"
    using assms(1) \<open>pt_rep m' tab root\<close> unfolding aspace_def x by blast
qed

lemma uview_cong:
  assumes "xlate m' tab = xlate m tab"
  shows "upage m' tab = upage m tab" and "uaddr m' tab = uaddr m tab" and "umapped m' tab = umapped m tab"
proof -
  show u: "upage m' tab = upage m tab" using assms by (simp add: upage_def fun_eq_iff)
  then show "uaddr m' tab = uaddr m tab" "umapped m' tab = umapped m tab"
    by (simp_all add: uaddr_def umapped_def fun_eq_iff)
qed

text \<open>The physical addresses of the mapped bytes of a user range.\<close>

definition uaddrs :: "bytemem \<Rightarrow> tables \<Rightarrow> uint64 \<Rightarrow> uint64 \<Rightarrow> uint64 set" where
  "uaddrs m tab va len = {uaddr m tab (va + of_nat i) | i. i < unat len \<and> upage m tab (va + of_nat i) \<noteq> 0}"

lemma uaddrs_rest: "uaddrs m tab (PGROUNDDOWN va + 4096) (len - chunk va len) \<subseteq> uaddrs m tab va len"
proof
  fix x assume "x \<in> uaddrs m tab (PGROUNDDOWN va + 4096) (len - chunk va len)"
  then obtain j where j: "j < unat len - unat (chunk va len)"
    "x = uaddr m tab (PGROUNDDOWN va + 4096 + of_nat j)" "upage m tab (PGROUNDDOWN va + 4096 + of_nat j) \<noteq> 0"
    by (auto simp: uaddrs_def unat_rest)
  let ?i = "unat (chunk va len) + j"
  have "va + of_nat ?i = PGROUNDDOWN va + 4096 + of_nat (?i - unat (chunk va len))"
    by (rule past_chunk) (use j(1) in simp_all)
  then have "va + of_nat ?i = PGROUNDDOWN va + 4096 + of_nat j" by (simp del: of_nat_add)
  with j show "x \<in> uaddrs m tab va len"
    unfolding uaddrs_def by (intro CollectI exI [of _ ?i]) (simp del: of_nat_add)
qed

text \<open>Writing one chunk.\<close>

lemma write_chunk:
  fixes src :: chars and len :: uint64
  assumes sp: "aspace m tab root" and up: "upage m tab va \<noteq> 0"
  defines "m' \<equiv> mwrite m (upage m tab va + (va - PGROUNDDOWN va)) (map src [0..<unat (chunk va len)])"
  shows "i < unat (chunk va len) \<Longrightarrow> m' (uaddr m tab (va + of_nat i)) = src i"
    and "x \<notin> uaddrs m tab va len \<Longrightarrow> m' x = m x"
    and "x \<notin> page_of (upage m tab va) \<Longrightarrow> m' x = m x"
    and "aspace m' tab root" and "xlate m' tab = xlate m tab"
proof -
  let ?n = "unat (chunk va len)"
  let ?b = "upage m tab va + (va - PGROUNDDOWN va)"
  have n: "?n \<le> 4096" by (simp add: unat_chunk)
  have m': "m' x = (if unat (x - ?b) < ?n then src (unat (x - ?b)) else m x)" for x
    unfolding m'_def using n by (simp add: mwrite_apply)
  have addr: "uaddr m tab (va + of_nat i) = ?b + of_nat i" if "i < ?n" for i
    by (rule uaddr_in_chunk(1) [OF that])
  show "m' (uaddr m tab (va + of_nat i)) = src i" if "i < ?n" for i
    using that n by (simp add: addr m' unat_of_nat)
  have in_chunk: "\<exists>i < ?n. x = uaddr m tab (va + of_nat i)" if "m' x \<noteq> m x" for x
    using that addr [of "unat (x - ?b)"] by (auto simp: m' split: if_splits)
  show "m' x = m x" if "x \<notin> uaddrs m tab va len" for x
  proof (rule ccontr)
    assume "m' x \<noteq> m x"
    from in_chunk [OF this] obtain i where i: "i < ?n" "x = uaddr m tab (va + of_nat i)" by blast
    then have "i < unat len" "upage m tab (va + of_nat i) \<noteq> 0"
      using chunk_le [of va len] uaddr_in_chunk(2) [OF i(1)] up by simp_all
    with i(2) have "x \<in> uaddrs m tab va len" unfolding uaddrs_def by blast
    with that show False by contradiction
  qed
  show out: "m' x = m x" if "x \<notin> page_of (upage m tab va)" for x
  proof (rule ccontr)
    assume "m' x \<noteq> m x"
    from in_chunk [OF this] have "x \<in> page_of (upage m tab va)"
      using uaddr_in_page [of m tab] uaddr_in_chunk(2) [of _ va len m tab] by metis
    with that show False by contradiction
  qed
  have tables: "m' x = m x" if "p \<in> ran tab" "x \<in> page_of p" for p x
  proof (rule ccontr)
    assume "m' x \<noteq> m x"
    from in_chunk [OF this] uaddr_not_table [OF sp _ that(1)] uaddr_in_chunk(2) [of _ va len m tab] up that(2)
    show False by metis
  qed
  show "aspace m' tab root" "xlate m' tab = xlate m tab"
    using aspace_cong [OF sp, of m'] tables by blast+
qed

lemma chunk_not_in_rest:
  assumes sp: "aspace m tab root" and up: "upage m tab va \<noteq> 0" and i: "i < unat (chunk va len)"
  shows "uaddr m tab (va + of_nat i) \<notin> uaddrs m tab (PGROUNDDOWN va + 4096) (len - chunk va len)"
proof
  assume "uaddr m tab (va + of_nat i) \<in> uaddrs m tab (PGROUNDDOWN va + 4096) (len - chunk va len)"
  then obtain j where j: "j < unat len - unat (chunk va len)"
    "uaddr m tab (va + of_nat i) = uaddr m tab (PGROUNDDOWN va + 4096 + of_nat j)"
    "upage m tab (PGROUNDDOWN va + 4096 + of_nat j) \<noteq> 0"
    by (auto simp: uaddrs_def unat_rest)
  let ?k = "unat (chunk va len) + j"
  have "va + of_nat ?k = PGROUNDDOWN va + 4096 + of_nat (?k - unat (chunk va len))"
    by (rule past_chunk) (use j(1) in simp_all)
  then have k: "va + of_nat ?k = PGROUNDDOWN va + 4096 + of_nat j" by (simp del: of_nat_add)
  have "va + of_nat i = va + of_nat ?k"
    unfolding k by (rule uaddr_inject [OF sp _ j(3,2)]) (simp add: uaddr_in_chunk(2) [OF i] up)
  then have "(of_nat i :: uint64) = of_nat ?k" by (rule add_left_imp_eq)
  moreover have "i < 2 ^ 64" "?k < 2 ^ 64"
    using i j(1) chunk_le [of va len] unsigned_less [of len, where 'a = nat] by simp_all
  ultimately have "i = ?k" by (metis unat_of_nat_64)
  with i show False by simp
qed

lemma copyout_spec:
  assumes "aspace (mem s) tab root"
  shows "\<exists>m'. copyout root va src len s = Ok (if umapped (mem s) tab va len then 0 else -1, s\<lparr>mem := m'\<rparr>) \<and>
     aspace m' tab root \<and> xlate m' tab = xlate (mem s) tab \<and>
     (\<forall>x. x \<notin> uaddrs (mem s) tab va len \<longrightarrow> m' x = mem s x) \<and>
     (umapped (mem s) tab va len \<longrightarrow> (\<forall>i < unat len. m' (uaddr (mem s) tab (va + of_nat i)) = src i))"
  using assms
proof (induction "unat len" arbitrary: s va src len rule: less_induct)
  case less
  have rep: "pt_rep (mem s) tab root" using less(2) by (simp add: aspace_def)
  note w = walkaddr_spec [OF rep, of "PGROUNDDOWN va", folded upage_def]
  show ?case
  proof (cases "0 < len")
    case False
    then have "len = 0" by (simp add: word_less_nat_alt word_unat_eq_iff)
    then show ?thesis using less(2) by (intro exI [of _ "mem s"]) (simp add: copyout.simps)
  next
    case len: True
    let ?n = "unat (chunk va len)"
    let ?va = "PGROUNDDOWN va + 4096"
    let ?m = "mwrite (mem s) (upage (mem s) tab va + (va - PGROUNDDOWN va)) (map src [0..<?n])"
    let ?s = "s\<lparr>mem := ?m\<rparr>"
    show ?thesis
    proof (cases "upage (mem s) tab va = 0")
      case True
      then have "\<not> umapped (mem s) tab va len" using umapped_split [OF len] by blast
      with True len w less(2) show ?thesis
        by (intro exI [of _ "mem s"]) (simp add: copyout.simps)
    next
      case False
      note wc = write_chunk [OF less(2) False, where len = len and src = src]
      have run: "copyout root va src len s = copyout root ?va (\<lambda>i. src (i + ?n)) (len - chunk va len) ?s"
        using w False len by (subst copyout.simps) (simp add: Let_def)
      have "aspace (mem ?s) tab root" using wc(4) by simp
      from less(1) [OF chunk_decreases [OF len, of va] this, of ?va "\<lambda>i. src (i + ?n)"] obtain m' where
        IH: "copyout root ?va (\<lambda>i. src (i + ?n)) (len - chunk va len) ?s =
              Ok (if umapped (mem s) tab ?va (len - chunk va len) then 0 else -1, s\<lparr>mem := m'\<rparr>)"
          "aspace m' tab root" "xlate m' tab = xlate (mem s) tab"
          "\<And>x. x \<notin> uaddrs (mem s) tab ?va (len - chunk va len) \<Longrightarrow> m' x = ?m x"
          "\<And>i. umapped (mem s) tab ?va (len - chunk va len) \<Longrightarrow> i < unat (len - chunk va len) \<Longrightarrow>
            m' (uaddr (mem s) tab (?va + of_nat i)) = src (i + ?n)"
        using wc(5) uview_cong [OF wc(5)] by (auto simp: uaddrs_def)
      have um: "umapped (mem s) tab va len = umapped (mem s) tab ?va (len - chunk va len)"
        using umapped_split [OF len] False by blast
      have 1: "m' x = mem s x" if "x \<notin> uaddrs (mem s) tab va len" for x
      proof -
        have "m' x = ?m x" by (rule IH(4)) (use that uaddrs_rest [of "mem s" tab va len] in blast)
        also have "\<dots> = mem s x" by (rule wc(2) [OF that])
        finally show ?thesis .
      qed
      have 2: "m' (uaddr (mem s) tab (va + of_nat i)) = src i"
        if u: "umapped (mem s) tab va len" and i: "i < unat len" for i
      proof (cases "i < ?n")
        case True
        then show ?thesis
          using IH(4) [OF chunk_not_in_rest [OF less(2) False True]] wc(1) [OF True] by (simp only:)
      next
        case False
        have "va + of_nat i = ?va + of_nat (i - ?n)"
          by (rule past_chunk) (use i False in simp_all)
        moreover have "i - ?n < unat (len - chunk va len)" "i - ?n + ?n = i"
          using i False chunk_le [of va len] unat_rest [of len va] by linarith+
        ultimately show ?thesis using IH(5) u um by metis
      qed
      show ?thesis
      proof (intro exI conjI)
        show "copyout root va src len s = Ok (if umapped (mem s) tab va len then 0 else -1, s\<lparr>mem := m'\<rparr>)"
          by (simp only: run IH(1) um)
      qed (use 1 2 IH(2,3) in blast)+
    qed
  qed
qed

section \<open>copyinstr\<close>

definition ubyte :: "bytemem \<Rightarrow> tables \<Rightarrow> uint64 \<Rightarrow> uint8" where
  "ubyte m tab va = m (uaddr m tab va)"

lemma copyinstr_page_more:
  assumes "\<forall>j < n. m (p + of_nat j) \<noteq> 0"
  shows "\<exists>dst'. copyinstr_page n p k m dst = (False, k + n, dst') \<and>
     (\<forall>j < n. dst' (k + j) = m (p + of_nat j)) \<and> (\<forall>i. i < k \<or> k + n \<le> i \<longrightarrow> dst' i = dst i)"
  using assms
proof (induction n arbitrary: p k dst)
  case (Suc n)
  have p: "m p \<noteq> 0" using Suc.prems by (auto dest: spec [of _ 0])
  have "\<forall>j < n. m (p + 1 + of_nat j) \<noteq> 0"
    using Suc.prems by (auto simp: algebra_simps dest: spec [of _ "Suc _"])
  from Suc.IH [OF this, of "Suc k" "dst(k := m p)"] obtain dst' where
    IH: "copyinstr_page n (p + 1) (Suc k) m (dst(k := m p)) = (False, Suc k + n, dst')"
      "\<forall>j < n. dst' (Suc k + j) = m (p + 1 + of_nat j)"
      "\<forall>i. i < Suc k \<or> Suc k + n \<le> i \<longrightarrow> dst' i = (dst(k := m p)) i" by blast
  have "dst' (k + j) = m (p + of_nat j)" if "j < Suc n" for j
  proof (cases j)
    case 0
    then show ?thesis using IH(3) by simp
  next
    case (Suc i)
    then show ?thesis using IH(2) that by (auto simp: algebra_simps dest: spec [of _ i])
  qed
  then show ?case using IH(1,3) p by simp
qed simp

lemma copyinstr_page_end:
  assumes "l < n" and "m (p + of_nat l) = 0" and "\<forall>j < l. m (p + of_nat j) \<noteq> 0"
  shows "\<exists>dst'. copyinstr_page n p k m dst = (True, k + l, dst') \<and>
     (\<forall>j \<le> l. dst' (k + j) = m (p + of_nat j)) \<and> (\<forall>i. i < k \<or> k + l < i \<longrightarrow> dst' i = dst i)"
  using assms
proof (induction n arbitrary: p k dst l)
  case (Suc n)
  show ?case
  proof (cases l)
    case 0
    then show ?thesis using Suc.prems by simp
  next
    case (Suc l')
    have p: "m p \<noteq> 0" using Suc.prems Suc by (auto dest: spec [of _ 0])
    have "\<exists>dst'. copyinstr_page n (p + 1) (Suc k) m (dst(k := m p)) = (True, Suc k + l', dst') \<and>
      (\<forall>j \<le> l'. dst' (Suc k + j) = m (p + 1 + of_nat j)) \<and>
      (\<forall>i. i < Suc k \<or> Suc k + l' < i \<longrightarrow> dst' i = (dst(k := m p)) i)"
      using Suc.prems Suc by (intro Suc.IH) (auto simp: algebra_simps dest: spec [of _ "Suc _"])
    then obtain dst' where
      IH: "copyinstr_page n (p + 1) (Suc k) m (dst(k := m p)) = (True, Suc k + l', dst')"
        "\<forall>j \<le> l'. dst' (Suc k + j) = m (p + 1 + of_nat j)"
        "\<forall>i. i < Suc k \<or> Suc k + l' < i \<longrightarrow> dst' i = (dst(k := m p)) i" by blast
    have "dst' (k + j) = m (p + of_nat j)" if "j \<le> l" for j
    proof (cases j)
      case 0
      then show ?thesis using IH(3) by simp
    next
      case (Suc i)
      then show ?thesis using IH(2) that \<open>l = Suc l'\<close> by (auto simp: algebra_simps dest: spec [of _ i])
    qed
    then show ?thesis using IH(1,3) p Suc by simp
  qed
qed simp

lemma ubyte_in_chunk:
  "j < unat (chunk va len) \<Longrightarrow> m (upage m tab va + (va - PGROUNDDOWN va) + of_nat j) = ubyte m tab (va + of_nat j)"
  by (simp add: ubyte_def uaddr_in_chunk(1))

lemma past_chunk_add:
  "j < unat len - unat (chunk va len) \<Longrightarrow> PGROUNDDOWN va + 4096 + of_nat j = va + of_nat (unat (chunk va len) + j)"
  using past_chunk [of va len "unat (chunk va len) + j"] by (simp del: of_nat_add)

lemma copyinstr_run:
  assumes "pt_rep (mem s) tab root" and "0 < max'" and "upage (mem s) tab va \<noteq> 0"
  shows "copyinstr_from root dst k va max' s =
    (case copyinstr_page (unat (chunk va max')) (upage (mem s) tab va + (va - PGROUNDDOWN va)) k (mem s) dst of
       (got_null, k', dst) \<Rightarrow>
         if got_null then Ok (0, dst, s)
         else copyinstr_from root dst k' (PGROUNDDOWN va + 4096) (max' - chunk va max') s)"
  using walkaddr_spec [OF assms(1), of "PGROUNDDOWN va", folded upage_def] assms(2,3)
  by (subst copyinstr_from.simps) (simp add: Let_def split: prod.splits)

lemma copyinstr_from_found:
  assumes rep: "pt_rep (mem s) tab root"
  shows "l < unat max' \<Longrightarrow> \<forall>i \<le> l. upage (mem s) tab (va + of_nat i) \<noteq> 0 \<Longrightarrow>
     ubyte (mem s) tab (va + of_nat l) = 0 \<Longrightarrow> \<forall>i < l. ubyte (mem s) tab (va + of_nat i) \<noteq> 0 \<Longrightarrow>
     \<exists>dst'. copyinstr_from root dst k va max' s = Ok (0, dst', s) \<and>
       (\<forall>i \<le> l. dst' (k + i) = ubyte (mem s) tab (va + of_nat i)) \<and>
       (\<forall>i. i < k \<or> k + l < i \<longrightarrow> dst' i = dst i)"
proof (induction "unat max'" arbitrary: dst k va max' l rule: less_induct)
  case less
  then have len: "0 < max'" by (simp add: word_less_nat_alt)
  let ?n = "unat (chunk va max')"
  let ?va = "PGROUNDDOWN va + 4096"
  let ?p = "upage (mem s) tab va + (va - PGROUNDDOWN va)"
  have up: "upage (mem s) tab va \<noteq> 0" using less.prems(2) by (auto dest: spec [of _ 0])
  have run: "copyinstr_from root dst k va max' s =
    (case copyinstr_page ?n ?p k (mem s) dst of (got_null, k', dst) \<Rightarrow>
       if got_null then Ok (0, dst, s) else copyinstr_from root dst k' ?va (max' - chunk va max') s)"
    by (rule copyinstr_run [OF rep len up])
  note byte = ubyte_in_chunk [of _ va max' "mem s" tab]
  show ?case
  proof (cases "l < ?n")
    case True
    have "\<exists>dst'. copyinstr_page ?n ?p k (mem s) dst = (True, k + l, dst') \<and>
       (\<forall>j \<le> l. dst' (k + j) = mem s (?p + of_nat j)) \<and> (\<forall>i. i < k \<or> k + l < i \<longrightarrow> dst' i = dst i)"
      using True less.prems(3,4) by (intro copyinstr_page_end) (simp_all add: byte)
    then show ?thesis using run True by (fastforce simp: byte)
  next
    case False
    have "\<exists>dst'. copyinstr_page ?n ?p k (mem s) dst = (False, k + ?n, dst') \<and>
       (\<forall>j < ?n. dst' (k + j) = mem s (?p + of_nat j)) \<and> (\<forall>i. i < k \<or> k + ?n \<le> i \<longrightarrow> dst' i = dst i)"
      using False less.prems(4) by (intro copyinstr_page_more) (simp add: byte)
    then obtain dst1 where d1: "copyinstr_page ?n ?p k (mem s) dst = (False, k + ?n, dst1)"
      "\<forall>j < ?n. dst1 (k + j) = ubyte (mem s) tab (va + of_nat j)" "\<forall>i. i < k \<or> k + ?n \<le> i \<longrightarrow> dst1 i = dst i"
      by (auto simp: byte)
    have l: "l - ?n < unat (max' - chunk va max')" using less.prems(1) False by (simp add: unat_rest)
    have va: "?va + of_nat j = va + of_nat (?n + j)" if "j \<le> l - ?n" for j
      using that l by (intro past_chunk_add) (simp add: unat_rest)
    have "\<exists>dst'. copyinstr_from root dst1 (k + ?n) ?va (max' - chunk va max') s = Ok (0, dst', s) \<and>
       (\<forall>i \<le> l - ?n. dst' (k + ?n + i) = ubyte (mem s) tab (?va + of_nat i)) \<and>
       (\<forall>i. i < k + ?n \<or> k + ?n + (l - ?n) < i \<longrightarrow> dst' i = dst1 i)"
    proof (rule less.hyps [OF chunk_decreases [OF len] l])
      show "\<forall>i \<le> l - ?n. upage (mem s) tab (?va + of_nat i) \<noteq> 0"
        using va less.prems(2) False by (auto simp del: of_nat_add)
      show "ubyte (mem s) tab (?va + of_nat (l - ?n)) = 0"
        using va [of "l - ?n"] less.prems(3) False by (simp del: of_nat_add of_nat_diff)
      show "\<forall>i < l - ?n. ubyte (mem s) tab (?va + of_nat i) \<noteq> 0"
        using va less.prems(4) False by (auto simp del: of_nat_add)
    qed
    then obtain dst' where d': "copyinstr_from root dst1 (k + ?n) ?va (max' - chunk va max') s = Ok (0, dst', s)"
      "\<And>i. i \<le> l - ?n \<Longrightarrow> dst' (k + ?n + i) = ubyte (mem s) tab (va + of_nat (?n + i))"
      "\<And>i. i < k + ?n \<or> k + l < i \<Longrightarrow> dst' i = dst1 i"
      using va False by (auto simp del: of_nat_add)
    have "dst' (k + i) = ubyte (mem s) tab (va + of_nat i)" if "i \<le> l" for i
    proof (cases "i < ?n")
      case True
      then show ?thesis using d'(3) d1(2) by simp
    next
      case False
      then show ?thesis using d'(2) [of "i - ?n"] that by (simp del: of_nat_add of_nat_diff)
    qed
    moreover have "dst' i = dst i" if "i < k \<or> k + l < i" for i
      using that d'(3) [of i] d1(3) False by auto
    ultimately show ?thesis using run d1(1) d'(1) by simp
  qed
qed

lemma copyinstr_from_not_found:
  assumes rep: "pt_rep (mem s) tab root"
  shows "\<forall>l < unat max'. (\<forall>i \<le> l. upage (mem s) tab (va + of_nat i) \<noteq> 0) \<longrightarrow> ubyte (mem s) tab (va + of_nat l) \<noteq> 0 \<Longrightarrow>
     \<exists>dst'. copyinstr_from root dst k va max' s = Ok (-1, dst', s)"
proof (induction "unat max'" arbitrary: dst k va max' rule: less_induct)
  case less
  let ?n = "unat (chunk va max')"
  let ?va = "PGROUNDDOWN va + 4096"
  let ?p = "upage (mem s) tab va + (va - PGROUNDDOWN va)"
  note w = walkaddr_spec [OF rep, of "PGROUNDDOWN va", folded upage_def]
  note byte = ubyte_in_chunk [of _ va max' "mem s" tab]
  show ?case
  proof (cases "0 < max' \<and> upage (mem s) tab va \<noteq> 0")
    case False
    then show ?thesis using w by (auto simp: copyinstr_from.simps)
  next
    case True
    then have len: "0 < max'" and up: "upage (mem s) tab va \<noteq> 0" by auto
    have mapped: "upage (mem s) tab (va + of_nat i) \<noteq> 0" if "i < ?n" for i
      using uaddr_in_chunk(2) [OF that] up by simp
    have run: "copyinstr_from root dst k va max' s =
      (case copyinstr_page ?n ?p k (mem s) dst of (got_null, k', dst) \<Rightarrow>
         if got_null then Ok (0, dst, s) else copyinstr_from root dst k' ?va (max' - chunk va max') s)"
      by (rule copyinstr_run [OF rep len up])
    have "ubyte (mem s) tab (va + of_nat j) \<noteq> 0" if "j < ?n" for j
      using less.prems mapped that chunk_le [of va max'] by (meson le_less_trans less_le_trans)
    then have "\<forall>j < ?n. mem s (?p + of_nat j) \<noteq> 0" by (simp add: byte)
    from copyinstr_page_more [OF this, of k dst] obtain dst1
      where d1: "copyinstr_page ?n ?p k (mem s) dst = (False, k + ?n, dst1)" by blast
    have "\<exists>dst'. copyinstr_from root dst1 (k + ?n) ?va (max' - chunk va max') s = Ok (-1, dst', s)"
    proof (rule less.hyps [OF chunk_decreases [OF len]], intro allI impI)
      fix l assume l: "l < unat (max' - chunk va max')" and up': "\<forall>i \<le> l. upage (mem s) tab (?va + of_nat i) \<noteq> 0"
      have va: "?va + of_nat j = va + of_nat (?n + j)" if "j \<le> l" for j
        using that l by (intro past_chunk_add) (simp add: unat_rest)
      have "upage (mem s) tab (va + of_nat i) \<noteq> 0" if "i \<le> ?n + l" for i
      proof (cases "i < ?n")
        case False
        then have "i - ?n \<le> l" "?n + (i - ?n) = i" using that by auto
        then show ?thesis using va [of "i - ?n"] up' by metis
      qed (rule mapped)
      moreover have "?n + l < unat max'" using l by (simp add: unat_rest)
      ultimately have "ubyte (mem s) tab (va + of_nat (?n + l)) \<noteq> 0" using less.prems by blast
      then show "ubyte (mem s) tab (?va + of_nat l) \<noteq> 0" unfolding va [OF order_refl] .
    qed
    then show ?thesis using run d1 by simp
  qed
qed

section \<open>A new address space\<close>

lemma pt_rep_empty:
  assumes "table_page p"
  shows "pt_rep (memset m p 0 4096) [Root \<mapsto> p] p" and "pte_at m' [Root \<mapsto> p] = (\<lambda>_. 0)"
proof -
  have "points_to (entry (memset m p 0 4096) p (slot n)) None" if "node_ok n" for n
    using entry_memset_zero [OF slot_less [OF that], of m p] by simp
  then show "pt_rep (memset m p 0 4096) [Root \<mapsto> p] p"
    unfolding pt_rep_def using assms by (auto split: if_splits)
  show "pte_at m' [Root \<mapsto> p] = (\<lambda>_. 0)"
    by (simp add: pte_at_entry leaf_node_def fun_eq_iff)
qed

lemma uvmcreate_spec:
  assumes "kmem_ready s (x # xs)"
  obtains s' where "uvmcreate s = Ok (x, s')" and "vm_ok s' x [Root \<mapsto> x] xs" and "mem_frame s s'"
    and "pte_at (mem s') [Root \<mapsto> x] = (\<lambda>_. 0)"
proof -
  have lk: "kmem_inv s (x # xs)" "lock_free L_kmem s" "cpu_ok s" and x: "managed s x" "x \<notin> set xs"
    using assms kpages.inv_distinct [OF assms] kpages.inv_usable [OF assms, of x] by (simp_all add: kmem_ready_def)
  obtain m fl where k: "kalloc s = Ok (x, tidy (s\<lparr>freelist := fl, mem := m\<rparr>))"
    "kmem_inv (s\<lparr>freelist := fl, mem := m\<rparr>) xs"
    using kalloc_inv_Cons [OF lk] by blast
  let ?s = "tidy (s\<lparr>freelist := fl, mem := memset m x 0 4096\<rparr>)"
  have "kmem_ready (s\<lparr>freelist := fl, mem := m\<rparr>) xs" using k(2) lk by (simp add: kmem_ready_def lock_simps)
  then have "kmem_ready ((s\<lparr>freelist := fl, mem := m\<rparr>)\<lparr>mem := memset m x 0 4096\<rparr>) xs"
  proof (rule kmem_ready_mem)
    fix p y assume p: "p \<in> set xs" and y: "y \<in> page_of p"
    have "managed s p" using kpages.inv_usable [OF assms, of p] p by simp
    then have "y \<notin> page_of x" using page_disjoint [of p x] x p y by (auto simp: managed_def)
    then show "memset m x 0 4096 y = mem (s\<lparr>freelist := fl, mem := m\<rparr>) y" by (simp add: memset_page_other)
  qed
  then have "vm_ok ?s x [Root \<mapsto> x] xs"
    using x pt_rep_empty(1) [OF managed_table_page [OF x(1)]] by (simp add: vm_ok_def lock_simps)
  moreover have "uvmcreate s = Ok (x, ?s)"
    using k(1) x(1) by (simp add: uvmcreate_def managed_def lock_simps)
  moreover have "mem_frame s ?s" by simp
  ultimately show thesis using that pt_rep_empty(2) [OF managed_table_page [OF x(1)]] by blast
qed

lemma take_bit_self_iff: "take_bit n (w :: uint64) = w \<longleftrightarrow> unat w < 2 ^ n"
  by (simp add: word_unat_eq_iff unat_take_bit mod_eq_self_iff_div_eq_0 div_eq_0_iff)

lemma take_bit_self_bit: "take_bit n (w :: uint64) = w \<Longrightarrow> bit w i \<Longrightarrow> i < n"
  by (metis bit_take_bit_iff)

text \<open>An entry made with user permission translates to its page.\<close>

lemma user_pte:
  assumes "page_aligned p" and "p < 2 ^ 56" and perm: "perm < 2 ^ 9" "bit perm 4"
  shows "PTE2PA (PA2PTE p OR perm OR PTE_V) = p" and "(PA2PTE p OR perm OR PTE_V) AND PTE_V \<noteq> 0"
    and "(PA2PTE p OR perm OR PTE_V) AND PTE_U \<noteq> 0"
proof -
  have "take_bit 9 perm = perm" using perm(1) by (simp add: take_bit_self_iff word_less_nat_alt)
  then have "take_bit 10 (perm OR PTE_V) = perm OR PTE_V"
    by (auto intro!: bit_word_eqI simp: bit_simps dest: take_bit_self_bit)
  then have "unat (perm OR PTE_V) < 2 ^ 10" by (simp only: take_bit_self_iff)
  then have "perm OR PTE_V < 2 ^ 10" by (simp add: word_less_nat_alt)
  with PTE2PA_PA2PTE(1) [OF assms(1,2)] show "PTE2PA (PA2PTE p OR perm OR PTE_V) = p"
    by (simp only: or.assoc)
  show "(PA2PTE p OR perm OR PTE_V) AND PTE_V \<noteq> 0" "(PA2PTE p OR perm OR PTE_V) AND PTE_U \<noteq> 0"
    using perm(2) and_exp_eq_0_iff_not_bit [of "PA2PTE p OR perm OR PTE_V" 0]
      and_exp_eq_0_iff_not_bit [of "PA2PTE p OR perm OR PTE_V" 4] by (simp_all add: bit_or_iff)
qed

section \<open>Properties\<close>

text \<open>
  C5: \<open>mappages\<close> maps exactly the pages it is asked to. On an address space with the pages
  from \<open>va\<close> on unmapped it returns 0 or -1, -1 only when fewer than two free pages per
  mapped page are left; after 0, \<open>walkaddr\<close> gives page \<open>pa + i\<close> for page \<open>va + i\<close>
  and what it gave before everywhere else.
\<close>

theorem mappages_maps:
  assumes ok: "vm_ok s root tab xs" and va: "page_aligned va" "unat va + 4096 * Suc n \<le> unat MAXVA"
    and pa: "page_aligned pa" "unat pa + 4096 * Suc n \<le> 2 ^ 56" and perm: "perm < 2 ^ 9" "bit perm 4"
    and free: "\<forall>v. vpage v \<and> unat va \<le> unat v \<and> unat v < unat va + 4096 * Suc n \<longrightarrow> pte_at (mem s) tab v AND PTE_V = 0"
  shows "\<exists>r s' tab' xs'. mappages root va (of_nat (Suc n) * 4096) pa perm s = Ok (r, s') \<and>
     vm_ok s' root tab' xs' \<and> (r = 0 \<or> r = -1 \<and> length xs < 2 * Suc n) \<and>
     (r = 0 \<longrightarrow> (\<forall>v. vpage v \<longrightarrow>
        walkaddr root v s' = Ok (if unat va \<le> unat v \<and> unat v < unat va + 4096 * Suc n
          then pa + (v - va) else xlate (mem s) tab v, s') \<and>
        walkaddr root v s = Ok (xlate (mem s) tab v, s)))"
proof -
  from mappages_spec [OF ok va free, of pa perm] obtain r s' tab' xs' k where
    m: "mappages root va (of_nat (Suc n) * 4096) pa perm s = Ok (r, s')" "vm_ok s' root tab' xs'"
      "\<And>v. vpage v \<Longrightarrow> pte_at (mem s') tab' v = mapped (pte_at (mem s) tab) va k pa perm v"
      "r = 0 \<and> k = Suc n \<or> r = -1 \<and> k \<le> n \<and> xs' = [] \<and> length xs < 2 * Suc n" by blast
  have "walkaddr root v s' = Ok (if unat va \<le> unat v \<and> unat v < unat va + 4096 * Suc n
          then pa + (v - va) else xlate (mem s) tab v, s')" if r: "r = 0" and v: "vpage v" for v
  proof (cases "unat va \<le> unat v \<and> unat v < unat va + 4096 * Suc n")
    case False
    with m(3) [OF v] m(4) r have "pte_at (mem s') tab' v = pte_at (mem s) tab v"
      by (auto simp: mapped_def)
    then have "xlate (mem s') tab' v = xlate (mem s) tab v" by (simp add: xlate_def)
    with False walkaddr_spec [OF vm_okD(2) [OF m(2)], of v] show ?thesis by (simp only: if_False)
  next
    case True
    let ?p = "pa + (v - va)"
    have pte: "pte_at (mem s') tab' v = PA2PTE ?p OR perm OR PTE_V"
      using m(3) [OF v] m(4) r True by (auto simp: mapped_def)
    have d: "unat (v - va) = unat v - unat va" using True by (simp add: unat_sub word_le_nat_alt)
    have lt: "unat pa + (unat v - unat va) < 2 ^ 56" using True pa(2) by auto
    then have p: "unat ?p = unat pa + (unat v - unat va)"
      by (simp only: unat_word_ariths(1) d) simp
    have "4096 dvd unat pa" "4096 dvd unat v" "4096 dvd unat va"
      using pa(1) va(1) v by (simp_all add: page_aligned_def vpage_def mod_0_imp_dvd)
    then have "page_aligned ?p" unfolding page_aligned_def p by (simp add: dvd_imp_mod_0)
    moreover have "?p < 2 ^ 56" using lt p by (simp add: word_less_nat_alt)
    ultimately have "PTE2PA (PA2PTE ?p OR perm OR PTE_V) = ?p" "(PA2PTE ?p OR perm OR PTE_V) AND PTE_V \<noteq> 0"
      "(PA2PTE ?p OR perm OR PTE_V) AND PTE_U \<noteq> 0"
      using user_pte perm by blast+
    then have "xlate (mem s') tab' v = ?p"
      using v by (simp add: xlate_def pte vpage_def)
    then show ?thesis using True walkaddr_spec [OF vm_okD(2) [OF m(2)], of v] by simp
  qed
  with m walkaddr_spec [OF vm_okD(2) [OF ok]] show ?thesis by blast
qed

lemma booted_pages:
  "kmem_ready booted (0x87fff000 # 0x87ffe000 # 0x87ffd000 # 0x87ffc000 # 0x87ffb000 # rev (pages_from 0x80021000 32730))"
proof -
  have "32735 = Suc (Suc (Suc (Suc (Suc 32730))))" by simp
  then show ?thesis using booted_ready by (simp only: pages_from_snoc) simp
qed

theorem mappages_maps_witness:
  "\<exists>s. bindO (uvmcreate booted) (\<lambda>(pt, s). bindO (mappages pt 0x1000 0x2000 0x87000000 0x16 s) (\<lambda>(r, s).
      walkaddr pt 0x2000 s)) = Ok (0x87001000, s)"
proof -
  from uvmcreate_spec [OF booted_pages] obtain s where
    s: "uvmcreate booted = Ok (0x87fff000, s)"
      "vm_ok s 0x87fff000 [Root \<mapsto> 0x87fff000] (0x87ffe000 # 0x87ffd000 # 0x87ffc000 # 0x87ffb000 # rev (pages_from 0x80021000 32730))"
      "pte_at (mem s) [Root \<mapsto> 0x87fff000] = (\<lambda>_. 0)" by blast
  have "bit (0x16 :: uint64) 4" by (simp add: bit_numeral_rec)
  with mappages_maps [OF s(2), of "0x1000" 1 "0x87000000" "0x16"] s(3)
  obtain r s' where "mappages 0x87fff000 0x1000 0x2000 0x87000000 0x16 s = Ok (r, s')" "r = 0"
    "\<forall>v. vpage v \<longrightarrow> walkaddr 0x87fff000 v s' = Ok (if unat (0x1000 :: uint64) \<le> unat v \<and>
        unat v < unat (0x1000 :: uint64) + 4096 * Suc 1 then 0x87000000 + (v - 0x1000)
        else xlate (mem s) [Root \<mapsto> 0x87fff000] v, s')"
    by (auto simp: page_aligned_def)
  moreover have "vpage 0x2000" by (simp add: vpage_def page_aligned_def)
  ultimately show ?thesis using s(1) by auto
qed

text \<open>
  C6: copying to and from user memory. On a sound address space \<open>copyout\<close> and \<open>copyin\<close>
  succeed exactly when every page of the range is mapped for the user, however many pages
  it crosses; what \<open>copyout\<close> wrote, \<open>copyin\<close> reads back; nothing but the bytes of the range
  changes, in memory or in the buffer, and the address space stays sound with the same
  translation.
\<close>

theorem copyout_copyin:
  assumes "aspace (mem s) tab root"
  shows "\<exists>s' dst'. copyout root va src len s = Ok (if umapped (mem s) tab va len then 0 else -1, s') \<and>
     copyin root dst va len s' = Ok (if umapped (mem s) tab va len then 0 else -1, dst', s') \<and>
     (umapped (mem s) tab va len \<longrightarrow> dst' = (\<lambda>i. if i < unat len then src i else dst i)) \<and>
     {x. mem s' x \<noteq> mem s x} \<subseteq> uaddrs (mem s) tab va len \<and>
     aspace (mem s') tab root \<and> xlate (mem s') tab = xlate (mem s) tab"
proof -
  from copyout_spec [OF assms, of va src len] obtain m where
    m: "copyout root va src len s = Ok (if umapped (mem s) tab va len then 0 else -1, s\<lparr>mem := m\<rparr>)"
      "aspace m tab root" "xlate m tab = xlate (mem s) tab"
      "\<And>x. x \<notin> uaddrs (mem s) tab va len \<Longrightarrow> m x = mem s x"
      "\<And>i. umapped (mem s) tab va len \<Longrightarrow> i < unat len \<Longrightarrow> m (uaddr (mem s) tab (va + of_nat i)) = src i"
    by blast
  note same = uview_cong [OF m(3)]
  have ms: "mem (s\<lparr>mem := m\<rparr>) = m" by simp
  have "pt_rep (mem (s\<lparr>mem := m\<rparr>)) tab root" using m(2) by (simp add: aspace_def)
  from copyin_spec [OF this, of dst va len, unfolded ms same] obtain dst' where
    d: "copyin root dst va len (s\<lparr>mem := m\<rparr>) = Ok (if umapped (mem s) tab va len then 0 else -1, dst', s\<lparr>mem := m\<rparr>)"
      "\<And>i. unat len \<le> i \<Longrightarrow> dst' i = dst i"
      "\<And>i. umapped (mem s) tab va len \<Longrightarrow> i < unat len \<Longrightarrow> dst' i = m (uaddr (mem s) tab (va + of_nat i))"
    by blast
  have "dst' = (\<lambda>i. if i < unat len then src i else dst i)" if "umapped (mem s) tab va len"
    using that m(5) d(2,3) by (auto simp: fun_eq_iff)
  with m d(1) show ?thesis by (intro exI [of _ "s\<lparr>mem := m\<rparr>"] exI [of _ dst']) auto
qed

definition demo_space :: "(uint64 \<times> kmem) outcome" where
  "demo_space = bindO (uvmcreate booted) (\<lambda>(pt, s).
     bindO (mappages pt 0 0x2000 0x10000 0x16 s) (\<lambda>(r, s). Ok (pt, s)))"

lemma demo_space_ok:
  obtains s tab where "demo_space = Ok (0x87fff000, s)" and "aspace (mem s) tab 0x87fff000"
    and "\<And>v. vpage v \<Longrightarrow> xlate (mem s) tab v = (if unat v < 0x2000 then 0x10000 + v else 0)"
proof -
  from uvmcreate_spec [OF booted_pages] obtain s where
    s: "uvmcreate booted = Ok (0x87fff000, s)"
      "vm_ok s 0x87fff000 [Root \<mapsto> 0x87fff000] (0x87ffe000 # 0x87ffd000 # 0x87ffc000 # 0x87ffb000 # rev (pages_from 0x80021000 32730))"
      "pte_at (mem s) [Root \<mapsto> 0x87fff000] = (\<lambda>_. 0)" "mem_frame booted s" by blast
  from mappages_spec [OF s(2), of 0 1 "0x10000" "0x16"] s(3) obtain r s' tab xs k where
    m: "mappages 0x87fff000 0 0x2000 0x10000 0x16 s = Ok (r, s')" "vm_ok s' 0x87fff000 tab xs"
      "\<And>v. vpage v \<Longrightarrow> pte_at (mem s') tab v = mapped (\<lambda>_. 0) 0 k 0x10000 0x16 v" "r = 0" "k = Suc (Suc 0)"
      "mem_frame s s'"
    by (auto simp: grows_def)
  have x: "xlate (mem s') tab v = (if unat v < 0x2000 then 0x10000 + v else 0)" if v: "vpage v" for v
  proof (cases "unat v < 0x2000")
    case True
    have p: "unat (0x10000 + v) = 0x10000 + unat v" using True by (simp add: unat_word_ariths)
    have "page_aligned (0x10000 + v)" "0x10000 + v < 2 ^ 56"
      using v True by (auto simp: page_aligned_def vpage_def p word_less_nat_alt)
    moreover have "bit (0x16 :: uint64) 4" "(0x16 :: uint64) < 2 ^ 9" by (simp_all add: bit_numeral_rec)
    ultimately show ?thesis
      using user_pte [of "0x10000 + v" "0x16"] True v m(3) [OF v] m(5)
      by (simp add: xlate_def mapped_def vpage_def)
  next
    case False
    then show ?thesis using m(3) [OF v] m(5) by (simp add: xlate_def mapped_def)
  qed
  have "kernel_end s' = 0x80021000"
    using mem_frame_simps(1) [OF mem_frame_trans [OF s(4) m(6)]] booted_kernel_end by simp
  then have tab: "0x80021000 \<le> unat p" if "p \<in> ran tab" for p
    using m(2) that by (auto simp: vm_ok_def managed_def word_le_nat_alt)
  have "aspace (mem s') tab 0x87fff000"
    unfolding aspace_def
  proof (intro conjI allI impI)
    show "pt_rep (mem s') tab 0x87fff000" by (rule vm_okD(2) [OF m(2)])
    fix v assume v: "vpage v \<and> xlate (mem s') tab v \<noteq> 0"
    then have "unat (xlate (mem s') tab v) < 0x80021000"
      using x [of v] by (auto simp: unat_word_ariths split: if_splits)
    then show "xlate (mem s') tab v \<notin> ran tab" using tab by (auto dest: leD)
  next
    fix v v' assume "vpage v \<and> vpage v' \<and> xlate (mem s') tab v \<noteq> 0 \<and> xlate (mem s') tab v = xlate (mem s') tab v'"
    then show "v = v'" using x [of v] x [of v'] by (auto split: if_splits)
  qed
  then show thesis using that [of s' tab] s(1) m(1) x by (simp add: demo_space_def)
qed

lemma demo_umapped:
  obtains s tab where "demo_space = Ok (0x87fff000, s)" and "aspace (mem s) tab 0x87fff000"
    and "umapped (mem s) tab 0xffe 4"
proof -
  obtain s tab where s: "demo_space = Ok (0x87fff000, s)" "aspace (mem s) tab 0x87fff000"
    "\<And>v. vpage v \<Longrightarrow> xlate (mem s) tab v = (if unat v < 0x2000 then 0x10000 + v else 0)"
    using demo_space_ok by blast
  have "upage (mem s) tab (0xffe + of_nat i) \<noteq> 0" if "i < 4" for i
  proof -
    have "unat (0xffe + of_nat i :: uint64) = 0xffe + i" using that by (simp add: unat_word_ariths unat_of_nat)
    then have "unat (PGROUNDDOWN (0xffe + of_nat i)) < 0x2000" using that by (simp add: unat_PGROUNDDOWN)
    moreover from this have "0x10000 + PGROUNDDOWN (0xffe + of_nat i) \<noteq> 0"
      by (simp add: word_unat_eq_iff unat_word_ariths)
    ultimately show ?thesis
      using s(3) [of "PGROUNDDOWN (0xffe + of_nat i)"] by (simp add: upage_def vpage_def word_less_nat_alt)
  qed
  then have "umapped (mem s) tab 0xffe 4" by (simp add: umapped_def)
  with s(1,2) show thesis by (rule that)
qed

text \<open>A copy across the page boundary at 0x1000.\<close>

theorem copyout_copyin_witness:
  "\<exists>pt s s' dst. demo_space = Ok (pt, s) \<and> copyout pt 0xffe (\<lambda>i. of_nat i + 65) 4 s = Ok (0, s') \<and>
     copyin pt (\<lambda>_. 0) 0xffe 4 s' = Ok (0, dst, s') \<and> map dst [0..<5] = [65, 66, 67, 68, 0]"
proof -
  obtain s tab where s: "demo_space = Ok (0x87fff000, s)" "aspace (mem s) tab 0x87fff000"
    "umapped (mem s) tab 0xffe 4" by (rule demo_umapped)
  with s(3) copyout_copyin [OF s(2), of "0xffe" "\<lambda>i. of_nat i + 65" 4 "\<lambda>_. 0"] s(1)
  show ?thesis by (fastforce simp: upt_rec)
qed

text \<open>
  C7: \<open>copyinstr\<close> reads back a string that \<open>copyout\<close> wrote, up to and including its
  terminator and nothing more; with room for fewer bytes than the string has, it fails.
\<close>

theorem copyinstr_string:
  assumes sp: "aspace (mem s) tab root" and um: "umapped (mem s) tab va len"
    and l: "l < unat len" "src l = 0" "\<forall>i < l. src i \<noteq> 0"
  shows "\<exists>s' dst'. copyout root va src len s = Ok (0, s') \<and>
     copyinstr root dst va max' s' = Ok (if l < unat max' then 0 else -1, dst', s') \<and>
     (l < unat max' \<longrightarrow> dst' = (\<lambda>i. if i \<le> l then src i else dst i))"
proof -
  from copyout_spec [OF sp, of va src len] um obtain m where
    m: "copyout root va src len s = Ok (0, s\<lparr>mem := m\<rparr>)" "aspace m tab root" "xlate m tab = xlate (mem s) tab"
      "\<And>i. i < unat len \<Longrightarrow> m (uaddr (mem s) tab (va + of_nat i)) = src i" by auto
  note same = uview_cong [OF m(3)]
  let ?s = "s\<lparr>mem := m\<rparr>"
  have rep: "pt_rep (mem ?s) tab root" using m(2) by (simp add: aspace_def)
  have up: "upage (mem ?s) tab (va + of_nat i) \<noteq> 0" and byte: "ubyte (mem ?s) tab (va + of_nat i) = src i"
    if "i < unat len" for i
    using um that m(4) by (simp_all add: umapped_def ubyte_def same)
  show ?thesis
  proof (cases "l < unat max'")
    case True
    from copyinstr_from_found [OF rep True, of va dst 0] obtain dst' where
      "copyinstr root dst va max' ?s = Ok (0, dst', ?s)" "\<forall>i \<le> l. dst' i = ubyte (mem ?s) tab (va + of_nat i)"
      "\<forall>i. l < i \<longrightarrow> dst' i = dst i"
      using up byte l by (auto simp: copyinstr_def)
    with True m(1) byte l(1) show ?thesis
      by (intro exI [of _ ?s] exI [of _ dst']) (auto simp: fun_eq_iff)
  next
    case False
    have "\<exists>dst'. copyinstr_from root dst 0 va max' ?s = Ok (-1, dst', ?s)"
      by (rule copyinstr_from_not_found [OF rep]) (use False byte l in auto)
    with False m(1) show ?thesis by (auto simp: copyinstr_def)
  qed
qed

theorem copyinstr_string_witness:
  "\<exists>pt s s' dst. demo_space = Ok (pt, s) \<and> copyout pt 0xffe (\<lambda>i. if i < 3 then 65 else 0) 4 s = Ok (0, s') \<and>
     copyinstr pt (\<lambda>_. 7) 0xffe 10 s' = Ok (0, dst, s') \<and> map dst [0..<5] = [65, 65, 65, 0, 7]"
proof -
  obtain s tab where s: "demo_space = Ok (0x87fff000, s)" "aspace (mem s) tab 0x87fff000"
    "umapped (mem s) tab 0xffe 4" by (rule demo_umapped)
  have "l < 3 \<Longrightarrow> (if l < 3 then 65 else 0 :: uint8) \<noteq> 0" for l :: nat by simp
  with copyinstr_string [OF s(2,3), of 3 "\<lambda>i. if i < 3 then 65 else 0" "\<lambda>_. 7" 10] s(1)
  show ?thesis by (fastforce simp: upt_rec)
qed

end
