(* ===== verification/Proc.thy ===== *)
theory Proc
  imports Usermem
begin

text \<open>
  Processes, \<^verbatim>\<open>kernel/proc.h\<close> and the core of \<^verbatim>\<open>kernel/proc.c\<close>: the
  process table, allocating and freeing its entries, the scheduler and its hand-over
  points, \<open>sleep\<close>, \<open>wakeup\<close>, \<open>kill\<close>, \<open>growproc\<close> and the copies between a process
  and the kernel.

  A pointer to a table entry is its index, a null pointer is \<open>None\<close>. Trapframes are
  records in a heap indexed by the address of the page that holds them. Control passes
  between kernel threads only in \<open>swtch\<close>, so a function that calls \<open>sched\<close> is modelled
  by what it does before and what it does after: \<open>sleep_begin\<close> and \<open>sleep_end\<close>,
  \<open>yield_begin\<close> and \<open>yield_end\<close>. The first part returns the local variable \<open>intena\<close> that
  the second part puts back.
\<close>

section \<open>State\<close>

datatype procstate = UNUSED | USED | SLEEPING | RUNNABLE | RUNNING | ZOMBIE

record kcontext =
  ctx_ra :: uint64
  ctx_sp :: uint64
  ctx_s :: "nat \<Rightarrow> uint64"

record trapframe =
  tf_kernel_satp :: uint64
  tf_kernel_sp :: uint64
  tf_kernel_trap :: uint64
  tf_epc :: uint64
  tf_kernel_hartid :: uint64
  tf_ra :: uint64
  tf_sp :: uint64
  tf_gp :: uint64
  tf_tp :: uint64
  tf_t0 :: uint64
  tf_t1 :: uint64
  tf_t2 :: uint64
  tf_s0 :: uint64
  tf_s1 :: uint64
  tf_a0 :: uint64
  tf_a1 :: uint64
  tf_a2 :: uint64
  tf_a3 :: uint64
  tf_a4 :: uint64
  tf_a5 :: uint64
  tf_a6 :: uint64
  tf_a7 :: uint64
  tf_s2 :: uint64
  tf_s3 :: uint64
  tf_s4 :: uint64
  tf_s5 :: uint64
  tf_s6 :: uint64
  tf_s7 :: uint64
  tf_s8 :: uint64
  tf_s9 :: uint64
  tf_s10 :: uint64
  tf_s11 :: uint64
  tf_t3 :: uint64
  tf_t4 :: uint64
  tf_t5 :: uint64
  tf_t6 :: uint64

record proc =
  p_state :: procstate
  p_chan :: chan
  p_killed :: bool
  p_xstate :: int
  p_pid :: int
  p_parent :: "nat option"
  p_kstack :: uint64
  p_sz :: uint64
  p_pagetable :: uint64
  p_trapframe :: uint64
  p_context :: kcontext
  p_ofile :: "nat \<Rightarrow> nat option"
  p_cwd :: "nat option"
  p_name :: chars
  p_pendingSignals :: uint32
  p_signalMask :: uint32
  p_signalHandlers :: "nat \<Rightarrow> uint64"
  p_backupTrapframe :: uint64
  p_frozen :: bool
  p_backupSigMask :: uint32
  p_sigHandlerFlag :: bool
  p_sigMaskArray :: "nat \<Rightarrow> uint32"

record semaphore =
  sem_id :: int
  sem_locked :: bool
  sem_used :: bool

text \<open>Addresses the linker gives to code the kernel refers to.\<close>

datatype ksymbol = Sym_forkret | Sym_kernelvec | Sym_usertrap | Sym_uservec | Sym_userret
  | Sym_sigret_start | Sym_sigret_end

record procst = vmst +
  procs :: "nat \<Rightarrow> proc"
  initproc :: "nat option"
  nextpid :: int
  nextsid :: int
  binSemArray :: "nat \<Rightarrow> semaphore"
  tframes :: "uint64 \<Rightarrow> trapframe"
  ticks :: uint32
  ksym :: "ksymbol \<Rightarrow> uint64"
  behind_masks :: "nat \<Rightarrow> chars"

text \<open>
  \<open>behind_masks s i\<close> are the bytes of kernel memory that follow \<open>sigMaskArray\<close>, the last
  field of table entry \<open>i\<close>.
\<close>

definition upd_proc :: "nat \<Rightarrow> (proc \<Rightarrow> proc) \<Rightarrow> 'a procst_scheme \<Rightarrow> 'a procst_scheme" where
  "upd_proc i f s = s\<lparr>procs := (procs s)(i := f (procs s i))\<rparr>"

definition upd_tframe :: "uint64 \<Rightarrow> (trapframe \<Rightarrow> trapframe) \<Rightarrow> 'a procst_scheme \<Rightarrow> 'a procst_scheme" where
  "upd_tframe a f s = s\<lparr>tframes := (tframes s)(a := f (tframes s a))\<rparr>"

section \<open>The current process\<close>

definition myproc :: "'a procst_scheme \<Rightarrow> (nat option \<times> 'a procst_scheme) outcome" where
  "myproc s = (let s = push_off s; p = c_proc (mycpu s) in bindO (pop_off s) (\<lambda>s. Ok (p, s)))"

text \<open>\<open>myproc()\<close> where the result is dereferenced: a null pointer faults.\<close>

definition curproc :: "'a procst_scheme \<Rightarrow> (nat \<times> 'a procst_scheme) outcome" where
  "curproc s = bindO (myproc s) (\<lambda>(p, s).
     case p of None \<Rightarrow> Panic ''kerneltrap'' | Some i \<Rightarrow> Ok (i, s))"

section \<open>Allocating and freeing processes\<close>

primrec procinit_from :: "nat list \<Rightarrow> 'a procst_scheme \<Rightarrow> 'a procst_scheme" where
  "procinit_from [] s = s"
| "procinit_from (i # is) s =
     procinit_from is (upd_proc i (\<lambda>p. p\<lparr>p_kstack := KSTACK i\<rparr>) (initlock (L_proc i) ''proc'' s))"

definition procinit :: "'a procst_scheme \<Rightarrow> 'a procst_scheme" where
  "procinit s =
     procinit_from [0..<NPROC]
       (initlock L_bsem ''binSemArray'' (initlock L_wait ''wait_lock'' (initlock L_pid ''nextpid'' s)))"

definition allocpid :: "'a procst_scheme \<Rightarrow> (int \<times> 'a procst_scheme) outcome" where
  "allocpid s =
     bindO (acquire L_pid s) (\<lambda>s.
     let pid = nextpid s; s = s\<lparr>nextpid := nextpid s + 1\<rparr> in
     bindO (release L_pid s) (\<lambda>s. Ok (pid, s)))"

definition allocsid :: "'a procst_scheme \<Rightarrow> int \<times> 'a procst_scheme" where
  "allocsid s = (nextsid s, s\<lparr>nextsid := nextsid s + 1\<rparr>)"

definition proc_pagetable :: "nat \<Rightarrow> 'a procst_scheme \<Rightarrow> (uint64 \<times> 'a procst_scheme) outcome" where
  "proc_pagetable p s =
     bindO (uvmcreate s) (\<lambda>(pagetable, s).
     if pagetable = 0 then Ok (0, s)
     else bindO (mappages pagetable TRAMPOLINE PGSIZE (trampoline s) (PTE_R OR PTE_X) s) (\<lambda>(r, s).
       if r < 0 then bindO (uvmfree pagetable 0 s) (\<lambda>s. Ok (0, s))
       else bindO (mappages pagetable TRAPFRAME PGSIZE (p_trapframe (procs s p)) (PTE_R OR PTE_W) s) (\<lambda>(r, s).
         if r < 0
         then bindO (uvmunmap pagetable TRAMPOLINE 1 False s) (\<lambda>s.
           bindO (uvmfree pagetable 0 s) (\<lambda>s. Ok (0, s)))
         else Ok (pagetable, s))))"

definition proc_freepagetable :: "uint64 \<Rightarrow> uint64 \<Rightarrow> 'a kmem_scheme \<Rightarrow> 'a kmem_scheme outcome" where
  "proc_freepagetable pagetable sz s =
     bindO (uvmunmap pagetable TRAMPOLINE 1 False s) (\<lambda>s.
     bindO (uvmunmap pagetable TRAPFRAME 1 False s) (\<lambda>s.
     uvmfree pagetable sz s))"

definition freeproc :: "nat \<Rightarrow> 'a procst_scheme \<Rightarrow> 'a procst_scheme outcome" where
  "freeproc i s =
     bindO (if p_trapframe (procs s i) \<noteq> 0 then kfree (p_trapframe (procs s i)) s else Ok s) (\<lambda>s.
     let s = upd_proc i (\<lambda>p. p\<lparr>p_trapframe := 0\<rparr>) s in
     bindO (if p_backupTrapframe (procs s i) \<noteq> 0 then kfree (p_backupTrapframe (procs s i)) s else Ok s) (\<lambda>s.
     let s = upd_proc i (\<lambda>p. p\<lparr>p_backupTrapframe := 0\<rparr>) s in
     bindO (if p_pagetable (procs s i) \<noteq> 0
            then proc_freepagetable (p_pagetable (procs s i)) (p_sz (procs s i)) s else Ok s) (\<lambda>s.
     Ok (upd_proc i (\<lambda>p. p\<lparr>p_pagetable := 0, p_sz := 0, p_pid := 0, p_parent := None,
       p_name := (p_name p)(0 := 0), p_chan := Ch_null, p_killed := False, p_xstate := 0,
       p_state := UNUSED\<rparr>) s))))"

primrec allocproc_scan :: "nat list \<Rightarrow> 'a procst_scheme \<Rightarrow> (nat option \<times> 'a procst_scheme) outcome" where
  "allocproc_scan [] s = Ok (None, s)"
| "allocproc_scan (i # is) s =
     bindO (acquire (L_proc i) s) (\<lambda>s.
     if p_state (procs s i) = UNUSED then Ok (Some i, s)
     else bindO (release (L_proc i) s) (\<lambda>s. allocproc_scan is s))"

text \<open>The two failure exits of \<open>allocproc\<close>.\<close>

definition allocproc_fail :: "nat \<Rightarrow> 'a procst_scheme \<Rightarrow> (nat option \<times> 'a procst_scheme) outcome" where
  "allocproc_fail i s =
     bindO (freeproc i s) (\<lambda>s. bindO (release (L_proc i) s) (\<lambda>s. Ok (None, s)))"

text \<open>The second \<open>kalloc\<close>, for \<open>backupTrapframe\<close>, is not checked.\<close>

definition allocproc :: "'a procst_scheme \<Rightarrow> (nat option \<times> 'a procst_scheme) outcome" where
  "allocproc s =
     bindO (allocproc_scan [0..<NPROC] s) (\<lambda>(r, s).
     case r of
       None \<Rightarrow> Ok (None, s)
     | Some i \<Rightarrow>
       bindO (allocpid s) (\<lambda>(pid, s).
       let s = upd_proc i (\<lambda>p. p\<lparr>p_pid := pid, p_state := USED\<rparr>) s in
       bindO (kalloc s) (\<lambda>(tf, s).
       let s = upd_proc i (\<lambda>p. p\<lparr>p_trapframe := tf\<rparr>) s in
       if tf = 0 then allocproc_fail i s
       else bindO (proc_pagetable i s) (\<lambda>(pt, s).
         let s = upd_proc i (\<lambda>p. p\<lparr>p_pagetable := pt\<rparr>) s in
         if pt = 0 then allocproc_fail i s
         else
           let s = upd_proc i (\<lambda>p. p\<lparr>p_context := \<lparr>ctx_ra = ksym s Sym_forkret,
                     ctx_sp = p_kstack p + PGSIZE, ctx_s = (\<lambda>_. 0)\<rparr>,
                   p_signalMask := 0, p_pendingSignals := 0, p_sigHandlerFlag := False,
                   p_frozen := False\<rparr>) s in
           bindO (kalloc s) (\<lambda>(btf, s).
           let s = upd_proc i (\<lambda>p. p\<lparr>p_backupTrapframe := btf,
                   p_signalHandlers := (\<lambda>n. if n < 32 then 0 else p_signalHandlers p n),
                   p_sigMaskArray := (\<lambda>n. if n < 32 then 0 else p_sigMaskArray p n)\<rparr>) s
           in Ok (Some i, s))))))"

text \<open>\<open>sz\<close> is a 32-bit local: the size is cut to 32 bits before and after the call.\<close>

definition growproc :: "int \<Rightarrow> 'a procst_scheme \<Rightarrow> (int \<times> 'a procst_scheme) outcome" where
  "growproc n s =
     bindO (curproc s) (\<lambda>(p, s).
     let sz = ucast (p_sz (procs s p)) :: uint32; pt = p_pagetable (procs s p) in
     if n > 0
     then bindO (uvmalloc pt (ucast sz) (ucast (sz + word_of_int n)) s) (\<lambda>(r, s).
       let sz = ucast r :: uint32 in
       if sz = 0 then Ok (-1, s)
       else Ok (0, upd_proc p (\<lambda>p. p\<lparr>p_sz := ucast sz\<rparr>) s))
     else if n < 0
     then bindO (uvmdealloc pt (ucast sz) (ucast (sz + word_of_int n)) s) (\<lambda>(r, s).
       Ok (0, upd_proc p (\<lambda>p. p\<lparr>p_sz := ucast (ucast r :: uint32)\<rparr>) s))
     else Ok (0, upd_proc p (\<lambda>p. p\<lparr>p_sz := ucast sz\<rparr>) s))"

section \<open>Scheduling\<close>

definition scheduler_start :: "'a procst_scheme \<Rightarrow> 'a procst_scheme" where
  "scheduler_start s = set_mycpu (\<lambda>c. c\<lparr>c_proc := None\<rparr>) s"

text \<open>One entry of the scheduler's scan up to \<open>swtch\<close>; whether it switches.\<close>

definition scheduler_try :: "nat \<Rightarrow> 'a procst_scheme \<Rightarrow> (bool \<times> 'a procst_scheme) outcome" where
  "scheduler_try i s =
     bindO (acquire (L_proc i) s) (\<lambda>s.
     if p_state (procs s i) = RUNNABLE
     then Ok (True, set_mycpu (\<lambda>c. c\<lparr>c_proc := Some i\<rparr>) (upd_proc i (\<lambda>p. p\<lparr>p_state := RUNNING\<rparr>) s))
     else bindO (release (L_proc i) s) (\<lambda>s. Ok (False, s)))"

text \<open>The scheduler after the process has switched back.\<close>

definition scheduler_back :: "nat \<Rightarrow> 'a procst_scheme \<Rightarrow> 'a procst_scheme outcome" where
  "scheduler_back i s = release (L_proc i) (set_mycpu (\<lambda>c. c\<lparr>c_proc := None\<rparr>) s)"

text \<open>The scan of the table up to the first process to run; \<open>None\<close> if it ends without one.\<close>

primrec scheduler_scan :: "nat list \<Rightarrow> 'a procst_scheme \<Rightarrow> (nat option \<times> 'a procst_scheme) outcome" where
  "scheduler_scan [] s = Ok (None, s)"
| "scheduler_scan (i # is) s =
     bindO (scheduler_try i s) (\<lambda>(sw, s). if sw then Ok (Some i, s) else scheduler_scan is s)"

definition scheduler_round :: "'a procst_scheme \<Rightarrow> (nat option \<times> 'a procst_scheme) outcome" where
  "scheduler_round s = scheduler_scan [0..<NPROC] (intr_on s)"

definition sched_out :: "'a procst_scheme \<Rightarrow> (bool \<times> 'a procst_scheme) outcome" where
  "sched_out s =
     bindO (curproc s) (\<lambda>(p, s).
     if \<not> holding (L_proc p) s then Panic ''sched p->lock''
     else if c_noff (mycpu s) \<noteq> 1 then Panic ''sched locks''
     else if p_state (procs s p) = RUNNING then Panic ''sched running''
     else if intr_get s then Panic ''sched interruptible''
     else Ok (c_intena (mycpu s), s))"

definition sched_in :: "bool \<Rightarrow> 'a procst_scheme \<Rightarrow> 'a procst_scheme" where
  "sched_in intena s = set_mycpu (\<lambda>c. c\<lparr>c_intena := intena\<rparr>) s"

definition yield_begin :: "'a procst_scheme \<Rightarrow> (nat \<times> bool \<times> 'a procst_scheme) outcome" where
  "yield_begin s =
     bindO (curproc s) (\<lambda>(p, s).
     bindO (acquire (L_proc p) s) (\<lambda>s.
     bindO (sched_out (upd_proc p (\<lambda>p. p\<lparr>p_state := RUNNABLE\<rparr>) s)) (\<lambda>(intena, s).
     Ok (p, intena, s))))"

definition yield_end :: "nat \<Rightarrow> bool \<Rightarrow> 'a procst_scheme \<Rightarrow> 'a procst_scheme outcome" where
  "yield_end p intena s = release (L_proc p) (sched_in intena s)"

definition sleep_begin :: "chan \<Rightarrow> lock_id \<Rightarrow> 'a procst_scheme \<Rightarrow> (nat \<times> bool \<times> 'a procst_scheme) outcome" where
  "sleep_begin ch lk s =
     bindO (curproc s) (\<lambda>(p, s).
     bindO (acquire (L_proc p) s) (\<lambda>s.
     bindO (release lk s) (\<lambda>s.
     bindO (sched_out (upd_proc p (\<lambda>p. p\<lparr>p_chan := ch, p_state := SLEEPING\<rparr>) s)) (\<lambda>(intena, s).
     Ok (p, intena, s)))))"

definition sleep_end :: "nat \<Rightarrow> lock_id \<Rightarrow> bool \<Rightarrow> 'a procst_scheme \<Rightarrow> 'a procst_scheme outcome" where
  "sleep_end p lk intena s =
     bindO (release (L_proc p) (upd_proc p (\<lambda>p. p\<lparr>p_chan := Ch_null\<rparr>) (sched_in intena s))) (\<lambda>s.
     acquire lk s)"

primrec wakeup_from :: "chan \<Rightarrow> nat list \<Rightarrow> 'a procst_scheme \<Rightarrow> 'a procst_scheme outcome" where
  "wakeup_from ch [] s = Ok s"
| "wakeup_from ch (i # is) s =
     bindO (myproc s) (\<lambda>(me, s).
     if me \<noteq> Some i
     then bindO (acquire (L_proc i) s) (\<lambda>s.
       let s = (if p_state (procs s i) = SLEEPING \<and> p_chan (procs s i) = ch
                then upd_proc i (\<lambda>p. p\<lparr>p_state := RUNNABLE\<rparr>) s else s) in
       bindO (release (L_proc i) s) (\<lambda>s. wakeup_from ch is s))
     else wakeup_from ch is s)"

definition wakeup :: "chan \<Rightarrow> 'a procst_scheme \<Rightarrow> 'a procst_scheme outcome" where
  "wakeup ch s = wakeup_from ch [0..<NPROC] s"

section \<open>Signalling a process\<close>

definition SIGKILL :: int where [simp]: "SIGKILL = 9"
definition SIGSTOP :: int where [simp]: "SIGSTOP = 17"
definition SIGCONT :: int where [simp]: "SIGCONT = 19"
definition SIG_DFL :: uint64 where [simp]: "SIG_DFL = 0"
definition SIG_IGN :: uint64 where [simp]: "SIG_IGN = 1"

primrec kill_from :: "int \<Rightarrow> int \<Rightarrow> nat list \<Rightarrow> 'a procst_scheme \<Rightarrow> (int \<times> 'a procst_scheme) outcome" where
  "kill_from pid signum [] s = Ok (-1, s)"
| "kill_from pid signum (i # is) s =
     bindO (acquire (L_proc i) s) (\<lambda>s.
     if p_pid (procs s i) = pid
     then
       let s = (if signum = SIGKILL
         then
           let s = upd_proc i (\<lambda>p. p\<lparr>p_killed := True\<rparr>) s in
           (if p_state (procs s i) = SLEEPING then upd_proc i (\<lambda>p. p\<lparr>p_state := RUNNABLE\<rparr>) s else s)
         else upd_proc i (\<lambda>p. p\<lparr>p_pendingSignals := p_pendingSignals p OR push_bit (nat signum) 1\<rparr>) s) in
       bindO (release (L_proc i) s) (\<lambda>s. Ok (0, s))
     else bindO (release (L_proc i) s) (\<lambda>s. kill_from pid signum is s))"

definition kill :: "int \<Rightarrow> int \<Rightarrow> 'a procst_scheme \<Rightarrow> (int \<times> 'a procst_scheme) outcome" where
  "kill pid signum s =
     (if signum < 0 \<or> signum \<ge> 32 then Ok (-1, s) else kill_from pid signum [0..<NPROC] s)"

section \<open>Copies between the kernel and a process\<close>

definition either_copyout :: "bool \<Rightarrow> uint64 \<Rightarrow> chars \<Rightarrow> uint64 \<Rightarrow> 'a procst_scheme \<Rightarrow>
    (int \<times> 'a procst_scheme) outcome" where
  "either_copyout user_dst dst src len s =
     bindO (myproc s) (\<lambda>(p, s).
     if user_dst
     then case p of None \<Rightarrow> Panic ''kerneltrap''
       | Some p \<Rightarrow> copyout (p_pagetable (procs s p)) dst src len s
     else Ok (0, s\<lparr>mem := mwrite (mem s) dst (map src [0..<unat (ucast len :: uint32)])\<rparr>))"

definition either_copyin :: "chars \<Rightarrow> bool \<Rightarrow> uint64 \<Rightarrow> uint64 \<Rightarrow> 'a procst_scheme \<Rightarrow>
    (int \<times> chars \<times> 'a procst_scheme) outcome" where
  "either_copyin dst user_src src len s =
     bindO (myproc s) (\<lambda>(p, s).
     if user_src
     then case p of None \<Rightarrow> Panic ''kerneltrap''
       | Some p \<Rightarrow> copyin (p_pagetable (procs s p)) dst src len s
     else Ok (0, \<lambda>i. if i < unat (ucast len :: uint32) then mem s (src + of_nat i) else dst i, s))"

section \<open>Frame rules for the process fields\<close>

lemma proc_lock_simps [lock_simps]:
  "kernel_pagetable (acquired lk s) = kernel_pagetable s" "kernel_pagetable (tidy s) = kernel_pagetable s"
  "etext (acquired lk s) = etext s" "etext (tidy s) = etext s"
  "trampoline (acquired lk s) = trampoline s" "trampoline (tidy s) = trampoline s"
  "procs (acquired lk s) = procs s" "procs (tidy s) = procs s"
  "initproc (acquired lk s) = initproc s" "initproc (tidy s) = initproc s"
  "nextpid (acquired lk s) = nextpid s" "nextpid (tidy s) = nextpid s"
  "nextsid (acquired lk s) = nextsid s" "nextsid (tidy s) = nextsid s"
  "binSemArray (acquired lk s) = binSemArray s" "binSemArray (tidy s) = binSemArray s"
  "tframes (acquired lk s) = tframes s" "tframes (tidy s) = tframes s"
  "ticks (acquired lk s) = ticks s" "ticks (tidy s) = ticks s"
  "ksym (acquired lk s) = ksym s" "ksym (tidy s) = ksym s"
  "behind_masks (acquired lk s) = behind_masks s" "behind_masks (tidy s) = behind_masks s"
  "(acquired lk s)\<lparr>procs := x0\<rparr> = acquired lk (s\<lparr>procs := x0\<rparr>)" "(tidy s)\<lparr>procs := x0\<rparr> = tidy (s\<lparr>procs := x0\<rparr>)"
  "(acquired lk s)\<lparr>initproc := x1\<rparr> = acquired lk (s\<lparr>initproc := x1\<rparr>)" "(tidy s)\<lparr>initproc := x1\<rparr> = tidy (s\<lparr>initproc := x1\<rparr>)"
  "(acquired lk s)\<lparr>nextpid := x2\<rparr> = acquired lk (s\<lparr>nextpid := x2\<rparr>)" "(tidy s)\<lparr>nextpid := x2\<rparr> = tidy (s\<lparr>nextpid := x2\<rparr>)"
  "(acquired lk s)\<lparr>nextsid := x3\<rparr> = acquired lk (s\<lparr>nextsid := x3\<rparr>)" "(tidy s)\<lparr>nextsid := x3\<rparr> = tidy (s\<lparr>nextsid := x3\<rparr>)"
  "(acquired lk s)\<lparr>binSemArray := x4\<rparr> = acquired lk (s\<lparr>binSemArray := x4\<rparr>)" "(tidy s)\<lparr>binSemArray := x4\<rparr> = tidy (s\<lparr>binSemArray := x4\<rparr>)"
  "(acquired lk s)\<lparr>tframes := x5\<rparr> = acquired lk (s\<lparr>tframes := x5\<rparr>)" "(tidy s)\<lparr>tframes := x5\<rparr> = tidy (s\<lparr>tframes := x5\<rparr>)"
  "(acquired lk s)\<lparr>ticks := x6\<rparr> = acquired lk (s\<lparr>ticks := x6\<rparr>)" "(tidy s)\<lparr>ticks := x6\<rparr> = tidy (s\<lparr>ticks := x6\<rparr>)"
  by (simp_all add: acquired_def tidy_def intr_get_def)

lemma proc_upd_simps [lock_simps]:
  "lock_free lk (s\<lparr>procs := x0\<rparr>) = lock_free lk s" "cpu_ok (s\<lparr>procs := x0\<rparr>) = cpu_ok s"
  "holding lk (s\<lparr>procs := x0\<rparr>) = holding lk s" "intr_get (s\<lparr>procs := x0\<rparr>) = intr_get s" "mycpu (s\<lparr>procs := x0\<rparr>) = mycpu s"
  "lock_free lk (s\<lparr>initproc := x1\<rparr>) = lock_free lk s" "cpu_ok (s\<lparr>initproc := x1\<rparr>) = cpu_ok s"
  "holding lk (s\<lparr>initproc := x1\<rparr>) = holding lk s" "intr_get (s\<lparr>initproc := x1\<rparr>) = intr_get s" "mycpu (s\<lparr>initproc := x1\<rparr>) = mycpu s"
  "lock_free lk (s\<lparr>nextpid := x2\<rparr>) = lock_free lk s" "cpu_ok (s\<lparr>nextpid := x2\<rparr>) = cpu_ok s"
  "holding lk (s\<lparr>nextpid := x2\<rparr>) = holding lk s" "intr_get (s\<lparr>nextpid := x2\<rparr>) = intr_get s" "mycpu (s\<lparr>nextpid := x2\<rparr>) = mycpu s"
  "lock_free lk (s\<lparr>nextsid := x3\<rparr>) = lock_free lk s" "cpu_ok (s\<lparr>nextsid := x3\<rparr>) = cpu_ok s"
  "holding lk (s\<lparr>nextsid := x3\<rparr>) = holding lk s" "intr_get (s\<lparr>nextsid := x3\<rparr>) = intr_get s" "mycpu (s\<lparr>nextsid := x3\<rparr>) = mycpu s"
  "lock_free lk (s\<lparr>binSemArray := x4\<rparr>) = lock_free lk s" "cpu_ok (s\<lparr>binSemArray := x4\<rparr>) = cpu_ok s"
  "holding lk (s\<lparr>binSemArray := x4\<rparr>) = holding lk s" "intr_get (s\<lparr>binSemArray := x4\<rparr>) = intr_get s" "mycpu (s\<lparr>binSemArray := x4\<rparr>) = mycpu s"
  "lock_free lk (s\<lparr>tframes := x5\<rparr>) = lock_free lk s" "cpu_ok (s\<lparr>tframes := x5\<rparr>) = cpu_ok s"
  "holding lk (s\<lparr>tframes := x5\<rparr>) = holding lk s" "intr_get (s\<lparr>tframes := x5\<rparr>) = intr_get s" "mycpu (s\<lparr>tframes := x5\<rparr>) = mycpu s"
  "lock_free lk (s\<lparr>ticks := x6\<rparr>) = lock_free lk s" "cpu_ok (s\<lparr>ticks := x6\<rparr>) = cpu_ok s"
  "holding lk (s\<lparr>ticks := x6\<rparr>) = holding lk s" "intr_get (s\<lparr>ticks := x6\<rparr>) = intr_get s" "mycpu (s\<lparr>ticks := x6\<rparr>) = mycpu s"
  by (simp_all add: lock_free_def cpu_ok_def holding_def cpu_defs)

lemma upd_proc_simps [lock_simps]:
  "upd_proc i f (acquired lk s) = acquired lk (upd_proc i f s)" "upd_proc i f (tidy s) = tidy (upd_proc i f s)"
  "lock_free lk (upd_proc i f s) = lock_free lk s" "cpu_ok (upd_proc i f s) = cpu_ok s"
  "holding lk (upd_proc i f s) = holding lk s" "intr_get (upd_proc i f s) = intr_get s"
  "mycpu (upd_proc i f s) = mycpu s"
  by (simp_all add: upd_proc_def lock_simps)

lemma upd_proc_sel [simp]:
  "procs (upd_proc i f s) = (procs s)(i := f (procs s i))" "mem (upd_proc i f s) = mem s"
  "tp (upd_proc i f s) = tp s" "cpus (upd_proc i f s) = cpus s" "locks (upd_proc i f s) = locks s"
  "freelist (upd_proc i f s) = freelist s" "kernel_end (upd_proc i f s) = kernel_end s"
  "initproc (upd_proc i f s) = initproc s" "tframes (upd_proc i f s) = tframes s"
  "nextpid (upd_proc i f s) = nextpid s" "nextsid (upd_proc i f s) = nextsid s"
  "binSemArray (upd_proc i f s) = binSemArray s" "ticks (upd_proc i f s) = ticks s"
  "ksym (upd_proc i f s) = ksym s" "trampoline (upd_proc i f s) = trampoline s"
  "behind_masks (upd_proc i f s) = behind_masks s" "sstatus (upd_proc i f s) = sstatus s"
  by (simp_all add: upd_proc_def)

lemma mem_frame_proc:
  assumes "mem_frame s s'"
  shows "procs s' = procs s" and "tframes s' = tframes s" and "ksym s' = ksym s" and "nextpid s' = nextpid s"
    and "initproc s' = initproc s" and "binSemArray s' = binSemArray s" and "trampoline s' = trampoline s"
proof -
  from assms obtain m fl where s': "tidy s' = tidy (s\<lparr>mem := m, freelist := fl\<rparr>)"
    by (auto simp: mem_frame_def)
  show "procs s' = procs s" using arg_cong [OF s', of procs] by (simp add: lock_simps)
  show "tframes s' = tframes s" using arg_cong [OF s', of tframes] by (simp add: lock_simps)
  show "ksym s' = ksym s" using arg_cong [OF s', of ksym] by (simp add: lock_simps)
  show "nextpid s' = nextpid s" using arg_cong [OF s', of nextpid] by (simp add: lock_simps)
  show "initproc s' = initproc s" using arg_cong [OF s', of initproc] by (simp add: lock_simps)
  show "binSemArray s' = binSemArray s" using arg_cong [OF s', of binSemArray] by (simp add: lock_simps)
  show "trampoline s' = trampoline s" using arg_cong [OF s', of trampoline] by (simp add: lock_simps)
qed

lemma myproc_eq [lock_simps]: "cpu_ok s \<Longrightarrow> myproc s = Ok (c_proc (mycpu s), tidy s)"
  using pop_push [of s] by (simp add: myproc_def Let_def) (simp add: push_off_def cpu_defs Let_def)

lemma curproc_eq [lock_simps]:
  "cpu_ok s \<Longrightarrow> c_proc (mycpu s) = Some p \<Longrightarrow> curproc s = Ok (p, tidy s)"
  by (simp add: curproc_def lock_simps)

lemma c_proc_mycpu [lock_simps]:
  "c_proc (mycpu (tidy s)) = c_proc (mycpu s)" "c_proc (mycpu (acquired lk s)) = c_proc (mycpu s)"
  by (simp_all add: tidy_def acquired_def cpu_defs)

section \<open>A concrete kernel state\<close>

definition blank_trapframe :: trapframe where
  "blank_trapframe = \<lparr>tf_kernel_satp = 0, tf_kernel_sp = 0, tf_kernel_trap = 0, tf_epc = 0, tf_kernel_hartid =
     0, tf_ra = 0, tf_sp = 0, tf_gp = 0, tf_tp = 0, tf_t0 = 0, tf_t1 = 0, tf_t2 = 0, tf_s0 = 0,
     tf_s1 = 0, tf_a0 = 0, tf_a1 = 0, tf_a2 = 0, tf_a3 = 0, tf_a4 = 0, tf_a5 = 0, tf_a6 = 0,
     tf_a7 = 0, tf_s2 = 0, tf_s3 = 0, tf_s4 = 0, tf_s5 = 0, tf_s6 = 0, tf_s7 = 0, tf_s8 = 0,
     tf_s9 = 0, tf_s10 = 0, tf_s11 = 0, tf_t3 = 0, tf_t4 = 0, tf_t5 = 0, tf_t6 = 0\<rparr>"

definition blank_proc :: proc where
  "blank_proc = \<lparr>p_state = UNUSED, p_chan = Ch_null, p_killed = False, p_xstate = 0, p_pid = 0, p_parent = None,
     p_kstack = 0, p_sz = 0, p_pagetable = 0, p_trapframe = 0,
     p_context = \<lparr>ctx_ra = 0, ctx_sp = 0, ctx_s = (\<lambda>_. 0)\<rparr>, p_ofile = (\<lambda>_. None), p_cwd = None,
     p_name = (\<lambda>_. 0), p_pendingSignals = 0, p_signalMask = 0, p_signalHandlers = (\<lambda>_. 0),
     p_backupTrapframe = 0, p_frozen = False, p_backupSigMask = 0, p_sigHandlerFlag = False,
     p_sigMaskArray = (\<lambda>_. 0)\<rparr>"

text \<open>The kernel with a given process table, all locks free, no process running.\<close>

definition demo_kernel :: "(nat \<Rightarrow> proc) \<Rightarrow> procst" where
  "demo_kernel ps =
     vmst.extend (kmem.extend boot_kmem (vmst.fields 0 0x80008000 0x80007000))
       (procst.fields ps (Some 0) 1 1 (\<lambda>_. \<lparr>sem_id = 0, sem_locked = False, sem_used = False\<rparr>)
         (\<lambda>_. blank_trapframe) 0 (\<lambda>_. 0x80002000) (\<lambda>_ _. 0))"

lemma demo_kernel_simps [simp]:
  "procs (demo_kernel ps) = ps" "mem (demo_kernel ps) = (\<lambda>_. 0)" "lock_free lk (demo_kernel ps)"
  "cpus (demo_kernel ps) = (\<lambda>_. \<lparr>c_proc = None, c_noff = 0, c_intena = False\<rparr>)" "cpu_ok (demo_kernel ps)"
  "tp (demo_kernel ps) = 1" "locks (demo_kernel ps) = (\<lambda>_. \<lparr>locked = 0, lk_name = [], lk_cpu = None\<rparr>)"
  "sstatus (demo_kernel ps) = 2" "binSemArray (demo_kernel ps) = (\<lambda>_. \<lparr>sem_id = 0, sem_locked = False, sem_used = False\<rparr>)"
  "nextsid (demo_kernel ps) = 1" "nextpid (demo_kernel ps) = 1" "tframes (demo_kernel ps) = (\<lambda>_. blank_trapframe)"
  by (simp_all add: demo_kernel_def boot_kmem_def boot_machine_def vmst.defs kmem.defs machine.defs procst.defs
      cpu_ok_def lock_free_def cpu_defs)

end
