(* ===== verification/Sched.thy ===== *)
theory Sched
  imports Proc
begin

text \<open>
  What \<open>wakeup\<close>, \<open>kill\<close>, \<open>sleep\<close>, \<open>yield\<close> and the scheduler of
  \<^verbatim>\<open>kernel/proc.c\<close> do to the process table, and the scheduling protocol as a
  state machine over any number of CPUs: no process ever runs on two CPUs.
\<close>

section \<open>wakeup\<close>

definition woken :: "chan \<Rightarrow> nat option \<Rightarrow> nat set \<Rightarrow> (nat \<Rightarrow> proc) \<Rightarrow> nat \<Rightarrow> proc" where
  "woken ch me A ps i =
     (if i \<in> A \<and> me \<noteq> Some i \<and> p_state (ps i) = SLEEPING \<and> p_chan (ps i) = ch
      then (ps i)\<lparr>p_state := RUNNABLE\<rparr> else ps i)"

lemma woken_Un: "woken ch me B (woken ch me A ps) = woken ch me (A \<union> B) ps"
  by (auto simp: woken_def fun_eq_iff)

lemma woken_insert:
  "woken ch me {i} ps = (if me \<noteq> Some i \<and> p_state (ps i) = SLEEPING \<and> p_chan (ps i) = ch
     then ps(i := (ps i)\<lparr>p_state := RUNNABLE\<rparr>) else ps)"
  by (auto simp: woken_def fun_eq_iff)

lemma wakeup_step:
  assumes "cpu_ok s" and "c_proc (mycpu s) \<noteq> Some i \<longrightarrow> lock_free (L_proc i) s"
  shows "wakeup_from ch (i # is) s =
     wakeup_from ch is (tidy (s\<lparr>procs := woken ch (c_proc (mycpu s)) {i} (procs s)\<rparr>))"
  using assms
  by (auto simp: lock_simps woken_insert upd_proc_def)

lemma wakeup_from_eq:
  assumes "cpu_ok s" and "\<forall>i \<in> set is. c_proc (mycpu s) \<noteq> Some i \<longrightarrow> lock_free (L_proc i) s" and "is \<noteq> []"
  shows "wakeup_from ch is s = Ok (tidy (s\<lparr>procs := woken ch (c_proc (mycpu s)) (set is) (procs s)\<rparr>))"
  using assms
proof (induction "is" arbitrary: s)
  case (Cons i "is" s)
  let ?s = "tidy (s\<lparr>procs := woken ch (c_proc (mycpu s)) {i} (procs s)\<rparr>)"
  have 1: "wakeup_from ch (i # is) s = wakeup_from ch is ?s"
    using Cons.prems by (intro wakeup_step) auto
  show ?case
  proof (cases "is = []")
    case True
    then show ?thesis using 1 by simp
  next
    case False
    have "wakeup_from ch is ?s = Ok (tidy (?s\<lparr>procs := woken ch (c_proc (mycpu ?s)) (set is) (procs ?s)\<rparr>))"
      using Cons.prems False by (intro Cons.IH) (auto simp: lock_simps)
    then show ?thesis using 1 by (simp add: lock_simps woken_Un)
  qed
qed simp

text \<open>\<open>wakeup\<close> makes every other process that sleeps on the channel runnable, and changes nothing else.\<close>

lemma wakeup_eq [lock_simps]:
  assumes "cpu_ok s" and "\<forall>i < NPROC. c_proc (mycpu s) \<noteq> Some i \<longrightarrow> lock_free (L_proc i) s"
  shows "wakeup ch s = Ok (tidy (s\<lparr>procs := woken ch (c_proc (mycpu s)) {..<NPROC} (procs s)\<rparr>))"
  using wakeup_from_eq [OF assms(1), of "[0..<NPROC]" ch] assms(2)
  by (simp add: wakeup_def atLeast0LessThan)

section \<open>kill\<close>

definition signalled :: "int \<Rightarrow> proc \<Rightarrow> proc" where
  "signalled signum p =
     (if signum = SIGKILL
      then if p_state p = SLEEPING then p\<lparr>p_killed := True, p_state := RUNNABLE\<rparr> else p\<lparr>p_killed := True\<rparr>
      else p\<lparr>p_pendingSignals := p_pendingSignals p OR push_bit (nat signum) 1\<rparr>)"

lemma kill_from_eq:
  assumes "cpu_ok s" and "\<forall>i \<in> set is. lock_free (L_proc i) s" and "is \<noteq> []"
  shows "kill_from pid signum is s =
     (case List.find (\<lambda>i. p_pid (procs s i) = pid) is of
        None \<Rightarrow> Ok (-1, tidy s)
      | Some i \<Rightarrow> Ok (0, tidy (upd_proc i (signalled signum) s)))"
  using assms
proof (induction "is" arbitrary: s)
  case (Cons i "is" s)
  show ?case
  proof (cases "p_pid (procs s i) = pid")
    case True
    then show ?thesis
      using Cons.prems by (auto simp: lock_simps Let_def upd_proc_def signalled_def push_bit_eq_mult)
  next
    case False
    then have 1: "kill_from pid signum (i # is) s = kill_from pid signum is (tidy s)"
      using Cons.prems by (simp add: lock_simps)
    show ?thesis
    proof (cases "is = []")
      case True
      then show ?thesis using 1 False by simp
    next
      case ne: False
      have "kill_from pid signum is (tidy s) =
         (case List.find (\<lambda>i. p_pid (procs (tidy s) i) = pid) is of
            None \<Rightarrow> Ok (-1, tidy (tidy s))
          | Some i \<Rightarrow> Ok (0, tidy (upd_proc i (signalled signum) (tidy s))))"
        using Cons.prems ne by (intro Cons.IH) (auto simp: lock_simps)
      then show ?thesis using 1 False by (simp add: lock_simps split: option.splits)
    qed
  qed
qed simp

lemma kill_eq:
  assumes "cpu_ok s" and "\<forall>i < NPROC. lock_free (L_proc i) s"
  shows "kill pid signum s =
     (if signum < 0 \<or> signum \<ge> 32 then Ok (-1, s)
      else case first_match (\<lambda>i. p_pid (procs s i) = pid) NPROC of
        None \<Rightarrow> Ok (-1, tidy s)
      | Some i \<Rightarrow> Ok (0, tidy (upd_proc i (signalled signum) s)))"
  using kill_from_eq [OF assms(1), of "[0..<NPROC]" pid signum] assms(2)
  by (simp add: kill_def first_match_def)

section \<open>yield and sleep up to swtch\<close>

lemma noff_acquired: "c_noff (mycpu (acquired lk s)) = c_noff (mycpu s) + 1"
  by (simp add: acquired_def cpu_defs)

lemma intena_acquired: "c_noff (mycpu s) = 0 \<Longrightarrow> c_intena (mycpu (acquired lk s)) = intr_get s"
  by (simp add: acquired_def cpu_defs)

lemma sched_out_eq:
  assumes "cpu_ok s" and "c_proc (mycpu s) = Some p" and "c_noff (mycpu s) = 0"
    and "p_state (procs s p) \<noteq> RUNNING"
  shows "sched_out (acquired (L_proc p) s) = Ok (intr_get s, acquired (L_proc p) s)"
  using assms by (simp add: sched_out_def lock_simps noff_acquired intena_acquired)

lemma yield_begin_eq:
  assumes "cpu_ok s" and "c_proc (mycpu s) = Some p" and "c_noff (mycpu s) = 0" and "lock_free (L_proc p) s"
  shows "yield_begin s =
     Ok (p, intr_get s, acquired (L_proc p) (tidy (upd_proc p (\<lambda>p. p\<lparr>p_state := RUNNABLE\<rparr>) s)))"
  using assms sched_out_eq [of "tidy (upd_proc p (\<lambda>p. p\<lparr>p_state := RUNNABLE\<rparr>) s)" p]
  by (simp add: yield_begin_def lock_simps noff_tidy)

text \<open>Releasing the outer of two locks, as \<open>sleep\<close> does.\<close>

lemma release_outer:
  assumes "cpu_ok s" and "lock_free lk s" and "lk \<noteq> q"
  shows "release lk (acquired q (acquired lk s)) = Ok (acquired q s)"
proof -
  let ?c = "cpus s (tp s)"
  have lk: "(locks s lk)\<lparr>lk_cpu := None, locked := 0\<rparr> = locks s lk"
    using assms(2) by (simp add: lock_free_def)
  have upd: "((locks s)(lk := x, q := y))(lk := locks s lk) = (locks s)(q := y)" for x y
    using assms(3) by (auto simp: fun_eq_iff)
  have ge: "0 \<le> c_noff ?c" using assms(1) by (simp add: cpu_ok_def cpu_defs)
  have plus: "1 + c_noff ?c = c_noff ?c + 1" by simp
  have off: "(sstatus s AND - 3) AND - 3 = sstatus s AND - 3" by (simp add: and.assoc)
  show ?thesis
    using lk ge assms(3)
    by (cases "c_noff ?c = 0")
      (simp_all add: release_def acquired_def holding_def pop_off_def cpu_defs Let_def sie_off off upd plus)
qed

lemma sleep_begin_eq:
  assumes "cpu_ok s" and "c_proc (mycpu s) = Some p" and "c_noff (mycpu s) = 0"
    and "lock_free (L_proc p) s" and "lock_free lk s" and "lk \<noteq> L_proc p"
  shows "sleep_begin ch lk (acquired lk s) =
     Ok (p, intr_get s, acquired (L_proc p) (upd_proc p (\<lambda>p. p\<lparr>p_chan := ch, p_state := SLEEPING\<rparr>) s))"
proof -
  have "lock_free (L_proc p) (acquired lk s)" using assms(4,6) by (simp add: lock_free_def acquired_def)
  then show ?thesis
    using assms sched_out_eq [of "upd_proc p (\<lambda>p. p\<lparr>p_chan := ch, p_state := SLEEPING\<rparr>) s" p]
    by (simp add: sleep_begin_def lock_simps release_outer)
qed

end
