(* ===== verification/Multicore.thy ===== *)
theory Multicore
  imports Sched
begin

text \<open>
  The scheduling protocol of \<^verbatim>\<open>kernel/proc.c\<close> on any number of CPUs. Every CPU is
  at one of four places: in the scheduler loop, arriving in a process it has just switched
  to, running a process, or about to return to the scheduler from a process that has
  switched away. A step runs one critical section of the code on one CPU, with that CPU's
  registers; critical sections are atomic because of the mutual exclusion of their locks.
\<close>

section \<open>The system\<close>

datatype hart_pc = HSched | HArrive nat | HRun nat | HLeave nat

record 'a sched_sys =
  kst :: "'a procst_scheme"
  hpc :: "nat \<Rightarrow> hart_pc"
  hsst :: "nat \<Rightarrow> uint64"

fun on_proc :: "hart_pc \<Rightarrow> nat option" where
  "on_proc HSched = None"
| "on_proc (HArrive i) = Some i"
| "on_proc (HRun i) = Some i"
| "on_proc (HLeave i) = Some i"

fun in_switch :: "hart_pc \<Rightarrow> nat option" where
  "in_switch (HArrive i) = Some i"
| "in_switch (HLeave i) = Some i"
| "in_switch _ = None"

definition on_hart :: "nat \<Rightarrow> 'a sched_sys \<Rightarrow> 'a procst_scheme" where
  "on_hart c t = (kst t)\<lparr>tp := c, sstatus := hsst t c\<rparr>"

definition hart_ran :: "nat \<Rightarrow> hart_pc \<Rightarrow> 'a procst_scheme \<Rightarrow> 'a sched_sys \<Rightarrow> 'a sched_sys" where
  "hart_ran c pc s t = \<lparr>kst = s, hpc = (hpc t)(c := pc), hsst = (hsst t)(c := sstatus s)\<rparr>"

fun not_proc_lock :: "lock_id \<Rightarrow> bool" where
  "not_proc_lock (L_proc i) = False"
| "not_proc_lock _ = True"

inductive sched_step :: "'a sched_sys \<Rightarrow> 'a sched_sys \<Rightarrow> bool" where
  try_none: "hpc t c = HSched \<Longrightarrow> i < NPROC \<Longrightarrow> scheduler_try i (on_hart c t) = Ok (False, s) \<Longrightarrow>
     sched_step t (hart_ran c HSched s t)"
| try_switch: "hpc t c = HSched \<Longrightarrow> i < NPROC \<Longrightarrow> scheduler_try i (on_hart c t) = Ok (True, s) \<Longrightarrow>
     sched_step t (hart_ran c (HArrive i) s t)"
| arrive: "hpc t c = HArrive i \<Longrightarrow> yield_end i intena (on_hart c t) = Ok s \<Longrightarrow>
     sched_step t (hart_ran c (HRun i) s t)"
| yield: "hpc t c = HRun i \<Longrightarrow> yield_begin (on_hart c t) = Ok (p, intena, s) \<Longrightarrow>
     sched_step t (hart_ran c (HLeave p) s t)"
| sleep: "hpc t c = HRun i \<Longrightarrow> not_proc_lock lk \<Longrightarrow>
     bindO (acquire lk (on_hart c t)) (\<lambda>s. sleep_begin ch lk s) = Ok (p, intena, s) \<Longrightarrow>
     sched_step t (hart_ran c (HLeave p) s t)"
| to_sched: "hpc t c = HLeave i \<Longrightarrow> scheduler_back i (on_hart c t) = Ok s \<Longrightarrow>
     sched_step t (hart_ran c HSched s t)"
| wake: "in_switch (hpc t c) = None \<Longrightarrow> i < NPROC \<Longrightarrow> wakeup_from ch [i] (on_hart c t) = Ok s \<Longrightarrow>
     sched_step t (hart_ran c (hpc t c) s t)"
| signal: "in_switch (hpc t c) = None \<Longrightarrow> i < NPROC \<Longrightarrow> kill_from pid signum [i] (on_hart c t) = Ok (r, s) \<Longrightarrow>
     sched_step t (hart_ran c (hpc t c) s t)"

section \<open>The invariant\<close>

definition hart_ok :: "'a sched_sys \<Rightarrow> nat \<Rightarrow> bool" where
  "hart_ok t c \<longleftrightarrow>
     c_proc (cpus (kst t) c) = on_proc (hpc t c) \<and>
     (case hpc t c of
        HSched \<Rightarrow> c_noff (cpus (kst t) c) = 0
      | HRun i \<Rightarrow> i < NPROC \<and> c_noff (cpus (kst t) c) = 0 \<and> p_state (procs (kst t) i) = RUNNING
      | HArrive i \<Rightarrow> i < NPROC \<and> c_noff (cpus (kst t) c) = 1 \<and> hsst t c AND 2 = 0 \<and>
          p_state (procs (kst t) i) = RUNNING
      | HLeave i \<Rightarrow> i < NPROC \<and> c_noff (cpus (kst t) c) = 1 \<and> hsst t c AND 2 = 0 \<and>
          p_state (procs (kst t) i) \<noteq> RUNNING)"

definition sched_inv :: "'a sched_sys \<Rightarrow> bool" where
  "sched_inv t \<longleftrightarrow>
     (\<forall>c. hart_ok t c) \<and>
     (\<forall>c c' i. on_proc (hpc t c) = Some i \<longrightarrow> on_proc (hpc t c') = Some i \<longrightarrow> c = c') \<and>
     (\<forall>c i. in_switch (hpc t c) = Some i \<longrightarrow>
        locked (locks (kst t) (L_proc i)) = 1 \<and> lk_cpu (locks (kst t) (L_proc i)) = Some c) \<and>
     (\<forall>i. (\<forall>c. in_switch (hpc t c) \<noteq> Some i) \<longrightarrow> lock_free (L_proc i) (kst t)) \<and>
     (\<forall>lk. not_proc_lock lk \<longrightarrow> lock_free lk (kst t)) \<and>
     (\<forall>i. (\<forall>c. on_proc (hpc t c) \<noteq> Some i) \<longrightarrow> p_state (procs (kst t) i) \<noteq> RUNNING)"

lemma in_switch_on_proc: "in_switch pc = Some i \<Longrightarrow> on_proc pc = Some i"
  by (cases pc) auto

lemma on_hart_simps [simp]:
  "tp (on_hart c t) = c" "sstatus (on_hart c t) = hsst t c" "cpus (on_hart c t) = cpus (kst t)"
  "locks (on_hart c t) = locks (kst t)" "procs (on_hart c t) = procs (kst t)"
  "mycpu (on_hart c t) = cpus (kst t) c" "lock_free lk (on_hart c t) = lock_free lk (kst t)"
  by (simp_all add: on_hart_def cpu_defs lock_free_def)

lemma cpu_ok_on_hart: "sched_inv t \<Longrightarrow> in_switch (hpc t c) = None \<Longrightarrow> cpu_ok (on_hart c t)"
  by (cases "hpc t c") (auto simp: sched_inv_def hart_ok_def cpu_ok_def dest!: spec [of _ c])

text \<open>A process lock that can be taken is free, and its process is not being switched.\<close>

lemma acquire_proc_lock:
  assumes "sched_inv t" and "in_switch (hpc t c) = None" and "acquire (L_proc i) (on_hart c t) = Ok s"
  shows "lock_free (L_proc i) (kst t)" and "\<And>d. in_switch (hpc t d) \<noteq> Some i"
proof -
  show ns: "in_switch (hpc t d) \<noteq> Some i" for d
  proof
    assume "in_switch (hpc t d) = Some i"
    then have "locked (locks (kst t) (L_proc i)) = 1" using assms(1) by (simp add: sched_inv_def)
    then show False using assms(3) by (auto simp: acquire_def push_off_def cpu_defs Let_def split: if_splits)
  qed
  then show "lock_free (L_proc i) (kst t)" using assms(1) by (simp add: sched_inv_def)
qed

text \<open>What a step of CPU \<open>c\<close> must respect for the invariant to survive.\<close>

lemma sched_inv_ran:
  fixes s :: "'a procst_scheme"
  assumes inv: "sched_inv t"
    and cpus: "\<And>d. d \<noteq> c \<Longrightarrow> cpus s d = cpus (kst t) d"
    and mine: "hart_ok (hart_ran c pc s t) c"
    and run: "\<And>j. on_proc pc \<noteq> Some j \<Longrightarrow> on_proc (hpc t c) \<noteq> Some j \<Longrightarrow>
        (p_state (procs s j) = RUNNING) = (p_state (procs (kst t) j) = RUNNING)"
    and left: "\<And>j. on_proc (hpc t c) = Some j \<Longrightarrow> on_proc pc \<noteq> Some j \<Longrightarrow> p_state (procs s j) \<noteq> RUNNING"
    and new: "\<And>j d. on_proc pc = Some j \<Longrightarrow> on_proc (hpc t d) = Some j \<Longrightarrow> d = c"
    and other_locks: "\<And>lk. not_proc_lock lk \<Longrightarrow> lock_free lk s"
    and held: "\<And>j. in_switch pc = Some j \<Longrightarrow>
        locked (locks s (L_proc j)) = 1 \<and> lk_cpu (locks s (L_proc j)) = Some c"
    and dropped: "\<And>j. in_switch (hpc t c) = Some j \<Longrightarrow> in_switch pc \<noteq> Some j \<Longrightarrow> lock_free (L_proc j) s"
    and kept: "\<And>j. in_switch (hpc t c) \<noteq> Some j \<Longrightarrow> in_switch pc \<noteq> Some j \<Longrightarrow>
        locks s (L_proc j) = locks (kst t) (L_proc j)"
  shows "sched_inv (hart_ran c pc s t)"
proof -
  let ?t = "hart_ran c pc s t"
  have t: "kst ?t = s" "hpc ?t = (hpc t)(c := pc)" "hsst ?t = (hsst t)(c := sstatus s)"
    by (simp_all add: hart_ran_def)
  have one: "\<And>d d' i. on_proc (hpc t d) = Some i \<Longrightarrow> on_proc (hpc t d') = Some i \<Longrightarrow> d = d'"
    and ok: "\<And>d. hart_ok t d" using inv unfolding sched_inv_def by blast+
  have other: "on_proc pc \<noteq> Some j" "on_proc (hpc t c) \<noteq> Some j"
    if "d \<noteq> c" "on_proc (hpc t d) = Some j" for d j
    using that new one by blast+
  have "hart_ok ?t d" for d
  proof (cases "d = c")
    case False
    have "(p_state (procs s j) = RUNNING) = (p_state (procs (kst t) j) = RUNNING)"
      if "on_proc (hpc t d) = Some j" for j
      using run other [OF False that] by blast
    then show ?thesis
      using ok [of d] cpus [OF False] False unfolding hart_ok_def t
      by (cases "hpc t d") auto
  qed (use mine in simp)
  moreover have "d = d'" if "on_proc (hpc ?t d) = Some i" "on_proc (hpc ?t d') = Some i" for d d' i
    using that one new unfolding t by (auto split: if_splits)
  moreover have "locked (locks s (L_proc i)) = 1 \<and> lk_cpu (locks s (L_proc i)) = Some d"
    if "in_switch (hpc ?t d) = Some i" for d i
  proof (cases "d = c")
    case True
    then show ?thesis using that held unfolding t by simp
  next
    case False
    then have d: "in_switch (hpc t d) = Some i" using that unfolding t by simp
    then have "on_proc pc \<noteq> Some i" "on_proc (hpc t c) \<noteq> Some i"
      using other [OF False in_switch_on_proc] by blast+
    then have "locks s (L_proc i) = locks (kst t) (L_proc i)"
      using kept in_switch_on_proc by blast
    then show ?thesis using inv d unfolding sched_inv_def by auto
  qed
  moreover have "lock_free (L_proc i) s" if "\<forall>d. in_switch (hpc ?t d) \<noteq> Some i" for i
  proof (cases "in_switch (hpc t c) = Some i")
    case True
    have "in_switch pc \<noteq> Some i" using that unfolding t by (auto dest: spec [of _ c])
    with True dropped show ?thesis by blast
  next
    case False
    have "in_switch pc \<noteq> Some i" using that unfolding t by (auto dest: spec [of _ c])
    moreover have "\<forall>d. in_switch (hpc t d) \<noteq> Some i"
      using that False unfolding t by (metis fun_upd_apply)
    then have "lock_free (L_proc i) (kst t)" using inv unfolding sched_inv_def by blast
    ultimately show ?thesis using kept [OF False] by (simp add: lock_free_def)
  qed
  moreover have "p_state (procs s i) \<noteq> RUNNING" if "\<forall>d. on_proc (hpc ?t d) \<noteq> Some i" for i
  proof (cases "on_proc (hpc t c) = Some i")
    case True
    have "on_proc pc \<noteq> Some i" using that unfolding t by (auto dest: spec [of _ c])
    with True left show ?thesis by blast
  next
    case False
    have "on_proc pc \<noteq> Some i" using that unfolding t by (auto dest: spec [of _ c])
    moreover have "\<forall>d. on_proc (hpc t d) \<noteq> Some i"
      using that False unfolding t by (metis fun_upd_apply)
    then have "p_state (procs (kst t) i) \<noteq> RUNNING" using inv unfolding sched_inv_def by blast
    ultimately show ?thesis using run False by blast
  qed
  ultimately show ?thesis using other_locks unfolding sched_inv_def t(1) by blast
qed

section \<open>Every step preserves it\<close>

lemma sched_invD:
  assumes "sched_inv t"
  shows "hart_ok t c" and "on_proc (hpc t c) = Some i \<Longrightarrow> on_proc (hpc t d) = Some i \<Longrightarrow> d = c"
    and "in_switch (hpc t c) = Some i \<Longrightarrow> locked (locks (kst t) (L_proc i)) = 1"
    and "in_switch (hpc t c) = Some i \<Longrightarrow> lk_cpu (locks (kst t) (L_proc i)) = Some c"
    and "not_proc_lock lk \<Longrightarrow> lock_free lk (kst t)"
    and "p_state (procs (kst t) i) = RUNNING \<Longrightarrow> \<exists>c. on_proc (hpc t c) = Some i"
  using assms unfolding sched_inv_def by blast+

lemma scheduler_try_eq:
  assumes "cpu_ok s" and "lock_free (L_proc i) s"
  shows "scheduler_try i s =
    (if p_state (procs s i) = RUNNABLE
     then Ok (True, set_mycpu (\<lambda>c. c\<lparr>c_proc := Some i\<rparr>) (upd_proc i (\<lambda>p. p\<lparr>p_state := RUNNING\<rparr>) (acquired (L_proc i) s)))
     else Ok (False, tidy s))"
  using assms by (simp add: scheduler_try_def lock_simps)

lemma scheduler_try_lock:
  "sched_inv t \<Longrightarrow> in_switch (hpc t c) = None \<Longrightarrow> scheduler_try i (on_hart c t) = Ok x \<Longrightarrow>
   lock_free (L_proc i) (kst t) \<and> (\<forall>d. in_switch (hpc t d) \<noteq> Some i)"
  using acquire_proc_lock [of t c i] by (fastforce simp: scheduler_try_def bindO_eq_Ok)

lemma tidy_locks [simp]: "locks (tidy s) = locks s"
  by (simp add: tidy_def)

lemma tidy_cpus: "cpus (tidy s) d = (if d = tp s then (cpus s d)\<lparr>c_intena := c_intena (cpus (tidy s) d)\<rparr> else cpus s d)"
  by (simp add: tidy_def)

lemma hart_tidy: "c_proc (cpus (tidy s) d) = c_proc (cpus s d)" "c_noff (cpus (tidy s) d) = c_noff (cpus s d)"
  by (simp_all add: tidy_def)

lemma procs_tidy [simp]: "procs (tidy s) = procs s"
  by (simp add: lock_simps)

text \<open>A step that leaves the CPU where it is and changes only what it must.\<close>

lemma sched_inv_stay:
  assumes inv: "sched_inv t" and pc: "in_switch (hpc t c) = None"
    and run: "\<And>j. (p_state (procs s j) = RUNNING) = (p_state (procs (kst t) j) = RUNNING)"
    and s: "locks s = locks (kst t)" "\<And>d. d \<noteq> c \<Longrightarrow> cpus s d = cpus (kst t) d"
      "c_proc (cpus s c) = c_proc (cpus (kst t) c)" "c_noff (cpus s c) = c_noff (cpus (kst t) c)"
  shows "sched_inv (hart_ran c (hpc t c) s t)"
proof (rule sched_inv_ran [OF inv])
  show "hart_ok (hart_ran c (hpc t c) s t) c"
    using sched_invD(1) [OF inv, of c] pc run s by (cases "hpc t c") (auto simp: hart_ok_def hart_ran_def)
  show "not_proc_lock lk \<Longrightarrow> lock_free lk s" for lk
    using sched_invD(5) [OF inv] s(1) by (simp add: lock_free_def)
qed (use s run pc sched_invD(2) [OF inv] in auto)

lemma step_try:
  assumes inv: "sched_inv t" and pc: "hpc t c = HSched" and i: "i < NPROC"
  shows "scheduler_try i (on_hart c t) = Ok (False, s) \<Longrightarrow> sched_inv (hart_ran c HSched s t)"
    and "scheduler_try i (on_hart c t) = Ok (True, s) \<Longrightarrow> sched_inv (hart_ran c (HArrive i) s t)"
proof -
  have ok: "cpu_ok (on_hart c t)" using cpu_ok_on_hart [OF inv] pc by simp
  have nsw: "in_switch (hpc t c) = None" using pc by simp
  {
    assume run: "scheduler_try i (on_hart c t) = Ok (False, s)"
    have "lock_free (L_proc i) (kst t)" using scheduler_try_lock [OF inv nsw run] by blast
    then have s: "s = tidy (on_hart c t)"
      using run scheduler_try_eq [OF ok, of i] by (auto split: if_splits)
    have "sched_inv (hart_ran c (hpc t c) s t)"
      by (rule sched_inv_stay [OF inv nsw]) (simp_all add: s hart_tidy, simp add: tidy_def)
    then show "sched_inv (hart_ran c HSched s t)" by (simp add: pc)
  next
    assume run: "scheduler_try i (on_hart c t) = Ok (True, s)"
    have free: "lock_free (L_proc i) (kst t)" using scheduler_try_lock [OF inv nsw run] by blast
    then have r: "p_state (procs (kst t) i) = RUNNABLE"
      and s: "s = set_mycpu (\<lambda>c. c\<lparr>c_proc := Some i\<rparr>) (upd_proc i (\<lambda>p. p\<lparr>p_state := RUNNING\<rparr>) (acquired (L_proc i) (on_hart c t)))"
      using run scheduler_try_eq [OF ok, of i] by (auto split: if_splits)
    have nobody: "on_proc (hpc t d) \<noteq> Some i" for d
      using sched_invD(1) [OF inv, of d] scheduler_try_lock [OF inv nsw run] r
      by (cases "hpc t d") (auto simp: hart_ok_def dest: spec [of _ d])
    show "sched_inv (hart_ran c (HArrive i) s t)"
      using sched_invD(1) [OF inv, of c] nobody sched_invD(5) [OF inv] pc i r
      by (intro sched_inv_ran [OF inv])
        (auto simp: s hart_ok_def hart_ran_def set_mycpu_def acquired_def cpu_defs lock_free_def upd_proc_def sie_off
          split: hart_pc.splits)
  }
qed

lemma step_arrive:
  assumes inv: "sched_inv t" and pc: "hpc t c = HArrive i" and run: "yield_end i intena (on_hart c t) = Ok s"
  shows "sched_inv (hart_ran c (HRun i) s t)"
proof -
  have me: "c_noff (cpus (kst t) c) = 1" "hsst t c AND 2 = 0" "i < NPROC" "p_state (procs (kst t) i) = RUNNING"
    "c_proc (cpus (kst t) c) = Some i"
    using sched_invD(1) [OF inv, of c] pc by (simp_all add: hart_ok_def)
  have lk: "locked (locks (kst t) (L_proc i)) = 1" "lk_cpu (locks (kst t) (L_proc i)) = Some c"
    using sched_invD(3,4) [OF inv, of c i] pc by simp_all
  have s: "procs s = procs (kst t)" "c_noff (cpus s c) = 0" "c_proc (cpus s c) = Some i"
    "\<And>d. d \<noteq> c \<Longrightarrow> cpus s d = cpus (kst t) d" "lock_free (L_proc i) s"
    "\<And>l. l \<noteq> L_proc i \<Longrightarrow> locks s l = locks (kst t) l"
    using run me lk
    by (auto simp: yield_end_def sched_in_def release_def pop_off_def holding_def cpu_defs lock_free_def Let_def
        split: if_splits)
  show ?thesis
  proof (rule sched_inv_ran [OF inv])
    show "not_proc_lock lk \<Longrightarrow> lock_free lk s" for lk
      using sched_invD(5) [OF inv, of lk] s(6) [of lk] by (cases lk) (auto simp: lock_free_def)
  qed (use s me pc sched_invD(2) [OF inv, of c i] in \<open>auto simp: hart_ok_def hart_ran_def\<close>)
qed

lemma step_leave:
  assumes inv: "sched_inv t" and pc: "hpc t c = HLeave i" and run: "scheduler_back i (on_hart c t) = Ok s"
  shows "sched_inv (hart_ran c HSched s t)"
proof -
  have me: "c_noff (cpus (kst t) c) = 1" "hsst t c AND 2 = 0" "i < NPROC" "p_state (procs (kst t) i) \<noteq> RUNNING"
    "c_proc (cpus (kst t) c) = Some i"
    using sched_invD(1) [OF inv, of c] pc by (simp_all add: hart_ok_def)
  have lk: "locked (locks (kst t) (L_proc i)) = 1" "lk_cpu (locks (kst t) (L_proc i)) = Some c"
    using sched_invD(3,4) [OF inv, of c i] pc by simp_all
  have s: "procs s = procs (kst t)" "c_noff (cpus s c) = 0" "c_proc (cpus s c) = None"
    "\<And>d. d \<noteq> c \<Longrightarrow> cpus s d = cpus (kst t) d" "lock_free (L_proc i) s"
    "\<And>l. l \<noteq> L_proc i \<Longrightarrow> locks s l = locks (kst t) l"
    using run me lk
    by (auto simp: scheduler_back_def release_def pop_off_def holding_def cpu_defs lock_free_def Let_def
        split: if_splits)
  show ?thesis
  proof (rule sched_inv_ran [OF inv])
    show "not_proc_lock lk \<Longrightarrow> lock_free lk s" for lk
      using sched_invD(5) [OF inv, of lk] s(6) [of lk] by (cases lk) (auto simp: lock_free_def)
  qed (use s me pc sched_invD(2) [OF inv, of c i] in \<open>auto simp: hart_ok_def hart_ran_def\<close>)
qed

lemma running_facts:
  assumes "sched_inv t" and "hpc t c = HRun i"
  shows "cpu_ok (on_hart c t)" and "c_proc (mycpu (on_hart c t)) = Some i" and "c_noff (mycpu (on_hart c t)) = 0"
    and "lock_free (L_proc i) (on_hart c t)" and "i < NPROC" and "p_state (procs (kst t) i) = RUNNING"
proof -
  show "cpu_ok (on_hart c t)" using cpu_ok_on_hart [OF assms(1)] assms(2) by simp
  show "c_proc (mycpu (on_hart c t)) = Some i" "c_noff (mycpu (on_hart c t)) = 0" "i < NPROC"
    "p_state (procs (kst t) i) = RUNNING"
    using sched_invD(1) [OF assms(1), of c] assms(2) by (simp_all add: hart_ok_def)
  have "in_switch (hpc t d) \<noteq> Some i" for d
    using sched_invD(2) [OF assms(1), of c i d] assms(2) in_switch_on_proc [of "hpc t d" i] by force
  then show "lock_free (L_proc i) (on_hart c t)" using assms(1) by (simp add: sched_inv_def)
qed

text \<open>A running process that gives up the CPU in state \<open>st\<close>, having taken its own lock.\<close>

lemma sched_inv_give_up:
  assumes inv: "sched_inv t" and pc: "hpc t c = HRun i" and f: "p_state (f (procs (kst t) i)) \<noteq> RUNNING"
    and s: "procs s = (procs (kst t))(i := f (procs (kst t) i))" "\<And>d. d \<noteq> c \<Longrightarrow> cpus s d = cpus (kst t) d"
      "c_proc (cpus s c) = Some i" "c_noff (cpus s c) = 1" "sstatus s AND 2 = 0"
      "locked (locks s (L_proc i)) = 1" "lk_cpu (locks s (L_proc i)) = Some c"
      "\<And>l. l \<noteq> L_proc i \<Longrightarrow> locks s l = locks (kst t) l"
  shows "sched_inv (hart_ran c (HLeave i) s t)"
proof (rule sched_inv_ran [OF inv])
  show "not_proc_lock lk \<Longrightarrow> lock_free lk s" for lk
    using sched_invD(5) [OF inv, of lk] s(8) [of lk] by (cases lk) (auto simp: lock_free_def)
  show "d = c" if "on_proc (HLeave i) = Some j" "on_proc (hpc t d) = Some j" for d j
    using that sched_invD(2) [OF inv, of c i d] pc by simp
qed (use s f pc running_facts(5) [OF inv pc] in \<open>auto simp: hart_ok_def hart_ran_def\<close>)

lemma step_yield:
  assumes inv: "sched_inv t" and pc: "hpc t c = HRun i" and run: "yield_begin (on_hart c t) = Ok (p, intena, s)"
  shows "sched_inv (hart_ran c (HLeave p) s t)"
proof -
  note r = running_facts [OF inv pc]
  have p: "p = i" and s: "s = acquired (L_proc i) (tidy (upd_proc i (\<lambda>p. p\<lparr>p_state := RUNNABLE\<rparr>) (on_hart c t)))"
    using run yield_begin_eq [OF r(1-4)] by auto
  have "sched_inv (hart_ran c (HLeave i) s t)"
    by (rule sched_inv_give_up [OF inv pc, of "\<lambda>p. p\<lparr>p_state := RUNNABLE\<rparr>"])
      (use r(2,3) in \<open>auto simp: s lock_simps acquired_def tidy_def sie_off\<close>)
  then show ?thesis by (simp add: p)
qed

lemma step_sleep:
  assumes inv: "sched_inv t" and pc: "hpc t c = HRun i" and lk: "not_proc_lock lk"
    and run: "bindO (acquire lk (on_hart c t)) (\<lambda>s. sleep_begin ch lk s) = Ok (p, intena, s)"
  shows "sched_inv (hart_ran c (HLeave p) s t)"
proof -
  note r = running_facts [OF inv pc]
  have free: "lock_free lk (on_hart c t)" "lk \<noteq> L_proc i" using sched_invD(5) [OF inv lk] lk by auto
  have p: "p = i" and s: "s = acquired (L_proc i) (upd_proc i (\<lambda>p. p\<lparr>p_chan := ch, p_state := SLEEPING\<rparr>) (on_hart c t))"
    using run sleep_begin_eq [OF r(1-4) free] free(1) by (auto simp: lock_simps)
  have "sched_inv (hart_ran c (HLeave i) s t)"
    by (rule sched_inv_give_up [OF inv pc, of "\<lambda>p. p\<lparr>p_chan := ch, p_state := SLEEPING\<rparr>"])
      (use r(2,3) in \<open>auto simp: s lock_simps acquired_def sie_off\<close>)
  then show ?thesis by (simp add: p)
qed

lemma step_wake:
  assumes inv: "sched_inv t" and nsw: "in_switch (hpc t c) = None"
    and run: "wakeup_from ch [i] (on_hart c t) = Ok s"
  shows "sched_inv (hart_ran c (hpc t c) s t)"
proof -
  let ?s = "on_hart c t"
  have ok: "cpu_ok ?s" by (rule cpu_ok_on_hart [OF inv nsw])
  have "c_proc (mycpu ?s) \<noteq> Some i \<longrightarrow> lock_free (L_proc i) ?s"
  proof
    assume me: "c_proc (mycpu ?s) \<noteq> Some i"
    then obtain s' where "acquire (L_proc i) (tidy ?s) = Ok s'"
      using run ok by (auto simp: lock_simps bindO_eq_Ok)
    then have "locked (locks (kst t) (L_proc i)) = 0"
      by (auto simp: acquire_def push_off_def holding_def cpu_defs Let_def split: if_splits)
    then have "\<And>d. in_switch (hpc t d) \<noteq> Some i" using sched_invD(3) [OF inv] by fastforce
    then show "lock_free (L_proc i) ?s" using inv by (simp add: sched_inv_def)
  qed
  then have s: "s = tidy (?s\<lparr>procs := woken ch (c_proc (mycpu ?s)) {i} (procs ?s)\<rparr>)"
    using run wakeup_from_eq [OF ok, of "[i]" ch] by simp
  show ?thesis
    by (rule sched_inv_stay [OF inv nsw])
      (auto simp: s lock_simps hart_tidy woken_def, auto simp: tidy_def)
qed

lemma step_signal:
  assumes inv: "sched_inv t" and nsw: "in_switch (hpc t c) = None"
    and run: "kill_from pid signum [i] (on_hart c t) = Ok (r, s)"
  shows "sched_inv (hart_ran c (hpc t c) s t)"
proof -
  let ?s = "on_hart c t"
  have ok: "cpu_ok ?s" by (rule cpu_ok_on_hart [OF inv nsw])
  obtain s' where "acquire (L_proc i) ?s = Ok s'" using run by (auto simp: bindO_eq_Ok)
  then have "lock_free (L_proc i) ?s" using acquire_proc_lock(1) [OF inv nsw] by simp
  then have s: "s = tidy (if p_pid (procs ?s i) = pid then upd_proc i (signalled signum) ?s else ?s)"
    using run kill_from_eq [OF ok, of "[i]" pid signum] by (auto split: if_splits)
  show ?thesis
    by (rule sched_inv_stay [OF inv nsw])
      (auto simp: s lock_simps hart_tidy signalled_def split: if_splits, auto simp: tidy_def)
qed

lemma sched_step_inv: "sched_step t u \<Longrightarrow> sched_inv t \<Longrightarrow> sched_inv u"
  by (induction rule: sched_step.induct)
    (blast intro: step_try step_arrive step_leave step_yield step_sleep step_wake step_signal)+

section \<open>Properties\<close>

definition sched_init :: "'a sched_sys \<Rightarrow> bool" where
  "sched_init t \<longleftrightarrow>
     (\<forall>c. hpc t c = HSched \<and> c_proc (cpus (kst t) c) = None \<and> c_noff (cpus (kst t) c) = 0) \<and>
     (\<forall>lk. lock_free lk (kst t)) \<and> (\<forall>i. p_state (procs (kst t) i) \<noteq> RUNNING)"

inductive sched_reachable :: "'a sched_sys \<Rightarrow> bool" where
  sched_start: "sched_init t \<Longrightarrow> sched_reachable t"
| sched_next: "sched_reachable t \<Longrightarrow> sched_step t u \<Longrightarrow> sched_reachable u"

lemma sched_reachable_inv: "sched_reachable t \<Longrightarrow> sched_inv t"
proof (induction rule: sched_reachable.induct)
  case (sched_start t)
  then show ?case by (simp add: sched_inv_def sched_init_def hart_ok_def)
qed (rule sched_step_inv)

text \<open>A process that has been switched to releases its lock without a panic.\<close>

lemma arrive_never_panics:
  assumes inv: "sched_inv t" and pc: "hpc t c = HArrive i"
  shows "\<exists>s. yield_end i intena (on_hart c t) = Ok s"
proof -
  have "c_noff (cpus (kst t) c) = 1" "hsst t c AND 2 = 0"
    using sched_invD(1) [OF inv, of c] pc by (simp_all add: hart_ok_def)
  moreover have "locked (locks (kst t) (L_proc i)) = 1" "lk_cpu (locks (kst t) (L_proc i)) = Some c"
    using sched_invD(3,4) [OF inv, of c i] pc by simp_all
  ultimately show ?thesis
    by (simp add: yield_end_def sched_in_def release_def pop_off_def holding_def cpu_defs Let_def)
qed

text \<open>
  C8: no process ever runs on two CPUs. In every state the scheduling protocol can reach, a
  process that is the current process of some CPU is that of no other, and it is either
  running or held by its lock on that CPU while it is switched in or out.
\<close>

theorem one_cpu_per_process:
  assumes "sched_reachable t" and "c_proc (cpus (kst t) c) = Some i"
  shows "{d. c_proc (cpus (kst t) d) = Some i} = {c} \<and> i < NPROC \<and>
     (p_state (procs (kst t) i) = RUNNING \<or> lk_cpu (locks (kst t) (L_proc i)) = Some c)"
proof -
  have inv: "sched_inv t" by (rule sched_reachable_inv [OF assms(1)])
  have on: "on_proc (hpc t d) = c_proc (cpus (kst t) d)" for d
    using sched_invD(1) [OF inv, of d] by (simp add: hart_ok_def)
  have "d = c" if "c_proc (cpus (kst t) d) = Some i" for d
    using sched_invD(2) [OF inv, of c i d] that assms(2) by (simp add: on)
  moreover have "i < NPROC \<and> (p_state (procs (kst t) i) = RUNNING \<or> lk_cpu (locks (kst t) (L_proc i)) = Some c)"
    using sched_invD(1) [OF inv, of c] sched_invD(4) [OF inv, of c i] assms(2)
    by (cases "hpc t c") (auto simp: hart_ok_def)
  ultimately show ?thesis using assms(2) by blast
qed

definition demo_sched :: "unit sched_sys" where
  "demo_sched = \<lparr>kst = demo_kernel ((\<lambda>_. blank_proc)(3 := blank_proc\<lparr>p_state := RUNNABLE, p_pid := 1\<rparr>)),
     hpc = (\<lambda>_. HSched), hsst = (\<lambda>_. 2)\<rparr>"

lemma demo_sched_runs:
  "\<exists>t :: unit sched_sys. sched_reachable t \<and> hpc t 5 = HRun 3 \<and> c_proc (cpus (kst t) 5) = Some 3"
proof -
  let ?s = "set_mycpu (\<lambda>c. c\<lparr>c_proc := Some 3\<rparr>)
    (upd_proc 3 (\<lambda>p. p\<lparr>p_state := RUNNING\<rparr>) (acquired (L_proc 3) (on_hart 5 demo_sched)))"
  let ?t = "hart_ran 5 (HArrive 3) ?s demo_sched"
  have init: "sched_init demo_sched" by (simp add: sched_init_def demo_sched_def blank_proc_def)
  have "cpu_ok (on_hart 5 demo_sched)" by (simp add: demo_sched_def cpu_ok_def)
  moreover have "lock_free (L_proc 3) (on_hart 5 demo_sched)" by (simp add: demo_sched_def)
  ultimately have "scheduler_try 3 (on_hart 5 demo_sched) = Ok (True, ?s)"
    by (simp add: scheduler_try_eq) (simp add: demo_sched_def)
  then have "sched_step demo_sched ?t"
    by (intro try_switch) (simp_all add: demo_sched_def)
  then have r: "sched_reachable ?t"
    by (rule sched_next [OF sched_start [OF init]])
  have pc: "hpc ?t 5 = HArrive 3" by (simp add: hart_ran_def)
  obtain s where "yield_end 3 False (on_hart 5 ?t) = Ok s"
    using arrive_never_panics [OF sched_reachable_inv [OF r] pc] by blast
  then have u: "sched_reachable (hart_ran 5 (HRun 3) s ?t)" by (intro sched_next [OF r] arrive [OF pc])
  have "hpc (hart_ran 5 (HRun 3) s ?t) 5 = HRun 3" by (simp add: hart_ran_def)
  with u sched_invD(1) [OF sched_reachable_inv [OF u], of 5] show ?thesis by (auto simp: hart_ok_def)
qed

theorem one_cpu_per_process_witness:
  "\<exists>t :: unit sched_sys. {d. c_proc (cpus (kst t) d) = Some 3} = {5}"
  using demo_sched_runs one_cpu_per_process by blast

text \<open>
  C9: a running process can always give up the CPU. In every reachable state \<open>yield\<close> on a
  CPU that runs a process passes all four checks of \<open>sched\<close> without a panic and switches
  away with the process runnable, its lock held by that CPU, interrupts off and a nesting
  depth of one.
\<close>

theorem yield_never_panics:
  assumes "sched_reachable t" and "hpc t c = HRun i"
  shows "\<exists>s. yield_begin (on_hart c t) = Ok (i, intr_get (on_hart c t), s) \<and>
     p_state (procs s i) = RUNNABLE \<and> holding (L_proc i) s \<and> \<not> intr_get s \<and> c_noff (mycpu s) = 1"
proof -
  note r = running_facts [OF sched_reachable_inv [OF assms(1)] assms(2)]
  show ?thesis using r(3,4) by (simp add: yield_begin_eq [OF r(1-4)] lock_simps noff_acquired noff_tidy)
qed

theorem yield_never_panics_witness:
  "\<exists>(t :: unit sched_sys) b s. yield_begin (on_hart 5 t) = Ok (3, b, s) \<and> p_state (procs s 3) = RUNNABLE"
  using demo_sched_runs yield_never_panics by blast

end
