(* ===== verification/Thread.thy ===== *)
theory Thread
  imports Prelude
begin

text \<open>
  Kernel threads. Code that can give up the CPU in the middle is a resumption: it has either
  ended, with an outcome, or it has switched to the scheduler and goes on from whatever
  state it finds when it is switched back to. \<open>bindT\<close> sequences such code and
  \<open>wait_loop\<close> is the shape of every loop of the kernel that sleeps: a body that runs up
  to the end of the loop or to the next \<open>swtch\<close>, and the code between waking up and the
  head of the loop. \<open>wp\<close> is total correctness of a thread against a relation that says
  what the other threads and the devices may do while it is switched away.
\<close>

named_theorems thread_simps \<open>rules that run kernel threads\<close>

section \<open>Resumptions\<close>

codatatype ('s, 'v) thread =
    is_Done: Done (ended: "'v outcome")
  | Switch (left: 's) (resume: "'s \<Rightarrow> ('s, 'v) thread")

primcorec bindT :: "('s, 'v) thread \<Rightarrow> ('v \<Rightarrow> ('s, 'w) thread) \<Rightarrow> ('s, 'w) thread" where
  "bindT t f =
     (case t of
        Done m \<Rightarrow> (case m of Ok x \<Rightarrow> f x | Panic e \<Rightarrow> Done (Panic e) | Spin \<Rightarrow> Done Spin)
      | Switch s k \<Rightarrow> Switch s (\<lambda>s'. bindT (k s') f))"

lemma bindT_simps [simp, thread_simps]:
  "bindT (Done (Ok x)) f = f x"
  "bindT (Done (Panic e)) f = Done (Panic e)"
  "bindT (Done Spin) f = Done Spin"
  "bindT (Switch s k) f = Switch s (\<lambda>s'. bindT (k s') f)"
  by (subst bindT.code; simp)+

lemma bindT_cong [fundef_cong]:
  "t = t' \<Longrightarrow> (\<And>x. f x = g x) \<Longrightarrow> bindT t f = bindT t' g"
  by (metis ext)

lemma bindT_Done [thread_simps]: "bindT (Done (bindO m f)) g = bindT (Done m) (\<lambda>x. bindT (Done (f x)) g)"
  by (cases m) simp_all

lemma Done_bindO [thread_simps]: "bindT (Done m) (\<lambda>x. Done (f x)) = Done (bindO m f)"
  by (cases m) simp_all

lemma bindT_assoc: "bindT (bindT t f) g = bindT t (\<lambda>x. bindT (f x) g)"
proof (coinduction arbitrary: t rule: thread.coinduct_strong)
  case (Eq_thread t)
  show ?case
  proof (cases t)
    case (Done m)
    then show ?thesis by (cases m) auto
  next
    case (Switch s k)
    then show ?thesis by (auto simp: rel_fun_def)
  qed
qed

section \<open>Loops that sleep\<close>

text \<open>One pass of such a loop returns from it or goes to sleep with its local variables.\<close>

datatype ('r, 'l) seg = Return (returned: 'r) | Asleep (locals: 'l)

primcorec wait_loop :: "('l \<Rightarrow> 's \<Rightarrow> (('r, 'l) seg \<times> 's) outcome) \<Rightarrow> ('l \<Rightarrow> 's \<Rightarrow> 's outcome) \<Rightarrow>
    'l \<Rightarrow> 's outcome \<Rightarrow> ('s, 'r \<times> 's) thread" where
  "wait_loop body wake l m =
     (case bindO m (body l) of
        Ok rs \<Rightarrow> (case fst rs of
            Return r \<Rightarrow> Done (Ok (r, snd rs))
          | Asleep l' \<Rightarrow> Switch (snd rs) (\<lambda>s'. wait_loop body wake l' (wake l' s')))
      | Panic e \<Rightarrow> Done (Panic e)
      | Spin \<Rightarrow> Done Spin)"

lemma wait_loop_return [thread_simps]:
  "bindO m (body l) = Ok (Return r, s) \<Longrightarrow> wait_loop body wake l m = Done (Ok (r, s))"
  by (subst wait_loop.code) simp

lemma wait_loop_asleep [thread_simps]:
  "bindO m (body l) = Ok (Asleep l', s) \<Longrightarrow>
   wait_loop body wake l m = Switch s (\<lambda>s'. wait_loop body wake l' (wake l' s'))"
  by (subst wait_loop.code) simp

lemma wait_loop_stop [thread_simps]:
  "bindO m (body l) = Panic e \<Longrightarrow> wait_loop body wake l m = Done (Panic e)"
  "bindO m (body l) = Spin \<Longrightarrow> wait_loop body wake l m = Done Spin"
  by (subst wait_loop.code; simp)+

section \<open>Total correctness\<close>

text \<open>
  \<open>wp E P t\<close>: under every behaviour of the rest of the system that \<open>E\<close> allows between
  two switches, \<open>t\<close> ends after finitely many of them, without a panic, with a result in
  \<open>P\<close>.
\<close>

inductive wp :: "('s \<Rightarrow> 's \<Rightarrow> bool) \<Rightarrow> ('v \<Rightarrow> bool) \<Rightarrow> ('s, 'v) thread \<Rightarrow> bool" for E P where
  wp_done: "P v \<Longrightarrow> wp E P (Done (Ok v))"
| wp_switch: "(\<And>s'. E s s' \<Longrightarrow> wp E P (k s')) \<Longrightarrow> wp E P (Switch s k)"

inductive_simps wp_Done_iff [simp]: "wp E P (Done m)"
inductive_simps wp_Switch_iff [simp]: "wp E P (Switch s k)"

lemma wp_bindT:
  assumes "wp E (\<lambda>v. wp E P (f v)) t"
  shows "wp E P (bindT t f)"
  using assms by induction (auto intro: wp.intros)

lemma wp_bindT_iff: "wp E P (bindT t f) \<longleftrightarrow> wp E (\<lambda>v. wp E P (f v)) t"
proof
  assume "wp E P (bindT t f)"
  then show "wp E (\<lambda>v. wp E P (f v)) t"
  proof (induction "bindT t f" arbitrary: t)
    case (wp_done v)
    show ?case
    proof (cases t)
      case (Done m)
      then show ?thesis
        using wp_done by (cases m) (auto dest: sym [where t = "f _"] intro: wp.intros)
    next
      case (Switch s k)
      then show ?thesis using wp_done by simp
    qed
  next
    case (wp_switch s k)
    show ?case
    proof (cases t)
      case (Done m)
      then show ?thesis using wp_switch by (cases m) (auto dest: sym [where t = "f _"] intro: wp.intros)
    next
      case (Switch s' k')
      then show ?thesis using wp_switch by (auto simp: fun_eq_iff intro!: wp.intros)
    qed
  qed
qed (rule wp_bindT)

lemma wp_mono:
  assumes "wp E P t" and "\<And>v. P v \<Longrightarrow> Q v" and "\<And>s s'. E' s s' \<Longrightarrow> E s s'"
  shows "wp E' Q t"
  using assms by induction (auto intro: wp.intros)

lemma wp_conj: "wp E P t \<Longrightarrow> wp E Q t \<Longrightarrow> wp E (\<lambda>v. P v \<and> Q v) t"
  by (induction rule: wp.induct) (auto intro: wp.intros)

text \<open>A thread that never switches.\<close>

lemma wp_Ok: "wp E P (Done m) \<longleftrightarrow> (\<exists>v. m = Ok v \<and> P v)"
  by simp

end
