(* ===== verification/Ring.thy ===== *)
theory Ring
  imports Prelude
begin

text \<open>
  Bounded buffers. Three parts of the kernel keep bytes in a circular array with two free
  running counters: a pipe (512 bytes, 32-bit counters), the console's input (128 bytes,
  32-bit counters) and the transmit buffer of the serial port (32 bytes, 64-bit counters).
  The counters wrap around, and the code takes them modulo the size of the array only to
  index it; that is sound because the size divides the range of the counters. The locale
  \<open>fifo\<close> is the contract of such a buffer and \<open>ring\<close> proves it once for every size and
  width.
\<close>

section \<open>A first-in first-out buffer\<close>

datatype 'b fifo_op = Put 'b | Get

locale fifo =
  fixes items :: "'q \<Rightarrow> 'b list"
    and cap :: nat
    and inv :: "'q \<Rightarrow> bool"
    and put :: "'b \<Rightarrow> 'q \<Rightarrow> 'q"
    and get :: "'q \<Rightarrow> 'b \<times> 'q"
  assumes put_items: "inv q \<Longrightarrow> length (items q) < cap \<Longrightarrow> items (put x q) = items q @ [x]"
    and put_inv: "inv q \<Longrightarrow> length (items q) < cap \<Longrightarrow> inv (put x q)"
    and get_items: "inv q \<Longrightarrow> items q \<noteq> [] \<Longrightarrow> items q = fst (get q) # items (snd (get q))"
    and get_inv: "inv q \<Longrightarrow> items q \<noteq> [] \<Longrightarrow> inv (snd (get q))"
    and inv_cap: "inv q \<Longrightarrow> length (items q) \<le> cap"
begin

text \<open>
  Running a sequence of operations, a \<open>Put\<close> on a full buffer and a \<open>Get\<close> on an empty one
  having no effect: the bytes taken in, the bytes given out, the buffer at the end.
\<close>

primrec run :: "'b fifo_op list \<Rightarrow> 'q \<Rightarrow> 'b list \<times> 'b list \<times> 'q" where
  "run [] q = ([], [], q)"
| "run (x # xs) q =
     (case x of
        Put b \<Rightarrow> if length (items q) < cap
          then let (i, out, q') = run xs (put b q) in (b # i, out, q') else run xs q
      | Get \<Rightarrow> if items q \<noteq> []
          then let (i, out, q') = run xs (snd (get q)) in (i, fst (get q) # out, q') else run xs q)"

lemma run_in_order:
  assumes "inv q" and "run xs q = (i, out, q')"
  shows "out @ items q' = items q @ i \<and> inv q' \<and> length (items q') \<le> cap"
  using assms
proof (induction xs arbitrary: q i out)
  case (Cons x xs)
  then show ?case
  proof (cases x)
    case (Put b)
    show ?thesis
    proof (cases "length (items q) < cap")
      case True
      then obtain i' where "run xs (put b q) = (i', out, q')" "i = b # i'"
        using Cons.prems Put by (auto split: prod.splits)
      then show ?thesis
        using Cons.IH [of "put b q"] put_inv [OF Cons.prems(1) True] put_items [OF Cons.prems(1) True] by simp
    qed (use Cons Put in auto)
  next
    case Get
    show ?thesis
    proof (cases "items q = []")
      case False
      then obtain i' out' where "run xs (snd (get q)) = (i', out', q')" "i = i'" "out = fst (get q) # out'"
        using Cons.prems Get by (auto split: prod.splits)
      then show ?thesis
        using Cons.IH [of "snd (get q)"] get_inv [OF Cons.prems(1) False] get_items [OF Cons.prems(1) False]
        by (metis append_Cons)
    qed (use Cons Get in auto)
  qed
qed (auto simp: inv_cap)

end

section \<open>Circular arrays with wrapping counters\<close>

type_synonym ('b, 'w) ring_state = "(nat \<Rightarrow> 'b) \<times> 'w word \<times> 'w word"

definition ring_items :: "nat \<Rightarrow> ('b, 'w::len) ring_state \<Rightarrow> 'b list" where
  "ring_items N = (\<lambda>(buf, r, w). map (\<lambda>i. buf (unat (r + of_nat i) mod N)) [0..<unat (w - r)])"

definition ring_inv :: "nat \<Rightarrow> ('b, 'w::len) ring_state \<Rightarrow> bool" where
  "ring_inv N = (\<lambda>(buf, r, w). unat (w - r) \<le> N)"

definition ring_put :: "nat \<Rightarrow> 'b \<Rightarrow> ('b, 'w::len) ring_state \<Rightarrow> ('b, 'w) ring_state" where
  "ring_put N x = (\<lambda>(buf, r, w). (buf(unat w mod N := x), r, w + 1))"

definition ring_get :: "nat \<Rightarrow> ('b, 'w::len) ring_state \<Rightarrow> 'b \<times> ('b, 'w) ring_state" where
  "ring_get N = (\<lambda>(buf, r, w). (buf (unat r mod N), buf, r + 1, w))"

lemma length_ring_items [simp]: "length (ring_items N (buf, r, w)) = unat (w - r)"
  by (simp add: ring_items_def)

lemma ring_empty_iff [simp]: "ring_items N (buf, r, w) = [] \<longleftrightarrow> r = w"
proof -
  have "ring_items N (buf, r, w) = [] \<longleftrightarrow> unat (w - r) = 0" by (simp add: ring_items_def)
  also have "\<dots> \<longleftrightarrow> w - r = 0" by (simp only: unat_eq_0)
  also have "\<dots> \<longleftrightarrow> r = w" by auto
  finally show ?thesis .
qed

lemma ring_items_same [simp]: "ring_items N (buf, r, r) = []"
  by simp

lemma unat_minus_step:
  fixes r w :: "'w::len word"
  assumes "r \<noteq> w"
  shows "unat (w - r) = Suc (unat (w - 1 - r))"
proof -
  have "w - r \<noteq> 0" using assms by simp
  then have "unat (w - r - 1) = unat (w - r) - 1" "0 < unat (w - r)"
    by (simp_all add: unat_minus_one unat_gt_0)
  then show ?thesis by (simp add: algebra_simps)
qed

lemma ring_items_snoc:
  assumes "r \<noteq> w"
  shows "ring_items N (buf, r, w) = ring_items N (buf, r, w - 1) @ [buf (unat (w - 1) mod N)]"
proof -
  have "r + of_nat (unat (w - 1 - r)) = w - 1" by simp
  then show ?thesis by (simp add: ring_items_def unat_minus_step [OF assms])
qed

locale ring =
  fixes N :: nat and width :: "'w::len itself"
  assumes N_pos: "0 < N" and N_dvd: "N dvd 2 ^ LENGTH('w)" and N_less: "N < 2 ^ LENGTH('w)"
begin

lemma index_add: "unat (r + of_nat i :: 'w word) mod N = (unat r + i) mod N"
proof -
  have "unat (r + of_nat i :: 'w word) = (unat r + i) mod 2 ^ LENGTH('w)"
    by (simp add: unat_word_ariths unat_of_nat mod_simps)
  then show ?thesis using N_dvd by (simp add: mod_mod_cancel)
qed

lemma index_distinct:
  assumes "i < j" and "j < N"
  shows "unat (r + of_nat i :: 'w word) mod N \<noteq> unat (r + of_nat j :: 'w word) mod N"
proof
  assume "unat (r + of_nat i :: 'w word) mod N = unat (r + of_nat j :: 'w word) mod N"
  then have "(unat r + i) mod N = (unat r + j) mod N" by (simp only: index_add)
  then have "N dvd (unat r + j) - (unat r + i)" using mod_eq_dvd_iff_nat [of "unat r + i" "unat r + j" N] assms by auto
  then show False using assms by (simp add: dvd_imp_le nat_dvd_not_less)
qed

lemma full_iff: "w = r + of_nat N \<longleftrightarrow> unat (w - r :: 'w word) = N"
proof
  assume "unat (w - r) = N"
  then have "of_nat (unat (w - r)) = (of_nat N :: 'w word)" by (simp only:)
  then show "w = r + of_nat N" by (simp add: algebra_simps)
qed (use N_less in \<open>simp add: unat_of_nat\<close>)

lemma put_len:
  assumes "unat (w - r :: 'w word) < N"
  shows "unat (w + 1 - r) = Suc (unat (w - r))"
proof -
  have eq: "w + 1 - r = 1 + (w - r)" by simp
  have "1 + (w - r) \<noteq> 0"
  proof
    assume "1 + (w - r) = 0"
    then have "w - r = - 1" by (simp add: add_eq_0_iff)
    then have "unat (w - r) = 2 ^ LENGTH('w) - 1" by (simp add: unsigned_minus_1_eq_mask mask_eq_exp_minus_1)
    then show False using assms N_less by simp
  qed
  then show ?thesis unfolding eq by (rule unatSuc)
qed

lemma ring_put_items:
  assumes "unat (w - r :: 'w word) < N"
  shows "ring_items N (ring_put N x (buf, r, w)) = ring_items N (buf, r, w) @ [x]"
proof -
  let ?n = "unat (w - r)"
  have w: "w = r + of_nat ?n" by simp
  have last: "(buf(unat w mod N := x)) (unat (r + of_nat ?n) mod N) = x" by simp
  have "(buf(unat w mod N := x)) (unat (r + of_nat i) mod N) = buf (unat (r + of_nat i) mod N)" if "i < ?n" for i
    using index_distinct [OF that, of r] assms by simp
  then show ?thesis using put_len [OF assms] last by (simp add: ring_items_def ring_put_def)
qed

lemma ring_get_items:
  assumes "r \<noteq> (w :: 'w word)"
  shows "ring_items N (buf, r, w) = fst (ring_get N (buf, r, w)) # ring_items N (snd (ring_get N (buf, r, w)))"
proof -
  have n: "unat (w - r) = Suc (unat (w - (r + 1)))"
    using unat_minus_step [OF assms] by (simp add: algebra_simps)
  have "[0..<Suc k] = 0 # map Suc [0..<k]" for k by (simp add: map_Suc_upt upt_conv_Cons)
  then show ?thesis by (simp add: ring_items_def ring_get_def n algebra_simps)
qed

lemma unat_minus_split:
  fixes r w e :: "'w word"
  assumes "unat (w - r) + unat (e - w) \<le> N"
  shows "unat (e - r) = unat (w - r) + unat (e - w)"
proof -
  have "e - r = (w - r) + (e - w)" by simp
  then show ?thesis using assms N_less by (simp only: unat_word_ariths) simp
qed

lemma ring_items_split:
  fixes r w e :: "'w word"
  assumes "unat (w - r) + unat (e - w) \<le> N"
  shows "ring_items N (buf, r, e) = ring_items N (buf, r, w) @ ring_items N (buf, w, e)"
proof -
  have "[unat (w - r)..<unat (w - r) + k] = map ((+) (unat (w - r))) [0..<k]" for k
    by (simp add: map_add_upt [of "unat (w - r)", symmetric] add.commute)
  then show ?thesis
    by (simp add: ring_items_def unat_minus_split [OF assms] upt_add_eq_append [of 0])
qed

lemma ring_items_upd:
  assumes "unat (w - r :: 'w word) < N"
  shows "ring_items N (buf(unat w mod N := x), r, w) = ring_items N (buf, r, w)"
  using ring_put_items [OF assms, of x buf] put_len [OF assms] ring_items_snoc [of r "w + 1" N "buf(unat w mod N := x)"]
  by (cases "r = w + 1") (auto simp: ring_put_def)

sublocale fifo "ring_items N :: ('b, 'w) ring_state \<Rightarrow> _" N "ring_inv N" "ring_put N" "ring_get N"
proof unfold_locales
  fix q :: "('b, 'w) ring_state" and x
  obtain buf r w where q: "q = (buf, r, w)" by (cases q) auto
  assume inv: "ring_inv N q"
  show "length (ring_items N q) \<le> N" using inv by (simp add: q ring_inv_def)
  show "ring_items N (ring_put N x q) = ring_items N q @ [x]" "ring_inv N (ring_put N x q)"
    if "length (ring_items N q) < N"
    using that ring_put_items [of w r x buf] put_len [of w r] by (simp_all add: q ring_inv_def ring_put_def)
  assume ne: "ring_items N q \<noteq> []"
  then have r: "r \<noteq> w" by (simp add: q)
  then show items: "ring_items N q = fst (ring_get N q) # ring_items N (snd (ring_get N q))"
    using ring_get_items [OF r] by (simp add: q)
  have "length (ring_items N (snd (ring_get N q))) \<le> length (ring_items N q)" by (subst items) simp
  then show "ring_inv N (snd (ring_get N q))" using inv by (simp add: q ring_inv_def ring_get_def)
qed

end

end
