(* ===== verification/Uart.thy ===== *)
theory Uart
  imports Sched Thread Ring
begin

text \<open>
  The serial port driver, \<^verbatim>\<open>kernel/uart.c\<close>, and the globals of the console path: the
  transmit buffer, the console's input buffer (\<^verbatim>\<open>kernel/console.c\<close>) and the state of
  \<^verbatim>\<open>kernel/printf.c\<close>.

  The 16550 chip is a device outside the sources; what the driver relies on is modelled by
  fields of the state: \<open>uart_sent\<close>, the bytes given to the transmit register in order;
  \<open>uart_room\<close>, how many more it takes before the status register reports it busy;
  \<open>uart_rx\<close>, the bytes received and not read yet. Writes to registers 0 and 1 go to the
  baud-rate latch while bit 7 of the line control register is set.
\<close>

section \<open>State\<close>

text \<open>The device switch holds the functions that \<open>consoleinit\<close> puts there.\<close>

datatype devfun = Fn_consoleread | Fn_consolewrite

record consst = procst +
  uart_regs :: "nat \<Rightarrow> uint8"
  uart_latch :: "nat \<Rightarrow> uint8"
  uart_sent :: "uint8 list"
  uart_room :: nat
  uart_rx :: "uint8 list"
  uart_tx_buf :: "nat \<Rightarrow> uint8"
  uart_tx_w :: uint64
  uart_tx_r :: uint64
  panicked :: bool
  pr_locking :: bool
  cons_buf :: "nat \<Rightarrow> uint8"
  cons_r :: uint32
  cons_w :: uint32
  cons_e :: uint32
  devsw_read :: "nat \<Rightarrow> devfun option"
  devsw_write :: "nat \<Rightarrow> devfun option"

section \<open>The device\<close>

definition UART_TX_BUF_SIZE :: nat where [simp]: "UART_TX_BUF_SIZE = 32"
definition LSR_RX_READY :: uint8 where [simp]: "LSR_RX_READY = 1"
definition LSR_TX_IDLE :: uint8 where [simp]: "LSR_TX_IDLE = 0x20"

text \<open>\<open>ReadReg(LSR)\<close>, \<open>ReadReg(RHR)\<close> and \<open>WriteReg\<close>.\<close>

definition read_lsr :: "'a consst_scheme \<Rightarrow> uint8" where
  "read_lsr s = (if uart_rx s \<noteq> [] then LSR_RX_READY else 0) OR (if 0 < uart_room s then LSR_TX_IDLE else 0)"

definition read_rhr :: "'a consst_scheme \<Rightarrow> uint8 \<times> 'a consst_scheme" where
  "read_rhr s = (case uart_rx s of [] \<Rightarrow> (0, s) | c # cs \<Rightarrow> (c, s\<lparr>uart_rx := cs\<rparr>))"

definition uart_send :: "uint8 \<Rightarrow> 'a consst_scheme \<Rightarrow> 'a consst_scheme" where
  "uart_send c s = s\<lparr>uart_sent := uart_sent s @ [c], uart_room := uart_room s - 1\<rparr>"

definition write_reg :: "nat \<Rightarrow> uint8 \<Rightarrow> 'a consst_scheme \<Rightarrow> 'a consst_scheme" where
  "write_reg reg v s =
     (if reg < 2 \<and> bit (uart_regs s 3) 7 then s\<lparr>uart_latch := (uart_latch s)(reg := v)\<rparr>
      else if reg = 0 then uart_send v s
      else s\<lparr>uart_regs := (uart_regs s)(reg := v)\<rparr>)"

definition uartinit :: "'a consst_scheme \<Rightarrow> 'a consst_scheme" where
  "uartinit s =
     (let s = write_reg 1 0 s;
          s = write_reg 3 0x80 s;
          s = write_reg 0 3 s;
          s = write_reg 1 0 s;
          s = write_reg 3 3 s;
          s = write_reg 2 (1 OR 6) s;
          s = write_reg 1 (2 OR 1) s
      in initlock L_uart ''uart'' s)"

section \<open>Output\<close>

text \<open>
  \<open>panic\<close> freezes the output: whoever tries to print afterwards spins. The wait for the
  transmit register spins while the device is busy.
\<close>

definition uartputc_sync :: "int \<Rightarrow> 'a consst_scheme \<Rightarrow> 'a consst_scheme outcome" where
  "uartputc_sync c s =
     (let s = push_off s in
      if panicked s then Spin
      else if read_lsr s AND LSR_TX_IDLE = 0 then Spin
      else pop_off (write_reg 0 (word_of_int c) s))"

text \<open>What \<open>wakeup\<close> leaves alone, for the termination of \<open>uartstart\<close>.\<close>

lemma release_more: "release lk s = Ok s' \<Longrightarrow> procst.more s' = procst.more (s :: 'a procst_scheme)"
  by (auto simp: release_def pop_off_def cpu_defs Let_def split: if_splits)

lemma acquire_more: "acquire lk s = Ok s' \<Longrightarrow> procst.more s' = procst.more (s :: 'a procst_scheme)"
  by (auto simp: acquire_def push_off_def cpu_defs Let_def split: if_splits)

lemma myproc_more: "myproc s = Ok (p, s') \<Longrightarrow> procst.more s' = procst.more s"
  by (auto simp: myproc_def pop_off_def push_off_def cpu_defs Let_def split: if_splits)

lemma wakeup_from_more: "wakeup_from ch is s = Ok s' \<Longrightarrow> procst.more s' = procst.more s"
proof (induction "is" arbitrary: s)
  case (Cons i "is" s)
  then show ?case
    by (auto simp: bindO_eq_Ok upd_proc_def Let_def split: if_splits
        dest!: myproc_more acquire_more release_more Cons.IH)
qed simp

lemma uart_room_more: "procst.more s = procst.more t \<Longrightarrow> uart_room s = uart_room t"
  by (cases s, cases t) simp

lemma tx_idle_iff: "read_lsr s AND 0x20 = 0 \<longleftrightarrow> uart_room s = 0"
  by (simp add: read_lsr_def)

function uartstart :: "'a consst_scheme \<Rightarrow> 'a consst_scheme outcome" where
  "uartstart s =
     (if uart_tx_w s = uart_tx_r s then Ok s
      else if read_lsr s AND LSR_TX_IDLE = 0 then Ok s
      else
        let c = uart_tx_buf s (unat (uart_tx_r s) mod UART_TX_BUF_SIZE);
            s = s\<lparr>uart_tx_r := uart_tx_r s + 1\<rparr> in
        bindO (wakeup Ch_uart_tx_r s) (\<lambda>s. uartstart (uart_send c s)))"
  by pat_completeness auto
termination
proof (relation "measure uart_room", simp)
  fix s s' :: "'a consst_scheme" and c t
  assume "\<not> read_lsr s AND LSR_TX_IDLE = 0" "t = s\<lparr>uart_tx_r := uart_tx_r s + 1\<rparr>"
    "wakeup Ch_uart_tx_r t = Ok s'"
  then have "uart_room s' = uart_room s" "uart_room s \<noteq> 0"
    using uart_room_more [of s' t] wakeup_from_more [of Ch_uart_tx_r "[0..<NPROC]" t s']
    by (simp_all add: wakeup_def tx_idle_iff)
  then show "(uart_send c s', s) \<in> measure uart_room" by (simp add: uart_send_def)
qed

declare uartstart.simps [simp del]

text \<open>
  One pass of \<open>uartputc\<close>'s loop; what it keeps across \<open>sleep\<close> is the sleeper and its
  \<open>intena\<close>.
\<close>

definition uartputc_run :: "int \<Rightarrow> nat \<times> bool \<Rightarrow> 'a consst_scheme \<Rightarrow>
    ((unit, nat \<times> bool) seg \<times> 'a consst_scheme) outcome" where
  "uartputc_run c l s =
     (if uart_tx_w s = uart_tx_r s + of_nat UART_TX_BUF_SIZE
      then bindO (sleep_begin Ch_uart_tx_r L_uart s) (\<lambda>(p, intena, s). Ok (Asleep (p, intena), s))
      else
        let s = s\<lparr>uart_tx_buf := (uart_tx_buf s)(unat (uart_tx_w s) mod UART_TX_BUF_SIZE := word_of_int c)\<rparr>;
            s = s\<lparr>uart_tx_w := uart_tx_w s + 1\<rparr> in
        bindO (uartstart s) (\<lambda>s.
        bindO (release L_uart s) (\<lambda>s. Ok (Return (), s))))"

definition uartputc :: "int \<Rightarrow> 'a consst_scheme \<Rightarrow> ('a consst_scheme, unit \<times> 'a consst_scheme) thread" where
  "uartputc c s =
     bindT (Done (acquire L_uart s)) (\<lambda>s.
     if panicked s then Done Spin
     else wait_loop (uartputc_run c) (\<lambda>(p, intena). sleep_end p L_uart intena) (0, False) (Ok s))"

section \<open>Input\<close>

definition uartgetc :: "'a consst_scheme \<Rightarrow> int \<times> 'a consst_scheme" where
  "uartgetc s =
     (if read_lsr s AND 1 \<noteq> 0 then let (c, s) = read_rhr s in (uint c, s) else (-1, s))"

section \<open>Frame rules for the console's fields\<close>

lemma cons_lock_simps [lock_simps]:
  "uart_regs (acquired lk s) = uart_regs s" "uart_regs (tidy s) = uart_regs s" "uart_regs (set_mycpu g s) = uart_regs s"
  "uart_latch (acquired lk s) = uart_latch s" "uart_latch (tidy s) = uart_latch s" "uart_latch (set_mycpu g s) = uart_latch s"
  "uart_sent (acquired lk s) = uart_sent s" "uart_sent (tidy s) = uart_sent s" "uart_sent (set_mycpu g s) = uart_sent s"
  "uart_room (acquired lk s) = uart_room s" "uart_room (tidy s) = uart_room s" "uart_room (set_mycpu g s) = uart_room s"
  "uart_rx (acquired lk s) = uart_rx s" "uart_rx (tidy s) = uart_rx s" "uart_rx (set_mycpu g s) = uart_rx s"
  "uart_tx_buf (acquired lk s) = uart_tx_buf s" "uart_tx_buf (tidy s) = uart_tx_buf s" "uart_tx_buf (set_mycpu g s) = uart_tx_buf s"
  "uart_tx_w (acquired lk s) = uart_tx_w s" "uart_tx_w (tidy s) = uart_tx_w s" "uart_tx_w (set_mycpu g s) = uart_tx_w s"
  "uart_tx_r (acquired lk s) = uart_tx_r s" "uart_tx_r (tidy s) = uart_tx_r s" "uart_tx_r (set_mycpu g s) = uart_tx_r s"
  "panicked (acquired lk s) = panicked s" "panicked (tidy s) = panicked s" "panicked (set_mycpu g s) = panicked s"
  "pr_locking (acquired lk s) = pr_locking s" "pr_locking (tidy s) = pr_locking s" "pr_locking (set_mycpu g s) = pr_locking s"
  "cons_buf (acquired lk s) = cons_buf s" "cons_buf (tidy s) = cons_buf s" "cons_buf (set_mycpu g s) = cons_buf s"
  "cons_r (acquired lk s) = cons_r s" "cons_r (tidy s) = cons_r s" "cons_r (set_mycpu g s) = cons_r s"
  "cons_w (acquired lk s) = cons_w s" "cons_w (tidy s) = cons_w s" "cons_w (set_mycpu g s) = cons_w s"
  "cons_e (acquired lk s) = cons_e s" "cons_e (tidy s) = cons_e s" "cons_e (set_mycpu g s) = cons_e s"
  "devsw_read (acquired lk s) = devsw_read s" "devsw_read (tidy s) = devsw_read s" "devsw_read (set_mycpu g s) = devsw_read s"
  "devsw_write (acquired lk s) = devsw_write s" "devsw_write (tidy s) = devsw_write s" "devsw_write (set_mycpu g s) = devsw_write s"
  "(acquired lk s)\<lparr>uart_regs := x0\<rparr> = acquired lk (s\<lparr>uart_regs := x0\<rparr>)" "(tidy s)\<lparr>uart_regs := x0\<rparr> = tidy (s\<lparr>uart_regs := x0\<rparr>)"
  "(acquired lk s)\<lparr>uart_latch := x1\<rparr> = acquired lk (s\<lparr>uart_latch := x1\<rparr>)" "(tidy s)\<lparr>uart_latch := x1\<rparr> = tidy (s\<lparr>uart_latch := x1\<rparr>)"
  "(acquired lk s)\<lparr>uart_sent := x2\<rparr> = acquired lk (s\<lparr>uart_sent := x2\<rparr>)" "(tidy s)\<lparr>uart_sent := x2\<rparr> = tidy (s\<lparr>uart_sent := x2\<rparr>)"
  "(acquired lk s)\<lparr>uart_room := x3\<rparr> = acquired lk (s\<lparr>uart_room := x3\<rparr>)" "(tidy s)\<lparr>uart_room := x3\<rparr> = tidy (s\<lparr>uart_room := x3\<rparr>)"
  "(acquired lk s)\<lparr>uart_rx := x4\<rparr> = acquired lk (s\<lparr>uart_rx := x4\<rparr>)" "(tidy s)\<lparr>uart_rx := x4\<rparr> = tidy (s\<lparr>uart_rx := x4\<rparr>)"
  "(acquired lk s)\<lparr>uart_tx_buf := x5\<rparr> = acquired lk (s\<lparr>uart_tx_buf := x5\<rparr>)" "(tidy s)\<lparr>uart_tx_buf := x5\<rparr> = tidy (s\<lparr>uart_tx_buf := x5\<rparr>)"
  "(acquired lk s)\<lparr>uart_tx_w := x6\<rparr> = acquired lk (s\<lparr>uart_tx_w := x6\<rparr>)" "(tidy s)\<lparr>uart_tx_w := x6\<rparr> = tidy (s\<lparr>uart_tx_w := x6\<rparr>)"
  "(acquired lk s)\<lparr>uart_tx_r := x7\<rparr> = acquired lk (s\<lparr>uart_tx_r := x7\<rparr>)" "(tidy s)\<lparr>uart_tx_r := x7\<rparr> = tidy (s\<lparr>uart_tx_r := x7\<rparr>)"
  "(acquired lk s)\<lparr>panicked := x8\<rparr> = acquired lk (s\<lparr>panicked := x8\<rparr>)" "(tidy s)\<lparr>panicked := x8\<rparr> = tidy (s\<lparr>panicked := x8\<rparr>)"
  "(acquired lk s)\<lparr>pr_locking := x9\<rparr> = acquired lk (s\<lparr>pr_locking := x9\<rparr>)" "(tidy s)\<lparr>pr_locking := x9\<rparr> = tidy (s\<lparr>pr_locking := x9\<rparr>)"
  "(acquired lk s)\<lparr>cons_buf := x10\<rparr> = acquired lk (s\<lparr>cons_buf := x10\<rparr>)" "(tidy s)\<lparr>cons_buf := x10\<rparr> = tidy (s\<lparr>cons_buf := x10\<rparr>)"
  "(acquired lk s)\<lparr>cons_r := x11\<rparr> = acquired lk (s\<lparr>cons_r := x11\<rparr>)" "(tidy s)\<lparr>cons_r := x11\<rparr> = tidy (s\<lparr>cons_r := x11\<rparr>)"
  "(acquired lk s)\<lparr>cons_w := x12\<rparr> = acquired lk (s\<lparr>cons_w := x12\<rparr>)" "(tidy s)\<lparr>cons_w := x12\<rparr> = tidy (s\<lparr>cons_w := x12\<rparr>)"
  "(acquired lk s)\<lparr>cons_e := x13\<rparr> = acquired lk (s\<lparr>cons_e := x13\<rparr>)" "(tidy s)\<lparr>cons_e := x13\<rparr> = tidy (s\<lparr>cons_e := x13\<rparr>)"
  "(acquired lk s)\<lparr>devsw_read := x14\<rparr> = acquired lk (s\<lparr>devsw_read := x14\<rparr>)" "(tidy s)\<lparr>devsw_read := x14\<rparr> = tidy (s\<lparr>devsw_read := x14\<rparr>)"
  "(acquired lk s)\<lparr>devsw_write := x15\<rparr> = acquired lk (s\<lparr>devsw_write := x15\<rparr>)" "(tidy s)\<lparr>devsw_write := x15\<rparr> = tidy (s\<lparr>devsw_write := x15\<rparr>)"
  by (simp_all add: acquired_def tidy_def set_mycpu_def intr_get_def)

lemma cons_upd_simps [lock_simps]:
  "lock_free lk (s\<lparr>uart_regs := x0\<rparr>) = lock_free lk s" "cpu_ok (s\<lparr>uart_regs := x0\<rparr>) = cpu_ok s" "holding lk (s\<lparr>uart_regs := x0\<rparr>) = holding lk s"
  "intr_get (s\<lparr>uart_regs := x0\<rparr>) = intr_get s" "mycpu (s\<lparr>uart_regs := x0\<rparr>) = mycpu s"
  "lock_free lk (s\<lparr>uart_latch := x1\<rparr>) = lock_free lk s" "cpu_ok (s\<lparr>uart_latch := x1\<rparr>) = cpu_ok s" "holding lk (s\<lparr>uart_latch := x1\<rparr>) = holding lk s"
  "intr_get (s\<lparr>uart_latch := x1\<rparr>) = intr_get s" "mycpu (s\<lparr>uart_latch := x1\<rparr>) = mycpu s"
  "lock_free lk (s\<lparr>uart_sent := x2\<rparr>) = lock_free lk s" "cpu_ok (s\<lparr>uart_sent := x2\<rparr>) = cpu_ok s" "holding lk (s\<lparr>uart_sent := x2\<rparr>) = holding lk s"
  "intr_get (s\<lparr>uart_sent := x2\<rparr>) = intr_get s" "mycpu (s\<lparr>uart_sent := x2\<rparr>) = mycpu s"
  "lock_free lk (s\<lparr>uart_room := x3\<rparr>) = lock_free lk s" "cpu_ok (s\<lparr>uart_room := x3\<rparr>) = cpu_ok s" "holding lk (s\<lparr>uart_room := x3\<rparr>) = holding lk s"
  "intr_get (s\<lparr>uart_room := x3\<rparr>) = intr_get s" "mycpu (s\<lparr>uart_room := x3\<rparr>) = mycpu s"
  "lock_free lk (s\<lparr>uart_rx := x4\<rparr>) = lock_free lk s" "cpu_ok (s\<lparr>uart_rx := x4\<rparr>) = cpu_ok s" "holding lk (s\<lparr>uart_rx := x4\<rparr>) = holding lk s"
  "intr_get (s\<lparr>uart_rx := x4\<rparr>) = intr_get s" "mycpu (s\<lparr>uart_rx := x4\<rparr>) = mycpu s"
  "lock_free lk (s\<lparr>uart_tx_buf := x5\<rparr>) = lock_free lk s" "cpu_ok (s\<lparr>uart_tx_buf := x5\<rparr>) = cpu_ok s" "holding lk (s\<lparr>uart_tx_buf := x5\<rparr>) = holding lk s"
  "intr_get (s\<lparr>uart_tx_buf := x5\<rparr>) = intr_get s" "mycpu (s\<lparr>uart_tx_buf := x5\<rparr>) = mycpu s"
  "lock_free lk (s\<lparr>uart_tx_w := x6\<rparr>) = lock_free lk s" "cpu_ok (s\<lparr>uart_tx_w := x6\<rparr>) = cpu_ok s" "holding lk (s\<lparr>uart_tx_w := x6\<rparr>) = holding lk s"
  "intr_get (s\<lparr>uart_tx_w := x6\<rparr>) = intr_get s" "mycpu (s\<lparr>uart_tx_w := x6\<rparr>) = mycpu s"
  "lock_free lk (s\<lparr>uart_tx_r := x7\<rparr>) = lock_free lk s" "cpu_ok (s\<lparr>uart_tx_r := x7\<rparr>) = cpu_ok s" "holding lk (s\<lparr>uart_tx_r := x7\<rparr>) = holding lk s"
  "intr_get (s\<lparr>uart_tx_r := x7\<rparr>) = intr_get s" "mycpu (s\<lparr>uart_tx_r := x7\<rparr>) = mycpu s"
  "lock_free lk (s\<lparr>panicked := x8\<rparr>) = lock_free lk s" "cpu_ok (s\<lparr>panicked := x8\<rparr>) = cpu_ok s" "holding lk (s\<lparr>panicked := x8\<rparr>) = holding lk s"
  "intr_get (s\<lparr>panicked := x8\<rparr>) = intr_get s" "mycpu (s\<lparr>panicked := x8\<rparr>) = mycpu s"
  "lock_free lk (s\<lparr>pr_locking := x9\<rparr>) = lock_free lk s" "cpu_ok (s\<lparr>pr_locking := x9\<rparr>) = cpu_ok s" "holding lk (s\<lparr>pr_locking := x9\<rparr>) = holding lk s"
  "intr_get (s\<lparr>pr_locking := x9\<rparr>) = intr_get s" "mycpu (s\<lparr>pr_locking := x9\<rparr>) = mycpu s"
  "lock_free lk (s\<lparr>cons_buf := x10\<rparr>) = lock_free lk s" "cpu_ok (s\<lparr>cons_buf := x10\<rparr>) = cpu_ok s" "holding lk (s\<lparr>cons_buf := x10\<rparr>) = holding lk s"
  "intr_get (s\<lparr>cons_buf := x10\<rparr>) = intr_get s" "mycpu (s\<lparr>cons_buf := x10\<rparr>) = mycpu s"
  "lock_free lk (s\<lparr>cons_r := x11\<rparr>) = lock_free lk s" "cpu_ok (s\<lparr>cons_r := x11\<rparr>) = cpu_ok s" "holding lk (s\<lparr>cons_r := x11\<rparr>) = holding lk s"
  "intr_get (s\<lparr>cons_r := x11\<rparr>) = intr_get s" "mycpu (s\<lparr>cons_r := x11\<rparr>) = mycpu s"
  "lock_free lk (s\<lparr>cons_w := x12\<rparr>) = lock_free lk s" "cpu_ok (s\<lparr>cons_w := x12\<rparr>) = cpu_ok s" "holding lk (s\<lparr>cons_w := x12\<rparr>) = holding lk s"
  "intr_get (s\<lparr>cons_w := x12\<rparr>) = intr_get s" "mycpu (s\<lparr>cons_w := x12\<rparr>) = mycpu s"
  "lock_free lk (s\<lparr>cons_e := x13\<rparr>) = lock_free lk s" "cpu_ok (s\<lparr>cons_e := x13\<rparr>) = cpu_ok s" "holding lk (s\<lparr>cons_e := x13\<rparr>) = holding lk s"
  "intr_get (s\<lparr>cons_e := x13\<rparr>) = intr_get s" "mycpu (s\<lparr>cons_e := x13\<rparr>) = mycpu s"
  "lock_free lk (s\<lparr>devsw_read := x14\<rparr>) = lock_free lk s" "cpu_ok (s\<lparr>devsw_read := x14\<rparr>) = cpu_ok s" "holding lk (s\<lparr>devsw_read := x14\<rparr>) = holding lk s"
  "intr_get (s\<lparr>devsw_read := x14\<rparr>) = intr_get s" "mycpu (s\<lparr>devsw_read := x14\<rparr>) = mycpu s"
  "lock_free lk (s\<lparr>devsw_write := x15\<rparr>) = lock_free lk s" "cpu_ok (s\<lparr>devsw_write := x15\<rparr>) = cpu_ok s" "holding lk (s\<lparr>devsw_write := x15\<rparr>) = holding lk s"
  "intr_get (s\<lparr>devsw_write := x15\<rparr>) = intr_get s" "mycpu (s\<lparr>devsw_write := x15\<rparr>) = mycpu s"
  by (simp_all add: lock_free_def cpu_ok_def holding_def cpu_defs)

lemma cons_upd_proc [simp]:
  "uart_regs (upd_proc i g s) = uart_regs s"
  "uart_latch (upd_proc i g s) = uart_latch s"
  "uart_sent (upd_proc i g s) = uart_sent s"
  "uart_room (upd_proc i g s) = uart_room s"
  "uart_rx (upd_proc i g s) = uart_rx s"
  "uart_tx_buf (upd_proc i g s) = uart_tx_buf s"
  "uart_tx_w (upd_proc i g s) = uart_tx_w s"
  "uart_tx_r (upd_proc i g s) = uart_tx_r s"
  "panicked (upd_proc i g s) = panicked s"
  "pr_locking (upd_proc i g s) = pr_locking s"
  "cons_buf (upd_proc i g s) = cons_buf s"
  "cons_r (upd_proc i g s) = cons_r s"
  "cons_w (upd_proc i g s) = cons_w s"
  "cons_e (upd_proc i g s) = cons_e s"
  "devsw_read (upd_proc i g s) = devsw_read s"
  "devsw_write (upd_proc i g s) = devsw_write s"
  by (simp_all add: upd_proc_def)

section \<open>The transmit buffer as a queue\<close>

interpretation uart_ring: ring 32 "TYPE(64)"
  by unfold_locales auto

definition tx_pending :: "'a consst_scheme \<Rightarrow> uint8 list" where
  "tx_pending s = ring_items 32 (uart_tx_buf s, uart_tx_r s, uart_tx_w s)"

definition tx_ok :: "'a consst_scheme \<Rightarrow> bool" where
  "tx_ok s \<longleftrightarrow> ring_inv 32 (uart_tx_buf s, uart_tx_r s, uart_tx_w s)"

text \<open>The device after it has taken the first \<open>k\<close> waiting bytes.\<close>

definition tx_drain :: "nat \<Rightarrow> 'a consst_scheme \<Rightarrow> 'a consst_scheme" where
  "tx_drain k s =
     s\<lparr>procs := (if k = 0 then procs s else woken Ch_uart_tx_r (c_proc (mycpu s)) {..<NPROC} (procs s)),
       uart_sent := uart_sent s @ take k (tx_pending s), uart_room := uart_room s - k,
       uart_tx_r := uart_tx_r s + of_nat k\<rparr>"

abbreviation others_free :: "'a procst_scheme \<Rightarrow> bool" where
  "others_free s \<equiv> \<forall>i < NPROC. c_proc (mycpu s) \<noteq> Some i \<longrightarrow> lock_free (L_proc i) s"

lemma tx_pending_Cons:
  assumes "uart_tx_w s \<noteq> uart_tx_r s"
  shows "tx_pending s = uart_tx_buf s (unat (uart_tx_r s) mod 32) # tx_pending (s\<lparr>uart_tx_r := uart_tx_r s + 1\<rparr>)"
  using uart_ring.ring_get_items [of "uart_tx_r s" "uart_tx_w s" "uart_tx_buf s"] assms
  by (simp add: tx_pending_def ring_get_def)

lemma uartstart_eq:
  assumes "cpu_ok s" and "others_free s" and "lock_free L_uart s"
  shows "uartstart (acquired L_uart s) =
     Ok (acquired L_uart (tx_drain (min (uart_room s) (length (tx_pending s))) s))"
  using assms
proof (induction "uart_room s" arbitrary: s)
  case 0
  then have "tx_drain (min (uart_room s) (length (tx_pending s))) s = s" by (simp add: tx_drain_def)
  then show ?case using 0 tx_idle_iff [of "acquired L_uart s"]
    by (subst uartstart.simps) (simp add: lock_simps)
next
  case (Suc n)
  show ?case
  proof (cases "uart_tx_w s = uart_tx_r s")
    case True
    then have "tx_drain (min (uart_room s) (length (tx_pending s))) s = s" by (simp add: tx_drain_def tx_pending_def)
    with True show ?thesis by (subst uartstart.simps) (simp add: lock_simps)
  next
    case False
    let ?c = "uart_tx_buf s (unat (uart_tx_r s) mod 32)"
    let ?t = "uart_send ?c (s\<lparr>uart_tx_r := uart_tx_r s + 1,
      procs := woken Ch_uart_tx_r (c_proc (mycpu s)) {..<NPROC} (procs s)\<rparr>)"
    have room: "uart_room s = Suc n" using Suc.hyps(2) by simp
    have "wakeup Ch_uart_tx_r (acquired L_uart (s\<lparr>uart_tx_r := uart_tx_r s + 1\<rparr>)) =
        Ok (acquired L_uart (s\<lparr>uart_tx_r := uart_tx_r s + 1,
          procs := woken Ch_uart_tx_r (c_proc (mycpu s)) {..<NPROC} (procs s)\<rparr>))"
      using Suc.prems by (subst wakeup_eq) (auto simp: lock_simps)
    then have "uartstart (acquired L_uart s) = uartstart (acquired L_uart ?t)"
      using False room tx_idle_iff [of "acquired L_uart s"]
      by (subst uartstart.simps) (simp add: lock_simps uart_send_def)
    also have "\<dots> = Ok (acquired L_uart (tx_drain (min (uart_room ?t) (length (tx_pending ?t))) ?t))"
      using Suc.prems room by (intro Suc.hyps(1)) (auto simp: uart_send_def lock_simps)
    also have "tx_drain (min (uart_room ?t) (length (tx_pending ?t))) ?t
        = tx_drain (min (uart_room s) (length (tx_pending s))) s"
      using room tx_pending_Cons [OF False]
      by (simp add: tx_drain_def uart_send_def tx_pending_def lock_simps woken_Un algebra_simps)
    finally show ?thesis .
  qed
qed

lemma uartputc_sync_eq [lock_simps]:
  assumes "cpu_ok s" and "\<not> panicked s" and "0 < uart_room s" and "\<not> bit (uart_regs s 3) 7"
  shows "uartputc_sync c s = Ok (tidy (uart_send (word_of_int c) s))"
proof -
  have "uart_send (word_of_int c) (push_off s) = push_off (uart_send (word_of_int c) s)"
    by (simp add: uart_send_def push_off_def cpu_defs Let_def)
  moreover have "pop_off (push_off (uart_send (word_of_int c) s)) = Ok (tidy (uart_send (word_of_int c) s))"
    using assms(1) by (intro pop_push) (simp add: uart_send_def lock_simps)
  moreover have "panicked (push_off s) = panicked s" "uart_room (push_off s) = uart_room s"
    "uart_regs (push_off s) = uart_regs s"
    by (simp_all add: push_off_def cpu_defs Let_def)
  ultimately show ?thesis
    using assms tx_idle_iff [of "push_off s"] by (simp add: uartputc_sync_def write_reg_def Let_def)
qed

text \<open>What goes to the line, now or later.\<close>

definition tx_stream :: "'a consst_scheme \<Rightarrow> uint8 list" where
  "tx_stream s = uart_sent s @ tx_pending s"

lemma tx_pending_drop:
  assumes "k \<le> length (tx_pending s)"
  shows "tx_pending (s\<lparr>uart_tx_r := uart_tx_r s + of_nat k\<rparr>) = drop k (tx_pending s)"
  using assms
proof (induction k)
  case (Suc k)
  let ?s = "s\<lparr>uart_tx_r := uart_tx_r s + of_nat k\<rparr>"
  have IH: "tx_pending ?s = drop k (tx_pending s)" using Suc by simp
  then have "tx_pending ?s \<noteq> []" using Suc.prems by simp
  then have "uart_tx_w ?s \<noteq> uart_tx_r ?s" by (auto simp: tx_pending_def)
  from tx_pending_Cons [OF this] have "tx_pending (?s\<lparr>uart_tx_r := uart_tx_r ?s + 1\<rparr>) = tl (tx_pending ?s)"
    by simp
  then show ?case using IH by (simp add: drop_Suc tl_drop algebra_simps)
qed simp

lemma tx_stream_drain: "k \<le> length (tx_pending s) \<Longrightarrow> tx_stream (tx_drain k s) = tx_stream s"
  using tx_pending_drop [of k s]
  by (simp add: tx_stream_def tx_drain_def tx_pending_def)

lemma tx_ok_drain:
  assumes "tx_ok s" and "k \<le> length (tx_pending s)"
  shows "tx_ok (tx_drain k s)"
proof -
  have "length (tx_pending (s\<lparr>uart_tx_r := uart_tx_r s + of_nat k\<rparr>)) \<le> 32"
    using assms by (simp only: tx_pending_drop) (simp add: tx_ok_def ring_inv_def tx_pending_def)
  then show ?thesis by (simp add: tx_ok_def ring_inv_def tx_drain_def tx_pending_def)
qed

text \<open>
  C16: output to the serial port neither loses nor reorders bytes. With room in the transmit
  buffer \<open>uartputc\<close> returns without sleeping, and what has been sent followed by what
  is waiting has grown by exactly the new byte; when the buffer is full it goes to
  sleep, having changed nothing but its own state, on the channel that \<open>uartstart\<close> wakes.
\<close>

theorem uartputc_in_order:
  assumes "cpu_ok s" and "c_proc (mycpu s) = Some p" and "c_noff (mycpu s) = 0"
    and "\<forall>i < NPROC. lock_free (L_proc i) s" and "p < NPROC" and "lock_free L_uart s"
    and "\<not> panicked s" and "tx_ok s"
  shows "if length (tx_pending s) < 32
     then \<exists>s'. uartputc c s = Done (Ok ((), s')) \<and> tx_stream s' = tx_stream s @ [word_of_int c] \<and> tx_ok s'
     else \<exists>k. uartputc c s = Switch (acquired (L_proc p)
         (upd_proc p (\<lambda>p. p\<lparr>p_chan := Ch_uart_tx_r, p_state := SLEEPING\<rparr>) s)) k"
proof (cases "length (tx_pending s) < 32")
  case True
  let ?s = "s\<lparr>uart_tx_buf := (uart_tx_buf s)(unat (uart_tx_w s) mod 32 := word_of_int c),
    uart_tx_w := uart_tx_w s + 1\<rparr>"
  let ?k = "min (uart_room ?s) (length (tx_pending ?s))"
  have less: "unat (uart_tx_w s - uart_tx_r s) < 32" using True by (simp add: tx_pending_def)
  then have nfull: "uart_tx_w s \<noteq> uart_tx_r s + 32"
    using uart_ring.full_iff [of "uart_tx_w s" "uart_tx_r s"] by simp
  have pend: "tx_pending ?s = tx_pending s @ [word_of_int c]"
    using uart_ring.ring_put_items [OF less, of "word_of_int c" "uart_tx_buf s"]
    by (simp add: tx_pending_def ring_put_def)
  have ok: "tx_ok ?s" using uart_ring.put_len [OF less] less by (simp add: tx_ok_def ring_inv_def)
  have "uartstart (acquired L_uart ?s) = Ok (acquired L_uart (tx_drain ?k ?s))"
    using assms by (intro uartstart_eq) (auto simp: lock_simps)
  moreover have "release L_uart (acquired L_uart (tx_drain ?k ?s)) = Ok (tidy (tx_drain ?k ?s))"
    using assms by (intro release_acquired) (auto simp: tx_drain_def lock_simps)
  ultimately have "uartputc c s = Done (Ok ((), tidy (tx_drain ?k ?s)))"
    using assms nfull by (simp add: uartputc_def uartputc_run_def lock_simps thread_simps Let_def)
  moreover have "tx_stream (tidy (tx_drain ?k ?s)) = tx_stream ?s"
    using tx_stream_drain [of ?k ?s] by (simp add: tx_stream_def tx_pending_def lock_simps)
  moreover have "tx_ok (tidy (tx_drain ?k ?s))"
    using tx_ok_drain [OF ok, of ?k] by (simp add: tx_ok_def lock_simps)
  ultimately show ?thesis using True pend by (auto simp: tx_stream_def)
next
  case False
  then have "uart_tx_w s = uart_tx_r s + 32"
    using assms(8) uart_ring.full_iff [of "uart_tx_w s" "uart_tx_r s"]
    by (auto simp: tx_ok_def ring_inv_def tx_pending_def)
  moreover have "sleep_begin Ch_uart_tx_r L_uart (acquired L_uart s) = Ok (p, intr_get s,
      acquired (L_proc p) (upd_proc p (\<lambda>p. p\<lparr>p_chan := Ch_uart_tx_r, p_state := SLEEPING\<rparr>) s))"
    using assms by (intro sleep_begin_eq) auto
  ultimately show ?thesis
    using assms False by (simp add: uartputc_def uartputc_run_def lock_simps thread_simps Let_def wait_loop_asleep)
qed

section \<open>A concrete state\<close>

text \<open>A kernel that runs process \<open>p\<close>, with the console initialised and nothing written yet.\<close>

definition demo_console :: "nat \<Rightarrow> (nat \<Rightarrow> proc) \<Rightarrow> consst" where
  "demo_console p ps =
     procst.extend (set_mycpu (\<lambda>c. c\<lparr>c_proc := Some p\<rparr>) (demo_kernel ps))
       (consst.fields (\<lambda>_. 0) (\<lambda>_. 0) [] 1000 [] (\<lambda>_. 0) 0 0 False True (\<lambda>_. 0) 0 0 0 Map.empty Map.empty)"

lemma demo_console_simps [simp]:
  "procs (demo_console p ps) = ps" "mem (demo_console p ps) = (\<lambda>_. 0)" "lock_free lk (demo_console p ps)"
  "cpu_ok (demo_console p ps)" "c_proc (mycpu (demo_console p ps)) = Some p" "c_noff (mycpu (demo_console p ps)) = 0"
  "intr_get (demo_console p ps)" "tframes (demo_console p ps) = (\<lambda>_. blank_trapframe)"
  "binSemArray (demo_console p ps) = (\<lambda>_. \<lparr>sem_id = 0, sem_locked = False, sem_used = False\<rparr>)"
  "nextsid (demo_console p ps) = 1" "ksym (demo_console p ps) = (\<lambda>_. 0x80002000)"
  "uart_regs (demo_console p ps) = (\<lambda>_. 0)" "uart_sent (demo_console p ps) = []" "uart_room (demo_console p ps) = 1000"
  "uart_rx (demo_console p ps) = []" "uart_tx_buf (demo_console p ps) = (\<lambda>_. 0)"
  "uart_tx_w (demo_console p ps) = 0" "uart_tx_r (demo_console p ps) = 0"
  "\<not> panicked (demo_console p ps)" "pr_locking (demo_console p ps)" "cons_buf (demo_console p ps) = (\<lambda>_. 0)"
  "cons_r (demo_console p ps) = 0" "cons_w (demo_console p ps) = 0" "cons_e (demo_console p ps) = 0"
  by (simp_all add: demo_console_def demo_kernel_def boot_kmem_def boot_machine_def vmst.defs kmem.defs machine.defs
      procst.defs consst.defs cpu_ok_def lock_free_def cpu_defs)

theorem uartputc_in_order_witness:
  "\<exists>s'. uartputc 65 (demo_console 1 (\<lambda>_. blank_proc)) = Done (Ok ((), s')) \<and> tx_stream s' = [65]"
  using uartputc_in_order [of "demo_console 1 (\<lambda>_. blank_proc)" 1 65]
  by (auto simp: tx_pending_def tx_stream_def tx_ok_def ring_inv_def ring_items_def)

end
