(* ===== verification/Printf.thy ===== *)
theory Printf
  imports Uart
begin

text \<open>
  Formatted console output, \<^verbatim>\<open>kernel/printf.c\<close>, with \<open>consputc\<close> of
  \<^verbatim>\<open>kernel/console.c\<close> under it and \<open>procdump\<close> of \<^verbatim>\<open>kernel/proc.c\<close> on top. The
  arguments of \<open>printf\<close> are a list of typed values. \<open>render\<close> is the text a format and its
  arguments stand for; \<open>printf\<close> sends exactly that. The digits \<open>printint\<close> produces read
  back as the number.
\<close>

section \<open>Definitions\<close>

definition BACKSPACE :: int where [simp]: "BACKSPACE = 0x100"

definition consputc :: "int \<Rightarrow> 'a consst_scheme \<Rightarrow> 'a consst_scheme outcome" where
  "consputc c s =
     (if c = BACKSPACE
      then bindO (uartputc_sync 8 s) (\<lambda>s. bindO (uartputc_sync 32 s) (\<lambda>s. uartputc_sync 8 s))
      else uartputc_sync c s)"

primrec consputs :: "int list \<Rightarrow> 'a consst_scheme \<Rightarrow> 'a consst_scheme outcome" where
  "consputs [] s = Ok s"
| "consputs (c # cs) s = bindO (consputc c s) (\<lambda>s. consputs cs s)"

definition digits :: "nat \<Rightarrow> int" where
  "digits d = of_char (''0123456789abcdef'' ! d)"

lemma div_word_less:
  fixes x base :: uint32
  assumes "x div base \<noteq> 0" and "\<not> base < 2"
  shows "unat (x div base) < unat x"
proof -
  have "unat x div unat base \<noteq> 0" using assms(1) by (simp add: unat_div flip: unat_eq_0)
  moreover have "2 \<le> unat base" using assms(2) by (simp add: word_less_nat_alt)
  ultimately have "unat x div unat base < unat x" by (intro div_less_dividend) (auto intro: Nat.gr0I)
  then show ?thesis by (simp add: unat_div)
qed

text \<open>The digits as \<open>buf\<close> holds them, the last one first; the callers pass base 10 and 16.\<close>

function printint_digits :: "uint32 \<Rightarrow> uint32 \<Rightarrow> int list" where
  "printint_digits base x =
     digits (unat (x mod base)) #
       (if x div base = 0 \<or> base < 2 then [] else printint_digits base (x div base))"
  by pat_completeness auto
termination by (relation "measure (unat \<circ> snd)") (auto simp: div_word_less)

declare printint_digits.simps [simp del]

definition printint_buf :: "int \<Rightarrow> uint32 \<Rightarrow> bool \<Rightarrow> int list" where
  "printint_buf xx base sign =
     (if sign \<and> xx < 0 then printint_digits base (word_of_int (- xx)) @ [of_char CHR ''-'']
      else printint_digits base (word_of_int xx))"

definition printint :: "int \<Rightarrow> uint32 \<Rightarrow> bool \<Rightarrow> 'a consst_scheme \<Rightarrow> 'a consst_scheme outcome" where
  "printint xx base sign s = consputs (rev (printint_buf xx base sign)) s"

primrec printptr_from :: "nat \<Rightarrow> uint64 \<Rightarrow> 'a consst_scheme \<Rightarrow> 'a consst_scheme outcome" where
  "printptr_from 0 x s = Ok s"
| "printptr_from (Suc n) x s =
     bindO (consputc (digits (unat (drop_bit 60 x))) s) (\<lambda>s. printptr_from n (push_bit 4 x) s)"

definition printptr :: "uint64 \<Rightarrow> 'a consst_scheme \<Rightarrow> 'a consst_scheme outcome" where
  "printptr x s =
     bindO (consputc (of_char CHR ''0'') s) (\<lambda>s.
     bindO (consputc (of_char CHR ''x'') s) (\<lambda>s. printptr_from 16 x s))"

datatype parg = Arg_int int | Arg_ptr uint64 | Arg_str "string option"

text \<open>
  The \<open>switch\<close> of \<open>printf\<close> on the character after a percent sign; a missing argument or
  one of another type is undefined in C.
\<close>

definition printf_directive :: "char \<Rightarrow> parg list \<Rightarrow> 'a consst_scheme \<Rightarrow> (parg list \<times> 'a consst_scheme) outcome" where
  "printf_directive d args s =
     (if d = CHR ''d''
      then (case args of Arg_int x # as \<Rightarrow> bindO (printint x 10 True s) (\<lambda>s. Ok (as, s)) | _ \<Rightarrow> Panic ''undefined'')
      else if d = CHR ''x''
      then (case args of Arg_int x # as \<Rightarrow> bindO (printint x 16 True s) (\<lambda>s. Ok (as, s)) | _ \<Rightarrow> Panic ''undefined'')
      else if d = CHR ''p''
      then (case args of Arg_ptr x # as \<Rightarrow> bindO (printptr x s) (\<lambda>s. Ok (as, s)) | _ \<Rightarrow> Panic ''undefined'')
      else if d = CHR ''s''
      then (case args of
              Arg_str x # as \<Rightarrow>
                bindO (consputs (map of_char (case x of None \<Rightarrow> ''(null)'' | Some t \<Rightarrow> t)) s) (\<lambda>s. Ok (as, s))
            | _ \<Rightarrow> Panic ''undefined'')
      else if d = CHR ''%'' then bindO (consputc (of_char CHR ''%'') s) (\<lambda>s. Ok (args, s))
      else bindO (consputc (of_char CHR ''%'') s) (\<lambda>s. bindO (consputc (of_char d) s) (\<lambda>s. Ok (args, s))))"

fun printf_from :: "string \<Rightarrow> parg list \<Rightarrow> 'a consst_scheme \<Rightarrow> 'a consst_scheme outcome" where
  "printf_from [] args s = Ok s"
| "printf_from (c # cs) args s =
     (if c \<noteq> CHR ''%'' then bindO (consputc (of_char c) s) (\<lambda>s. printf_from cs args s)
      else case cs of
        [] \<Rightarrow> Ok s
      | d # ds \<Rightarrow> bindO (printf_directive d args s) (\<lambda>(args, s). printf_from ds args s))"

definition printf :: "string option \<Rightarrow> parg list \<Rightarrow> 'a consst_scheme \<Rightarrow> 'a consst_scheme outcome" where
  "printf fmt args s =
     (let locking = pr_locking s in
      bindO (if locking then acquire L_pr s else Ok s) (\<lambda>s.
      case fmt of
        None \<Rightarrow> Panic ''null fmt''
      | Some fmt \<Rightarrow>
        bindO (printf_from fmt args s) (\<lambda>s.
        if locking then release L_pr s else Ok s)))"

text \<open>\<open>panic\<close> up to its final endless loop.\<close>

definition panic :: "string \<Rightarrow> 'a consst_scheme \<Rightarrow> 'a consst_scheme outcome" where
  "panic msg s =
     (let s = s\<lparr>pr_locking := False\<rparr> in
      bindO (printf (Some ''panic: '') [] s) (\<lambda>s.
      bindO (printf (Some msg) [] s) (\<lambda>s.
      bindO (printf (Some [CHR 10]) [] s) (\<lambda>s.
      Ok (s\<lparr>panicked := True\<rparr>)))))"

definition printfinit :: "'a consst_scheme \<Rightarrow> 'a consst_scheme" where
  "printfinit s = (initlock L_pr ''pr'' s)\<lparr>pr_locking := True\<rparr>"

section \<open>The process listing\<close>

fun state_name :: "procstate \<Rightarrow> string" where
  "state_name UNUSED = ''unused''"
| "state_name USED = ''???''"
| "state_name SLEEPING = ''sleep ''"
| "state_name RUNNABLE = ''runble''"
| "state_name RUNNING = ''run   ''"
| "state_name ZOMBIE = ''zombie''"

definition name_string :: "chars \<Rightarrow> string" where
  "name_string nm = map (char_of \<circ> unat) (takeWhile (\<lambda>b. b \<noteq> 0) (map nm [0..<16]))"

primrec procdump_from :: "nat list \<Rightarrow> 'a consst_scheme \<Rightarrow> 'a consst_scheme outcome" where
  "procdump_from [] s = Ok s"
| "procdump_from (i # is) s =
     (let p = procs s i in
      if p_state p = UNUSED then procdump_from is s
      else bindO (printf (Some ''%d %s %s'')
             [Arg_int (p_pid p), Arg_str (Some (state_name (p_state p))), Arg_str (Some (name_string (p_name p)))] s) (\<lambda>s.
           bindO (printf (Some [CHR 10]) [] s) (\<lambda>s. procdump_from is s)))"

definition procdump :: "'a consst_scheme \<Rightarrow> 'a consst_scheme outcome" where
  "procdump s = bindO (printf (Some [CHR 10]) [] s) (\<lambda>s. procdump_from [0..<NPROC] s)"

section \<open>What is sent\<close>

definition uart_out :: "int list \<Rightarrow> 'a consst_scheme \<Rightarrow> 'a consst_scheme" where
  "uart_out cs s = s\<lparr>uart_sent := uart_sent s @ map word_of_int cs, uart_room := uart_room s - length cs\<rparr>"

definition can_print :: "'a consst_scheme \<Rightarrow> bool" where
  "can_print s \<longleftrightarrow> cpu_ok s \<and> \<not> panicked s \<and> \<not> bit (uart_regs s 3) 7"

lemma uart_out_simps [simp]:
  "uart_out [] s = s" "uart_out cs' (uart_out cs s) = uart_out (cs @ cs') s"
  "uart_room (uart_out cs s) = uart_room s - length cs" "procs (uart_out cs s) = procs s"
  by (simp_all add: uart_out_def)

lemma uart_out_lock_simps [lock_simps]:
  "can_print (uart_out cs s) = can_print s" "can_print (tidy s) = can_print s"
  "cpu_ok s \<Longrightarrow> can_print (acquired lk s) = can_print s"
  "uart_out cs (tidy s) = tidy (uart_out cs s)" "uart_out cs (acquired lk s) = acquired lk (uart_out cs s)"
  "lock_free lk (uart_out cs s) = lock_free lk s" "cpu_ok (uart_out cs s) = cpu_ok s"
  by (auto simp: can_print_def uart_out_def lock_simps)

lemma can_printD: "can_print s \<Longrightarrow> cpu_ok s"
  by (simp add: can_print_def)

lemma consputc_eq:
  assumes "can_print s" and "c \<noteq> 256" and "0 < uart_room s"
  shows "consputc c s = Ok (tidy (uart_out [c] s))"
  using assms by (simp add: consputc_def can_print_def lock_simps uart_out_def uart_send_def)

lemma consputs_eq:
  assumes "can_print s" and "256 \<notin> set cs" and "length cs \<le> uart_room s" and "cs \<noteq> []"
  shows "consputs cs s = Ok (tidy (uart_out cs s))"
  using assms
proof (induction cs arbitrary: s)
  case (Cons c cs)
  show ?case
  proof (cases "cs = []")
    case True
    then show ?thesis using Cons.prems consputc_eq [of s c] by simp
  next
    case False
    have "consputs cs (tidy (uart_out [c] s)) = Ok (tidy (uart_out cs (tidy (uart_out [c] s))))"
      using Cons.prems False by (intro Cons.IH) (auto simp: lock_simps)
    then show ?thesis using Cons.prems consputc_eq [of s c] by (simp add: lock_simps)
  qed
qed simp

text \<open>Up to the saved interrupt flag, also for no character at all.\<close>

lemma consputs_out:
  assumes "can_print s" and "256 \<notin> set cs" and "length cs \<le> uart_room s"
  shows "\<exists>s'. consputs cs s = Ok s' \<and> tidy s' = tidy (uart_out cs s)"
  using consputs_eq [OF assms] by (cases "cs = []") (auto simp: lock_simps)

lemma digits_cases: "d < 16 \<Longrightarrow> digits d = (if d < 10 then 48 + int d else 87 + int d)"
proof -
  have "\<forall>d \<in> set [0..<16]. digits d = (if d < 10 then 48 + int d else 87 + int d)" by code_simp
  then show "d < 16 \<Longrightarrow> ?thesis" by simp
qed

lemma digits_range: "d < 16 \<Longrightarrow> digits d \<in> {0..<256}"
  by (simp add: digits_cases)

lemma set_printint_digits: "base \<in> {10, 16} \<Longrightarrow> set (printint_digits base x) \<subseteq> {0..<256}"
proof (induction base x rule: printint_digits.induct)
  case (1 base x)
  have "unat (x mod base) < 16" using 1(2) by (auto simp: unat_mod)
  then show ?case using 1 digits_range by (subst printint_digits.simps) (auto simp del: atLeastLessThan_iff)
qed

primrec printptr_text :: "nat \<Rightarrow> uint64 \<Rightarrow> int list" where
  "printptr_text 0 x = []"
| "printptr_text (Suc n) x = digits (unat (drop_bit 60 x)) # printptr_text n (push_bit 4 x)"

lemma printptr_from_text: "printptr_from n x s = consputs (printptr_text n x) s"
  by (induction n arbitrary: x s) simp_all

lemma length_printptr_text [simp]: "length (printptr_text n x) = n"
  by (induction n arbitrary: x) simp_all

lemma set_printptr_text: "set (printptr_text n x) \<subseteq> {0..<256}"
proof (induction n arbitrary: x)
  case (Suc n)
  have "unat (drop_bit 60 x) < 16"
    using unsigned_less [of x, where 'a = nat] by (simp add: unat_drop_bit div_less_iff_less_mult)
  then show ?case using Suc digits_range by (simp del: atLeastLessThan_iff)
qed simp

section \<open>printf sends the text of its format\<close>

definition render_directive :: "char \<Rightarrow> parg list \<Rightarrow> (int list \<times> parg list) option" where
  "render_directive d args =
     (if d = CHR ''d''
      then (case args of Arg_int x # as \<Rightarrow> Some (rev (printint_buf x 10 True), as) | _ \<Rightarrow> None)
      else if d = CHR ''x''
      then (case args of Arg_int x # as \<Rightarrow> Some (rev (printint_buf x 16 True), as) | _ \<Rightarrow> None)
      else if d = CHR ''p''
      then (case args of Arg_ptr x # as \<Rightarrow> Some ([48, 120] @ printptr_text 16 x, as) | _ \<Rightarrow> None)
      else if d = CHR ''s''
      then (case args of
              Arg_str x # as \<Rightarrow> Some (map of_char (case x of None \<Rightarrow> ''(null)'' | Some t \<Rightarrow> t), as)
            | _ \<Rightarrow> None)
      else if d = CHR ''%'' then Some ([37], args)
      else Some ([37, of_char d], args))"

fun render :: "string \<Rightarrow> parg list \<Rightarrow> int list option" where
  "render [] args = Some []"
| "render (c # cs) args =
     (if c \<noteq> CHR ''%'' then map_option ((#) (of_char c)) (render cs args)
      else case cs of
        [] \<Rightarrow> Some []
      | d # ds \<Rightarrow> (case render_directive d args of
          None \<Rightarrow> None
        | Some (out, as) \<Rightarrow> map_option ((@) out) (render ds as)))"

lemma of_char_256 [simp]: "of_char c \<noteq> (256 :: int)" "(256 :: int) \<noteq> of_char c"
  using of_char_mod_256 [of c, where 'a = int] by (metis mod_self of_char_mod_256 zero_neq_numeral)+

lemma consputs_append: "consputs (xs @ ys) s = bindO (consputs xs s) (consputs ys)"
  by (induction xs arbitrary: s) (simp_all add: bindO_assoc)

lemma printptr_consputs: "printptr x s = consputs ([48, 120] @ printptr_text 16 x) s"
  by (simp add: printptr_def printptr_from_text bindO_assoc)

lemma printf_directive_render:
  "render_directive d args = Some (out, as) \<Longrightarrow>
   printf_directive d args s = bindO (consputs out s) (\<lambda>s. Ok (as, s))"
  by (auto simp: render_directive_def printf_directive_def printint_def printptr_consputs bindO_assoc
      split: if_splits list.splits parg.splits)

lemma printf_from_render:
  fixes s :: "'a consst_scheme"
  shows "render fmt args = Some out \<Longrightarrow> printf_from fmt args s = consputs out s"
proof (induction fmt args arbitrary: out s rule: render.induct)
  case (2 c cs args)
  show ?case
  proof (cases "c = CHR ''%''")
    case True
    show ?thesis
    proof (cases cs)
      case (Cons d ds)
      then obtain tx as zs where dir: "render_directive d args = Some (tx, as)" "render ds as = Some zs" "out = tx @ zs"
        using 2(3) True by (auto split: option.splits)
      have "printf_from ds as = (consputs zs :: 'a consst_scheme \<Rightarrow> _)"
        using 2(2) [OF _ Cons dir(1) refl dir(2)] True by (intro ext) simp
      then show ?thesis
        using True Cons dir by (simp add: printf_directive_render consputs_append bindO_assoc)
    qed (use 2(3) True in simp)
  next
    case False
    then obtain zs where "render cs args = Some zs" "out = of_char c # zs" using 2(3) by auto
    then have "printf_from cs args = (consputs zs :: 'a consst_scheme \<Rightarrow> _)" "out = of_char c # zs"
      using 2(1) [OF False] by auto
    then show ?thesis using False by simp
  qed
qed simp

lemma of_char_range: "of_char c \<in> {0..<256 :: int}"
  using of_char_mod_256 [of c, where 'a = int] pos_mod_bound [of 256 "of_char c :: int"] pos_mod_sign [of 256 "of_char c :: int"]
  by simp

lemma printint_buf_range: "base \<in> {10, 16} \<Longrightarrow> set (printint_buf x base sign) \<subseteq> {0..<256}"
  using set_printint_digits [of base] of_char_range [of "CHR ''-''"]
  by (simp add: printint_buf_def del: atLeastLessThan_iff)

lemma render_directive_range:
  assumes "render_directive d args = Some (tx, as)"
  shows "set tx \<subseteq> {0..<256}"
proof -
  let ?B = "{0..<256 :: int}"
  have "set (map of_char w) \<subseteq> ?B" for w using of_char_range by auto
  then have "set (rev (printint_buf x 10 True)) \<subseteq> ?B" "set (rev (printint_buf x 16 True)) \<subseteq> ?B"
    "set ([48, 120] @ printptr_text 16 y) \<subseteq> ?B" "set (map of_char w) \<subseteq> ?B" "set [37, of_char d] \<subseteq> ?B" for x y w
    using set_printptr_text [of 16] printint_buf_range [of 10] printint_buf_range [of 16] of_char_range [of d]
    by auto
  moreover have "(\<exists>x. tx = rev (printint_buf x 10 True)) \<or> (\<exists>x. tx = rev (printint_buf x 16 True)) \<or>
      (\<exists>y. tx = [48, 120] @ printptr_text 16 y) \<or> (\<exists>w. tx = map of_char w) \<or> tx = [37, of_char d] \<or> tx = [37]"
    using assms by (auto simp: render_directive_def split: if_splits list.splits parg.splits)
  ultimately show ?thesis by (elim disjE exE) (simp_all only:, simp)
qed

lemma render_range: "render fmt args = Some out \<Longrightarrow> set out \<subseteq> {0..<256}"
proof (induction fmt args arbitrary: out rule: render.induct)
  case (2 c cs args)
  then show ?case
    using of_char_range [of c] render_directive_range [of _ args]
    by (fastforce simp del: atLeastLessThan_iff split: if_splits list.splits option.splits)
qed simp

lemma render_not_256: "render fmt args = Some out \<Longrightarrow> 256 \<notin> set out"
  using render_range [of fmt args out] by auto

text \<open>
  C17: \<open>printf\<close> sends exactly the text its format and arguments stand for. With the print lock
  free, the output not frozen and the device accepting the bytes, it returns, holding no
  lock, and the bytes sent have grown by that text.
\<close>

theorem printf_sends_text:
  assumes "can_print s" and "lock_free L_pr s" and "render fmt args = Some out" and "length out \<le> uart_room s"
  shows "\<exists>s'. printf (Some fmt) args s = Ok s' \<and> tidy s' = tidy (uart_out out s)"
proof -
  note ok = can_printD [OF assms(1)]
  note body = printf_from_render [OF assms(3)] consputs_eq [OF _ render_not_256 [OF assms(3)]]
  show ?thesis
  proof (cases "pr_locking s")
    case True
    have "consputs out (acquired L_pr s) = Ok (acquired L_pr (uart_out out s))"
      using body(2) [of "acquired L_pr s"] assms ok by (cases "out = []") (simp_all add: lock_simps)
    then show ?thesis using True assms ok by (simp add: printf_def body(1) lock_simps)
  next
    case False
    then show ?thesis
      using consputs_out [OF assms(1) render_not_256 [OF assms(3)] assms(4)] by (auto simp: printf_def body(1))
  qed
qed

section \<open>Numbers read back\<close>

definition digit_val :: "int \<Rightarrow> int" where
  "digit_val c = (if c < 58 then c - 48 else c - 87)"

definition read_digits :: "int \<Rightarrow> int list \<Rightarrow> int" where
  "read_digits base cs = foldl (\<lambda>acc c. base * acc + digit_val c) 0 cs"

text \<open>Reading a number as it is written: an optional minus sign, then digits.\<close>

fun read_int :: "int \<Rightarrow> int list \<Rightarrow> int" where
  "read_int base [] = 0"
| "read_int base (c # cs) = (if c = 45 then - read_digits base cs else read_digits base (c # cs))"

lemma digit_val_digits: "d < 16 \<Longrightarrow> digit_val (digits d) = int d"
  by (simp add: digit_val_def digits_cases)

lemma read_digits_rev: "read_digits base (rev (c # cs)) = base * read_digits base (rev cs) + digit_val c"
  by (simp add: read_digits_def)

lemma printint_digits_value:
  "base \<in> {10, 16} \<Longrightarrow> read_digits (uint base) (rev (printint_digits base x)) = uint x"
proof (induction base x rule: printint_digits.induct)
  case (1 base x)
  have b: "2 \<le> uint base" "\<not> base < 2" "unat (x mod base) < 16"
    using 1(2) by (auto simp: word_less_def unat_mod)
  have d: "digit_val (digits (unat (x mod base))) = uint x mod uint base"
    using b(3) by (simp add: digit_val_digits uint_mod)
  have rest: "read_digits (uint base) (rev (if x div base = 0 \<or> base < 2 then [] else printint_digits base (x div base)))
      = uint x div uint base"
  proof (cases "x div base = 0")
    case True
    then have "uint (x div base) = 0" by simp
    then have "uint x div uint base = 0" by (simp only: uint_div)
    then show ?thesis using True by (simp add: read_digits_def)
  next
    case False
    then show ?thesis using 1 b by (simp add: uint_div)
  qed
  show ?case by (subst printint_digits.simps, subst read_digits_rev) (simp add: d rest)
qed

lemma length_printint_digits:
  "2 \<le> unat base \<Longrightarrow> unat x < unat base ^ Suc k \<Longrightarrow> length (printint_digits base x) \<le> Suc k"
proof (induction k arbitrary: x)
  case 0
  then have "unat (x div base) = 0" by (simp add: unat_div)
  then have "x div base = 0" by (simp only: unat_eq_0)
  then show ?case by (subst printint_digits.simps) simp
next
  case (Suc k)
  have "unat (x div base) < unat base ^ Suc k"
    using Suc.prems by (simp add: unat_div less_mult_imp_div_less mult.commute)
  then show ?case using Suc by (subst printint_digits.simps) simp
qed

text \<open>
  C18: the digits \<open>printint\<close> prints read back as the number, and its 16-byte buffer never
  overflows: for every 32-bit integer, in base 10 and in base 16.
\<close>

theorem printint_roundtrip:
  assumes "- (2 ^ 31) \<le> xx" and "xx < 2 ^ 31" and "base \<in> {10, 16}"
  shows "read_int (uint base) (rev (printint_buf xx base True)) = xx \<and> length (printint_buf xx base True) \<le> 16"
proof
  have b: "2 \<le> unat base" using assms(3) by auto
  have first: "hd (rev (printint_digits base x)) \<noteq> 45" "printint_digits base x \<noteq> []" for x
  proof -
    show ne: "printint_digits base x \<noteq> []" by (subst printint_digits.simps) simp
    have "45 \<notin> set (printint_digits base x)" for x
    proof (induction x rule: measure_induct_rule [of unat])
      case (less x)
      have "digits (unat (x mod base)) \<noteq> 45"
        using assms(3) by (subst digits_cases) (auto simp: unat_mod)
      moreover have "unat (x div base) < unat x" if "x div base \<noteq> 0"
        using that b by (intro div_word_less) (simp_all add: word_less_nat_alt)
      ultimately show ?case using less by (subst printint_digits.simps) auto
    qed
    then show "hd (rev (printint_digits base x)) \<noteq> 45" using ne by (metis hd_in_set rev_is_Nil_conv set_rev)
  qed
  have pos: "read_int (uint base) (rev (printint_digits base x)) = uint x" for x
    using printint_digits_value [OF assms(3), of x] first [of x]
    by (cases "rev (printint_digits base x)") auto
  have len: "length (printint_digits base x) \<le> 10" for x
  proof -
    have "unat x < 2 ^ 32" using unsigned_less [of x, where 'a = nat] by simp
    then show ?thesis using length_printint_digits [OF b, of x 9] assms(3) by auto
  qed
  show "read_int (uint base) (rev (printint_buf xx base True)) = xx"
  proof (cases "xx < 0")
    case True
    have "uint (word_of_int (- xx) :: uint32) = (- xx) mod 2 ^ 32" by (rule trans [OF uint_word_of_int]) simp
    also have "\<dots> = - xx" using assms(1) True by (intro mod_pos_pos_trivial) auto
    finally show ?thesis
      using True printint_digits_value [OF assms(3), of "word_of_int (- xx)"] by (simp add: printint_buf_def)
  next
    case False
    then have "uint (word_of_int xx :: uint32) = xx" using assms(2) by (simp add: uint_word_of_int)
    then show ?thesis using False pos by (simp add: printint_buf_def)
  qed
  show "length (printint_buf xx base True) \<le> 16"
    using len [of "word_of_int xx"] len [of "word_of_int (- xx)"] by (simp add: printint_buf_def)
qed

theorem printint_roundtrip_witness:
  "read_int 10 (rev (printint_buf (-2021) 10 True)) = -2021"
  using printint_roundtrip [of "-2021" 10] by simp

theorem printf_sends_text_witness:
  "\<exists>s'. printf (Some ''%d'') [Arg_int (-7)] (demo_console 1 (\<lambda>_. blank_proc)) = Ok s' \<and> uart_sent s' = [45, 55]"
proof -
  let ?s = "demo_console 1 (\<lambda>_. blank_proc)"
  have out: "render ''%d'' [Arg_int (-7)] = Some [45, 55]" by code_simp
  have "can_print ?s" by (simp add: can_print_def)
  from printf_sends_text [OF this _ out] obtain s' where
    s': "printf (Some ''%d'') [Arg_int (-7)] ?s = Ok s'" "tidy s' = tidy (uart_out [45, 55] ?s)" by auto
  from arg_cong [OF s'(2), of uart_sent] have "uart_sent s' = [45, 55]"
    by (simp add: lock_simps uart_out_def)
  with s'(1) show ?thesis by blast
qed

end
