(* ===== verification/Console.thy ===== *)
theory Console
  imports Printf
begin

text \<open>
  The console, \<^verbatim>\<open>kernel/console.c\<close>: user reads and writes, and the line discipline
  that the serial port's interrupt drives. The input buffer is one circular array with
  three counters: \<open>cons_r\<close> and \<open>cons_w\<close> delimit the finished lines, \<open>cons_w\<close> and
  \<open>cons_e\<close> the line being edited.
\<close>

section \<open>Definitions\<close>

definition INPUT_BUF :: nat where [simp]: "INPUT_BUF = 128"
definition CONSOLE :: nat where [simp]: "CONSOLE = 1"

definition cbyte :: "uint8 \<Rightarrow> chars" where
  "cbyte c = (\<lambda>_. c)"

primrec consolewrite_from :: "nat \<Rightarrow> int \<Rightarrow> bool \<Rightarrow> uint64 \<Rightarrow> 'a consst_scheme \<Rightarrow>
    ('a consst_scheme, int \<times> 'a consst_scheme) thread" where
  "consolewrite_from 0 i user_src src s = Done (Ok (i, s))"
| "consolewrite_from (Suc k) i user_src src s =
     bindT (Done (either_copyin (\<lambda>_. 0) user_src (src + word_of_int i) 1 s)) (\<lambda>(r, c, s).
     if r = -1 then Done (Ok (i, s))
     else bindT (uartputc (uint (c 0)) s) (\<lambda>(_, s). consolewrite_from k (i + 1) user_src src s))"

definition consolewrite :: "bool \<Rightarrow> uint64 \<Rightarrow> int \<Rightarrow> 'a consst_scheme \<Rightarrow>
    ('a consst_scheme, int \<times> 'a consst_scheme) thread" where
  "consolewrite user_src src n s = consolewrite_from (nat n) 0 user_src src s"

text \<open>
  The loop of \<open>consoleread\<close> up to its end or to the next \<open>sleep\<close>; the local variables it
  sleeps with are \<open>n\<close>, \<open>dst\<close>, the sleeper and its \<open>intena\<close>.
\<close>

definition consoleread_exit :: "uint32 \<Rightarrow> int \<Rightarrow> 'a consst_scheme \<Rightarrow>
    ((int, int \<times> uint64 \<times> nat \<times> bool) seg \<times> 'a consst_scheme) outcome" where
  "consoleread_exit target n s =
     bindO (release L_cons s) (\<lambda>s. Ok (Return (sint (target - word_of_int n)), s))"

function consoleread_run :: "bool \<Rightarrow> uint32 \<Rightarrow> int \<Rightarrow> uint64 \<Rightarrow> 'a consst_scheme \<Rightarrow>
    ((int, int \<times> uint64 \<times> nat \<times> bool) seg \<times> 'a consst_scheme) outcome" where
  "consoleread_run user_dst target n dst s =
     (if n > 0
      then
        if cons_r s = cons_w s
        then bindO (curproc s) (\<lambda>(p, s).
          if p_killed (procs s p) then bindO (release L_cons s) (\<lambda>s. Ok (Return (-1), s))
          else bindO (sleep_begin Ch_cons_r L_cons s) (\<lambda>(p, intena, s). Ok (Asleep (n, dst, p, intena), s)))
        else
          let c = cons_buf s (unat (cons_r s) mod INPUT_BUF);
              s = s\<lparr>cons_r := cons_r s + 1\<rparr> in
          if c = 4
          then consoleread_exit target n (if word_of_int n < target then s\<lparr>cons_r := cons_r s - 1\<rparr> else s)
          else bindO (either_copyout user_dst dst (cbyte c) 1 s) (\<lambda>(r, s).
            if r = -1 then consoleread_exit target n s
            else if c = 10 then consoleread_exit target (n - 1) s
            else consoleread_run user_dst target (n - 1) (dst + 1) s)
      else consoleread_exit target n s)"
  by pat_completeness auto
termination by (relation "measure (\<lambda>(u, t, n, d, s). nat n)") auto

declare consoleread_run.simps [simp del]

definition consoleread :: "bool \<Rightarrow> uint64 \<Rightarrow> int \<Rightarrow> 'a consst_scheme \<Rightarrow>
    ('a consst_scheme, int \<times> 'a consst_scheme) thread" where
  "consoleread user_dst dst n s =
     wait_loop (\<lambda>(n', dst', p, intena). consoleread_run user_dst (word_of_int n) n' dst')
       (\<lambda>(n', dst', p, intena). sleep_end p L_cons intena)
       (n, dst, 0, False) (acquire L_cons s)"

text \<open>Printing leaves the input buffer and the receive side of the device alone.\<close>

abbreviation input_side :: "'a consst_scheme \<Rightarrow> uint8 list \<times> uint32 \<times> uint32" where
  "input_side s \<equiv> (uart_rx s, cons_e s, cons_w s)"

lemma uartputc_sync_keeps: "uartputc_sync c s = Ok s' \<Longrightarrow> input_side s' = input_side s"
  by (auto simp: uartputc_sync_def write_reg_def uart_send_def push_off_def pop_off_def cpu_defs Let_def
      split: if_splits)

lemma consputc_keeps: "consputc c s = Ok s' \<Longrightarrow> input_side s' = input_side s"
  by (auto simp: consputc_def bindO_eq_Ok dest!: uartputc_sync_keeps split: if_splits)

lemma consputs_keeps: "consputs cs s = Ok s' \<Longrightarrow> input_side s' = input_side s"
  by (induction cs arbitrary: s) (auto simp: bindO_eq_Ok dest!: consputc_keeps)

function kill_line :: "'a consst_scheme \<Rightarrow> 'a consst_scheme outcome" where
  "kill_line s =
     (if cons_e s \<noteq> cons_w s \<and> cons_buf s (unat (cons_e s - 1) mod INPUT_BUF) \<noteq> 10
      then bindO (consputc BACKSPACE (s\<lparr>cons_e := cons_e s - 1\<rparr>)) (\<lambda>s. kill_line s)
      else Ok s)"
  by pat_completeness auto
termination
proof (relation "measure (\<lambda>s. unat (cons_e s - cons_w s))", simp)
  fix s s' :: "'a consst_scheme"
  assume "cons_e s \<noteq> cons_w s \<and> cons_buf s (unat (cons_e s - 1) mod INPUT_BUF) \<noteq> 10"
    and "consputc BACKSPACE (s\<lparr>cons_e := cons_e s - 1\<rparr>) = Ok s'"
  moreover have "unat (x - 1 - y) < unat (x - y)" if "x \<noteq> y" for x y :: uint32
  proof -
    have "x - y \<noteq> 0" using that by simp
    then have "unat (x - y - 1) < unat (x - y)"
      by (metis Suc_pred' lessI unat_gt_0 unat_minus_one One_nat_def diff_Suc_1)
    then show ?thesis by (simp add: algebra_simps)
  qed
  ultimately show "(s', s) \<in> measure (\<lambda>s. unat (cons_e s - cons_w s))"
    by (auto dest!: consputc_keeps)
qed

declare kill_line.simps [simp del]

text \<open>The \<open>switch\<close> on the character, and the handler around it.\<close>

definition consoleintr_key :: "int \<Rightarrow> 'a consst_scheme \<Rightarrow> 'a consst_scheme outcome" where
  "consoleintr_key c s =
     (if c = 16 then procdump s
      else if c = 21 then kill_line s
      else if c = 8 \<or> c = 127
      then (if cons_e s \<noteq> cons_w s then consputc BACKSPACE (s\<lparr>cons_e := cons_e s - 1\<rparr>) else Ok s)
      else if c \<noteq> 0 \<and> cons_e s - cons_r s < of_nat INPUT_BUF
      then
        let c = (if c = 13 then 10 else c) in
        bindO (consputc c s) (\<lambda>s.
        let s = s\<lparr>cons_buf := (cons_buf s)(unat (cons_e s) mod INPUT_BUF := word_of_int c)\<rparr>;
            s = s\<lparr>cons_e := cons_e s + 1\<rparr> in
        if c = 10 \<or> c = 4 \<or> cons_e s = cons_r s + of_nat INPUT_BUF
        then wakeup Ch_cons_r (s\<lparr>cons_w := cons_e s\<rparr>)
        else Ok s)
      else Ok s)"

definition consoleintr :: "int \<Rightarrow> 'a consst_scheme \<Rightarrow> 'a consst_scheme outcome" where
  "consoleintr c s =
     bindO (acquire L_cons s) (\<lambda>s.
     bindO (consoleintr_key c s) (\<lambda>s.
     release L_cons s))"

text \<open>\<open>uartintr\<close> reads until nothing is left to read, which the following lemmas make a terminating loop.\<close>

lemma printptr_from_keeps: "printptr_from n x s = Ok s' \<Longrightarrow> input_side s' = input_side s"
  by (induction n arbitrary: x s) (auto simp: bindO_eq_Ok dest!: consputc_keeps)

lemma printf_directive_keeps: "printf_directive d args s = Ok (as, s') \<Longrightarrow> input_side s' = input_side s"
  by (auto simp: printf_directive_def printint_def printptr_def bindO_eq_Ok
      dest!: consputc_keeps consputs_keeps printptr_from_keeps split: if_splits list.splits parg.splits)

lemma printf_from_keeps: "printf_from fmt args s = Ok s' \<Longrightarrow> input_side s' = input_side s"
proof (induction fmt args s rule: printf_from.induct)
  case (2 c cs args s)
  show ?case
  proof (cases "c = CHR ''%''")
    case True
    show ?thesis
    proof (cases cs)
      case (Cons d ds)
      then obtain as t where "printf_directive d args s = Ok (as, t)" "printf_from ds as t = Ok s'"
        using 2(3) True by (auto simp: bindO_eq_Ok)
      then show ?thesis using 2(2) [OF _ Cons, of "(as, t)"] True printf_directive_keeps [of d args s as t] by simp
    qed (use 2(3) True in simp)
  next
    case False
    then obtain t where "consputc (of_char c) s = Ok t" "printf_from cs args t = Ok s'"
      using 2(3) by (auto simp: bindO_eq_Ok)
    then show ?thesis using 2(1) [OF False] consputc_keeps [of "of_char c" s t] by simp
  qed
qed simp

lemma release_keeps: "release lk s = Ok s' \<Longrightarrow> input_side s' = input_side s"
  by (auto simp: release_def pop_off_def cpu_defs Let_def split: if_splits)

lemma acquire_keeps: "acquire lk s = Ok s' \<Longrightarrow> input_side s' = input_side s"
  by (auto simp: acquire_def push_off_def cpu_defs Let_def split: if_splits)

lemma printf_keeps: "printf fmt args s = Ok s' \<Longrightarrow> input_side s' = input_side s"
  by (auto simp: printf_def bindO_eq_Ok Let_def dest!: release_keeps acquire_keeps printf_from_keeps
      split: if_splits option.splits)

lemma procdump_from_keeps: "procdump_from is s = Ok s' \<Longrightarrow> input_side s' = input_side s"
proof (induction "is" arbitrary: s)
  case (Cons i "is" s)
  then show ?case
    by (auto simp: bindO_eq_Ok Let_def dest!: printf_keeps Cons.IH split: if_splits)
qed simp

lemma kill_line_keeps_rx: "kill_line s = Ok s' \<Longrightarrow> uart_rx s' = uart_rx s"
proof (induction s rule: kill_line.induct)
  case (1 s)
  show ?case
  proof (cases "cons_e s \<noteq> cons_w s \<and> cons_buf s (unat (cons_e s - 1) mod INPUT_BUF) \<noteq> 10")
    case True
    then obtain t where "consputc BACKSPACE (s\<lparr>cons_e := cons_e s - 1\<rparr>) = Ok t" "kill_line t = Ok s'"
      using 1(2) by (subst (asm) kill_line.simps) (auto simp: bindO_eq_Ok)
    then show ?thesis using 1(1) [OF True] consputc_keeps by fastforce
  qed (use 1(2) in \<open>auto simp: kill_line.simps [of s] split: if_splits\<close>)
qed

lemma wakeup_keeps_rx: "wakeup ch s = Ok s' \<Longrightarrow> uart_rx s' = uart_rx s"
  using wakeup_from_more [of ch "[0..<NPROC]" s s'] by (cases s, cases s') (simp add: wakeup_def)

lemma consoleintr_keeps_rx: "consoleintr c s = Ok s' \<Longrightarrow> uart_rx s' = uart_rx s"
  by (auto simp: consoleintr_def consoleintr_key_def procdump_def bindO_eq_Ok Let_def split: if_splits
      dest!: release_keeps acquire_keeps printf_keeps procdump_from_keeps consputc_keeps kill_line_keeps_rx wakeup_keeps_rx)

function uartintr_read :: "'a consst_scheme \<Rightarrow> 'a consst_scheme outcome" where
  "uartintr_read s =
     (let (c, s) = uartgetc s in
      if c = -1 then Ok s else bindO (consoleintr c s) (\<lambda>s. uartintr_read s))"
  by pat_completeness auto
termination
proof (relation "measure (\<lambda>s. length (uart_rx s))", simp)
  fix s t s' :: "'a consst_scheme" and x c
  assume "x = uartgetc s" "(c, t) = x" "c \<noteq> -1" "consoleintr c t = Ok s'"
  then have "uart_rx s' = uart_rx t" "length (uart_rx t) < length (uart_rx s)"
    by (auto simp: uartgetc_def read_rhr_def read_lsr_def dest: consoleintr_keeps_rx
        split: if_splits list.splits)
  then show "(s', s) \<in> measure (\<lambda>s. length (uart_rx s))" by simp
qed

declare uartintr_read.simps [simp del]

definition uartintr :: "'a consst_scheme \<Rightarrow> 'a consst_scheme outcome" where
  "uartintr s =
     bindO (uartintr_read s) (\<lambda>s.
     bindO (acquire L_uart s) (\<lambda>s.
     bindO (uartstart s) (\<lambda>s. release L_uart s)))"

definition consoleinit :: "'a consst_scheme \<Rightarrow> 'a consst_scheme" where
  "consoleinit s =
     (let s = uartinit (initlock L_cons ''cons'' s) in
      s\<lparr>devsw_read := (devsw_read s)(CONSOLE := Some Fn_consoleread),
        devsw_write := (devsw_write s)(CONSOLE := Some Fn_consolewrite)\<rparr>)"

section \<open>The line discipline\<close>

interpretation cons_ring: ring 128 "TYPE(32)"
  by unfold_locales auto

text \<open>
  What a terminal is: the finished lines, not read yet, and the line being edited. A
  character erases the last one or the whole line being edited, or is added to it, if
  there is room; a newline, an end-of-file mark or a full buffer finishes the line.
\<close>

record tty =
  done_lines :: "uint8 list"
  editing :: "uint8 list"

definition tty_type :: "int \<Rightarrow> tty \<Rightarrow> tty" where
  "tty_type c t =
     (if c = 16 \<or> c = 0 then t
      else if c = 21 then t\<lparr>editing := []\<rparr>
      else if c = 8 \<or> c = 127 then t\<lparr>editing := butlast (editing t)\<rparr>
      else if length (done_lines t @ editing t) < 128
      then
        let b = word_of_int (if c = 13 then 10 else c); line = editing t @ [b] in
        if c = 13 \<or> c = 10 \<or> c = 4 \<or> length (done_lines t @ line) = 128
        then \<lparr>done_lines = done_lines t @ line, editing = []\<rparr> else t\<lparr>editing := line\<rparr>
      else t)"

definition tty_of :: "'a consst_scheme \<Rightarrow> tty" where
  "tty_of s = \<lparr>done_lines = ring_items 128 (cons_buf s, cons_r s, cons_w s),
     editing = ring_items 128 (cons_buf s, cons_w s, cons_e s)\<rparr>"

definition cons_ok :: "'a consst_scheme \<Rightarrow> bool" where
  "cons_ok s \<longleftrightarrow> unat (cons_w s - cons_r s) + unat (cons_e s - cons_w s) \<le> 128 \<and> 10 \<notin> set (editing (tty_of s))"

lemma cons_backspace:
  fixes s :: "'a consst_scheme"
  assumes "can_print s" and "3 \<le> uart_room s"
  shows "consputc BACKSPACE (acquired lk s) = Ok (acquired lk (uart_out [8, 32, 8] s))"
proof -
  have "uartputc_sync c (acquired lk t) = Ok (acquired lk (uart_out [c] t))" if "can_print t" "0 < uart_room t"
    for c and t :: "'a consst_scheme"
    using that can_printD [OF that(1)] consputc_eq [of "acquired lk t" c]
    by (simp add: can_print_def lock_simps uart_out_def uart_send_def)
  then show ?thesis
    using assms by (simp add: consputc_def lock_simps)
qed

lemma editing_snoc:
  "cons_e s \<noteq> cons_w s \<Longrightarrow> editing (tty_of s) =
     editing (tty_of (s\<lparr>cons_e := cons_e s - 1\<rparr>)) @ [cons_buf s (unat (cons_e s - 1) mod 128)]"
  using ring_items_snoc [of "cons_w s" "cons_e s" 128 "cons_buf s"] by (simp add: tty_of_def)

lemma kill_line_eq:
  assumes "can_print s" and "3 * length (editing (tty_of s)) \<le> uart_room s" and "10 \<notin> set (editing (tty_of s))"
  shows "\<exists>cs. kill_line (acquired L_cons s) = Ok (acquired L_cons (uart_out cs (s\<lparr>cons_e := cons_w s\<rparr>)))"
  using assms
proof (induction "length (editing (tty_of s))" arbitrary: s)
  case 0
  then have "editing (tty_of s) = []" by simp
  then have "cons_e s = cons_w s" by (simp add: tty_of_def)
  then have "kill_line (acquired L_cons s) = Ok (acquired L_cons s)" "s\<lparr>cons_e := cons_w s\<rparr> = uart_out [] s"
    by (subst kill_line.simps) (simp_all add: lock_simps flip: \<open>cons_e s = cons_w s\<close>)
  then show ?case by (metis uart_out_simps(1))
next
  case (Suc n)
  let ?t = "uart_out [8, 32, 8] (s\<lparr>cons_e := cons_e s - 1\<rparr>)"
  have ne: "cons_e s \<noteq> cons_w s" using Suc.hyps(2) by (auto simp: tty_of_def)
  note snoc = editing_snoc [OF ne]
  have t: "editing (tty_of ?t) = editing (tty_of (s\<lparr>cons_e := cons_e s - 1\<rparr>))" "cons_w ?t = cons_w s"
    "uart_room ?t = uart_room s - 3"
    by (simp_all add: tty_of_def uart_out_def)
  have "consputc BACKSPACE (acquired L_cons (s\<lparr>cons_e := cons_e s - 1\<rparr>)) = Ok (acquired L_cons ?t)"
    using Suc.prems snoc by (intro cons_backspace) (auto simp: can_print_def lock_simps)
  then have "kill_line (acquired L_cons s) = kill_line (acquired L_cons ?t)"
    using ne Suc.prems snoc by (subst kill_line.simps) (simp add: lock_simps)
  moreover have "\<exists>cs. kill_line (acquired L_cons ?t) = Ok (acquired L_cons (uart_out cs (?t\<lparr>cons_e := cons_w ?t\<rparr>)))"
    using Suc.prems Suc.hyps(2) snoc t by (intro Suc.hyps(1)) (auto simp: can_print_def lock_simps uart_out_def)
  moreover have "uart_out cs (?t\<lparr>cons_e := cons_w ?t\<rparr>) = uart_out ([8, 32, 8] @ cs) (s\<lparr>cons_e := cons_w s\<rparr>)" for cs
    by (simp add: uart_out_def)
  ultimately show ?case by metis
qed

lemma tty_of_frame [simp]:
  "tty_of (uart_out cs s) = tty_of s" "tty_of (tidy s) = tty_of s" "tty_of (s\<lparr>procs := x\<rparr>) = tty_of s"
  "cons_ok (uart_out cs s) = cons_ok s" "cons_ok (tidy s) = cons_ok s" "cons_ok (s\<lparr>procs := x\<rparr>) = cons_ok s"
  by (simp_all add: tty_of_def cons_ok_def uart_out_def lock_simps)

lemma uart_out_cons [simp]:
  "cons_buf (uart_out cs s) = cons_buf s" "cons_r (uart_out cs s) = cons_r s" "cons_w (uart_out cs s) = cons_w s"
  "cons_e (uart_out cs s) = cons_e s" "mycpu (uart_out cs s) = mycpu s"
  by (simp_all add: uart_out_def lock_simps)

lemma tty_room:
  assumes "cons_ok s"
  shows "cons_e s - cons_r s < 128 \<longleftrightarrow> length (done_lines (tty_of s) @ editing (tty_of s)) < 128"
  using assms cons_ring.unat_minus_split [of "cons_w s" "cons_r s" "cons_e s"]
  by (simp add: cons_ok_def tty_of_def word_less_nat_alt)

text \<open>Adding a character to the line being edited, and finishing the line.\<close>

lemma tty_of_add:
  fixes s :: "'a consst_scheme" and b :: uint8
  assumes ok: "cons_ok s" and room: "length (done_lines (tty_of s) @ editing (tty_of s)) < 128"
  defines "s' \<equiv> s\<lparr>cons_buf := (cons_buf s)(unat (cons_e s) mod 128 := b), cons_e := cons_e s + 1\<rparr>"
  shows "tty_of s' = (tty_of s)\<lparr>editing := editing (tty_of s) @ [b]\<rparr>"
    and "tty_of (s'\<lparr>cons_w := cons_e s'\<rparr>) = \<lparr>done_lines = done_lines (tty_of s) @ editing (tty_of s) @ [b], editing = []\<rparr>"
    and "cons_e s' = cons_r s' + 128 \<longleftrightarrow> length (done_lines (tty_of s) @ editing (tty_of s) @ [b]) = 128"
    and "b \<noteq> 10 \<Longrightarrow> cons_ok s'" and "cons_ok (s'\<lparr>cons_w := cons_e s'\<rparr>)"
proof -
  let ?r = "cons_r s" and ?w = "cons_w s" and ?e = "cons_e s" and ?buf = "(cons_buf s)(unat (cons_e s) mod 128 := b)"
  have n: "unat (?w - ?r) + unat (?e - ?w) < 128" using room by (simp add: tty_of_def)
  have er: "unat (?e - ?r) < 128" and ew: "unat (?e - ?w) < 128"
    using n cons_ring.unat_minus_split [of ?w ?r ?e] by simp_all
  have e1: "unat (?e + 1 - ?w) = Suc (unat (?e - ?w))" "unat (?e + 1 - ?r) = Suc (unat (?e - ?r))"
    using cons_ring.put_len [OF ew] cons_ring.put_len [OF er] by simp_all
  have "ring_items 128 (?buf, ?r, ?w) @ ring_items 128 (?buf, ?w, ?e) =
      ring_items 128 (cons_buf s, ?r, ?w) @ ring_items 128 (cons_buf s, ?w, ?e)"
    using n cons_ring.ring_items_upd [OF er, of "cons_buf s" b]
    by (simp add: cons_ring.ring_items_split [of ?w ?r ?e, symmetric])
  then have done': "ring_items 128 (?buf, ?r, ?w) = done_lines (tty_of s)"
    by (simp add: append_eq_append_conv tty_of_def)
  have line: "ring_items 128 (?buf, ?w, ?e + 1) = editing (tty_of s) @ [b]"
    using cons_ring.ring_put_items [OF ew, of b "cons_buf s"] by (simp add: ring_put_def tty_of_def)
  show t: "tty_of s' = (tty_of s)\<lparr>editing := editing (tty_of s) @ [b]\<rparr>"
    using done' line by (simp add: s'_def tty_of_def)
  have all: "ring_items 128 (?buf, ?r, ?e + 1) = done_lines (tty_of s) @ editing (tty_of s) @ [b]"
    using n e1 done' line cons_ring.ring_items_split [of ?w ?r "?e + 1" ?buf] by simp
  then show u: "tty_of (s'\<lparr>cons_w := cons_e s'\<rparr>) =
      \<lparr>done_lines = done_lines (tty_of s) @ editing (tty_of s) @ [b], editing = []\<rparr>"
    by (simp add: s'_def tty_of_def)
  show "cons_e s' = cons_r s' + 128 \<longleftrightarrow> length (done_lines (tty_of s) @ editing (tty_of s) @ [b]) = 128"
    using cons_ring.full_iff [of "?e + 1" ?r] e1 n cons_ring.unat_minus_split [of ?w ?r ?e]
    by (simp add: s'_def tty_of_def)
  show "cons_ok s'" if "b \<noteq> 10"
    using ok n e1 t that by (auto simp: cons_ok_def) (simp_all add: s'_def)
  show "cons_ok (s'\<lparr>cons_w := cons_e s'\<rparr>)"
    using n e1 u cons_ring.unat_minus_split [of ?w ?r ?e] by (auto simp: cons_ok_def) (simp_all add: s'_def)
qed

text \<open>What the handler leaves behind, inside its critical section.\<close>

definition key_done :: "int \<Rightarrow> 'a consst_scheme \<Rightarrow> 'a consst_scheme \<Rightarrow> bool" where
  "key_done c s t \<longleftrightarrow> cpu_ok t \<and> lock_free L_cons t \<and> tty_of t = tty_type c (tty_of s) \<and> cons_ok t \<and>
     (done_lines (tty_of t) \<noteq> done_lines (tty_of s) \<longrightarrow>
        procs t = woken Ch_cons_r (c_proc (mycpu s)) {..<NPROC} (procs s))"

lemma key_erase:
  assumes "can_print s" and "lock_free L_cons s" and "cons_ok s" and "384 \<le> uart_room s" and "c = 8 \<or> c = 127"
  shows "\<exists>t. consoleintr_key c (acquired L_cons s) = Ok (acquired L_cons t) \<and> key_done c s t"
proof (cases "cons_e s = cons_w s")
  case True
  then have "editing (tty_of s) = []" by (simp add: tty_of_def)
  then have "tty_type c (tty_of s) = tty_of s" using assms(5) by (auto simp: tty_type_def)
  then show ?thesis
    using True assms can_printD [OF assms(1)]
    by (intro exI [of _ s]) (auto simp: consoleintr_key_def key_done_def lock_simps)
next
  case False
  let ?s = "s\<lparr>cons_e := cons_e s - 1\<rparr>"
  have "consputc BACKSPACE (acquired L_cons ?s) = Ok (acquired L_cons (uart_out [8, 32, 8] ?s))"
    using assms by (intro cons_backspace) (auto simp: can_print_def lock_simps)
  moreover have "tty_of ?s = tty_type c (tty_of s)"
    using editing_snoc [OF False] assms(5) by (auto simp: tty_type_def tty_of_def)
  moreover have "cons_ok ?s" "done_lines (tty_of ?s) = done_lines (tty_of s)"
    using assms(3) editing_snoc [OF False] unat_minus_step [of "cons_w s" "cons_e s"] False
    by (auto simp: cons_ok_def) (simp_all add: tty_of_def)
  ultimately show ?thesis
    using False assms can_printD [OF assms(1)]
    by (intro exI [of _ "uart_out [8, 32, 8] ?s"]) (auto simp: consoleintr_key_def key_done_def lock_simps)
qed

lemma key_kill:
  assumes "can_print s" and "lock_free L_cons s" and "cons_ok s" and "384 \<le> uart_room s"
  shows "\<exists>t. consoleintr_key 21 (acquired L_cons s) = Ok (acquired L_cons t) \<and> key_done 21 s t"
proof -
  have "3 * length (editing (tty_of s)) \<le> uart_room s" "10 \<notin> set (editing (tty_of s))"
    using assms(3,4) by (auto simp: cons_ok_def tty_of_def)
  from kill_line_eq [OF assms(1) this] obtain cs where
    "kill_line (acquired L_cons s) = Ok (acquired L_cons (uart_out cs (s\<lparr>cons_e := cons_w s\<rparr>)))" by blast
  moreover have "tty_of (s\<lparr>cons_e := cons_w s\<rparr>) = tty_type 21 (tty_of s)" "cons_ok (s\<lparr>cons_e := cons_w s\<rparr>)"
    using assms(3) by (auto simp: tty_type_def tty_of_def cons_ok_def)
  ultimately show ?thesis
    using assms can_printD [OF assms(1)]
    by (intro exI [of _ "uart_out cs (s\<lparr>cons_e := cons_w s\<rparr>)"])
      (auto simp: consoleintr_key_def key_done_def lock_simps tty_type_def)
qed

lemma key_plain:
  assumes "can_print s" and "others_free s" and "lock_free L_cons s" and "cons_ok s" and "384 \<le> uart_room s"
    and "c \<in> {0..<256}" and "c \<notin> {8, 16, 21, 127}"
  shows "\<exists>t. consoleintr_key c (acquired L_cons s) = Ok (acquired L_cons t) \<and> key_done c s t"
proof (cases "c \<noteq> 0 \<and> cons_e s - cons_r s < 128")
  case False
  then have "tty_type c (tty_of s) = tty_of s" using tty_room [OF assms(4)] assms(7) by (auto simp: tty_type_def)
  then show ?thesis
    using False assms can_printD [OF assms(1)]
    by (intro exI [of _ s]) (auto simp: consoleintr_key_def key_done_def lock_simps)
next
  case True
  let ?c = "if c = 13 then 10 else c"
  let ?b = "word_of_int ?c :: uint8"
  let ?s = "uart_out [?c] s"
  let ?t = "?s\<lparr>cons_buf := (cons_buf ?s)(unat (cons_e ?s) mod 128 := ?b), cons_e := cons_e ?s + 1\<rparr>"
  let ?u = "?t\<lparr>cons_w := cons_e ?t, procs := woken Ch_cons_r (c_proc (mycpu s)) {..<NPROC} (procs s)\<rparr>"
  have len: "length (done_lines (tty_of s) @ editing (tty_of s)) < 128" using True tty_room [OF assms(4)] by simp
  note add = tty_of_add [of ?s ?b, unfolded tty_of_frame, OF assms(4) len]
  have b10: "?b = 10 \<longleftrightarrow> ?c = 10"
  proof
    assume "?b = 10"
    then have "uint ?b = 10" by simp
    then show "?c = 10" using assms(6) by (auto simp: uint_word_of_int split: if_splits)
  qed simp
  have echo: "consputc ?c (acquired L_cons s) = Ok (acquired L_cons ?s)"
    using assms consputc_eq [of "acquired L_cons s" ?c] can_printD [OF assms(1)] by (auto simp: lock_simps)
  let ?fin = "?c = 10 \<or> ?c = 4 \<or> cons_e ?t = cons_r ?t + 128"
  have type: "tty_type c (tty_of s) = (if ?fin
      then \<lparr>done_lines = done_lines (tty_of s) @ editing (tty_of s) @ [?b], editing = []\<rparr>
      else (tty_of s)\<lparr>editing := editing (tty_of s) @ [?b]\<rparr>)"
    using assms(7) True len add(3) by (auto simp: tty_type_def Let_def)
  show ?thesis
  proof (cases ?fin)
    case fin: True
    have "wakeup Ch_cons_r (acquired L_cons (?t\<lparr>cons_w := cons_e ?t\<rparr>)) = Ok (acquired L_cons ?u)"
      using assms(2) can_printD [OF assms(1)] by (subst wakeup_eq) (auto simp: lock_simps)
    then have "consoleintr_key c (acquired L_cons s) = Ok (acquired L_cons ?u)"
      using assms(7) True fin echo by (simp add: consoleintr_key_def Let_def lock_simps)
    moreover have "key_done c s ?u"
      using add(2,5) fin type can_printD [OF assms(1)] assms(3) by (simp add: key_done_def lock_simps)
    ultimately show ?thesis by blast
  next
    case nofin: False
    then have "consoleintr_key c (acquired L_cons s) = Ok (acquired L_cons ?t)"
      using assms(7) True echo by (simp add: consoleintr_key_def Let_def lock_simps)
    moreover have "key_done c s ?t"
      using add(1,4) nofin b10 type can_printD [OF assms(1)] assms(3) by (simp add: key_done_def lock_simps)
    ultimately show ?thesis by blast
  qed
qed

text \<open>
  C12: the console's interrupt handler implements the line discipline. On a consistent input
  buffer, with the locks it needs free and the device accepting the echo, \<open>consoleintr\<close>
  returns and the terminal it leaves is the one the typed character makes of the old one:
  erasing stops at the beginning of the line, input beyond the buffer's size is dropped,
  and no finished line is touched. When it finishes a line it wakes the readers.
\<close>

theorem consoleintr_line_discipline:
  assumes "can_print s" and "others_free s" and "lock_free L_cons s" and "cons_ok s" and "384 \<le> uart_room s"
    and "c \<in> {0..<256}" and "c \<noteq> 16"
  shows "\<exists>s'. consoleintr c s = Ok s' \<and> tty_of s' = tty_type c (tty_of s) \<and> cons_ok s' \<and>
     (done_lines (tty_of s') \<noteq> done_lines (tty_of s) \<longrightarrow>
        procs s' = woken Ch_cons_r (c_proc (mycpu s)) {..<NPROC} (procs s))"
proof -
  have "\<exists>t. consoleintr_key c (acquired L_cons s) = Ok (acquired L_cons t) \<and> key_done c s t"
    using key_erase [OF assms(1,3-5)] key_kill [OF assms(1,3-5)] key_plain [OF assms(1-6)] assms(7)
    by (cases "c \<in> {8, 16, 21, 127}") blast+
  then obtain t where "consoleintr_key c (acquired L_cons s) = Ok (acquired L_cons t)" and t: "key_done c s t" by blast
  then have "consoleintr c s = Ok (tidy t)"
    using assms(3) by (simp add: consoleintr_def key_done_def lock_simps)
  then show ?thesis using t by (auto simp: key_done_def lock_simps)
qed

theorem consoleintr_line_discipline_witness:
  "\<exists>s'. consoleintr 65 (demo_console 1 (\<lambda>_. blank_proc)) = Ok s' \<and> tty_of s' = \<lparr>done_lines = [], editing = [65]\<rparr>"
proof -
  let ?s = "demo_console 1 (\<lambda>_. blank_proc)"
  have "can_print ?s" "cons_ok ?s" "tty_type 65 (tty_of ?s) = \<lparr>done_lines = [], editing = [65]\<rparr>"
    by (simp_all add: can_print_def cons_ok_def tty_of_def tty_type_def)
  then show ?thesis using consoleintr_line_discipline [of ?s 65] by auto
qed

end
