(* ===== verification/Mutex.thy ===== *)
theory Mutex
  imports Thread
begin

text \<open>
  Locks that put their waiters to sleep. Binary semaphores and the sleep locks of the file
  system follow one protocol: a flag says whether the lock is held; taking it sets the flag
  if it is clear and otherwise goes to sleep, to try again after waking up; dropping it
  clears the flag and wakes the sleepers. The locale \<open>blocking_lock\<close> is that contract and
  proves mutual exclusion once, over all interleavings of any number of processes.
\<close>

section \<open>Processes that use one lock\<close>

text \<open>
  A process is outside, asleep with what is left of its call, or inside. \<open>env\<close> is what the
  rest of the system may do between two steps of these processes.
\<close>

datatype 's mutex_pc = M_out | M_wait "'s \<Rightarrow> ('s, unit \<times> 's) thread" | M_in

record 's mutex_sys =
  mkst :: 's
  mpc :: "nat \<Rightarrow> 's mutex_pc"

inductive mutex_step :: "('s \<Rightarrow> ('s, unit \<times> 's) thread) \<Rightarrow> ('s \<Rightarrow> 's outcome) \<Rightarrow> ('s \<Rightarrow> 's \<Rightarrow> bool) \<Rightarrow>
    's mutex_sys \<Rightarrow> 's mutex_sys \<Rightarrow> bool" for lock unlock env where
  take_get: "mpc t p = M_out \<Longrightarrow> lock (mkst t) = Done (Ok ((), s)) \<Longrightarrow>
     mutex_step lock unlock env t \<lparr>mkst = s, mpc = (mpc t)(p := M_in)\<rparr>"
| take_wait: "mpc t p = M_out \<Longrightarrow> lock (mkst t) = Switch s k \<Longrightarrow>
     mutex_step lock unlock env t \<lparr>mkst = s, mpc = (mpc t)(p := M_wait k)\<rparr>"
| wake_get: "mpc t p = M_wait k \<Longrightarrow> k (mkst t) = Done (Ok ((), s)) \<Longrightarrow>
     mutex_step lock unlock env t \<lparr>mkst = s, mpc = (mpc t)(p := M_in)\<rparr>"
| wake_wait: "mpc t p = M_wait k \<Longrightarrow> k (mkst t) = Switch s k' \<Longrightarrow>
     mutex_step lock unlock env t \<lparr>mkst = s, mpc = (mpc t)(p := M_wait k')\<rparr>"
| drop_it: "mpc t p = M_in \<Longrightarrow> unlock (mkst t) = Ok s \<Longrightarrow>
     mutex_step lock unlock env t \<lparr>mkst = s, mpc = (mpc t)(p := M_out)\<rparr>"
| others: "env (mkst t) s \<Longrightarrow> mutex_step lock unlock env t (t\<lparr>mkst := s\<rparr>)"

inductive mutex_reachable :: "('s \<Rightarrow> ('s, unit \<times> 's) thread) \<Rightarrow> ('s \<Rightarrow> 's outcome) \<Rightarrow> ('s \<Rightarrow> 's \<Rightarrow> bool) \<Rightarrow>
    ('s \<Rightarrow> bool) \<Rightarrow> 's mutex_sys \<Rightarrow> bool" for lock unlock env init where
  mutex_start: "init (mkst t) \<Longrightarrow> (\<forall>p. mpc t p = M_out) \<Longrightarrow> mutex_reachable lock unlock env init t"
| mutex_next: "mutex_reachable lock unlock env init t \<Longrightarrow> mutex_step lock unlock env t u \<Longrightarrow>
     mutex_reachable lock unlock env init u"

section \<open>The contract\<close>

locale blocking_lock =
  fixes inv :: "'s \<Rightarrow> bool"
    and held :: "'s \<Rightarrow> bool"
    and lock :: "'s \<Rightarrow> ('s, unit \<times> 's) thread"
    and unlock :: "'s \<Rightarrow> 's outcome"
    and waiting :: "('s \<Rightarrow> ('s, unit \<times> 's) thread) \<Rightarrow> bool"
    and env :: "'s \<Rightarrow> 's \<Rightarrow> bool"
  assumes take_done: "inv s \<Longrightarrow> lock s = Done (Ok ((), s')) \<Longrightarrow> \<not> held s \<and> held s' \<and> inv s'"
    and take_sleeps: "inv s \<Longrightarrow> lock s = Switch s' k \<Longrightarrow> held s' = held s \<and> inv s' \<and> waiting k"
    and wake_done: "inv s \<Longrightarrow> waiting k \<Longrightarrow> k s = Done (Ok ((), s')) \<Longrightarrow> \<not> held s \<and> held s' \<and> inv s'"
    and wake_sleeps: "inv s \<Longrightarrow> waiting k \<Longrightarrow> k s = Switch s' k' \<Longrightarrow> held s' = held s \<and> inv s' \<and> waiting k'"
    and drop_done: "inv s \<Longrightarrow> held s \<Longrightarrow> unlock s = Ok s' \<Longrightarrow> \<not> held s' \<and> inv s'"
    and env_keeps: "inv s \<Longrightarrow> env s s' \<Longrightarrow> held s' = held s \<and> inv s'"
begin

definition ok :: "'s mutex_sys \<Rightarrow> bool" where
  "ok t \<longleftrightarrow> inv (mkst t) \<and> (\<forall>p q. mpc t p = M_in \<and> mpc t q = M_in \<longrightarrow> p = q) \<and>
     (\<forall>p. mpc t p = M_in \<longrightarrow> held (mkst t)) \<and> (\<forall>p k. mpc t p = M_wait k \<longrightarrow> waiting k)"

lemma step_ok:
  assumes "ok t" and "mutex_step lock unlock env t u"
  shows "ok u"
  using assms(2)
proof cases
  case (take_get p s)
  then show ?thesis using assms(1) take_done [of "mkst t" s] by (auto simp: ok_def)
next
  case (take_wait p s k)
  then show ?thesis using assms(1) take_sleeps [of "mkst t" s k] by (auto simp: ok_def)
next
  case (wake_get p k s)
  then show ?thesis using assms(1) wake_done [of "mkst t" k s] by (auto simp: ok_def)
next
  case (wake_wait p k s k')
  then show ?thesis using assms(1) wake_sleeps [of "mkst t" k s k'] by (auto simp: ok_def)
next
  case (drop_it p s)
  then show ?thesis using assms(1) drop_done [of "mkst t" s] by (auto simp: ok_def)
next
  case (others s)
  then show ?thesis using assms(1) env_keeps [of "mkst t" s] by (auto simp: ok_def)
qed

lemma reachable_ok:
  assumes "mutex_reachable lock unlock env init t" and "\<And>s. init s \<Longrightarrow> inv s"
  shows "ok t"
  using assms(1)
proof (induction rule: mutex_reachable.induct)
  case (mutex_start t)
  then show ?case using assms(2) by (simp add: ok_def)
qed (rule step_ok)

lemma exclusion:
  assumes "mutex_reachable lock unlock env init t" and "\<And>s. init s \<Longrightarrow> inv s" and "mpc t p = M_in" and "mpc t q = M_in"
  shows "p = q \<and> held (mkst t)"
  using reachable_ok [OF assms(1,2)] assms(3,4) unfolding ok_def by blast

end

text \<open>A process can get inside a free lock.\<close>

lemma mutex_enter:
  assumes "init s" and "lock s = Done (Ok ((), s'))"
  shows "mutex_reachable lock unlock env init \<lparr>mkst = s', mpc = (\<lambda>_. M_out)(p := M_in)\<rparr>"
proof -
  have "mutex_reachable lock unlock env init \<lparr>mkst = s, mpc = (\<lambda>_. M_out)\<rparr>" using assms(1) by (intro mutex_start) simp_all
  then show ?thesis using take_get [of "\<lparr>mkst = s, mpc = (\<lambda>_. M_out)\<rparr>" p lock s'] assms(2) by (auto intro: mutex_next)
qed

end
