(* ===== verification/Bsem.thy ===== *)
theory Bsem
  imports Signal Mutex
begin

text \<open>
  Binary semaphores, the last part of \<^verbatim>\<open>kernel/proc.c\<close>: a table of 128 semaphores
  under one lock, found by linear search for their identifier. The theorems: identifiers
  of allocated semaphores are positive, below \<open>nextsid\<close> and distinct, which \<open>bsem_alloc\<close>
  and \<open>bsem_free\<close> keep; between the return of \<open>bsem_down\<close> and the call of \<open>bsem_up\<close> at
  most one process is inside, in any interleaving with sleeping and waking.
\<close>

section \<open>Definitions\<close>

definition MAX_BSEM :: nat where [simp]: "MAX_BSEM = 128"

definition upd_sem :: "nat \<Rightarrow> (semaphore \<Rightarrow> semaphore) \<Rightarrow> 'a procst_scheme \<Rightarrow> 'a procst_scheme" where
  "upd_sem i f s = s\<lparr>binSemArray := (binSemArray s)(i := f (binSemArray s i))\<rparr>"

primrec bsem_alloc_from :: "nat list \<Rightarrow> 'a procst_scheme \<Rightarrow> (int \<times> 'a procst_scheme) outcome" where
  "bsem_alloc_from [] s = bindO (release L_bsem s) (\<lambda>s. Ok (-1, s))"
| "bsem_alloc_from (i # is) s =
     (if \<not> sem_used (binSemArray s i)
      then
        let s = upd_sem i (\<lambda>b. b\<lparr>sem_used := True\<rparr>) s;
            (sid, s) = allocsid s;
            s = upd_sem i (\<lambda>b. b\<lparr>sem_id := sid\<rparr>) s;
            s = upd_sem i (\<lambda>b. b\<lparr>sem_locked := False\<rparr>) s in
        bindO (release L_bsem s) (\<lambda>s. Ok (sem_id (binSemArray s i), s))
      else bsem_alloc_from is s)"

definition bsem_alloc :: "'a procst_scheme \<Rightarrow> (int \<times> 'a procst_scheme) outcome" where
  "bsem_alloc s = bindO (acquire L_bsem s) (\<lambda>s. bsem_alloc_from [0..<MAX_BSEM] s)"

primrec bsem_free_from :: "int \<Rightarrow> nat list \<Rightarrow> 'a procst_scheme \<Rightarrow> 'a procst_scheme outcome" where
  "bsem_free_from bsem_id [] s = release L_bsem s"
| "bsem_free_from bsem_id (i # is) s =
     (if sem_id (binSemArray s i) = bsem_id
      then release L_bsem (upd_sem i (\<lambda>b. b\<lparr>sem_used := False, sem_id := 0, sem_locked := False\<rparr>) s)
      else bsem_free_from bsem_id is s)"

definition bsem_free :: "int \<Rightarrow> 'a procst_scheme \<Rightarrow> 'a procst_scheme outcome" where
  "bsem_free bsem_id s = bindO (acquire L_bsem s) (\<lambda>s. bsem_free_from bsem_id [0..<MAX_BSEM] s)"

text \<open>The \<open>while\<close> loop of \<open>bsem_down\<close> on the slot it has found, up to its end or to the next \<open>sleep\<close>.\<close>

definition bsem_down_run :: "nat \<Rightarrow> nat \<times> bool \<Rightarrow> 'a procst_scheme \<Rightarrow>
    ((unit, nat \<times> bool) seg \<times> 'a procst_scheme) outcome" where
  "bsem_down_run i l s =
     (if sem_locked (binSemArray s i)
      then bindO (sleep_begin (Ch_bsem i) L_bsem s) (\<lambda>(p, intena, s). Ok (Asleep (p, intena), s))
      else bindO (release L_bsem (upd_sem i (\<lambda>b. b\<lparr>sem_locked := True\<rparr>) s)) (\<lambda>s. Ok (Return (), s)))"

definition bsem_down_loop :: "nat \<Rightarrow> nat \<times> bool \<Rightarrow> 'a procst_scheme outcome \<Rightarrow>
    ('a procst_scheme, unit \<times> 'a procst_scheme) thread" where
  "bsem_down_loop i = wait_loop (bsem_down_run i) (\<lambda>(p, intena). sleep_end p L_bsem intena)"

definition sem_slot :: "int \<Rightarrow> 'a procst_scheme \<Rightarrow> nat option" where
  "sem_slot bsem_id s = first_match (\<lambda>i. sem_id (binSemArray s i) = bsem_id) MAX_BSEM"

definition bsem_down :: "int \<Rightarrow> 'a procst_scheme \<Rightarrow> ('a procst_scheme, unit \<times> 'a procst_scheme) thread" where
  "bsem_down bsem_id s =
     bindT (Done (acquire L_bsem s)) (\<lambda>s.
     case sem_slot bsem_id s of
       None \<Rightarrow> Done (bindO (release L_bsem s) (\<lambda>s. Ok ((), s)))
     | Some i \<Rightarrow> bsem_down_loop i (0, False) (Ok s))"

primrec bsem_up_from :: "int \<Rightarrow> nat list \<Rightarrow> 'a procst_scheme \<Rightarrow> 'a procst_scheme outcome" where
  "bsem_up_from bsem_id [] s = release L_bsem s"
| "bsem_up_from bsem_id (i # is) s =
     (if sem_id (binSemArray s i) = bsem_id \<and> sem_locked (binSemArray s i)
      then bindO (release L_bsem (upd_sem i (\<lambda>b. b\<lparr>sem_locked := False\<rparr>) s)) (\<lambda>s. wakeup (Ch_bsem i) s)
      else bsem_up_from bsem_id is s)"

definition bsem_up :: "int \<Rightarrow> 'a procst_scheme \<Rightarrow> 'a procst_scheme outcome" where
  "bsem_up bsem_id s = bindO (acquire L_bsem s) (\<lambda>s. bsem_up_from bsem_id [0..<MAX_BSEM] s)"

section \<open>What taking and dropping locks leaves of the table\<close>

lemma release_sem: "release lk s = Ok s' \<Longrightarrow> binSemArray s' = binSemArray s"
  by (auto simp: release_def pop_off_def cpu_defs Let_def split: if_splits)

lemma acquire_sem: "acquire lk s = Ok s' \<Longrightarrow> binSemArray s' = binSemArray s"
  by (auto simp: acquire_def push_off_def cpu_defs Let_def split: if_splits)

lemma myproc_sem: "myproc s = Ok (p, s') \<Longrightarrow> binSemArray s' = binSemArray s"
  by (auto simp: myproc_def push_off_def pop_off_def cpu_defs Let_def split: if_splits)

lemma curproc_sem: "curproc s = Ok (p, s') \<Longrightarrow> binSemArray s' = binSemArray s"
  by (auto simp: curproc_def bindO_eq_Ok dest: myproc_sem split: option.splits)

lemma sched_out_sem: "sched_out s = Ok (b, s') \<Longrightarrow> binSemArray s' = binSemArray s"
  by (auto simp: sched_out_def bindO_eq_Ok dest: curproc_sem split: if_splits)

lemma sleep_begin_sem: "sleep_begin ch lk s = Ok (p, b, s') \<Longrightarrow> binSemArray s' = binSemArray s"
  by (auto simp: sleep_begin_def bindO_eq_Ok dest!: curproc_sem acquire_sem release_sem sched_out_sem)

lemma sleep_end_sem: "sleep_end p lk b s = Ok s' \<Longrightarrow> binSemArray s' = binSemArray s"
  by (auto simp: sleep_end_def sched_in_def set_mycpu_def bindO_eq_Ok dest!: acquire_sem release_sem)

lemma wakeup_sem: "wakeup ch s = Ok s' \<Longrightarrow> binSemArray s' = binSemArray s"
proof -
  have "wakeup_from ch is s = Ok s' \<Longrightarrow> binSemArray s' = binSemArray s" for "is"
  proof (induction "is" arbitrary: s)
    case (Cons i "is" s)
    then show ?case
      by (auto simp: bindO_eq_Ok Let_def dest!: myproc_sem acquire_sem release_sem Cons.IH split: if_splits)
  qed simp
  then show "wakeup ch s = Ok s' \<Longrightarrow> ?thesis" by (simp add: wakeup_def)
qed

section \<open>Mutual exclusion\<close>

abbreviation sem_resume :: "nat \<Rightarrow> nat \<times> bool \<Rightarrow> 'a procst_scheme \<Rightarrow> ('a procst_scheme, unit \<times> 'a procst_scheme) thread" where
  "sem_resume i l \<equiv> (\<lambda>s. bsem_down_loop i l ((\<lambda>(p, intena). sleep_end p L_bsem intena) l s))"

lemma down_loop_cases:
  assumes "m = Ok s \<Longrightarrow> binSemArray s = bs"
    and "m = Ok s \<or> (\<exists>e. m = Panic e) \<or> m = Spin"
  shows "bsem_down_loop i l m = Done (Ok ((), s')) \<Longrightarrow>
      \<not> sem_locked (bs i) \<and> binSemArray s' = bs(i := (bs i)\<lparr>sem_locked := True\<rparr>)"
    and "bsem_down_loop i l m = Switch s' k \<Longrightarrow> binSemArray s' = bs \<and> (\<exists>l'. k = sem_resume i l')"
proof -
  have m: "m = Ok s" "binSemArray s = bs" if "\<not> (\<exists>e. bsem_down_loop i l m = Done (Panic e))" "bsem_down_loop i l m \<noteq> Done Spin"
    using that assms by (auto simp: bsem_down_loop_def wait_loop_stop)
  have run: "bsem_down_loop i l (Ok s) = (case bsem_down_run i l s of
      Ok rs \<Rightarrow> (case fst rs of Return r \<Rightarrow> Done (Ok (r, snd rs)) | Asleep l' \<Rightarrow> Switch (snd rs) (sem_resume i l'))
    | Panic e \<Rightarrow> Done (Panic e) | Spin \<Rightarrow> Done Spin)"
    unfolding bsem_down_loop_def by (subst wait_loop.code) (simp cong: outcome.case_cong seg.case_cong)
  show "\<not> sem_locked (bs i) \<and> binSemArray s' = bs(i := (bs i)\<lparr>sem_locked := True\<rparr>)"
    if "bsem_down_loop i l m = Done (Ok ((), s'))"
    using that m run
    by (auto simp: bsem_down_run_def upd_sem_def bindO_eq_Ok dest!: release_sem
        split: outcome.splits seg.splits if_splits)
  show "binSemArray s' = bs \<and> (\<exists>l'. k = sem_resume i l')" if "bsem_down_loop i l m = Switch s' k"
    using that m run
    by (auto simp: bsem_down_run_def bindO_eq_Ok dest!: sleep_begin_sem split: outcome.splits seg.splits if_splits)
qed

lemma sem_slot_cong:
  "(\<And>j. sem_id (binSemArray s' j) = sem_id (binSemArray s j)) \<Longrightarrow> sem_slot sid s' = sem_slot sid s"
  by (simp add: sem_slot_def)

lemma bsem_down_cases:
  assumes "sem_slot sid s = Some i"
  shows "bsem_down sid s = Done (Ok ((), s')) \<Longrightarrow>
      \<not> sem_locked (binSemArray s i) \<and> binSemArray s' = (binSemArray s)(i := (binSemArray s i)\<lparr>sem_locked := True\<rparr>)"
    and "bsem_down sid s = Switch s' k \<Longrightarrow> binSemArray s' = binSemArray s \<and> (\<exists>l. k = sem_resume i l)"
proof -
  have slot: "sem_slot sid t = Some i" if "acquire L_bsem s = Ok t" for t
    using assms sem_slot_cong [of t s] acquire_sem [OF that] by simp
  have down: "bsem_down sid s = (case acquire L_bsem s of Ok t \<Rightarrow> bsem_down_loop i (0, False) (Ok t)
      | Panic e \<Rightarrow> Done (Panic e) | Spin \<Rightarrow> Done Spin)"
    by (auto simp: bsem_down_def slot split: outcome.splits)
  show "\<not> sem_locked (binSemArray s i) \<and> binSemArray s' = (binSemArray s)(i := (binSemArray s i)\<lparr>sem_locked := True\<rparr>)"
    if "bsem_down sid s = Done (Ok ((), s'))"
    using that unfolding down
    by (auto split: outcome.splits dest!: acquire_sem down_loop_cases(1) [of "Ok _" _ "binSemArray s", rotated 2])
  show "binSemArray s' = binSemArray s \<and> (\<exists>l. k = sem_resume i l)" if "bsem_down sid s = Switch s' k"
    using that unfolding down
    by (auto split: outcome.splits dest!: acquire_sem down_loop_cases(2) [of "Ok _" _ "binSemArray s", rotated 2])
qed

lemma sem_resume_cases:
  shows "sem_resume i l s = Done (Ok ((), s')) \<Longrightarrow>
      \<not> sem_locked (binSemArray s i) \<and> binSemArray s' = (binSemArray s)(i := (binSemArray s i)\<lparr>sem_locked := True\<rparr>)"
    and "sem_resume i l s = Switch s' k \<Longrightarrow> binSemArray s' = binSemArray s \<and> (\<exists>l. k = sem_resume i l)"
proof -
  let ?m = "(\<lambda>(p, intena). sleep_end p L_bsem intena) l s"
  obtain t where t: "?m = Ok t \<Longrightarrow> binSemArray t = binSemArray s" "?m = Ok t \<or> (\<exists>e. ?m = Panic e) \<or> ?m = Spin"
    by (cases ?m) (auto split: prod.splits dest: sleep_end_sem)
  show "\<not> sem_locked (binSemArray s i) \<and> binSemArray s' = (binSemArray s)(i := (binSemArray s i)\<lparr>sem_locked := True\<rparr>)"
    if "sem_resume i l s = Done (Ok ((), s'))" by (rule down_loop_cases(1) [OF t that])
  show "binSemArray s' = binSemArray s \<and> (\<exists>l. k = sem_resume i l)" if "sem_resume i l s = Switch s' k"
    by (rule down_loop_cases(2) [OF t that])
qed

lemma bsem_up_effect:
  assumes "sem_slot sid s = Some i" and "sem_locked (binSemArray s i)" and "bsem_up sid s = Ok s'"
  shows "binSemArray s' = (binSemArray s)(i := (binSemArray s i)\<lparr>sem_locked := False\<rparr>)"
proof -
  note i = first_match_SomeD [OF assms(1) [unfolded sem_slot_def]]
  have "bsem_up_from sid is t = Ok s' \<Longrightarrow> binSemArray s' = (binSemArray s)(i := (binSemArray s i)\<lparr>sem_locked := False\<rparr>)"
    if "binSemArray t = binSemArray s" and "\<exists>xs ys. is = xs @ i # ys \<and> (\<forall>j \<in> set xs. j < i)" for "is" t
    using that
  proof (induction "is" arbitrary: t)
    case (Cons j "is" t)
    show ?case
    proof (cases "j = i")
      case True
      then show ?thesis
        using Cons.prems i assms(2)
        by (auto simp: bindO_eq_Ok upd_sem_def dest!: release_sem wakeup_sem)
    next
      case False
      then have "j < i" using Cons.prems(3) by (auto simp: Cons_eq_append_conv)
      then have j: "sem_id (binSemArray s j) \<noteq> sid" using i(3) by blast
      moreover have "\<exists>xs ys. is = xs @ i # ys \<and> (\<forall>j \<in> set xs. j < i)"
        using Cons.prems(3) False by (auto simp: Cons_eq_append_conv)
      ultimately show ?thesis using Cons.IH [of t] Cons.prems(1,2) by auto
    qed
  qed simp
  moreover have "\<exists>xs ys. [0..<MAX_BSEM] = xs @ i # ys \<and> (\<forall>j \<in> set xs. j < i)"
    using i(1) upt_add_eq_append [of 0 i "MAX_BSEM - i"]
    by (intro exI [of _ "[0..<i]"] exI [of _ "[Suc i..<MAX_BSEM]"]) (simp add: upt_conv_Cons)
  ultimately show ?thesis using assms(3) by (auto simp: bsem_up_def bindO_eq_Ok dest: acquire_sem)
qed

text \<open>The semaphore in slot \<open>i\<close> as a lock; the rest of the system leaves the table alone.\<close>

definition same_sems :: "'a procst_scheme \<Rightarrow> 'a procst_scheme \<Rightarrow> bool" where
  "same_sems s s' \<longleftrightarrow> binSemArray s' = binSemArray s"

interpretation bsem_lock: blocking_lock "\<lambda>s. sem_slot sid s = Some i" "\<lambda>s. sem_locked (binSemArray s i)"
  "bsem_down sid" "bsem_up sid" "\<lambda>k. \<exists>l. k = sem_resume i l" same_sems for sid i
proof unfold_locales
  fix s s' :: "'a procst_scheme" and k k' :: "'a procst_scheme \<Rightarrow> ('a procst_scheme, unit \<times> 'a procst_scheme) thread"
  assume slot: "sem_slot sid s = Some i"
  have same: "sem_slot sid t = Some i" if "binSemArray t = (binSemArray s)(i := (binSemArray s i)\<lparr>sem_locked := v\<rparr>)"
    for v and t :: "'a procst_scheme"
    using slot sem_slot_cong [of t s] that by auto
  have same': "sem_slot sid t = Some i" if "binSemArray t = binSemArray s"
    for t :: "'a procst_scheme"
    using slot sem_slot_cong [of t s] that by auto
  show "\<not> sem_locked (binSemArray s i) \<and> sem_locked (binSemArray s' i) \<and> sem_slot sid s' = Some i"
    if "bsem_down sid s = Done (Ok ((), s'))"
    using bsem_down_cases(1) [OF slot that] same by auto
  show "sem_locked (binSemArray s' i) = sem_locked (binSemArray s i) \<and> sem_slot sid s' = Some i \<and> (\<exists>l. k = sem_resume i l)"
    if "bsem_down sid s = Switch s' k"
    using bsem_down_cases(2) [OF slot that] same' by auto
  show "\<not> sem_locked (binSemArray s i) \<and> sem_locked (binSemArray s' i) \<and> sem_slot sid s' = Some i"
    if "\<exists>l. k = sem_resume i l" "k s = Done (Ok ((), s'))"
    using sem_resume_cases(1) [of i _ s s'] that same by auto
  show "sem_locked (binSemArray s' i) = sem_locked (binSemArray s i) \<and> sem_slot sid s' = Some i \<and> (\<exists>l. k' = sem_resume i l)"
    if "\<exists>l. k = sem_resume i l" "k s = Switch s' k'"
    using sem_resume_cases(2) [of i _ s s' k'] that same' [of s'] by auto
  show "\<not> sem_locked (binSemArray s' i) \<and> sem_slot sid s' = Some i"
    if "sem_locked (binSemArray s i)" "bsem_up sid s = Ok s'"
    using bsem_up_effect [OF slot that] same by auto
  show "sem_locked (binSemArray s' i) = sem_locked (binSemArray s i) \<and> sem_slot sid s' = Some i" if "same_sems s s'"
    using that same' by (auto simp: same_sems_def)
qed

text \<open>
  C11: a binary semaphore is a lock. From a state in which the semaphore is up and nobody uses
  it, in every interleaving of the processes that call \<open>bsem_down\<close>, sleep in it, wake up in
  it and call \<open>bsem_up\<close> when they are inside, and of anything else that does not touch the
  table of semaphores, at most one process is inside, and then the semaphore is down.
\<close>

theorem bsem_mutual_exclusion:
  assumes "mutex_reachable (bsem_down sid) (bsem_up sid) same_sems
       (\<lambda>s. sem_slot sid s = Some i \<and> \<not> sem_locked (binSemArray s i)) t"
    and "mpc t p = M_in" and "mpc t q = M_in"
  shows "p = q \<and> sem_locked (binSemArray (mkst t) i)"
  using bsem_lock.exclusion [OF assms(1) _ assms(2,3)] by simp

section \<open>Allocation\<close>

definition sems_ok :: "'a procst_scheme \<Rightarrow> bool" where
  "sems_ok s \<longleftrightarrow> 0 < nextsid s \<and>
     (\<forall>i < MAX_BSEM. if sem_used (binSemArray s i)
        then 0 < sem_id (binSemArray s i) \<and> sem_id (binSemArray s i) < nextsid s
        else sem_id (binSemArray s i) = 0) \<and>
     inj_on (\<lambda>i. sem_id (binSemArray s i)) {i. i < MAX_BSEM \<and> sem_used (binSemArray s i)}"

lemma upd_sem_simps [lock_simps]:
  "upd_sem i f (acquired lk s) = acquired lk (upd_sem i f s)" "upd_sem i f (tidy s) = tidy (upd_sem i f s)"
  "lock_free lk (upd_sem i f s) = lock_free lk s" "cpu_ok (upd_sem i f s) = cpu_ok s"
  "allocsid (acquired lk s) = (nextsid s, acquired lk (s\<lparr>nextsid := nextsid s + 1\<rparr>))"
  by (simp_all add: upd_sem_def allocsid_def lock_simps)

definition sem_fresh :: "nat \<Rightarrow> 'a procst_scheme \<Rightarrow> 'a procst_scheme" where
  "sem_fresh i s = s\<lparr>nextsid := nextsid s + 1,
     binSemArray := (binSemArray s)(i := \<lparr>sem_id = nextsid s, sem_locked = False, sem_used = True\<rparr>)\<rparr>"

lemma bsem_alloc_from_eq:
  assumes "cpu_ok s" and "lock_free L_bsem s"
  shows "bsem_alloc_from is (acquired L_bsem s) = (case List.find (\<lambda>i. \<not> sem_used (binSemArray s i)) is of
     None \<Rightarrow> Ok (-1, tidy s) | Some i \<Rightarrow> Ok (nextsid s, tidy (sem_fresh i s)))"
proof (induction "is")
  case (Cons i "is")
  have fresh: "upd_sem i (\<lambda>b. b\<lparr>sem_locked := False\<rparr>) (upd_sem i (\<lambda>b. b\<lparr>sem_id := nextsid s\<rparr>)
      ((upd_sem i (\<lambda>b. b\<lparr>sem_used := True\<rparr>) s)\<lparr>nextsid := nextsid s + 1\<rparr>)) = sem_fresh i s"
    by (cases "binSemArray s i") (simp add: upd_sem_def sem_fresh_def)
  have sid: "nextsid (upd_sem i f s) = nextsid s" for f by (simp add: upd_sem_def)
  have "cpu_ok (sem_fresh i s)" "lock_free L_bsem (sem_fresh i s)"
    using assms by (simp_all add: sem_fresh_def lock_simps)
  then have "release L_bsem (acquired L_bsem (sem_fresh i s)) = Ok (tidy (sem_fresh i s))" by (rule release_acquired)
  moreover have "sem_id (binSemArray (tidy (sem_fresh i s)) i) = nextsid s" by (simp add: sem_fresh_def lock_simps)
  ultimately show ?case using Cons by (simp add: lock_simps Let_def sid fresh)
qed (use assms in \<open>simp add: lock_simps\<close>)

lemma bsem_alloc_eq:
  assumes "cpu_ok s" and "lock_free L_bsem s"
  shows "bsem_alloc s = (case first_match (\<lambda>i. \<not> sem_used (binSemArray s i)) MAX_BSEM of
     None \<Rightarrow> Ok (-1, tidy s) | Some i \<Rightarrow> Ok (nextsid s, tidy (sem_fresh i s)))"
  using bsem_alloc_from_eq [OF assms] assms by (simp add: bsem_alloc_def first_match_def lock_simps)

definition sem_cleared :: "nat \<Rightarrow> 'a procst_scheme \<Rightarrow> 'a procst_scheme" where
  "sem_cleared i s = s\<lparr>binSemArray := (binSemArray s)(i := \<lparr>sem_id = 0, sem_locked = False, sem_used = False\<rparr>)\<rparr>"

lemma bsem_free_eq:
  assumes "cpu_ok s" and "lock_free L_bsem s"
  shows "bsem_free sid s = (case sem_slot sid s of None \<Rightarrow> Ok (tidy s) | Some i \<Rightarrow> Ok (tidy (sem_cleared i s)))"
proof -
  have "upd_sem i (\<lambda>b. b\<lparr>sem_used := False, sem_id := 0, sem_locked := False\<rparr>) s = sem_cleared i s" for i
    by (cases "binSemArray s i") (simp add: upd_sem_def sem_cleared_def)
  moreover have "release L_bsem (acquired L_bsem (sem_cleared i s)) = Ok (tidy (sem_cleared i s))" for i
    using assms by (intro release_acquired) (simp_all add: sem_cleared_def lock_simps)
  ultimately have "bsem_free_from sid is (acquired L_bsem s) = (case List.find (\<lambda>i. sem_id (binSemArray s i) = sid) is of
      None \<Rightarrow> Ok (tidy s) | Some i \<Rightarrow> Ok (tidy (sem_cleared i s)))" for "is"
    using assms by (induction "is") (simp_all add: lock_simps)
  then show ?thesis using assms by (simp add: bsem_free_def sem_slot_def first_match_def lock_simps)
qed

lemma sems_ok_fresh: "sems_ok s \<Longrightarrow> i < MAX_BSEM \<Longrightarrow> \<not> sem_used (binSemArray s i) \<Longrightarrow> sems_ok (sem_fresh i s)"
  unfolding sems_ok_def sem_fresh_def inj_on_def by (auto split: if_splits)

lemma sems_ok_cleared: "sems_ok s \<Longrightarrow> sems_ok (sem_cleared i s)"
  by (auto simp: sems_ok_def sem_cleared_def inj_on_def)

lemma sems_ok_frame [simp]: "sems_ok (tidy s) = sems_ok s" "sem_slot sid (tidy s) = sem_slot sid s"
  by (simp_all add: sems_ok_def sem_slot_def lock_simps)

lemma sem_slot_fresh:
  assumes "sems_ok s" and "i < MAX_BSEM"
  shows "sem_slot (nextsid s) (sem_fresh i s) = Some i" and "sem_slot (nextsid s) (sem_cleared i (sem_fresh i s)) = None"
proof -
  have old: "sem_id (binSemArray s j) \<noteq> nextsid s" "0 < nextsid s" if "j < MAX_BSEM" for j
    using assms(1) that by (auto simp: sems_ok_def split: if_splits)
  show "sem_slot (nextsid s) (sem_fresh i s) = Some i"
    using old assms(2) unfolding sem_slot_def by (intro first_match_SomeI) (auto simp: sem_fresh_def)
  show "sem_slot (nextsid s) (sem_cleared i (sem_fresh i s)) = None"
    using old unfolding sem_slot_def by (auto simp: first_match_None_iff sem_fresh_def sem_cleared_def)
qed


text \<open>A freed semaphore leaves its sleepers asleep: \<open>bsem_free\<close> wakes nobody.\<close>

lemma bsem_free_wakes_nobody:
  "cpu_ok s \<Longrightarrow> lock_free L_bsem s \<Longrightarrow> \<exists>s'. bsem_free sid s = Ok s' \<and> procs s' = procs s"
  by (auto simp: bsem_free_eq sem_cleared_def lock_simps split: option.splits)

text \<open>\<open>bsem_down\<close> on a semaphore that is up, and on one that is down.\<close>

lemma bsem_down_up:
  assumes "cpu_ok s" and "lock_free L_bsem s" and "sem_slot sid s = Some i" and "\<not> sem_locked (binSemArray s i)"
  shows "bsem_down sid s = Done (Ok ((), tidy (upd_sem i (\<lambda>b. b\<lparr>sem_locked := True\<rparr>) s)))"
proof -
  have slot: "sem_slot sid (acquired L_bsem s) = Some i" using assms(3) by (simp add: sem_slot_def lock_simps)
  let ?t = "upd_sem i (\<lambda>b. b\<lparr>sem_locked := True\<rparr>) s"
  have "release L_bsem (acquired L_bsem ?t) = Ok (tidy ?t)"
    using assms by (intro release_acquired) (simp_all add: lock_simps)
  then have "bsem_down_run i (0, False) (acquired L_bsem s) = Ok (Return (), tidy ?t)"
    using assms(4) by (simp add: bsem_down_run_def lock_simps)
  then have "bsem_down_loop i (0, False) (Ok (acquired L_bsem s)) = Done (Ok ((), tidy ?t))"
    unfolding bsem_down_loop_def by (intro wait_loop_return) simp
  then show ?thesis using assms(2) slot by (simp add: bsem_down_def acquire_free)
qed

lemma bsem_down_down:
  assumes "cpu_ok s" and "lock_free L_bsem s" and "sem_slot sid s = Some i" and "sem_locked (binSemArray s i)"
    and "c_proc (mycpu s) = Some p" and "c_noff (mycpu s) = 0" and "lock_free (L_proc p) s"
  shows "\<exists>k. bsem_down sid s =
     Switch (acquired (L_proc p) (upd_proc p (\<lambda>p. p\<lparr>p_chan := Ch_bsem i, p_state := SLEEPING\<rparr>) s)) k"
proof -
  have slot: "sem_slot sid (acquired L_bsem s) = Some i" using assms(3) by (simp add: sem_slot_def lock_simps)
  have "bsem_down_run i (0, False) (acquired L_bsem s) = Ok (Asleep (p, intr_get s),
      acquired (L_proc p) (upd_proc p (\<lambda>p. p\<lparr>p_chan := Ch_bsem i, p_state := SLEEPING\<rparr>) s))"
    using sleep_begin_eq [OF assms(1,5,6,7,2), of "Ch_bsem i"] assms(4) by (simp add: bsem_down_run_def lock_simps)
  then have "\<exists>k. bsem_down_loop i (0, False) (Ok (acquired L_bsem s)) =
      Switch (acquired (L_proc p) (upd_proc p (\<lambda>p. p\<lparr>p_chan := Ch_bsem i, p_state := SLEEPING\<rparr>) s)) k"
    unfolding bsem_down_loop_def by (subst wait_loop_asleep) auto
  then show ?thesis using assms(2) slot by (simp add: bsem_down_def acquire_free)
qed

section \<open>Concrete states\<close>


theorem bsem_mutual_exclusion_witness:
  "\<exists>t :: consst mutex_sys. mpc t 4 = M_in \<and> {p. mpc t p = M_in} = {4} \<and> sem_locked (binSemArray (mkst t) 0)"
proof -
  let ?s = "demo_console 1 (\<lambda>_. blank_proc)"
  have slot: "sem_slot 0 ?s = Some 0" unfolding sem_slot_def by (rule first_match_SomeI) auto
  let ?t = "\<lparr>mkst = tidy (upd_sem 0 (\<lambda>b. b\<lparr>sem_locked := True\<rparr>) ?s), mpc = (\<lambda>_. M_out)(4 := M_in)\<rparr> :: consst mutex_sys"
  have r: "mutex_reachable (bsem_down 0) (bsem_up 0) same_sems
      (\<lambda>s. sem_slot 0 s = Some 0 \<and> \<not> sem_locked (binSemArray s 0)) ?t"
    using slot by (intro mutex_enter [of _ ?s] bsem_down_up) auto
  have "mpc ?t 4 = M_in" by simp
  then have "{p. mpc ?t p = M_in} = {4} \<and> sem_locked (binSemArray (mkst ?t) 0)"
    using bsem_mutual_exclusion [OF r, of _ 4] by blast
  with \<open>mpc ?t 4 = M_in\<close> show ?thesis by blast
qed

end
