(* ===== verification/Fsstate.thy ===== *)
theory Fsstate
  imports Bsem
begin

text \<open>
  The objects of the file system as the kernel keeps them in memory: sleep locks
  (\<^verbatim>\<open>kernel/sleeplock.h\<close>), block buffers (\<^verbatim>\<open>kernel/buf.h\<close>), the virtio queue
  (\<^verbatim>\<open>kernel/virtio_disk.c\<close>), the log (\<^verbatim>\<open>kernel/log.c\<close>), the super block and
  inodes (\<^verbatim>\<open>kernel/fs.h\<close>, \<^verbatim>\<open>kernel/file.h\<close>), open files and pipes. A pointer to an
  element of a table is its index; the addresses the driver hands to the disk are the
  objects they point to.
\<close>

section \<open>Objects\<close>

record sleeplock =
  sl_locked :: bool
  sl_name :: string
  sl_pid :: int

record buf =
  b_valid :: bool
  b_disk :: bool
  b_dev :: uint32
  b_blockno :: uint32
  b_refcnt :: uint32
  b_prev :: nat
  b_next :: nat
  b_data :: chars

datatype daddr = DA_null | DA_op nat | DA_data nat | DA_status nat

record virtq_desc =
  d_addr :: daddr
  d_len :: uint32
  d_flags :: uint16
  d_next :: uint16

record virtio_blk_req =
  req_type :: uint32
  req_reserved :: uint32
  req_sector :: uint64

record vdisk =
  vd_desc :: "nat \<Rightarrow> virtq_desc"
  vd_avail_idx :: uint16
  vd_avail_ring :: "nat \<Rightarrow> uint16"
  vd_used_dev_idx :: uint16
  vd_used_ring :: "nat \<Rightarrow> uint32"
  vd_free :: "nat \<Rightarrow> bool"
  vd_used_idx :: uint16
  vd_info_b :: "nat \<Rightarrow> nat option"
  vd_info_status :: "nat \<Rightarrow> uint8"
  vd_ops :: "nat \<Rightarrow> virtio_blk_req"

record logst =
  lg_start :: uint32
  lg_size :: uint32
  lg_outstanding :: int
  lg_committing :: bool
  lg_dev :: uint32
  lh_n :: uint32
  lh_block :: "nat \<Rightarrow> uint32"

record superblock =
  sb_magic :: uint32
  sb_size :: uint32
  sb_nblocks :: uint32
  sb_ninodes :: uint32
  sb_nlog :: uint32
  sb_logstart :: uint32
  sb_inodestart :: uint32
  sb_bmapstart :: uint32

record dinode =
  di_type :: uint16
  di_major :: uint16
  di_minor :: uint16
  di_nlink :: uint16
  di_size :: uint32
  di_addrs :: "nat \<Rightarrow> uint32"

record inode =
  i_dev :: uint32
  i_inum :: uint32
  i_ref :: int
  i_valid :: bool
  i_type :: uint16
  i_major :: uint16
  i_minor :: uint16
  i_nlink :: uint16
  i_size :: uint32
  i_addrs :: "nat \<Rightarrow> uint32"

datatype fdtype = FD_NONE | FD_PIPE | FD_INODE | FD_DEVICE

record kfile =
  f_type :: fdtype
  f_ref :: int
  f_readable :: bool
  f_writable :: bool
  f_pipe :: uint64
  f_ip :: "nat option"
  f_off :: uint32
  f_major :: uint16

record pipe =
  pi_data :: "nat \<Rightarrow> uint8"
  pi_nread :: uint32
  pi_nwrite :: uint32
  pi_readopen :: bool
  pi_writeopen :: bool

section \<open>State\<close>

text \<open>
  \<open>vd_seen\<close>, \<open>vmmio\<close> and \<open>disk_img\<close> belong to the device: how far it has read the ring of
  available requests, its readable registers, and the bytes on the disk. \<open>vmmio_log\<close> are
  the register writes of the driver, in order.
\<close>

record fsst = consst +
  sleeplocks :: "sleeplock_id \<Rightarrow> sleeplock"
  bufs :: "nat \<Rightarrow> buf"
  vdisk :: vdisk
  vd_seen :: uint16
  vmmio :: "nat \<Rightarrow> uint32"
  vmmio_log :: "(nat \<times> uint32) list"
  disk_img :: "nat \<Rightarrow> uint8"
  log :: logst
  sb :: superblock
  inodes :: "nat \<Rightarrow> inode"
  files :: "nat \<Rightarrow> kfile"
  pipes :: "uint64 \<Rightarrow> pipe"
  first_forkret :: bool

definition upd_sl :: "sleeplock_id \<Rightarrow> (sleeplock \<Rightarrow> sleeplock) \<Rightarrow> 'a fsst_scheme \<Rightarrow> 'a fsst_scheme" where
  "upd_sl k f s = s\<lparr>sleeplocks := (sleeplocks s)(k := f (sleeplocks s k))\<rparr>"

definition upd_buf :: "nat \<Rightarrow> (buf \<Rightarrow> buf) \<Rightarrow> 'a fsst_scheme \<Rightarrow> 'a fsst_scheme" where
  "upd_buf b f s = s\<lparr>bufs := (bufs s)(b := f (bufs s b))\<rparr>"

definition upd_inode :: "nat \<Rightarrow> (inode \<Rightarrow> inode) \<Rightarrow> 'a fsst_scheme \<Rightarrow> 'a fsst_scheme" where
  "upd_inode i f s = s\<lparr>inodes := (inodes s)(i := f (inodes s i))\<rparr>"

definition upd_file :: "nat \<Rightarrow> (kfile \<Rightarrow> kfile) \<Rightarrow> 'a fsst_scheme \<Rightarrow> 'a fsst_scheme" where
  "upd_file i f s = s\<lparr>files := (files s)(i := f (files s i))\<rparr>"

definition upd_pipe :: "uint64 \<Rightarrow> (pipe \<Rightarrow> pipe) \<Rightarrow> 'a fsst_scheme \<Rightarrow> 'a fsst_scheme" where
  "upd_pipe a f s = s\<lparr>pipes := (pipes s)(a := f (pipes s a))\<rparr>"

section \<open>Frame rules\<close>

lemma fs_lock_simps [lock_simps]:
  "sleeplocks (acquired lk s) = sleeplocks s" "sleeplocks (tidy s) = sleeplocks s" "sleeplocks (set_mycpu g s) = sleeplocks s"
  "bufs (acquired lk s) = bufs s" "bufs (tidy s) = bufs s" "bufs (set_mycpu g s) = bufs s"
  "vdisk (acquired lk s) = vdisk s" "vdisk (tidy s) = vdisk s" "vdisk (set_mycpu g s) = vdisk s"
  "vd_seen (acquired lk s) = vd_seen s" "vd_seen (tidy s) = vd_seen s" "vd_seen (set_mycpu g s) = vd_seen s"
  "vmmio (acquired lk s) = vmmio s" "vmmio (tidy s) = vmmio s" "vmmio (set_mycpu g s) = vmmio s"
  "vmmio_log (acquired lk s) = vmmio_log s" "vmmio_log (tidy s) = vmmio_log s" "vmmio_log (set_mycpu g s) = vmmio_log s"
  "disk_img (acquired lk s) = disk_img s" "disk_img (tidy s) = disk_img s" "disk_img (set_mycpu g s) = disk_img s"
  "log (acquired lk s) = log s" "log (tidy s) = log s" "log (set_mycpu g s) = log s"
  "sb (acquired lk s) = sb s" "sb (tidy s) = sb s" "sb (set_mycpu g s) = sb s"
  "inodes (acquired lk s) = inodes s" "inodes (tidy s) = inodes s" "inodes (set_mycpu g s) = inodes s"
  "files (acquired lk s) = files s" "files (tidy s) = files s" "files (set_mycpu g s) = files s"
  "pipes (acquired lk s) = pipes s" "pipes (tidy s) = pipes s" "pipes (set_mycpu g s) = pipes s"
  "first_forkret (acquired lk s) = first_forkret s" "first_forkret (tidy s) = first_forkret s" "first_forkret (set_mycpu g s) = first_forkret s"
  "(acquired lk s)\<lparr>sleeplocks := x0\<rparr> = acquired lk (s\<lparr>sleeplocks := x0\<rparr>)" "(tidy s)\<lparr>sleeplocks := x0\<rparr> = tidy (s\<lparr>sleeplocks := x0\<rparr>)"
  "(acquired lk s)\<lparr>bufs := x1\<rparr> = acquired lk (s\<lparr>bufs := x1\<rparr>)" "(tidy s)\<lparr>bufs := x1\<rparr> = tidy (s\<lparr>bufs := x1\<rparr>)"
  "(acquired lk s)\<lparr>vdisk := x2\<rparr> = acquired lk (s\<lparr>vdisk := x2\<rparr>)" "(tidy s)\<lparr>vdisk := x2\<rparr> = tidy (s\<lparr>vdisk := x2\<rparr>)"
  "(acquired lk s)\<lparr>vd_seen := x3\<rparr> = acquired lk (s\<lparr>vd_seen := x3\<rparr>)" "(tidy s)\<lparr>vd_seen := x3\<rparr> = tidy (s\<lparr>vd_seen := x3\<rparr>)"
  "(acquired lk s)\<lparr>vmmio := x4\<rparr> = acquired lk (s\<lparr>vmmio := x4\<rparr>)" "(tidy s)\<lparr>vmmio := x4\<rparr> = tidy (s\<lparr>vmmio := x4\<rparr>)"
  "(acquired lk s)\<lparr>vmmio_log := x5\<rparr> = acquired lk (s\<lparr>vmmio_log := x5\<rparr>)" "(tidy s)\<lparr>vmmio_log := x5\<rparr> = tidy (s\<lparr>vmmio_log := x5\<rparr>)"
  "(acquired lk s)\<lparr>disk_img := x6\<rparr> = acquired lk (s\<lparr>disk_img := x6\<rparr>)" "(tidy s)\<lparr>disk_img := x6\<rparr> = tidy (s\<lparr>disk_img := x6\<rparr>)"
  "(acquired lk s)\<lparr>log := x7\<rparr> = acquired lk (s\<lparr>log := x7\<rparr>)" "(tidy s)\<lparr>log := x7\<rparr> = tidy (s\<lparr>log := x7\<rparr>)"
  "(acquired lk s)\<lparr>sb := x8\<rparr> = acquired lk (s\<lparr>sb := x8\<rparr>)" "(tidy s)\<lparr>sb := x8\<rparr> = tidy (s\<lparr>sb := x8\<rparr>)"
  "(acquired lk s)\<lparr>inodes := x9\<rparr> = acquired lk (s\<lparr>inodes := x9\<rparr>)" "(tidy s)\<lparr>inodes := x9\<rparr> = tidy (s\<lparr>inodes := x9\<rparr>)"
  "(acquired lk s)\<lparr>files := x10\<rparr> = acquired lk (s\<lparr>files := x10\<rparr>)" "(tidy s)\<lparr>files := x10\<rparr> = tidy (s\<lparr>files := x10\<rparr>)"
  "(acquired lk s)\<lparr>pipes := x11\<rparr> = acquired lk (s\<lparr>pipes := x11\<rparr>)" "(tidy s)\<lparr>pipes := x11\<rparr> = tidy (s\<lparr>pipes := x11\<rparr>)"
  "(acquired lk s)\<lparr>first_forkret := x12\<rparr> = acquired lk (s\<lparr>first_forkret := x12\<rparr>)" "(tidy s)\<lparr>first_forkret := x12\<rparr> = tidy (s\<lparr>first_forkret := x12\<rparr>)"
  by (simp_all add: acquired_def tidy_def set_mycpu_def intr_get_def)

lemma fs_upd_simps [lock_simps]:
  "lock_free lk (s\<lparr>sleeplocks := x0\<rparr>) = lock_free lk s" "cpu_ok (s\<lparr>sleeplocks := x0\<rparr>) = cpu_ok s" "holding lk (s\<lparr>sleeplocks := x0\<rparr>) = holding lk s"
  "intr_get (s\<lparr>sleeplocks := x0\<rparr>) = intr_get s" "mycpu (s\<lparr>sleeplocks := x0\<rparr>) = mycpu s"
  "lock_free lk (s\<lparr>bufs := x1\<rparr>) = lock_free lk s" "cpu_ok (s\<lparr>bufs := x1\<rparr>) = cpu_ok s" "holding lk (s\<lparr>bufs := x1\<rparr>) = holding lk s"
  "intr_get (s\<lparr>bufs := x1\<rparr>) = intr_get s" "mycpu (s\<lparr>bufs := x1\<rparr>) = mycpu s"
  "lock_free lk (s\<lparr>vdisk := x2\<rparr>) = lock_free lk s" "cpu_ok (s\<lparr>vdisk := x2\<rparr>) = cpu_ok s" "holding lk (s\<lparr>vdisk := x2\<rparr>) = holding lk s"
  "intr_get (s\<lparr>vdisk := x2\<rparr>) = intr_get s" "mycpu (s\<lparr>vdisk := x2\<rparr>) = mycpu s"
  "lock_free lk (s\<lparr>vd_seen := x3\<rparr>) = lock_free lk s" "cpu_ok (s\<lparr>vd_seen := x3\<rparr>) = cpu_ok s" "holding lk (s\<lparr>vd_seen := x3\<rparr>) = holding lk s"
  "intr_get (s\<lparr>vd_seen := x3\<rparr>) = intr_get s" "mycpu (s\<lparr>vd_seen := x3\<rparr>) = mycpu s"
  "lock_free lk (s\<lparr>vmmio := x4\<rparr>) = lock_free lk s" "cpu_ok (s\<lparr>vmmio := x4\<rparr>) = cpu_ok s" "holding lk (s\<lparr>vmmio := x4\<rparr>) = holding lk s"
  "intr_get (s\<lparr>vmmio := x4\<rparr>) = intr_get s" "mycpu (s\<lparr>vmmio := x4\<rparr>) = mycpu s"
  "lock_free lk (s\<lparr>vmmio_log := x5\<rparr>) = lock_free lk s" "cpu_ok (s\<lparr>vmmio_log := x5\<rparr>) = cpu_ok s" "holding lk (s\<lparr>vmmio_log := x5\<rparr>) = holding lk s"
  "intr_get (s\<lparr>vmmio_log := x5\<rparr>) = intr_get s" "mycpu (s\<lparr>vmmio_log := x5\<rparr>) = mycpu s"
  "lock_free lk (s\<lparr>disk_img := x6\<rparr>) = lock_free lk s" "cpu_ok (s\<lparr>disk_img := x6\<rparr>) = cpu_ok s" "holding lk (s\<lparr>disk_img := x6\<rparr>) = holding lk s"
  "intr_get (s\<lparr>disk_img := x6\<rparr>) = intr_get s" "mycpu (s\<lparr>disk_img := x6\<rparr>) = mycpu s"
  "lock_free lk (s\<lparr>log := x7\<rparr>) = lock_free lk s" "cpu_ok (s\<lparr>log := x7\<rparr>) = cpu_ok s" "holding lk (s\<lparr>log := x7\<rparr>) = holding lk s"
  "intr_get (s\<lparr>log := x7\<rparr>) = intr_get s" "mycpu (s\<lparr>log := x7\<rparr>) = mycpu s"
  "lock_free lk (s\<lparr>sb := x8\<rparr>) = lock_free lk s" "cpu_ok (s\<lparr>sb := x8\<rparr>) = cpu_ok s" "holding lk (s\<lparr>sb := x8\<rparr>) = holding lk s"
  "intr_get (s\<lparr>sb := x8\<rparr>) = intr_get s" "mycpu (s\<lparr>sb := x8\<rparr>) = mycpu s"
  "lock_free lk (s\<lparr>inodes := x9\<rparr>) = lock_free lk s" "cpu_ok (s\<lparr>inodes := x9\<rparr>) = cpu_ok s" "holding lk (s\<lparr>inodes := x9\<rparr>) = holding lk s"
  "intr_get (s\<lparr>inodes := x9\<rparr>) = intr_get s" "mycpu (s\<lparr>inodes := x9\<rparr>) = mycpu s"
  "lock_free lk (s\<lparr>files := x10\<rparr>) = lock_free lk s" "cpu_ok (s\<lparr>files := x10\<rparr>) = cpu_ok s" "holding lk (s\<lparr>files := x10\<rparr>) = holding lk s"
  "intr_get (s\<lparr>files := x10\<rparr>) = intr_get s" "mycpu (s\<lparr>files := x10\<rparr>) = mycpu s"
  "lock_free lk (s\<lparr>pipes := x11\<rparr>) = lock_free lk s" "cpu_ok (s\<lparr>pipes := x11\<rparr>) = cpu_ok s" "holding lk (s\<lparr>pipes := x11\<rparr>) = holding lk s"
  "intr_get (s\<lparr>pipes := x11\<rparr>) = intr_get s" "mycpu (s\<lparr>pipes := x11\<rparr>) = mycpu s"
  "lock_free lk (s\<lparr>first_forkret := x12\<rparr>) = lock_free lk s" "cpu_ok (s\<lparr>first_forkret := x12\<rparr>) = cpu_ok s" "holding lk (s\<lparr>first_forkret := x12\<rparr>) = holding lk s"
  "intr_get (s\<lparr>first_forkret := x12\<rparr>) = intr_get s" "mycpu (s\<lparr>first_forkret := x12\<rparr>) = mycpu s"
  by (simp_all add: lock_free_def cpu_ok_def holding_def cpu_defs)

lemma fs_upd_proc [simp]:
  "sleeplocks (upd_proc i g s) = sleeplocks s"
  "bufs (upd_proc i g s) = bufs s"
  "vdisk (upd_proc i g s) = vdisk s"
  "vd_seen (upd_proc i g s) = vd_seen s"
  "vmmio (upd_proc i g s) = vmmio s"
  "vmmio_log (upd_proc i g s) = vmmio_log s"
  "disk_img (upd_proc i g s) = disk_img s"
  "log (upd_proc i g s) = log s"
  "sb (upd_proc i g s) = sb s"
  "inodes (upd_proc i g s) = inodes s"
  "files (upd_proc i g s) = files s"
  "pipes (upd_proc i g s) = pipes s"
  "first_forkret (upd_proc i g s) = first_forkret s"
  by (simp_all add: upd_proc_def)

lemma fs_table_simps [lock_simps]:
  "upd_sl k fl (acquired lk s) = acquired lk (upd_sl k fl s)" "upd_sl k fl (tidy s) = tidy (upd_sl k fl s)"
  "upd_buf b fb (acquired lk s) = acquired lk (upd_buf b fb s)" "upd_buf b fb (tidy s) = tidy (upd_buf b fb s)"
  "upd_inode i f' (acquired lk s) = acquired lk (upd_inode i f' s)" "upd_inode i f' (tidy s) = tidy (upd_inode i f' s)"
  "upd_file j g' (acquired lk s) = acquired lk (upd_file j g' s)" "upd_file j g' (tidy s) = tidy (upd_file j g' s)"
  "upd_pipe a h' (acquired lk s) = acquired lk (upd_pipe a h' s)" "upd_pipe a h' (tidy s) = tidy (upd_pipe a h' s)"
  by (simp_all add: upd_sl_def upd_buf_def upd_inode_def upd_file_def upd_pipe_def lock_simps)

lemma fs_table_locks [lock_simps]:
  "lock_free lk (upd_sl k fl s) = lock_free lk s" "cpu_ok (upd_sl k fl s) = cpu_ok s" "mycpu (upd_sl k fl s) = mycpu s"
  "lock_free lk (upd_buf b fb s) = lock_free lk s" "cpu_ok (upd_buf b fb s) = cpu_ok s" "mycpu (upd_buf b fb s) = mycpu s"
  "lock_free lk (upd_inode i f' s) = lock_free lk s" "cpu_ok (upd_inode i f' s) = cpu_ok s" "mycpu (upd_inode i f' s) = mycpu s"
  "lock_free lk (upd_file j g' s) = lock_free lk s" "cpu_ok (upd_file j g' s) = cpu_ok s" "mycpu (upd_file j g' s) = mycpu s"
  "lock_free lk (upd_pipe a h' s) = lock_free lk s" "cpu_ok (upd_pipe a h' s) = cpu_ok s" "mycpu (upd_pipe a h' s) = mycpu s"
  by (simp_all add: upd_sl_def upd_buf_def upd_inode_def upd_file_def upd_pipe_def lock_simps)

lemma fs_table_sel [simp]:
  "sleeplocks (upd_sl k fl s) = (sleeplocks s)(k := fl (sleeplocks s k))" "bufs (upd_sl k fl s) = bufs s"
  "procs (upd_sl k fl s) = procs s" "bufs (upd_buf b fb s) = (bufs s)(b := fb (bufs s b))"
  "sleeplocks (upd_buf b fb s) = sleeplocks s" "procs (upd_buf b fb s) = procs s" "log (upd_buf b fb s) = log s"
  "vdisk (upd_buf b fb s) = vdisk s" "disk_img (upd_buf b fb s) = disk_img s"
  "inodes (upd_inode i f' s) = (inodes s)(i := f' (inodes s i))" "procs (upd_inode i f' s) = procs s"
  "files (upd_file j g' s) = (files s)(j := g' (files s j))" "procs (upd_file j g' s) = procs s"
  "pipes (upd_pipe a h' s) = (pipes s)(a := h' (pipes s a))" "procs (upd_pipe a h' s) = procs s"
  by (simp_all add: upd_sl_def upd_buf_def upd_inode_def upd_file_def upd_pipe_def)

section \<open>A concrete state\<close>

text \<open>The kernel of \<open>demo_console\<close> with nothing in its caches and an empty disk.\<close>

definition demo_fs :: "nat \<Rightarrow> (nat \<Rightarrow> proc) \<Rightarrow> fsst" where
  "demo_fs p ps = consst.extend (demo_console p ps)
     (fsst.fields (\<lambda>_. \<lparr>sl_locked = False, sl_name = [], sl_pid = 0\<rparr>)
       (\<lambda>_. \<lparr>b_valid = False, b_disk = False, b_dev = 0, b_blockno = 0, b_refcnt = 0, b_prev = 0, b_next = 0, b_data = (\<lambda>_. 0)\<rparr>)
       \<lparr>vd_desc = (\<lambda>_. \<lparr>d_addr = DA_null, d_len = 0, d_flags = 0, d_next = 0\<rparr>), vd_avail_idx = 0, vd_avail_ring = (\<lambda>_. 0),
        vd_used_dev_idx = 0, vd_used_ring = (\<lambda>_. 0), vd_free = (\<lambda>_. True), vd_used_idx = 0, vd_info_b = (\<lambda>_. None),
        vd_info_status = (\<lambda>_. 0), vd_ops = (\<lambda>_. \<lparr>req_type = 0, req_reserved = 0, req_sector = 0\<rparr>)\<rparr>
       0 (\<lambda>_. 0) [] (\<lambda>_. 0)
       \<lparr>lg_start = 2, lg_size = 30, lg_outstanding = 0, lg_committing = False, lg_dev = 1, lh_n = 0, lh_block = (\<lambda>_. 0)\<rparr>
       \<lparr>sb_magic = 0x10203040, sb_size = 1000, sb_nblocks = 954, sb_ninodes = 200, sb_nlog = 30, sb_logstart = 2,
        sb_inodestart = 32, sb_bmapstart = 45\<rparr>
       (\<lambda>_. \<lparr>i_dev = 0, i_inum = 0, i_ref = 0, i_valid = False, i_type = 0, i_major = 0, i_minor = 0, i_nlink = 0, i_size = 0,
            i_addrs = (\<lambda>_. 0)\<rparr>)
       (\<lambda>_. \<lparr>f_type = FD_NONE, f_ref = 0, f_readable = False, f_writable = False, f_pipe = 0, f_ip = None, f_off = 0, f_major = 0\<rparr>)
       (\<lambda>_. \<lparr>pi_data = (\<lambda>_. 0), pi_nread = 0, pi_nwrite = 0, pi_readopen = True, pi_writeopen = True\<rparr>) False)"

lemma demo_fs_simps [simp]:
  "procs (demo_fs p ps) = ps" "mem (demo_fs p ps) = (\<lambda>_. 0)" "lock_free lk (demo_fs p ps)"
  "cpu_ok (demo_fs p ps)" "c_proc (mycpu (demo_fs p ps)) = Some p" "c_noff (mycpu (demo_fs p ps)) = 0"
  "intr_get (demo_fs p ps)" "\<not> panicked (demo_fs p ps)"
  "sleeplocks (demo_fs p ps) = (\<lambda>_. \<lparr>sl_locked = False, sl_name = [], sl_pid = 0\<rparr>)"
  "bufs (demo_fs p ps) =
     (\<lambda>_. \<lparr>b_valid = False, b_disk = False, b_dev = 0, b_blockno = 0, b_refcnt = 0, b_prev = 0, b_next = 0, b_data = (\<lambda>_. 0)\<rparr>)"
  "log (demo_fs p ps) =
     \<lparr>lg_start = 2, lg_size = 30, lg_outstanding = 0, lg_committing = False, lg_dev = 1, lh_n = 0, lh_block = (\<lambda>_. 0)\<rparr>"
  "pipes (demo_fs p ps) = (\<lambda>_. \<lparr>pi_data = (\<lambda>_. 0), pi_nread = 0, pi_nwrite = 0, pi_readopen = True, pi_writeopen = True\<rparr>)"
  "vd_free (vdisk (demo_fs p ps)) = (\<lambda>_. True)" "vd_seen (demo_fs p ps) = 0" "vd_avail_idx (vdisk (demo_fs p ps)) = 0"
  "vd_used_idx (vdisk (demo_fs p ps)) = 0" "vd_used_dev_idx (vdisk (demo_fs p ps)) = 0" "disk_img (demo_fs p ps) = (\<lambda>_. 0)"
  "f_type (files (demo_fs p ps) i) = FD_NONE" "f_ref (files (demo_fs p ps) i) = 0" "i_ref (inodes (demo_fs p ps) i) = 0"
  by (simp_all add: demo_fs_def demo_console_def demo_kernel_def boot_kmem_def boot_machine_def vmst.defs kmem.defs machine.defs
      procst.defs consst.defs fsst.defs cpu_ok_def lock_free_def cpu_defs)

end
