(* ===== verification/Sleeplock.thy ===== *)
theory Sleeplock
  imports Fsstate
begin

text \<open>
  Sleep locks, \<^verbatim>\<open>kernel/sleeplock.c\<close>: a flag and its owner under a spinlock, taken by
  \<open>acquiresleep\<close>, which sleeps while the flag is set. They guard block buffers and inodes.
  They implement the contract of \<open>blocking_lock\<close>, so at most one process holds one.
\<close>

section \<open>Definitions\<close>

definition initsleeplock :: "sleeplock_id \<Rightarrow> string \<Rightarrow> 'a fsst_scheme \<Rightarrow> 'a fsst_scheme" where
  "initsleeplock k name s =
     upd_sl k (\<lambda>l. l\<lparr>sl_name := name, sl_locked := False, sl_pid := 0\<rparr>) (initlock (L_sleep k) ''sleep lock'' s)"

definition acquiresleep_run :: "sleeplock_id \<Rightarrow> nat \<times> bool \<Rightarrow> 'a fsst_scheme \<Rightarrow>
    ((unit, nat \<times> bool) seg \<times> 'a fsst_scheme) outcome" where
  "acquiresleep_run k l s =
     (if sl_locked (sleeplocks s k)
      then bindO (sleep_begin (Ch_sleeplock k) (L_sleep k) s) (\<lambda>(p, intena, s). Ok (Asleep (p, intena), s))
      else
        let s = upd_sl k (\<lambda>l. l\<lparr>sl_locked := True\<rparr>) s in
        bindO (curproc s) (\<lambda>(p, s).
        let s = upd_sl k (\<lambda>l. l\<lparr>sl_pid := p_pid (procs s p)\<rparr>) s in
        bindO (release (L_sleep k) s) (\<lambda>s. Ok (Return (), s))))"

definition acquiresleep_loop :: "sleeplock_id \<Rightarrow> nat \<times> bool \<Rightarrow> 'a fsst_scheme outcome \<Rightarrow>
    ('a fsst_scheme, unit \<times> 'a fsst_scheme) thread" where
  "acquiresleep_loop k = wait_loop (acquiresleep_run k) (\<lambda>(p, intena). sleep_end p (L_sleep k) intena)"

definition acquiresleep :: "sleeplock_id \<Rightarrow> 'a fsst_scheme \<Rightarrow> ('a fsst_scheme, unit \<times> 'a fsst_scheme) thread" where
  "acquiresleep k s = acquiresleep_loop k (0, False) (acquire (L_sleep k) s)"

definition releasesleep :: "sleeplock_id \<Rightarrow> 'a fsst_scheme \<Rightarrow> 'a fsst_scheme outcome" where
  "releasesleep k s =
     bindO (acquire (L_sleep k) s) (\<lambda>s.
     bindO (wakeup (Ch_sleeplock k) (upd_sl k (\<lambda>l. l\<lparr>sl_locked := False, sl_pid := 0\<rparr>) s)) (\<lambda>s.
     release (L_sleep k) s))"

definition holdingsleep :: "sleeplock_id \<Rightarrow> 'a fsst_scheme \<Rightarrow> (bool \<times> 'a fsst_scheme) outcome" where
  "holdingsleep k s =
     bindO (acquire (L_sleep k) s) (\<lambda>s.
     bindO (if sl_locked (sleeplocks s k)
            then bindO (curproc s) (\<lambda>(p, s). Ok (sl_pid (sleeplocks s k) = p_pid (procs s p), s))
            else Ok (False, s)) (\<lambda>(r, s).
     bindO (release (L_sleep k) s) (\<lambda>s. Ok (r, s))))"

section \<open>What the process layer leaves of the file system\<close>

lemma curproc_more: "curproc s = Ok (p, s') \<Longrightarrow> procst.more s' = procst.more s"
  by (auto simp: curproc_def bindO_eq_Ok dest: myproc_more split: option.splits)

lemma sched_out_more: "sched_out s = Ok (b, s') \<Longrightarrow> procst.more s' = procst.more s"
  by (auto simp: sched_out_def bindO_eq_Ok dest: curproc_more split: if_splits)

lemma upd_proc_more [simp]: "procst.more (upd_proc i f s) = procst.more s"
  by (simp add: upd_proc_def)

lemma sleep_begin_more: "sleep_begin ch lk s = Ok (p, b, s') \<Longrightarrow> procst.more s' = procst.more s"
  by (auto simp: sleep_begin_def bindO_eq_Ok dest!: curproc_more acquire_more release_more sched_out_more)

lemma sleep_end_more: "sleep_end p lk b s = Ok s' \<Longrightarrow> procst.more s' = procst.more s"
  by (auto simp: sleep_end_def sched_in_def set_mycpu_def bindO_eq_Ok dest!: acquire_more release_more)

lemma wakeup_more: "wakeup ch s = Ok s' \<Longrightarrow> procst.more s' = procst.more s"
  using wakeup_from_more by (simp add: wakeup_def)

lemmas more_rules = acquire_more release_more myproc_more curproc_more sched_out_more sleep_begin_more sleep_end_more wakeup_more

lemma fs_more:
  assumes "procst.more s = procst.more t"
  shows "sleeplocks s = sleeplocks t" and "bufs s = bufs t" and "vdisk s = vdisk t" and "vd_seen s = vd_seen t"
    and "disk_img s = disk_img t" and "log s = log t" and "sb s = sb t" and "inodes s = inodes t"
    and "files s = files t" and "pipes s = pipes t" and "first_forkret s = first_forkret t"
    and "vmmio s = vmmio t" and "vmmio_log s = vmmio_log t"
  using assms by (cases s, cases t, simp)+

lemmas sl_rules = more_rules [THEN fs_more(1)]

section \<open>Mutual exclusion\<close>

abbreviation sl_resume :: "sleeplock_id \<Rightarrow> nat \<times> bool \<Rightarrow> 'a fsst_scheme \<Rightarrow> ('a fsst_scheme, unit \<times> 'a fsst_scheme) thread" where
  "sl_resume k l \<equiv> (\<lambda>s. acquiresleep_loop k l ((\<lambda>(p, intena). sleep_end p (L_sleep k) intena) l s))"

lemma acquiresleep_loop_Ok:
  "acquiresleep_loop k l (Ok s) = (case acquiresleep_run k l s of
      Ok rs \<Rightarrow> (case fst rs of Return r \<Rightarrow> Done (Ok (r, snd rs)) | Asleep l' \<Rightarrow> Switch (snd rs) (sl_resume k l'))
    | Panic e \<Rightarrow> Done (Panic e) | Spin \<Rightarrow> Done Spin)"
  unfolding acquiresleep_loop_def by (subst wait_loop.code) (simp cong: outcome.case_cong seg.case_cong)

lemma acquiresleep_loop_stop [simp]:
  "acquiresleep_loop k l (Panic e) = Done (Panic e)" "acquiresleep_loop k l Spin = Done Spin"
  unfolding acquiresleep_loop_def by (simp_all add: wait_loop_stop)

lemma acquiresleep_loop_done:
  assumes "acquiresleep_loop k l m = Done (Ok ((), s'))" and "\<And>t. m = Ok t \<Longrightarrow> sleeplocks t = sl"
  shows "\<not> sl_locked (sl k) \<and> sl_locked (sleeplocks s' k)"
proof (cases m)
  case (Ok t)
  then show ?thesis
    using assms
    by (auto simp: acquiresleep_loop_Ok acquiresleep_run_def Let_def bindO_eq_Ok upd_sl_def
        dest!: sl_rules split: outcome.splits seg.splits if_splits)
qed (use assms in simp_all)

lemma acquiresleep_loop_wait:
  assumes "acquiresleep_loop k l m = Switch s' c" and "\<And>t. m = Ok t \<Longrightarrow> sleeplocks t = sl"
  shows "sl_locked (sleeplocks s' k) = sl_locked (sl k) \<and> (\<exists>l'. c = sl_resume k l')"
proof (cases m)
  case (Ok t)
  then show ?thesis
    using assms
    by (auto simp: acquiresleep_loop_Ok acquiresleep_run_def Let_def bindO_eq_Ok
        dest!: sl_rules split: outcome.splits seg.splits if_splits)
qed (use assms in simp_all)

definition same_sleeplock :: "sleeplock_id \<Rightarrow> 'a fsst_scheme \<Rightarrow> 'a fsst_scheme \<Rightarrow> bool" where
  "same_sleeplock k s s' \<longleftrightarrow> sleeplocks s' k = sleeplocks s k"

interpretation sleep_lock: blocking_lock "\<lambda>_. True" "\<lambda>s. sl_locked (sleeplocks s k)"
  "acquiresleep k" "releasesleep k" "\<lambda>c. \<exists>l. c = sl_resume k l" "same_sleeplock k" for k
proof unfold_locales
  fix s s' :: "'a fsst_scheme" and c c' :: "'a fsst_scheme \<Rightarrow> ('a fsst_scheme, unit \<times> 'a fsst_scheme) thread"
  have acq: "sleeplocks t = sleeplocks s" if "acquire (L_sleep k) s = Ok t" for t using that by (rule sl_rules)
  have wake: "sleeplocks t = sleeplocks s" if "(\<lambda>(p, intena). sleep_end p (L_sleep k) intena) l s = Ok t" for t l
    using that by (auto split: prod.splits dest: sl_rules)
  show "\<not> sl_locked (sleeplocks s k) \<and> sl_locked (sleeplocks s' k) \<and> True" if "acquiresleep k s = Done (Ok ((), s'))"
    using acquiresleep_loop_done [OF that [unfolded acquiresleep_def] acq] by simp
  show "sl_locked (sleeplocks s' k) = sl_locked (sleeplocks s k) \<and> True \<and> (\<exists>l. c = sl_resume k l)"
    if "acquiresleep k s = Switch s' c"
    using acquiresleep_loop_wait [OF that [unfolded acquiresleep_def] acq] by simp
  show "\<not> sl_locked (sleeplocks s k) \<and> sl_locked (sleeplocks s' k) \<and> True"
    if "\<exists>l. c = sl_resume k l" "c s = Done (Ok ((), s'))"
  proof -
    from that obtain l where "sl_resume k l s = Done (Ok ((), s'))" by auto
    from acquiresleep_loop_done [OF this wake] show ?thesis by simp
  qed
  show "sl_locked (sleeplocks s' k) = sl_locked (sleeplocks s k) \<and> True \<and> (\<exists>l. c' = sl_resume k l)"
    if "\<exists>l. c = sl_resume k l" "c s = Switch s' c'"
  proof -
    from that obtain l where "sl_resume k l s = Switch s' c'" by auto
    from acquiresleep_loop_wait [OF this wake] show ?thesis by simp
  qed
  show "\<not> sl_locked (sleeplocks s' k) \<and> True" if "releasesleep k s = Ok s'"
    using that by (auto simp: releasesleep_def bindO_eq_Ok upd_sl_def dest!: sl_rules)
  show "sl_locked (sleeplocks s' k) = sl_locked (sleeplocks s k) \<and> True" if "same_sleeplock k s s'"
    using that by (simp add: same_sleeplock_def)
qed

text \<open>
  C19: a sleep lock excludes. From a state in which it is free, in every interleaving of the
  processes that call \<open>acquiresleep\<close>, sleep and wake in it and call \<open>releasesleep\<close> when
  they hold it, and of anything else that leaves this lock alone, at most one process holds
  the lock, and then it is marked as held.
\<close>

theorem sleeplock_mutual_exclusion:
  assumes "mutex_reachable (acquiresleep k) (releasesleep k) (same_sleeplock k) (\<lambda>s. \<not> sl_locked (sleeplocks s k)) t"
    and "mpc t p = M_in" and "mpc t q = M_in"
  shows "p = q \<and> sl_locked (sleeplocks (mkst t) k)"
  using sleep_lock.exclusion [OF assms(1) _ assms(2,3)] by simp

section \<open>Uncontended use\<close>

lemma acquiresleep_free [lock_simps]:
  assumes "cpu_ok s" and "c_proc (mycpu s) = Some p" and "lock_free (L_sleep k) s" and "\<not> sl_locked (sleeplocks s k)"
  shows "acquiresleep k s = Done (Ok ((), tidy (upd_sl k (\<lambda>l. l\<lparr>sl_locked := True, sl_pid := p_pid (procs s p)\<rparr>) s)))"
proof -
  let ?t = "upd_sl k (\<lambda>l. l\<lparr>sl_locked := True, sl_pid := p_pid (procs s p)\<rparr>) s"
  have two: "upd_sl k (\<lambda>l. l\<lparr>sl_pid := x\<rparr>) (upd_sl k (\<lambda>l. l\<lparr>sl_locked := True\<rparr>) s) =
      upd_sl k (\<lambda>l. l\<lparr>sl_locked := True, sl_pid := x\<rparr>) s" for x
    by (simp add: upd_sl_def)
  have "release (L_sleep k) (acquired (L_sleep k) ?t) = Ok (tidy ?t)"
    using assms by (intro release_acquired) (simp_all add: lock_simps)
  then have "acquiresleep_run k (0, False) (acquired (L_sleep k) s) = Ok (Return (), tidy ?t)"
    using assms by (simp add: acquiresleep_run_def lock_simps Let_def two)
  then show ?thesis using assms(3) by (simp add: acquiresleep_def acquire_free acquiresleep_loop_Ok)
qed

lemma holdingsleep_eq [lock_simps]:
  assumes "cpu_ok s" and "c_proc (mycpu s) = Some p" and "lock_free (L_sleep k) s"
  shows "holdingsleep k s = Ok (sl_locked (sleeplocks s k) \<and> sl_pid (sleeplocks s k) = p_pid (procs s p), tidy s)"
  using assms by (auto simp: holdingsleep_def lock_simps)

lemma releasesleep_eq [lock_simps]:
  assumes "cpu_ok s" and "others_free s" and "lock_free (L_sleep k) s"
  shows "releasesleep k s = Ok (tidy ((upd_sl k (\<lambda>l. l\<lparr>sl_locked := False, sl_pid := 0\<rparr>) s)
     \<lparr>procs := woken (Ch_sleeplock k) (c_proc (mycpu s)) {..<NPROC} (procs s)\<rparr>))"
proof -
  let ?t = "upd_sl k (\<lambda>l. l\<lparr>sl_locked := False, sl_pid := 0\<rparr>) s"
  let ?u = "?t\<lparr>procs := woken (Ch_sleeplock k) (c_proc (mycpu s)) {..<NPROC} (procs s)\<rparr>"
  have "wakeup (Ch_sleeplock k) (acquired (L_sleep k) ?t) = Ok (acquired (L_sleep k) ?u)"
    using assms by (subst wakeup_eq) (auto simp: lock_simps)
  moreover have "release (L_sleep k) (acquired (L_sleep k) ?u) = Ok (tidy ?u)"
    using assms by (intro release_acquired) (simp_all add: lock_simps)
  ultimately show ?thesis using assms(3) by (simp add: releasesleep_def lock_simps)
qed

theorem sleeplock_mutual_exclusion_witness:
  "\<exists>t :: fsst mutex_sys. mpc t 4 = M_in \<and> {p. mpc t p = M_in} = {4} \<and> sl_locked (sleeplocks (mkst t) (Buf_lock 2))"
proof -
  let ?s = "demo_fs 1 (\<lambda>_. blank_proc)" and ?k = "Buf_lock 2"
  let ?s' = "tidy (upd_sl ?k (\<lambda>l. l\<lparr>sl_locked := True, sl_pid := p_pid (procs ?s 1)\<rparr>) ?s)"
  let ?t = "\<lparr>mkst = ?s', mpc = (\<lambda>_. M_out)(4 := M_in)\<rparr> :: fsst mutex_sys"
  have "acquiresleep ?k ?s = Done (Ok ((), ?s'))" by (rule acquiresleep_free) simp_all
  then have r: "mutex_reachable (acquiresleep ?k) (releasesleep ?k) (same_sleeplock ?k) (\<lambda>s. \<not> sl_locked (sleeplocks s ?k)) ?t"
    by (intro mutex_enter [of _ ?s]) simp_all
  have "mpc ?t 4 = M_in" by simp
  then have "{p. mpc ?t p = M_in} = {4} \<and> sl_locked (sleeplocks (mkst ?t) ?k)"
    using sleeplock_mutual_exclusion [OF r, of _ 4] by blast
  with \<open>mpc ?t 4 = M_in\<close> show ?thesis by blast
qed

end
