(* ===== verification/Virtio.thy ===== *)
theory Virtio
  imports Sleeplock
begin

text \<open>
  The driver of the virtio disk, \<^verbatim>\<open>kernel/virtio_disk.c\<close>: initialisation, descriptor
  allocation, \<open>virtio_disk_rw\<close> as a thread that sleeps for descriptors and for the
  completion of its request, and the interrupt handler. The disk itself is not code of the
  kernel: it is a function \<open>dev\<close> on the state, and \<open>virtio_blk_device dev\<close> says what the
  driver relies on, that the disk takes the request at the next entry of the ring of
  available requests and serves it as the virtio specification says.
\<close>

section \<open>Definitions\<close>

definition NUM :: nat where [simp]: "NUM = 8"
definition VRING_DESC_F_NEXT :: uint16 where [simp]: "VRING_DESC_F_NEXT = 1"
definition VRING_DESC_F_WRITE :: uint16 where [simp]: "VRING_DESC_F_WRITE = 2"
definition VIRTIO_BLK_T_IN :: uint32 where [simp]: "VIRTIO_BLK_T_IN = 0"
definition VIRTIO_BLK_T_OUT :: uint32 where [simp]: "VIRTIO_BLK_T_OUT = 1"
definition BSIZE :: nat where [simp]: "BSIZE = 1024"

text \<open>Registers of the device, by their offset; writes are recorded in order.\<close>

definition vmmio_write :: "nat \<Rightarrow> uint32 \<Rightarrow> 'a fsst_scheme \<Rightarrow> 'a fsst_scheme" where
  "vmmio_write r v s = s\<lparr>vmmio_log := vmmio_log s @ [(r, v)]\<rparr>"

definition upd_vd :: "(vdisk \<Rightarrow> vdisk) \<Rightarrow> 'a fsst_scheme \<Rightarrow> 'a fsst_scheme" where
  "upd_vd f s = s\<lparr>vdisk := f (vdisk s)\<rparr>"

definition blank_desc :: virtq_desc where
  "blank_desc = \<lparr>d_addr = DA_null, d_len = 0, d_flags = 0, d_next = 0\<rparr>"

text \<open>The feature bits the driver turns off: RO, SCSI, CONFIG\_WCE, MQ, ANY\_LAYOUT, EVENT\_IDX, INDIRECT\_DESC.\<close>

definition driver_features :: "uint32 \<Rightarrow> uint32" where
  "driver_features w =
     ucast (fold (\<lambda>k f. f AND NOT (push_bit k 1)) [5, 7, 11, 12, 27, 29, 28] (ucast w :: uint64))"

definition virtio_disk_init :: "uint64 \<Rightarrow> 'a fsst_scheme \<Rightarrow> 'a fsst_scheme outcome" where
  "virtio_disk_init pages s =
     (let s = initlock L_vdisk ''virtio_disk'' s in
      if vmmio s 0x000 \<noteq> 0x74726976 \<or> vmmio s 0x004 \<noteq> 1 \<or> vmmio s 0x008 \<noteq> 2 \<or> vmmio s 0x00c \<noteq> 0x554d4551
      then Panic ''could not find virtio disk''
      else
        let s = vmmio_write 0x070 1 s;
            s = vmmio_write 0x070 (1 OR 2) s;
            s = vmmio_write 0x020 (driver_features (vmmio s 0x010)) s;
            s = vmmio_write 0x070 (1 OR 2 OR 8) s;
            s = vmmio_write 0x070 (1 OR 2 OR 8 OR 4) s;
            s = vmmio_write 0x028 (ucast PGSIZE) s;
            s = vmmio_write 0x030 0 s;
            max = vmmio s 0x034 in
        if max = 0 then Panic ''virtio disk has no queue 0''
        else if max < of_nat NUM then Panic ''virtio disk max queue too short''
        else
          let s = vmmio_write 0x038 (of_nat NUM) s;
              s = upd_vd (\<lambda>d. d\<lparr>vd_desc := (\<lambda>_. blank_desc), vd_avail_idx := 0, vd_avail_ring := (\<lambda>_. 0),
                    vd_used_dev_idx := 0, vd_used_ring := (\<lambda>_. 0)\<rparr>) s;
              s = vmmio_write 0x040 (ucast (drop_bit 12 pages)) s in
          Ok (upd_vd (\<lambda>d. d\<lparr>vd_free := (\<lambda>i. if i < NUM then True else vd_free d i)\<rparr>) s))"

primrec alloc_desc_from :: "nat list \<Rightarrow> 'a fsst_scheme \<Rightarrow> nat option \<times> 'a fsst_scheme" where
  "alloc_desc_from [] s = (None, s)"
| "alloc_desc_from (i # is) s =
     (if vd_free (vdisk s) i then (Some i, upd_vd (\<lambda>d. d\<lparr>vd_free := (vd_free d)(i := False)\<rparr>) s)
      else alloc_desc_from is s)"

text \<open>\<open>None\<close> is the code's \<^verbatim>\<open>-1\<close>.\<close>

definition alloc_desc :: "'a fsst_scheme \<Rightarrow> nat option \<times> 'a fsst_scheme" where
  "alloc_desc s = alloc_desc_from [0..<NUM] s"

definition free_desc :: "nat \<Rightarrow> 'a fsst_scheme \<Rightarrow> 'a fsst_scheme outcome" where
  "free_desc i s =
     (if i \<ge> NUM then Panic ''free_desc 1''
      else if vd_free (vdisk s) i then Panic ''free_desc 2''
      else
        let s = upd_vd (\<lambda>d. d\<lparr>vd_desc := (vd_desc d)(i := blank_desc)\<rparr>) s;
            s = upd_vd (\<lambda>d. d\<lparr>vd_free := (vd_free d)(i := True)\<rparr>) s in
        wakeup Ch_disk_free s)"

definition desc_busy :: "'a fsst_scheme \<Rightarrow> nat" where
  "desc_busy s = card {i. i < NUM \<and> \<not> vd_free (vdisk s) i}"

lemma free_desc_busy:
  assumes "free_desc i s = Ok s'"
  shows "desc_busy s' < desc_busy s"
proof -
  from assms have i: "i < 8" "\<not> vd_free (vdisk s) i" and "vd_free (vdisk s') = (vd_free (vdisk s))(i := True)"
    by (auto simp: free_desc_def Let_def upd_vd_def outcome_simps dest!: wakeup_more [THEN fs_more(3)] split: if_splits)
  then have "{i. i < NUM \<and> \<not> vd_free (vdisk s') i} \<subset> {i. i < NUM \<and> \<not> vd_free (vdisk s) i}" by auto
  then show ?thesis unfolding desc_busy_def by (rule psubset_card_mono [rotated]) simp
qed

function free_chain :: "nat \<Rightarrow> 'a fsst_scheme \<Rightarrow> 'a fsst_scheme outcome" where
  "free_chain i s =
     (let flag = d_flags (vd_desc (vdisk s) i);
          nxt = d_next (vd_desc (vdisk s) i) in
      bindO (free_desc i s) (\<lambda>s.
      if flag AND VRING_DESC_F_NEXT \<noteq> 0 then free_chain (unat nxt) s else Ok s))"
  by pat_completeness auto
termination by (relation "measure (\<lambda>(i, s). desc_busy s)") (auto intro: free_desc_busy)

declare free_chain.simps [simp del]

primrec free_descs :: "nat list \<Rightarrow> 'a fsst_scheme \<Rightarrow> 'a fsst_scheme outcome" where
  "free_descs [] s = Ok s"
| "free_descs (i # is) s = bindO (free_desc i s) (free_descs is)"

primrec alloc3_from :: "nat \<Rightarrow> nat list \<Rightarrow> 'a fsst_scheme \<Rightarrow> (nat list option \<times> 'a fsst_scheme) outcome" where
  "alloc3_from 0 idx s = Ok (Some idx, s)"
| "alloc3_from (Suc n) idx s =
     (case alloc_desc s of
        (None, s) \<Rightarrow> bindO (free_descs idx s) (\<lambda>s. Ok (None, s))
      | (Some i, s) \<Rightarrow> alloc3_from n (idx @ [i]) s)"

definition alloc3_desc :: "'a fsst_scheme \<Rightarrow> (nat list option \<times> 'a fsst_scheme) outcome" where
  "alloc3_desc s = alloc3_from 3 [] s"

definition rw_alloc_run :: "nat \<times> bool \<Rightarrow> 'a fsst_scheme \<Rightarrow> ((nat list, nat \<times> bool) seg \<times> 'a fsst_scheme) outcome" where
  "rw_alloc_run l s =
     bindO (alloc3_desc s) (\<lambda>(r, s).
     case r of
       Some idx \<Rightarrow> Ok (Return idx, s)
     | None \<Rightarrow> bindO (sleep_begin Ch_disk_free L_vdisk s) (\<lambda>(p, intena, s). Ok (Asleep (p, intena), s)))"

definition set_desc :: "nat \<Rightarrow> virtq_desc \<Rightarrow> 'a fsst_scheme \<Rightarrow> 'a fsst_scheme" where
  "set_desc i x s = upd_vd (\<lambda>d. d\<lparr>vd_desc := (vd_desc d)(i := x)\<rparr>) s"

definition rw_submit :: "nat \<Rightarrow> bool \<Rightarrow> uint64 \<Rightarrow> nat list \<Rightarrow> 'a fsst_scheme \<Rightarrow> 'a fsst_scheme" where
  "rw_submit b write sector idx s =
     (let i0 = idx ! 0; i1 = idx ! 1; i2 = idx ! 2;
          s = upd_vd (\<lambda>d. d\<lparr>vd_ops := (vd_ops d)(i0 :=
                \<lparr>req_type = (if write then VIRTIO_BLK_T_OUT else VIRTIO_BLK_T_IN), req_reserved = 0, req_sector = sector\<rparr>)\<rparr>) s;
          s = set_desc i0 \<lparr>d_addr = DA_op i0, d_len = 16, d_flags = VRING_DESC_F_NEXT, d_next = of_nat i1\<rparr> s;
          s = set_desc i1 \<lparr>d_addr = DA_data b, d_len = of_nat BSIZE,
                d_flags = (if write then 0 else VRING_DESC_F_WRITE) OR VRING_DESC_F_NEXT, d_next = of_nat i2\<rparr> s;
          s = upd_vd (\<lambda>d. d\<lparr>vd_info_status := (vd_info_status d)(i0 := 0xff)\<rparr>) s;
          s = set_desc i2 \<lparr>d_addr = DA_status i0, d_len = 1, d_flags = VRING_DESC_F_WRITE, d_next = 0\<rparr> s;
          s = upd_buf b (\<lambda>x. x\<lparr>b_disk := True\<rparr>) s;
          s = upd_vd (\<lambda>d. d\<lparr>vd_info_b := (vd_info_b d)(i0 := Some b)\<rparr>) s;
          s = upd_vd (\<lambda>d. d\<lparr>vd_avail_ring := (vd_avail_ring d)(unat (vd_avail_idx d) mod NUM := of_nat i0)\<rparr>) s;
          s = upd_vd (\<lambda>d. d\<lparr>vd_avail_idx := vd_avail_idx d + 1\<rparr>) s in
      vmmio_write 0x050 0 s)"

definition rw_wait_run :: "nat \<Rightarrow> nat \<times> bool \<Rightarrow> 'a fsst_scheme \<Rightarrow> ((unit, nat \<times> bool) seg \<times> 'a fsst_scheme) outcome" where
  "rw_wait_run b l s =
     (if b_disk (bufs s b)
      then bindO (sleep_begin (Ch_buf b) L_vdisk s) (\<lambda>(p, intena, s). Ok (Asleep (p, intena), s))
      else Ok (Return (), s))"

definition rw_finish :: "nat \<Rightarrow> 'a fsst_scheme \<Rightarrow> 'a fsst_scheme outcome" where
  "rw_finish i0 s =
     bindO (free_chain i0 (upd_vd (\<lambda>d. d\<lparr>vd_info_b := (vd_info_b d)(i0 := None)\<rparr>) s)) (release L_vdisk)"

abbreviation vdisk_wake :: "nat \<times> bool \<Rightarrow> 'a fsst_scheme \<Rightarrow> 'a fsst_scheme outcome" where
  "vdisk_wake \<equiv> (\<lambda>(p, intena). sleep_end p L_vdisk intena)"

definition virtio_disk_rw :: "nat \<Rightarrow> bool \<Rightarrow> 'a fsst_scheme \<Rightarrow> ('a fsst_scheme, unit \<times> 'a fsst_scheme) thread" where
  "virtio_disk_rw b write s =
     (let sector = ucast (b_blockno (bufs s b) * of_nat (BSIZE div 512)) in
      bindT (wait_loop rw_alloc_run vdisk_wake (0, False) (acquire L_vdisk s)) (\<lambda>(idx, s).
      bindT (wait_loop (rw_wait_run b) vdisk_wake (0, False) (Ok (rw_submit b write sector idx s))) (\<lambda>(_, s).
      bindT (Done (rw_finish (idx ! 0) s)) (\<lambda>s. Done (Ok ((), s))))))"

text \<open>One pass of the interrupt handler's loop; a request without a buffer is a null dereference.\<close>

definition virtio_intr_one :: "'a fsst_scheme \<Rightarrow> 'a fsst_scheme outcome" where
  "virtio_intr_one s =
     (let id = unat (vd_used_ring (vdisk s) (unat (vd_used_idx (vdisk s)) mod NUM)) in
      if vd_info_status (vdisk s) id \<noteq> 0 then Panic ''virtio_disk_intr status''
      else case vd_info_b (vdisk s) id of
        None \<Rightarrow> Panic ''kerneltrap''
      | Some b \<Rightarrow>
          bindO (wakeup (Ch_buf b) (upd_buf b (\<lambda>x. x\<lparr>b_disk := False\<rparr>) s)) (\<lambda>s.
          Ok (upd_vd (\<lambda>d. d\<lparr>vd_used_idx := vd_used_idx d + 1\<rparr>) s)))"

lemma virtio_intr_one_idx:
  assumes "virtio_intr_one s = Ok s'"
  shows "vd_used_dev_idx (vdisk s') = vd_used_dev_idx (vdisk s) \<and> vd_used_idx (vdisk s') = vd_used_idx (vdisk s) + 1"
  using assms
  by (auto simp: virtio_intr_one_def Let_def upd_vd_def outcome_simps dest!: wakeup_more [THEN fs_more(3)]
      split: if_splits option.splits)

function virtio_intr_loop :: "'a fsst_scheme \<Rightarrow> 'a fsst_scheme outcome" where
  "virtio_intr_loop s =
     (if vd_used_idx (vdisk s) \<noteq> vd_used_dev_idx (vdisk s)
      then bindO (virtio_intr_one s) virtio_intr_loop else Ok s)"
  by pat_completeness auto
termination
proof (relation "measure (\<lambda>s. unat (vd_used_dev_idx (vdisk s) - vd_used_idx (vdisk s)))", goal_cases)
  case (2 s s')
  from unat_minus_step [of "vd_used_idx (vdisk s)" "vd_used_dev_idx (vdisk s)"] 2 show ?case
    by (auto simp: virtio_intr_one_idx algebra_simps)
qed simp

declare virtio_intr_loop.simps [simp del]

definition virtio_disk_intr :: "'a fsst_scheme \<Rightarrow> 'a fsst_scheme outcome" where
  "virtio_disk_intr s =
     bindO (acquire L_vdisk s) (\<lambda>s.
     bindO (virtio_intr_loop (vmmio_write 0x064 (vmmio s 0x060 AND 3) s)) (release L_vdisk))"

end
