(* ===== verification/Bio.thy ===== *)
theory Bio
  imports Virtio
begin

text \<open>
  The buffer cache, \<^verbatim>\<open>kernel/bio.c\<close>: a table of buffers on a doubly linked list in the
  order of their last use. Buffer \<open>NBUF\<close> is the head of the list. A scan that has followed
  more links than there are buffers has come back to a buffer it has seen, and never ends.
\<close>

section \<open>Definitions\<close>

definition NBUF :: nat where [simp]: "NBUF = 30"

abbreviation bhead :: nat where "bhead \<equiv> NBUF"

primrec binit_from :: "nat list \<Rightarrow> 'a fsst_scheme \<Rightarrow> 'a fsst_scheme" where
  "binit_from [] s = s"
| "binit_from (b # bs) s =
     (let s = upd_buf b (\<lambda>x. x\<lparr>b_next := b_next (bufs s bhead)\<rparr>) s;
          s = upd_buf b (\<lambda>x. x\<lparr>b_prev := bhead\<rparr>) s;
          s = initsleeplock (Buf_lock b) ''buffer'' s;
          s = upd_buf (b_next (bufs s bhead)) (\<lambda>x. x\<lparr>b_prev := b\<rparr>) s;
          s = upd_buf bhead (\<lambda>x. x\<lparr>b_next := b\<rparr>) s in
      binit_from bs s)"

definition binit :: "'a fsst_scheme \<Rightarrow> 'a fsst_scheme" where
  "binit s =
     (let s = initlock L_bcache ''bcache'' s;
          s = upd_buf bhead (\<lambda>x. x\<lparr>b_prev := bhead\<rparr>) s;
          s = upd_buf bhead (\<lambda>x. x\<lparr>b_next := bhead\<rparr>) s in
      binit_from [0..<NBUF] s)"

fun bscan :: "(buf \<Rightarrow> nat) \<Rightarrow> (buf \<Rightarrow> bool) \<Rightarrow> nat \<Rightarrow> nat \<Rightarrow> 'a fsst_scheme \<Rightarrow> nat option outcome" where
  "bscan link test n b s =
     (if b = bhead then Ok None
      else if test (bufs s b) then Ok (Some b)
      else case n of 0 \<Rightarrow> Spin | Suc n \<Rightarrow> bscan link test n (link (bufs s b)) s)"

declare bscan.simps [simp del]

text \<open>The part of \<open>bget\<close> under the lock of the cache.\<close>

definition bget_ref :: "uint32 \<Rightarrow> uint32 \<Rightarrow> 'a fsst_scheme \<Rightarrow> (nat \<times> 'a fsst_scheme) outcome" where
  "bget_ref dev blockno s =
     bindO (acquire L_bcache s) (\<lambda>s.
     bindO (bscan b_next (\<lambda>x. b_dev x = dev \<and> b_blockno x = blockno) NBUF (b_next (bufs s bhead)) s) (\<lambda>r.
     case r of
       Some b \<Rightarrow> bindO (release L_bcache (upd_buf b (\<lambda>x. x\<lparr>b_refcnt := b_refcnt x + 1\<rparr>) s)) (\<lambda>s. Ok (b, s))
     | None \<Rightarrow>
         bindO (bscan b_prev (\<lambda>x. b_refcnt x = 0) NBUF (b_prev (bufs s bhead)) s) (\<lambda>r.
         case r of
           Some b \<Rightarrow>
             bindO (release L_bcache
               (upd_buf b (\<lambda>x. x\<lparr>b_dev := dev, b_blockno := blockno, b_valid := False, b_refcnt := 1\<rparr>) s)) (\<lambda>s.
             Ok (b, s))
         | None \<Rightarrow> Panic ''bget: no buffers'')))"

definition bget :: "uint32 \<Rightarrow> uint32 \<Rightarrow> 'a fsst_scheme \<Rightarrow> ('a fsst_scheme, nat \<times> 'a fsst_scheme) thread" where
  "bget dev blockno s =
     bindT (Done (bget_ref dev blockno s)) (\<lambda>(b, s).
     bindT (acquiresleep (Buf_lock b) s) (\<lambda>(_, s). Done (Ok (b, s))))"

definition bread :: "uint32 \<Rightarrow> uint32 \<Rightarrow> 'a fsst_scheme \<Rightarrow> ('a fsst_scheme, nat \<times> 'a fsst_scheme) thread" where
  "bread dev blockno s =
     bindT (bget dev blockno s) (\<lambda>(b, s).
     if \<not> b_valid (bufs s b)
     then bindT (virtio_disk_rw b False s) (\<lambda>(_, s). Done (Ok (b, upd_buf b (\<lambda>x. x\<lparr>b_valid := True\<rparr>) s)))
     else Done (Ok (b, s)))"

definition bwrite :: "nat \<Rightarrow> 'a fsst_scheme \<Rightarrow> ('a fsst_scheme, unit \<times> 'a fsst_scheme) thread" where
  "bwrite b s =
     bindT (Done (holdingsleep (Buf_lock b) s)) (\<lambda>(h, s).
     if \<not> h then Done (Panic ''bwrite'') else virtio_disk_rw b True s)"

text \<open>Taking a buffer out of its place and putting it at the front of the list.\<close>

definition bmove_front :: "nat \<Rightarrow> 'a fsst_scheme \<Rightarrow> 'a fsst_scheme" where
  "bmove_front b s =
     (let s = upd_buf (b_next (bufs s b)) (\<lambda>x. x\<lparr>b_prev := b_prev (bufs s b)\<rparr>) s;
          s = upd_buf (b_prev (bufs s b)) (\<lambda>x. x\<lparr>b_next := b_next (bufs s b)\<rparr>) s;
          s = upd_buf b (\<lambda>x. x\<lparr>b_next := b_next (bufs s bhead)\<rparr>) s;
          s = upd_buf b (\<lambda>x. x\<lparr>b_prev := bhead\<rparr>) s;
          s = upd_buf (b_next (bufs s bhead)) (\<lambda>x. x\<lparr>b_prev := b\<rparr>) s in
      upd_buf bhead (\<lambda>x. x\<lparr>b_next := b\<rparr>) s)"

definition brelse :: "nat \<Rightarrow> 'a fsst_scheme \<Rightarrow> 'a fsst_scheme outcome" where
  "brelse b s =
     bindO (holdingsleep (Buf_lock b) s) (\<lambda>(h, s).
     if \<not> h then Panic ''brelse''
     else
       bindO (releasesleep (Buf_lock b) s) (\<lambda>s.
       bindO (acquire L_bcache s) (\<lambda>s.
       let s = upd_buf b (\<lambda>x. x\<lparr>b_refcnt := b_refcnt x - 1\<rparr>) s;
           s = (if b_refcnt (bufs s b) = 0 then bmove_front b s else s) in
       release L_bcache s)))"

definition bpin :: "nat \<Rightarrow> 'a fsst_scheme \<Rightarrow> 'a fsst_scheme outcome" where
  "bpin b s =
     bindO (acquire L_bcache s) (\<lambda>s. release L_bcache (upd_buf b (\<lambda>x. x\<lparr>b_refcnt := b_refcnt x + 1\<rparr>) s))"

definition bunpin :: "nat \<Rightarrow> 'a fsst_scheme \<Rightarrow> 'a fsst_scheme outcome" where
  "bunpin b s =
     bindO (acquire L_bcache s) (\<lambda>s. release L_bcache (upd_buf b (\<lambda>x. x\<lparr>b_refcnt := b_refcnt x - 1\<rparr>) s))"

section \<open>Integers in a block\<close>

text \<open>The little-endian fields of the structures that the file system keeps in blocks.\<close>

definition get32 :: "chars \<Rightarrow> nat \<Rightarrow> uint32" where
  "get32 d off = le_dec (map d [off..<off + 4])"

definition get16 :: "chars \<Rightarrow> nat \<Rightarrow> uint16" where
  "get16 d off = le_dec (map d [off..<off + 2])"

definition put_bytes :: "nat \<Rightarrow> uint8 list \<Rightarrow> chars \<Rightarrow> chars" where
  "put_bytes off bs d = (\<lambda>i. if off \<le> i \<and> i < off + length bs then bs ! (i - off) else d i)"

definition put32 :: "nat \<Rightarrow> uint32 \<Rightarrow> chars \<Rightarrow> chars" where
  "put32 off v = put_bytes off (le_enc 4 v)"

definition put16 :: "nat \<Rightarrow> uint16 \<Rightarrow> chars \<Rightarrow> chars" where
  "put16 off v = put_bytes off (le_enc 2 v)"

definition set_data :: "nat \<Rightarrow> (chars \<Rightarrow> chars) \<Rightarrow> 'a fsst_scheme \<Rightarrow> 'a fsst_scheme" where
  "set_data b f s = upd_buf b (\<lambda>x. x\<lparr>b_data := f (b_data x)\<rparr>) s"

lemma map_put_bytes_same: "map (put_bytes off bs d) [off..<off + length bs] = bs"
  by (rule nth_equalityI) (auto simp: put_bytes_def)

lemma map_put_bytes_other:
  assumes "pos + n \<le> off \<or> off + length bs \<le> pos"
  shows "map (put_bytes off bs d) [pos..<pos + n] = map d [pos..<pos + n]"
  using assms by (auto simp: put_bytes_def)

lemma get_put_same [simp]: "get32 (put32 off v d) off = v" "get16 (put16 off w d) off = w"
  using map_put_bytes_same [of off "le_enc 4 v" d] map_put_bytes_same [of off "le_enc 2 w" d]
  by (simp_all add: get32_def put32_def get16_def put16_def)

lemma get_put_other:
  "pos + 4 \<le> off \<or> off + 4 \<le> pos \<Longrightarrow> get32 (put32 off v d) pos = get32 d pos"
  "pos + 4 \<le> off \<or> off + 2 \<le> pos \<Longrightarrow> get32 (put16 off w d) pos = get32 d pos"
  "pos + 2 \<le> off \<or> off + 4 \<le> pos \<Longrightarrow> get16 (put32 off v d) pos = get16 d pos"
  "pos + 2 \<le> off \<or> off + 2 \<le> pos \<Longrightarrow> get16 (put16 off w d) pos = get16 d pos"
  unfolding get32_def put32_def get16_def put16_def by (subst map_put_bytes_other, simp, simp)+

lemma put_apply_other:
  "j < off \<or> off + 4 \<le> j \<Longrightarrow> put32 off v d j = d j" "j < off \<or> off + 2 \<le> j \<Longrightarrow> put16 off w d j = d j"
  by (auto simp: put32_def put16_def put_bytes_def)

text \<open>An array of integers in a block.\<close>

abbreviation put_array :: "nat \<Rightarrow> (nat \<Rightarrow> uint32) \<Rightarrow> nat \<Rightarrow> chars \<Rightarrow> chars" where
  "put_array base f n \<equiv> fold (\<lambda>i. put32 (base + 4 * i) (f i)) [0..<n]"

lemma put_array_other: "j < base \<or> base + 4 * n \<le> j \<Longrightarrow> put_array base f n d j = d j"
  by (induction n) (auto simp: put_apply_other)

lemma get_put_array: "i < n \<Longrightarrow> get32 (put_array base f n d) (base + 4 * i) = f i"
proof (induction n)
  case (Suc n)
  then show ?case by (cases "i = n") (auto simp: get_put_other)
qed simp

lemma get_put_array_other:
  "pos + 4 \<le> base \<or> base + 4 * n \<le> pos \<Longrightarrow> get32 (put_array base f n d) pos = get32 d pos"
  "pos + 2 \<le> base \<or> base + 4 * n \<le> pos \<Longrightarrow> get16 (put_array base f n d) pos = get16 d pos"
  by (induction n) (auto simp: get_put_other)

end
