(* ===== verification/Log.thy ===== *)
theory Log
  imports Bio
begin

text \<open>
  The write-ahead log, \<^verbatim>\<open>kernel/log.c\<close>: system calls bracket their updates with
  \<open>begin_op\<close> and \<open>end_op\<close>; \<open>log_write\<close> records a block; the last \<open>end_op\<close> commits. Every
  block that a commit reads or writes may make it sleep, so the operations are threads. The
  C type of \<^verbatim>\<open>n\<close> is \<^verbatim>\<open>int\<close>: it is kept as a word and compared as a signed number.
\<close>

section \<open>Definitions\<close>

definition MAXOPBLOCKS :: int where [simp]: "MAXOPBLOCKS = 10"
definition LOGSIZE :: int where [simp]: "LOGSIZE = 30"

definition upd_log :: "(logst \<Rightarrow> logst) \<Rightarrow> 'a fsst_scheme \<Rightarrow> 'a fsst_scheme" where
  "upd_log f s = s\<lparr>log := f (log s)\<rparr>"

abbreviation log_n :: "'a fsst_scheme \<Rightarrow> int" where
  "log_n s \<equiv> sint (lh_n (log s))"

text \<open>\<^verbatim>\<open>memmove\<close> of a whole block from one buffer to another.\<close>

definition copy_block :: "nat \<Rightarrow> nat \<Rightarrow> 'a fsst_scheme \<Rightarrow> 'a fsst_scheme" where
  "copy_block dst src s = set_data dst (\<lambda>d i. if i < BSIZE then b_data (bufs s src) i else d i) s"

definition install_one :: "bool \<Rightarrow> nat \<Rightarrow> 'a fsst_scheme \<Rightarrow> ('a fsst_scheme, 'a fsst_scheme) thread" where
  "install_one recovering tail s =
     bindT (bread (lg_dev (log s)) (lg_start (log s) + of_nat tail + 1) s) (\<lambda>(lbuf, s).
     bindT (bread (lg_dev (log s)) (lh_block (log s) tail) s) (\<lambda>(dbuf, s).
     bindT (bwrite dbuf (copy_block dbuf lbuf s)) (\<lambda>(_, s).
     bindT (Done (if recovering then Ok s else bunpin dbuf s)) (\<lambda>s.
     bindT (Done (brelse lbuf s)) (\<lambda>s.
     Done (brelse dbuf s))))))"

function install_from :: "bool \<Rightarrow> nat \<Rightarrow> 'a fsst_scheme \<Rightarrow> ('a fsst_scheme, 'a fsst_scheme) thread" where
  "install_from recovering tail s =
     (if int tail < log_n s
      then bindT (install_one recovering tail s) (install_from recovering (Suc tail))
      else Done (Ok s))"
  by pat_completeness auto
termination
proof (relation "measure (\<lambda>(r, tail, s). 2 ^ 31 - tail)", goal_cases)
  case (2 recovering tail s s')
  have "log_n s < 2 ^ 31" using sint_less [of "lh_n (log s)"] by simp
  with 2 show ?case by simp
qed simp

definition install_trans :: "bool \<Rightarrow> 'a fsst_scheme \<Rightarrow> ('a fsst_scheme, 'a fsst_scheme) thread" where
  "install_trans recovering s = install_from recovering 0 s"

definition read_head :: "'a fsst_scheme \<Rightarrow> ('a fsst_scheme, 'a fsst_scheme) thread" where
  "read_head s =
     bindT (bread (lg_dev (log s)) (lg_start (log s)) s) (\<lambda>(buf, s).
     let d = b_data (bufs s buf);
         s = upd_log (\<lambda>l. l\<lparr>lh_n := get32 d 0\<rparr>) s;
         s = upd_log (\<lambda>l. l\<lparr>lh_block := (\<lambda>i. if int i < log_n s then get32 d (4 + 4 * i) else lh_block l i)\<rparr>) s in
     Done (brelse buf s))"

definition write_head :: "'a fsst_scheme \<Rightarrow> ('a fsst_scheme, 'a fsst_scheme) thread" where
  "write_head s =
     bindT (bread (lg_dev (log s)) (lg_start (log s)) s) (\<lambda>(buf, s).
     let s = set_data buf (put32 0 (lh_n (log s))) s;
         s = set_data buf (fold (\<lambda>i. put32 (4 + 4 * i) (lh_block (log s) i)) [0..<nat (log_n s)]) s in
     bindT (bwrite buf s) (\<lambda>(_, s). Done (brelse buf s)))"

definition recover_from_log :: "'a fsst_scheme \<Rightarrow> ('a fsst_scheme, 'a fsst_scheme) thread" where
  "recover_from_log s =
     bindT (read_head s) (\<lambda>s.
     bindT (install_trans True s) (\<lambda>s.
     write_head (upd_log (\<lambda>l. l\<lparr>lh_n := 0\<rparr>) s)))"

text \<open>The test on the size of \<^verbatim>\<open>struct logheader\<close>, 124 bytes, is a constant.\<close>

definition initlog :: "uint32 \<Rightarrow> superblock \<Rightarrow> 'a fsst_scheme \<Rightarrow> ('a fsst_scheme, 'a fsst_scheme) thread" where
  "initlog dev sblk s =
     (if 4 + 4 * LOGSIZE \<ge> int BSIZE then Done (Panic ''initlog: too big logheader'')
      else recover_from_log (upd_log (\<lambda>l. l\<lparr>lg_start := sb_logstart sblk, lg_size := sb_nlog sblk, lg_dev := dev\<rparr>)
        (initlock L_log ''log'' s)))"

definition begin_op_run :: "nat \<times> bool \<Rightarrow> 'a fsst_scheme \<Rightarrow> ((unit, nat \<times> bool) seg \<times> 'a fsst_scheme) outcome" where
  "begin_op_run l s =
     (if lg_committing (log s)
      then bindO (sleep_begin Ch_log L_log s) (\<lambda>(p, intena, s). Ok (Asleep (p, intena), s))
      else if log_n s + (lg_outstanding (log s) + 1) * MAXOPBLOCKS > LOGSIZE
      then bindO (sleep_begin Ch_log L_log s) (\<lambda>(p, intena, s). Ok (Asleep (p, intena), s))
      else
        bindO (release L_log (upd_log (\<lambda>l. l\<lparr>lg_outstanding := lg_outstanding l + 1\<rparr>) s)) (\<lambda>s.
        Ok (Return (), s)))"

definition begin_op :: "'a fsst_scheme \<Rightarrow> ('a fsst_scheme, unit \<times> 'a fsst_scheme) thread" where
  "begin_op s = wait_loop begin_op_run (\<lambda>(p, intena). sleep_end p L_log intena) (0, False) (acquire L_log s)"

definition write_log_one :: "nat \<Rightarrow> 'a fsst_scheme \<Rightarrow> ('a fsst_scheme, 'a fsst_scheme) thread" where
  "write_log_one tail s =
     bindT (bread (lg_dev (log s)) (lg_start (log s) + of_nat tail + 1) s) (\<lambda>(to, s).
     bindT (bread (lg_dev (log s)) (lh_block (log s) tail) s) (\<lambda>(from, s).
     bindT (bwrite to (copy_block to from s)) (\<lambda>(_, s).
     bindT (Done (brelse from s)) (\<lambda>s.
     Done (brelse to s)))))"

function write_log_from :: "nat \<Rightarrow> 'a fsst_scheme \<Rightarrow> ('a fsst_scheme, 'a fsst_scheme) thread" where
  "write_log_from tail s =
     (if int tail < log_n s
      then bindT (write_log_one tail s) (write_log_from (Suc tail))
      else Done (Ok s))"
  by pat_completeness auto
termination
proof (relation "measure (\<lambda>(tail, s). 2 ^ 31 - tail)", goal_cases)
  case (2 tail s s')
  have "log_n s < 2 ^ 31" using sint_less [of "lh_n (log s)"] by simp
  with 2 show ?case by simp
qed simp

definition write_log :: "'a fsst_scheme \<Rightarrow> ('a fsst_scheme, 'a fsst_scheme) thread" where
  "write_log s = write_log_from 0 s"

declare install_from.simps [simp del] write_log_from.simps [simp del]

definition commit :: "'a fsst_scheme \<Rightarrow> ('a fsst_scheme, 'a fsst_scheme) thread" where
  "commit s =
     (if log_n s > 0
      then bindT (write_log s) (\<lambda>s.
        bindT (write_head s) (\<lambda>s.
        bindT (install_trans False s) (\<lambda>s.
        write_head (upd_log (\<lambda>l. l\<lparr>lh_n := 0\<rparr>) s))))
      else Done (Ok s))"

text \<open>\<open>end_op\<close> up to the commit: whether it has to commit.\<close>

definition end_op_begin :: "'a fsst_scheme \<Rightarrow> (bool \<times> 'a fsst_scheme) outcome" where
  "end_op_begin s =
     bindO (acquire L_log s) (\<lambda>s.
     let s = upd_log (\<lambda>l. l\<lparr>lg_outstanding := lg_outstanding l - 1\<rparr>) s in
     if lg_committing (log s) then Panic ''log.committing''
     else if lg_outstanding (log s) = 0
     then bindO (release L_log (upd_log (\<lambda>l. l\<lparr>lg_committing := True\<rparr>) s)) (\<lambda>s. Ok (True, s))
     else bindO (wakeup Ch_log s) (\<lambda>s. bindO (release L_log s) (\<lambda>s. Ok (False, s))))"

definition end_op_end :: "'a fsst_scheme \<Rightarrow> 'a fsst_scheme outcome" where
  "end_op_end s =
     bindO (acquire L_log s) (\<lambda>s.
     bindO (wakeup Ch_log (upd_log (\<lambda>l. l\<lparr>lg_committing := False\<rparr>) s)) (\<lambda>s.
     release L_log s))"

definition end_op :: "'a fsst_scheme \<Rightarrow> ('a fsst_scheme, unit \<times> 'a fsst_scheme) thread" where
  "end_op s =
     bindT (Done (end_op_begin s)) (\<lambda>(do_commit, s).
     if do_commit
     then bindT (commit s) (\<lambda>s. bindT (Done (end_op_end s)) (\<lambda>s. Done (Ok ((), s))))
     else Done (Ok ((), s)))"

definition log_write :: "nat \<Rightarrow> 'a fsst_scheme \<Rightarrow> 'a fsst_scheme outcome" where
  "log_write b s =
     bindO (acquire L_log s) (\<lambda>s.
     if log_n s \<ge> LOGSIZE \<or> log_n s \<ge> sint (lg_size (log s)) - 1 then Panic ''too big a transaction''
     else if lg_outstanding (log s) < 1 then Panic ''log_write outside of trans''
     else
       let n = nat (log_n s);
           i = (case first_match (\<lambda>i. lh_block (log s) i = b_blockno (bufs s b)) n of Some i \<Rightarrow> i | None \<Rightarrow> n);
           s = upd_log (\<lambda>l. l\<lparr>lh_block := (lh_block l)(i := b_blockno (bufs s b))\<rparr>) s in
       bindO (if int i = log_n s
              then bindO (bpin b s) (\<lambda>s. Ok (upd_log (\<lambda>l. l\<lparr>lh_n := lh_n l + 1\<rparr>) s))
              else Ok s) (\<lambda>s.
       release L_log s))"

end
