(* ===== verification/Fs.thy ===== *)
theory Fs
  imports Log
begin

text \<open>
  The lower layers of the file system, \<^verbatim>\<open>kernel/fs.c\<close> up to the content of files: the super
  block, the free map, inodes on disk and in the inode table, and the blocks of a file. Code
  that reads a block may sleep and is a thread. Loops over block and inode numbers count in
  \<open>nat\<close> below an unsigned bound that they read from the super block.
\<close>

section \<open>Layout\<close>

definition NDIRECT :: nat where [simp]: "NDIRECT = 12"
definition NINDIRECT :: nat where [simp]: "NINDIRECT = 256"
definition MAXFILE :: nat where [simp]: "MAXFILE = NDIRECT + NINDIRECT"
definition IPB :: uint32 where [simp]: "IPB = 16"
definition BPB :: nat where [simp]: "BPB = 8192"
definition NINODE :: nat where [simp]: "NINODE = 50"
definition FSMAGIC :: uint32 where [simp]: "FSMAGIC = 0x10203040"
definition T_DIR :: uint16 where [simp]: "T_DIR = 1"
definition T_FILE :: uint16 where [simp]: "T_FILE = 2"
definition T_DEVICE :: uint16 where [simp]: "T_DEVICE = 3"

definition IBLOCK :: "uint32 \<Rightarrow> superblock \<Rightarrow> uint32" where
  "IBLOCK i b = i div IPB + sb_inodestart b"

definition BBLOCK :: "uint32 \<Rightarrow> superblock \<Rightarrow> uint32" where
  "BBLOCK b x = b div of_nat BPB + sb_bmapstart x"

text \<open>The on-disk inode at a byte offset of a block.\<close>

definition get_dinode :: "chars \<Rightarrow> nat \<Rightarrow> dinode" where
  "get_dinode d pos =
     \<lparr>di_type = get16 d pos, di_major = get16 d (pos + 2), di_minor = get16 d (pos + 4), di_nlink = get16 d (pos + 6),
      di_size = get32 d (pos + 8), di_addrs = (\<lambda>i. get32 d (pos + 12 + 4 * i))\<rparr>"

definition put_dinode :: "nat \<Rightarrow> dinode \<Rightarrow> chars \<Rightarrow> chars" where
  "put_dinode pos x d =
     fold (\<lambda>i. put32 (pos + 12 + 4 * i) (di_addrs x i)) [0..<NDIRECT + 1]
       (put32 (pos + 8) (di_size x) (put16 (pos + 6) (di_nlink x) (put16 (pos + 4) (di_minor x)
         (put16 (pos + 2) (di_major x) (put16 pos (di_type x) d)))))"

definition dinode_off :: "uint32 \<Rightarrow> nat" where
  "dinode_off inum = 64 * unat (inum mod IPB)"

definition get_superblock :: "chars \<Rightarrow> superblock" where
  "get_superblock d =
     \<lparr>sb_magic = get32 d 0, sb_size = get32 d 4, sb_nblocks = get32 d 8, sb_ninodes = get32 d 12,
      sb_nlog = get32 d 16, sb_logstart = get32 d 20, sb_inodestart = get32 d 24, sb_bmapstart = get32 d 28\<rparr>"

section \<open>Blocks\<close>

definition readsb :: "uint32 \<Rightarrow> 'a fsst_scheme \<Rightarrow> ('a fsst_scheme, 'a fsst_scheme) thread" where
  "readsb dev s =
     bindT (bread dev 1 s) (\<lambda>(bp, s).
     Done (brelse bp (s\<lparr>sb := get_superblock (b_data (bufs s bp))\<rparr>)))"

definition fsinit :: "uint32 \<Rightarrow> 'a fsst_scheme \<Rightarrow> ('a fsst_scheme, 'a fsst_scheme) thread" where
  "fsinit dev s =
     bindT (readsb dev s) (\<lambda>s.
     if sb_magic (sb s) \<noteq> FSMAGIC then Done (Panic ''invalid file system'')
     else initlog dev (sb s) s)"

definition bzero :: "uint32 \<Rightarrow> uint32 \<Rightarrow> 'a fsst_scheme \<Rightarrow> ('a fsst_scheme, 'a fsst_scheme) thread" where
  "bzero dev bno s =
     bindT (bread dev bno s) (\<lambda>(bp, s).
     bindT (Done (log_write bp (set_data bp (\<lambda>d i. if i < BSIZE then 0 else d i) s))) (\<lambda>s.
     Done (brelse bp s)))"

text \<open>The first clear bit of a block of the free map, for a block number below \<open>lim\<close>.\<close>

definition free_bit :: "chars \<Rightarrow> nat \<Rightarrow> nat \<Rightarrow> nat option" where
  "free_bit d b lim = first_match (\<lambda>bi. b + bi < lim \<and> d (bi div 8) AND push_bit (bi mod 8) 1 = 0) BPB"

function balloc_from :: "uint32 \<Rightarrow> nat \<Rightarrow> 'a fsst_scheme \<Rightarrow> ('a fsst_scheme, uint32 \<times> 'a fsst_scheme) thread" where
  "balloc_from dev b s =
     (if b < unat (sb_size (sb s))
      then bindT (bread dev (BBLOCK (of_nat b) (sb s)) s) (\<lambda>(bp, s).
        case free_bit (b_data (bufs s bp)) b (unat (sb_size (sb s))) of
          Some bi \<Rightarrow>
            let s = set_data bp (\<lambda>d. d(bi div 8 := d (bi div 8) OR push_bit (bi mod 8) 1)) s in
            bindT (Done (log_write bp s)) (\<lambda>s.
            bindT (Done (brelse bp s)) (\<lambda>s.
            bindT (bzero dev (of_nat (b + bi)) s) (\<lambda>s.
            Done (Ok (of_nat (b + bi), s)))))
        | None \<Rightarrow> bindT (Done (brelse bp s)) (balloc_from dev (b + BPB)))
      else Done (Panic ''balloc: out of blocks''))"
  by pat_completeness auto
termination
proof (relation "measure (\<lambda>(dev, b, s). 2 ^ 32 - b)", goal_cases)
  case (2 dev b s)
  have "unat (sb_size (sb s)) < 2 ^ 32" using unsigned_less [of "sb_size (sb s)", where ?'a = nat] by simp
  with 2 show ?case by simp
qed simp

definition balloc :: "uint32 \<Rightarrow> 'a fsst_scheme \<Rightarrow> ('a fsst_scheme, uint32 \<times> 'a fsst_scheme) thread" where
  "balloc dev s = balloc_from dev 0 s"

definition bfree :: "uint32 \<Rightarrow> uint32 \<Rightarrow> 'a fsst_scheme \<Rightarrow> ('a fsst_scheme, 'a fsst_scheme) thread" where
  "bfree dev b s =
     bindT (bread dev (BBLOCK b (sb s)) s) (\<lambda>(bp, s).
     let bi = unat (b mod of_nat BPB); m = push_bit (bi mod 8) 1 in
     if b_data (bufs s bp) (bi div 8) AND m = 0 then Done (Panic ''freeing free block'')
     else
       bindT (Done (log_write bp (set_data bp (\<lambda>d. d(bi div 8 := d (bi div 8) AND NOT m)) s))) (\<lambda>s.
       Done (brelse bp s)))"

section \<open>Inodes\<close>

primrec iinit_from :: "nat list \<Rightarrow> 'a fsst_scheme \<Rightarrow> 'a fsst_scheme" where
  "iinit_from [] s = s"
| "iinit_from (i # is) s = iinit_from is (initsleeplock (Inode_lock i) ''inode'' s)"

definition iinit :: "'a fsst_scheme \<Rightarrow> 'a fsst_scheme" where
  "iinit s = iinit_from [0..<NINODE] (initlock L_itable ''itable'' s)"

text \<open>The scan of \<open>iget\<close>: the entry of the inode, or the first free entry it passed.\<close>

primrec iget_scan :: "uint32 \<Rightarrow> uint32 \<Rightarrow> nat option \<Rightarrow> nat list \<Rightarrow> 'a fsst_scheme \<Rightarrow> nat + nat option" where
  "iget_scan dev inum spare [] s = Inr spare"
| "iget_scan dev inum spare (i # is) s =
     (let ip = inodes s i in
      if i_ref ip > 0 \<and> i_dev ip = dev \<and> i_inum ip = inum then Inl i
      else iget_scan dev inum (if spare = None \<and> i_ref ip = 0 then Some i else spare) is s)"

definition iget :: "uint32 \<Rightarrow> uint32 \<Rightarrow> 'a fsst_scheme \<Rightarrow> (nat \<times> 'a fsst_scheme) outcome" where
  "iget dev inum s =
     bindO (acquire L_itable s) (\<lambda>s.
     case iget_scan dev inum None [0..<NINODE] s of
       Inl i \<Rightarrow> bindO (release L_itable (upd_inode i (\<lambda>x. x\<lparr>i_ref := i_ref x + 1\<rparr>) s)) (\<lambda>s. Ok (i, s))
     | Inr None \<Rightarrow> Panic ''iget: no inodes''
     | Inr (Some i) \<Rightarrow>
         bindO (release L_itable
           (upd_inode i (\<lambda>x. x\<lparr>i_dev := dev, i_inum := inum, i_ref := 1, i_valid := False\<rparr>) s)) (\<lambda>s. Ok (i, s)))"

function ialloc_from :: "uint32 \<Rightarrow> uint16 \<Rightarrow> nat \<Rightarrow> 'a fsst_scheme \<Rightarrow> ('a fsst_scheme, nat \<times> 'a fsst_scheme) thread" where
  "ialloc_from dev type inum s =
     (if inum < unat (sb_ninodes (sb s))
      then bindT (bread dev (IBLOCK (of_nat inum) (sb s)) s) (\<lambda>(bp, s).
        let pos = dinode_off (of_nat inum) in
        if di_type (get_dinode (b_data (bufs s bp)) pos) = 0
        then
          bindT (Done (log_write bp (set_data bp (\<lambda>d. put16 pos type (put_bytes pos (replicate 64 0) d)) s))) (\<lambda>s.
          bindT (Done (brelse bp s)) (\<lambda>s.
          Done (iget dev (of_nat inum) s)))
        else bindT (Done (brelse bp s)) (ialloc_from dev type (Suc inum)))
      else Done (Panic ''ialloc: no inodes''))"
  by pat_completeness auto
termination
proof (relation "measure (\<lambda>(dev, type, inum, s). 2 ^ 32 - inum)", goal_cases)
  case (2 dev type inum s)
  have "unat (sb_ninodes (sb s)) < 2 ^ 32" using unsigned_less [of "sb_ninodes (sb s)", where ?'a = nat] by simp
  with 2 show ?case by simp
qed simp

declare balloc_from.simps [simp del] ialloc_from.simps [simp del]

definition ialloc :: "uint32 \<Rightarrow> uint16 \<Rightarrow> 'a fsst_scheme \<Rightarrow> ('a fsst_scheme, nat \<times> 'a fsst_scheme) thread" where
  "ialloc dev type s = ialloc_from dev type 1 s"

definition dinode_of :: "inode \<Rightarrow> dinode" where
  "dinode_of x = \<lparr>di_type = i_type x, di_major = i_major x, di_minor = i_minor x, di_nlink = i_nlink x,
     di_size = i_size x, di_addrs = i_addrs x\<rparr>"

definition iupdate :: "nat \<Rightarrow> 'a fsst_scheme \<Rightarrow> ('a fsst_scheme, 'a fsst_scheme) thread" where
  "iupdate ip s =
     bindT (bread (i_dev (inodes s ip)) (IBLOCK (i_inum (inodes s ip)) (sb s)) s) (\<lambda>(bp, s).
     let x = inodes s ip in
     bindT (Done (log_write bp (set_data bp (put_dinode (dinode_off (i_inum x)) (dinode_of x)) s))) (\<lambda>s.
     Done (brelse bp s)))"

definition idup :: "nat \<Rightarrow> 'a fsst_scheme \<Rightarrow> (nat \<times> 'a fsst_scheme) outcome" where
  "idup ip s =
     bindO (acquire L_itable s) (\<lambda>s.
     bindO (release L_itable (upd_inode ip (\<lambda>x. x\<lparr>i_ref := i_ref x + 1\<rparr>) s)) (\<lambda>s. Ok (ip, s)))"

definition load_dinode :: "dinode \<Rightarrow> inode \<Rightarrow> inode" where
  "load_dinode d x = x\<lparr>i_type := di_type d, i_major := di_major d, i_minor := di_minor d, i_nlink := di_nlink d,
     i_size := di_size d, i_addrs := (\<lambda>i. if i < NDIRECT + 1 then di_addrs d i else i_addrs x i)\<rparr>"

text \<open>A pointer to an inode is \<open>None\<close> when it is null.\<close>

definition ilock :: "nat option \<Rightarrow> 'a fsst_scheme \<Rightarrow> ('a fsst_scheme, 'a fsst_scheme) thread" where
  "ilock ptr s =
     (case ptr of None \<Rightarrow> Done (Panic ''ilock'')
      | Some ip \<Rightarrow>
        if i_ref (inodes s ip) < 1 then Done (Panic ''ilock'')
        else
          bindT (acquiresleep (Inode_lock ip) s) (\<lambda>(_, s).
          if \<not> i_valid (inodes s ip)
          then
            bindT (bread (i_dev (inodes s ip)) (IBLOCK (i_inum (inodes s ip)) (sb s)) s) (\<lambda>(bp, s).
            let d = get_dinode (b_data (bufs s bp)) (dinode_off (i_inum (inodes s ip)));
                s = upd_inode ip (load_dinode d) s in
            bindT (Done (brelse bp s)) (\<lambda>s.
            let s = upd_inode ip (\<lambda>x. x\<lparr>i_valid := True\<rparr>) s in
            if i_type (inodes s ip) = 0 then Done (Panic ''ilock: no type'') else Done (Ok s)))
          else Done (Ok s)))"

definition iunlock :: "nat option \<Rightarrow> 'a fsst_scheme \<Rightarrow> 'a fsst_scheme outcome" where
  "iunlock ptr s =
     (case ptr of None \<Rightarrow> Panic ''iunlock''
      | Some ip \<Rightarrow>
        bindO (holdingsleep (Inode_lock ip) s) (\<lambda>(h, s).
        if \<not> h \<or> i_ref (inodes s ip) < 1 then Panic ''iunlock''
        else releasesleep (Inode_lock ip) s))"

section \<open>Content\<close>

definition bmap :: "nat \<Rightarrow> uint32 \<Rightarrow> 'a fsst_scheme \<Rightarrow> ('a fsst_scheme, uint32 \<times> 'a fsst_scheme) thread" where
  "bmap ip bn s =
     (let set_addr = (\<lambda>i a s. upd_inode ip (\<lambda>x. x\<lparr>i_addrs := (i_addrs x)(i := a)\<rparr>) s);
          direct = (\<lambda>i s.
            if i_addrs (inodes s ip) i = 0
            then bindT (balloc (i_dev (inodes s ip)) s) (\<lambda>(a, s). Done (Ok (a, set_addr i a s)))
            else Done (Ok (i_addrs (inodes s ip) i, s))) in
      if bn < of_nat NDIRECT then direct (unat bn) s
      else
        let bn = bn - of_nat NDIRECT in
        if bn < of_nat NINDIRECT
        then
          bindT (direct NDIRECT s) (\<lambda>(addr, s).
          bindT (bread (i_dev (inodes s ip)) addr s) (\<lambda>(bp, s).
          let addr = get32 (b_data (bufs s bp)) (4 * unat bn) in
          bindT (if addr = 0
                 then bindT (balloc (i_dev (inodes s ip)) s) (\<lambda>(addr, s).
                   bindT (Done (log_write bp (set_data bp (put32 (4 * unat bn) addr) s))) (\<lambda>s. Done (Ok (addr, s))))
                 else Done (Ok (addr, s))) (\<lambda>(addr, s).
          bindT (Done (brelse bp s)) (\<lambda>s. Done (Ok (addr, s))))))
        else Done (Panic ''bmap: out of range''))"

primrec itrunc_direct :: "nat \<Rightarrow> nat list \<Rightarrow> 'a fsst_scheme \<Rightarrow> ('a fsst_scheme, 'a fsst_scheme) thread" where
  "itrunc_direct ip [] s = Done (Ok s)"
| "itrunc_direct ip (i # is) s =
     bindT (if i_addrs (inodes s ip) i \<noteq> 0
            then bindT (bfree (i_dev (inodes s ip)) (i_addrs (inodes s ip) i) s) (\<lambda>s.
              Done (Ok (upd_inode ip (\<lambda>x. x\<lparr>i_addrs := (i_addrs x)(i := 0)\<rparr>) s)))
            else Done (Ok s)) (itrunc_direct ip is)"

primrec itrunc_indirect :: "nat \<Rightarrow> nat \<Rightarrow> nat list \<Rightarrow> 'a fsst_scheme \<Rightarrow> ('a fsst_scheme, 'a fsst_scheme) thread" where
  "itrunc_indirect ip bp [] s = Done (Ok s)"
| "itrunc_indirect ip bp (j # js) s =
     (let a = get32 (b_data (bufs s bp)) (4 * j) in
      bindT (if a \<noteq> 0 then bfree (i_dev (inodes s ip)) a s else Done (Ok s)) (itrunc_indirect ip bp js))"

definition itrunc :: "nat \<Rightarrow> 'a fsst_scheme \<Rightarrow> ('a fsst_scheme, 'a fsst_scheme) thread" where
  "itrunc ip s =
     bindT (itrunc_direct ip [0..<NDIRECT] s) (\<lambda>s.
     bindT (if i_addrs (inodes s ip) NDIRECT \<noteq> 0
            then
              bindT (bread (i_dev (inodes s ip)) (i_addrs (inodes s ip) NDIRECT) s) (\<lambda>(bp, s).
              bindT (itrunc_indirect ip bp [0..<NINDIRECT] s) (\<lambda>s.
              bindT (Done (brelse bp s)) (\<lambda>s.
              bindT (bfree (i_dev (inodes s ip)) (i_addrs (inodes s ip) NDIRECT) s) (\<lambda>s.
              Done (Ok (upd_inode ip (\<lambda>x. x\<lparr>i_addrs := (i_addrs x)(NDIRECT := 0)\<rparr>) s))))))
            else Done (Ok s)) (\<lambda>s.
     iupdate ip (upd_inode ip (\<lambda>x. x\<lparr>i_size := 0\<rparr>) s)))"

definition iput :: "nat \<Rightarrow> 'a fsst_scheme \<Rightarrow> ('a fsst_scheme, 'a fsst_scheme) thread" where
  "iput ip s =
     bindT (Done (acquire L_itable s)) (\<lambda>s.
     bindT (if i_ref (inodes s ip) = 1 \<and> i_valid (inodes s ip) \<and> i_nlink (inodes s ip) = 0
            then
              bindT (acquiresleep (Inode_lock ip) s) (\<lambda>(_, s).
              bindT (Done (release L_itable s)) (\<lambda>s.
              bindT (itrunc ip s) (\<lambda>s.
              bindT (iupdate ip (upd_inode ip (\<lambda>x. x\<lparr>i_type := 0\<rparr>) s)) (\<lambda>s.
              bindT (Done (releasesleep (Inode_lock ip) (upd_inode ip (\<lambda>x. x\<lparr>i_valid := False\<rparr>) s))) (\<lambda>s.
              Done (acquire L_itable s))))))
            else Done (Ok s)) (\<lambda>s.
     Done (release L_itable (upd_inode ip (\<lambda>x. x\<lparr>i_ref := i_ref x - 1\<rparr>) s))))"

definition iunlockput :: "nat \<Rightarrow> 'a fsst_scheme \<Rightarrow> ('a fsst_scheme, 'a fsst_scheme) thread" where
  "iunlockput ip s = bindT (Done (iunlock (Some ip) s)) (iput ip)"

record stat =
  st_dev :: uint32
  st_ino :: uint32
  st_type :: uint16
  st_nlink :: uint16
  st_size :: uint64

definition stati :: "nat \<Rightarrow> 'a fsst_scheme \<Rightarrow> stat" where
  "stati ip s =
     (let x = inodes s ip in
      \<lparr>st_dev = i_dev x, st_ino = i_inum x, st_type = i_type x, st_nlink = i_nlink x, st_size = ucast (i_size x)\<rparr>)"

text \<open>
  Where \<open>readi\<close> copies to and \<open>writei\<close> copies from: an address, of the user or of the
  kernel, or a local variable of the caller, as its bytes and a position in it.
\<close>

datatype iobuf = Io_mem bool uint64 | Io_local chars nat

fun io_advance :: "uint32 \<Rightarrow> iobuf \<Rightarrow> iobuf" where
  "io_advance m (Io_mem u a) = Io_mem u (a + ucast m)"
| "io_advance m (Io_local d i) = Io_local d (i + unat m)"

fun io_copyout :: "iobuf \<Rightarrow> chars \<Rightarrow> uint32 \<Rightarrow> 'a fsst_scheme \<Rightarrow> (int \<times> iobuf \<times> 'a fsst_scheme) outcome" where
  "io_copyout (Io_mem u a) src m s = bindO (either_copyout u a src (ucast m) s) (\<lambda>(r, s). Ok (r, Io_mem u a, s))"
| "io_copyout (Io_local d i) src m s =
     bindO (myproc s) (\<lambda>(_, s). Ok (0, Io_local (\<lambda>j. if i \<le> j \<and> j < i + unat m then src (j - i) else d j) i, s))"

fun io_copyin :: "chars \<Rightarrow> iobuf \<Rightarrow> uint32 \<Rightarrow> 'a fsst_scheme \<Rightarrow> (int \<times> chars \<times> 'a fsst_scheme) outcome" where
  "io_copyin dst (Io_mem u a) m s = either_copyin dst u a (ucast m) s"
| "io_copyin dst (Io_local d i) m s =
     bindO (myproc s) (\<lambda>(_, s). Ok (0, \<lambda>j. if j < unat m then d (i + j) else dst j, s))"

definition io_chunk :: "uint32 \<Rightarrow> uint32 \<Rightarrow> uint32 \<Rightarrow> uint32" where
  "io_chunk n tot off = min (n - tot) (of_nat BSIZE - off mod of_nat BSIZE)"

lemma io_chunk_measure:
  assumes "tot < n"
  shows "unat (n - (tot + io_chunk n tot off)) < unat (n - tot)"
proof -
  have "off mod 1024 < 1024" by (simp add: word_less_nat_alt unat_mod)
  then have "0 < 1024 - off mod (1024 :: uint32)" by (simp add: word_greater_zero_iff)
  moreover have "0 < n - tot" using assms by (simp add: word_greater_zero_iff)
  ultimately have m: "0 < io_chunk n tot off" "io_chunk n tot off \<le> n - tot" by (auto simp: io_chunk_def min_def)
  then have "unat (n - tot - io_chunk n tot off) = unat (n - tot) - unat (io_chunk n tot off)"
    by (simp add: unat_sub)
  moreover have "0 < unat (io_chunk n tot off)" "unat (io_chunk n tot off) \<le> unat (n - tot)"
    using m by (simp_all add: word_less_nat_alt word_le_nat_alt)
  ultimately show ?thesis by (simp add: diff_diff_eq)
qed

function readi_from :: "nat \<Rightarrow> iobuf \<Rightarrow> uint32 \<Rightarrow> uint32 \<Rightarrow> uint32 \<Rightarrow> 'a fsst_scheme \<Rightarrow>
    ('a fsst_scheme, int \<times> iobuf \<times> 'a fsst_scheme) thread" where
  "readi_from ip dst off n tot s =
     (if tot < n
      then
        bindT (bmap ip (off div of_nat BSIZE) s) (\<lambda>(addr, s).
        bindT (bread (i_dev (inodes s ip)) addr s) (\<lambda>(bp, s).
        let m = io_chunk n tot off;
            src = (\<lambda>i. b_data (bufs s bp) (unat (off mod of_nat BSIZE) + i)) in
        bindT (Done (io_copyout dst src m s)) (\<lambda>(r, dst, s).
        bindT (Done (brelse bp s)) (\<lambda>s.
        if r = -1 then Done (Ok (-1, dst, s))
        else readi_from ip (io_advance m dst) (off + m) n (tot + m) s))))
      else Done (Ok (sint tot, dst, s)))"
  by pat_completeness auto
termination by (relation "measure (\<lambda>(ip, dst, off, n, tot, s). unat (n - tot))") (simp_all add: io_chunk_measure)

definition readi :: "nat \<Rightarrow> iobuf \<Rightarrow> uint32 \<Rightarrow> uint32 \<Rightarrow> 'a fsst_scheme \<Rightarrow>
    ('a fsst_scheme, int \<times> iobuf \<times> 'a fsst_scheme) thread" where
  "readi ip dst off n s =
     (if off > i_size (inodes s ip) \<or> off + n < off then Done (Ok (0, dst, s))
      else
        let n = (if off + n > i_size (inodes s ip) then i_size (inodes s ip) - off else n) in
        readi_from ip dst off n 0 s)"

text \<open>The loop of \<open>writei\<close> returns how much it has written and the offset it has reached.\<close>

function writei_from :: "nat \<Rightarrow> iobuf \<Rightarrow> uint32 \<Rightarrow> uint32 \<Rightarrow> uint32 \<Rightarrow> 'a fsst_scheme \<Rightarrow>
    ('a fsst_scheme, uint32 \<times> uint32 \<times> 'a fsst_scheme) thread" where
  "writei_from ip src off n tot s =
     (if tot < n
      then
        bindT (bmap ip (off div of_nat BSIZE) s) (\<lambda>(addr, s).
        bindT (bread (i_dev (inodes s ip)) addr s) (\<lambda>(bp, s).
        let m = io_chunk n tot off;
            pos = unat (off mod of_nat BSIZE) in
        bindT (Done (io_copyin (\<lambda>i. b_data (bufs s bp) (pos + i)) src m s)) (\<lambda>(r, new, s).
        let s = set_data bp (\<lambda>d i. if pos \<le> i then new (i - pos) else d i) s in
        if r = -1 then bindT (Done (brelse bp s)) (\<lambda>s. Done (Ok (tot, off, s)))
        else
          bindT (Done (log_write bp s)) (\<lambda>s.
          bindT (Done (brelse bp s)) (\<lambda>s.
          writei_from ip (io_advance m src) (off + m) n (tot + m) s)))))
      else Done (Ok (tot, off, s)))"
  by pat_completeness auto
termination by (relation "measure (\<lambda>(ip, src, off, n, tot, s). unat (n - tot))") (simp_all add: io_chunk_measure)

declare readi_from.simps [simp del] writei_from.simps [simp del]

definition writei :: "nat \<Rightarrow> iobuf \<Rightarrow> uint32 \<Rightarrow> uint32 \<Rightarrow> 'a fsst_scheme \<Rightarrow>
    ('a fsst_scheme, int \<times> 'a fsst_scheme) thread" where
  "writei ip src off n s =
     (if off > i_size (inodes s ip) \<or> off + n < off then Done (Ok (-1, s))
      else if off + n > of_nat (MAXFILE * BSIZE) then Done (Ok (-1, s))
      else
        bindT (writei_from ip src off n 0 s) (\<lambda>(tot, off, s).
        let s = (if off > i_size (inodes s ip) then upd_inode ip (\<lambda>x. x\<lparr>i_size := off\<rparr>) s else s) in
        bindT (iupdate ip s) (\<lambda>s. Done (Ok (sint tot, s)))))"

section \<open>Inodes on disk\<close>

lemma get_put_dinode:
  "di_type (get_dinode (put_dinode pos x d) pos) = di_type x" "di_major (get_dinode (put_dinode pos x d) pos) = di_major x"
  "di_minor (get_dinode (put_dinode pos x d) pos) = di_minor x" "di_nlink (get_dinode (put_dinode pos x d) pos) = di_nlink x"
  "di_size (get_dinode (put_dinode pos x d) pos) = di_size x"
  "i < 13 \<Longrightarrow> di_addrs (get_dinode (put_dinode pos x d) pos) i = di_addrs x i"
  by (simp_all add: get_dinode_def put_dinode_def get_put_array get_put_array_other get_put_other del: upt_rec_numeral)

lemma put_dinode_other: "j < pos \<or> pos + 64 \<le> j \<Longrightarrow> put_dinode pos x d j = d j"
  by (auto simp: put_dinode_def put_array_other put_apply_other simp del: upt_rec_numeral)

lemma get16_cong: "(\<And>j. pos \<le> j \<Longrightarrow> j < pos + 2 \<Longrightarrow> d j = d' j) \<Longrightarrow> get16 d pos = get16 d' pos"
  unfolding get16_def by (rule arg_cong [where f = le_dec]) (auto intro: map_cong)

lemma get32_cong: "(\<And>j. pos \<le> j \<Longrightarrow> j < pos + 4 \<Longrightarrow> d j = d' j) \<Longrightarrow> get32 d pos = get32 d' pos"
  unfolding get32_def by (rule arg_cong [where f = le_dec]) (auto intro: map_cong)

definition same_inode :: "inode \<Rightarrow> inode \<Rightarrow> bool" where
  "same_inode x y \<longleftrightarrow> i_type x = i_type y \<and> i_major x = i_major y \<and> i_minor x = i_minor y \<and> i_nlink x = i_nlink y \<and>
     i_size x = i_size y \<and> (\<forall>i \<in> {..NDIRECT}. i_addrs x i = i_addrs y i)"



end
