(* ===== verification/Dir.thy ===== *)
theory Dir
  imports Fs
begin

text \<open>
  Directories and path names, the end of \<^verbatim>\<open>kernel/fs.c\<close>. A directory is a file of 16-byte
  entries: an inode number and a name of up to \<open>DIRSIZ\<close> bytes. A path is the list of its
  bytes up to the terminator. Offsets in a directory count in \<open>nat\<close>: at an offset where
  the 32-bit counter of the code would wrap, \<open>readi\<close> returns 0 and the code panics.
\<close>

section \<open>Definitions\<close>

definition DIRSIZ :: nat where [simp]: "DIRSIZ = 14"
definition ROOTDEV :: uint32 where [simp]: "ROOTDEV = 1"
definition ROOTINO :: uint32 where [simp]: "ROOTINO = 1"

definition namecmp :: "chars \<Rightarrow> chars \<Rightarrow> int" where
  "namecmp p q = strncmp p q (of_nat DIRSIZ)"

definition de_inum :: "chars \<Rightarrow> uint16" where
  "de_inum d = get16 d 0"

definition de_name :: "chars \<Rightarrow> chars" where
  "de_name d = (\<lambda>i. d (2 + i))"

definition read_dirent :: "nat \<Rightarrow> nat \<Rightarrow> 'a fsst_scheme \<Rightarrow> ('a fsst_scheme, (int \<times> chars) \<times> 'a fsst_scheme) thread" where
  "read_dirent dp off s =
     bindT (readi dp (Io_local (\<lambda>_. 0) 0) (of_nat off) 16 s) (\<lambda>(r, dst, s).
     Done (Ok ((r, case dst of Io_local d _ \<Rightarrow> d | Io_mem _ _ \<Rightarrow> (\<lambda>_. 0)), s)))"

text \<open>The result is the entry's inode with the offset that the code stores through \<^verbatim>\<open>poff\<close>.\<close>

function dirlookup_from :: "nat \<Rightarrow> chars \<Rightarrow> nat \<Rightarrow> 'a fsst_scheme \<Rightarrow>
    ('a fsst_scheme, (nat \<times> nat) option \<times> 'a fsst_scheme) thread" where
  "dirlookup_from dp name off s =
     (if off < unat (i_size (inodes s dp))
      then
        bindT (read_dirent dp off s) (\<lambda>((r, de), s).
        if r \<noteq> 16 then Done (Panic ''dirlookup read'')
        else if de_inum de = 0 then dirlookup_from dp name (off + 16) s
        else if namecmp name (de_name de) = 0
        then bindT (Done (iget (i_dev (inodes s dp)) (ucast (de_inum de)) s)) (\<lambda>(ip, s). Done (Ok (Some (ip, off), s)))
        else dirlookup_from dp name (off + 16) s)
      else Done (Ok (None, s)))"
  by pat_completeness auto
termination
proof (relation "measure (\<lambda>(dp, name, off, s). 2 ^ 32 - off)", goal_cases)
  case (2 dp name off s)
  have "unat (i_size (inodes s dp)) < 2 ^ 32" using unsigned_less [of "i_size (inodes s dp)", where ?'a = nat] by simp
  with 2 show ?case by simp
next
  case (3 dp name off s)
  have "unat (i_size (inodes s dp)) < 2 ^ 32" using unsigned_less [of "i_size (inodes s dp)", where ?'a = nat] by simp
  with 3 show ?case by simp
qed simp

definition dirlookup :: "nat \<Rightarrow> chars \<Rightarrow> 'a fsst_scheme \<Rightarrow>
    ('a fsst_scheme, (nat \<times> nat) option \<times> 'a fsst_scheme) thread" where
  "dirlookup dp name s =
     (if i_type (inodes s dp) \<noteq> T_DIR then Done (Panic ''dirlookup not DIR'') else dirlookup_from dp name 0 s)"

text \<open>The offset of the first free entry, or the end of the directory.\<close>

function dirlink_free :: "nat \<Rightarrow> nat \<Rightarrow> 'a fsst_scheme \<Rightarrow> ('a fsst_scheme, (nat \<times> chars) \<times> 'a fsst_scheme) thread" where
  "dirlink_free dp off s =
     (if off < unat (i_size (inodes s dp))
      then
        bindT (read_dirent dp off s) (\<lambda>((r, de), s).
        if r \<noteq> 16 then Done (Panic ''dirlink read'')
        else if de_inum de = 0 then Done (Ok ((off, de), s))
        else dirlink_free dp (off + 16) s)
      else Done (Ok ((off, \<lambda>_. 0), s)))"
  by pat_completeness auto
termination
proof (relation "measure (\<lambda>(dp, off, s). 2 ^ 32 - off)", goal_cases)
  case (2 dp off s)
  have "unat (i_size (inodes s dp)) < 2 ^ 32" using unsigned_less [of "i_size (inodes s dp)", where ?'a = nat] by simp
  with 2 show ?case by simp
qed simp

declare dirlookup_from.simps [simp del] dirlink_free.simps [simp del]

text \<open>\<^verbatim>\<open>strncpy(de.name, name, DIRSIZ); de.inum = inum\<close>: both fields of the entry.\<close>

definition make_dirent :: "chars \<Rightarrow> uint32 \<Rightarrow> chars \<Rightarrow> chars" where
  "make_dirent name inum de =
     put16 0 (ucast inum) (\<lambda>i. if 2 \<le> i \<and> i < 2 + DIRSIZ then strncpy (de_name de) name (int DIRSIZ) (i - 2) else de i)"

definition dirlink :: "nat \<Rightarrow> chars \<Rightarrow> uint32 \<Rightarrow> 'a fsst_scheme \<Rightarrow> ('a fsst_scheme, int \<times> 'a fsst_scheme) thread" where
  "dirlink dp name inum s =
     bindT (dirlookup dp name s) (\<lambda>(r, s).
     case r of
       Some (ip, _) \<Rightarrow> bindT (iput ip s) (\<lambda>s. Done (Ok (-1, s)))
     | None \<Rightarrow>
         bindT (dirlink_free dp 0 s) (\<lambda>((off, de), s).
         bindT (writei dp (Io_local (make_dirent name inum de) 0) (of_nat off) 16 s) (\<lambda>(n, s).
         if n \<noteq> 16 then Done (Panic ''dirlink'') else Done (Ok (0, s)))))"

abbreviation slash :: uint8 where "slash \<equiv> 0x2f"

text \<open>The rest of the path and the name buffer, or \<open>None\<close> for the code's null pointer.\<close>

definition skipelem :: "uint8 list \<Rightarrow> chars \<Rightarrow> (uint8 list \<times> chars) option" where
  "skipelem path name =
     (let path = dropWhile (\<lambda>c. c = slash) path in
      if path = [] then None
      else
        let el = takeWhile (\<lambda>c. c \<noteq> slash) path;
            path = dropWhile (\<lambda>c. c \<noteq> slash) path;
            name = (if length el \<ge> DIRSIZ then (\<lambda>i. if i < DIRSIZ then el ! i else name i)
                    else (\<lambda>i. if i < length el then el ! i else if i = length el then 0 else name i)) in
        Some (dropWhile (\<lambda>c. c = slash) path, name))"

lemma skipelem_length:
  assumes "skipelem path name = Some (rest, name')"
  shows "length rest < length path"
proof -
  let ?p = "dropWhile (\<lambda>c. c = slash) path"
  from assms have ne: "?p \<noteq> []" and rest: "rest = dropWhile (\<lambda>c. c = slash) (dropWhile (\<lambda>c. c \<noteq> slash) ?p)"
    by (auto simp: skipelem_def Let_def split: if_splits)
  from ne obtain c cs where p: "?p = c # cs" by (cases ?p) auto
  then have "c \<noteq> slash" using hd_dropWhile [of "\<lambda>c. c = slash" path] ne by simp
  then have "length rest \<le> length (dropWhile (\<lambda>c. c \<noteq> slash) cs)" by (simp add: rest p length_dropWhile_le)
  also have "\<dots> \<le> length cs" by (rule length_dropWhile_le)
  finally have "length rest \<le> length cs" .
  moreover have "length (c # cs) \<le> length path" unfolding p [symmetric] by (rule length_dropWhile_le)
  ultimately show ?thesis by simp
qed

text \<open>The loop of \<open>namex\<close>; a null result is \<open>None\<close>.\<close>

function namex_from :: "bool \<Rightarrow> nat \<Rightarrow> uint8 list \<Rightarrow> chars \<Rightarrow> 'a fsst_scheme \<Rightarrow>
    ('a fsst_scheme, (nat option \<times> chars) \<times> 'a fsst_scheme) thread" where
  "namex_from nparent ip path name s =
     (case skipelem path name of
        Some (path', name) \<Rightarrow>
          bindT (ilock (Some ip) s) (\<lambda>s.
          if i_type (inodes s ip) \<noteq> T_DIR
          then bindT (iunlockput ip s) (\<lambda>s. Done (Ok ((None, name), s)))
          else if nparent \<and> path' = []
          then bindT (Done (iunlock (Some ip) s)) (\<lambda>s. Done (Ok ((Some ip, name), s)))
          else
            bindT (dirlookup ip name s) (\<lambda>(next, s).
            bindT (iunlockput ip s) (\<lambda>s.
            case next of
              None \<Rightarrow> Done (Ok ((None, name), s))
            | Some (ip', _) \<Rightarrow> namex_from nparent ip' path' name s)))
      | None \<Rightarrow>
          if nparent then bindT (iput ip s) (\<lambda>s. Done (Ok ((None, name), s)))
          else Done (Ok ((Some ip, name), s)))"
  by pat_completeness auto
termination by (relation "measure (\<lambda>(nparent, ip, path, name, s). length path)") (auto dest: skipelem_length)

declare namex_from.simps [simp del]

definition namex :: "uint8 list \<Rightarrow> bool \<Rightarrow> chars \<Rightarrow> 'a fsst_scheme \<Rightarrow>
    ('a fsst_scheme, (nat option \<times> chars) \<times> 'a fsst_scheme) thread" where
  "namex path nparent name s =
     bindT (Done
       (if path \<noteq> [] \<and> hd path = slash then iget ROOTDEV ROOTINO s
        else bindO (curproc s) (\<lambda>(p, s). case p_cwd (procs s p) of None \<Rightarrow> Panic ''kerneltrap'' | Some ip \<Rightarrow> idup ip s)))
       (\<lambda>(ip, s). namex_from nparent ip path name s)"

definition namei :: "uint8 list \<Rightarrow> 'a fsst_scheme \<Rightarrow> ('a fsst_scheme, nat option \<times> 'a fsst_scheme) thread" where
  "namei path s = bindT (namex path False (\<lambda>_. 0) s) (\<lambda>((ip, _), s). Done (Ok (ip, s)))"

definition nameiparent :: "uint8 list \<Rightarrow> chars \<Rightarrow> 'a fsst_scheme \<Rightarrow>
    ('a fsst_scheme, (nat option \<times> chars) \<times> 'a fsst_scheme) thread" where
  "nameiparent path name s = namex path True name s"

end
