(* ===== verification/Pipe.thy ===== *)
theory Pipe
  imports Dir
begin

text \<open>
  Pipes, \<^verbatim>\<open>kernel/pipe.c\<close>: a ring of 512 bytes between a writer that sleeps while it is
  full and a reader that sleeps while it is empty. A pipe is named by the address of the
  page that holds it.
\<close>

section \<open>Definitions\<close>

definition PIPESIZE :: nat where [simp]: "PIPESIZE = 512"

definition pipeclose :: "uint64 \<Rightarrow> bool \<Rightarrow> 'a fsst_scheme \<Rightarrow> 'a fsst_scheme outcome" where
  "pipeclose a writable s =
     bindO (acquire (L_pipe a) s) (\<lambda>s.
     bindO (if writable then wakeup (Ch_pipe_nread a) (upd_pipe a (\<lambda>x. x\<lparr>pi_writeopen := False\<rparr>) s)
            else wakeup (Ch_pipe_nwrite a) (upd_pipe a (\<lambda>x. x\<lparr>pi_readopen := False\<rparr>) s)) (\<lambda>s.
     if \<not> pi_readopen (pipes s a) \<and> \<not> pi_writeopen (pipes s a)
     then bindO (release (L_pipe a) s) (kfree a)
     else release (L_pipe a) s))"

definition pipewrite_exit :: "uint64 \<Rightarrow> nat \<Rightarrow> 'a fsst_scheme \<Rightarrow>
    ((int, nat \<times> nat \<times> bool) seg \<times> 'a fsst_scheme) outcome" where
  "pipewrite_exit a i s =
     bindO (wakeup (Ch_pipe_nread a) s) (\<lambda>s. bindO (release (L_pipe a) s) (\<lambda>s. Ok (Return (int i), s)))"

text \<open>
  The loop of \<open>pipewrite\<close> up to its end or to the next \<open>sleep\<close>: \<open>k\<close> bytes are left to
  write and \<open>i\<close> have been written.
\<close>

primrec pipewrite_run :: "nat \<Rightarrow> uint64 \<Rightarrow> nat \<Rightarrow> uint64 \<Rightarrow> nat \<Rightarrow> 'a fsst_scheme \<Rightarrow>
    ((int, nat \<times> nat \<times> bool) seg \<times> 'a fsst_scheme) outcome" where
  "pipewrite_run 0 a pr addr i s = pipewrite_exit a i s"
| "pipewrite_run (Suc k) a pr addr i s =
     (if \<not> pi_readopen (pipes s a) \<or> p_killed (procs s pr)
      then bindO (release (L_pipe a) s) (\<lambda>s. Ok (Return (-1), s))
      else if pi_nwrite (pipes s a) = pi_nread (pipes s a) + of_nat PIPESIZE
      then
        bindO (wakeup (Ch_pipe_nread a) s) (\<lambda>s.
        bindO (sleep_begin (Ch_pipe_nwrite a) (L_pipe a) s) (\<lambda>(p, intena, s). Ok (Asleep (i, p, intena), s)))
      else
        bindO (copyin (p_pagetable (procs s pr)) (\<lambda>_. 0) (addr + of_nat i) 1 s) (\<lambda>(r, ch, s).
        if r = -1 then pipewrite_exit a i s
        else pipewrite_run k a pr addr (Suc i)
          (upd_pipe a (\<lambda>x. x\<lparr>pi_data := (pi_data x)(unat (pi_nwrite x) mod PIPESIZE := ch 0), pi_nwrite := pi_nwrite x + 1\<rparr>) s)))"

definition pipewrite :: "uint64 \<Rightarrow> uint64 \<Rightarrow> int \<Rightarrow> 'a fsst_scheme \<Rightarrow> ('a fsst_scheme, int \<times> 'a fsst_scheme) thread" where
  "pipewrite a addr n s =
     bindT (Done (curproc s)) (\<lambda>(pr, s).
     wait_loop (\<lambda>(i, p, intena). pipewrite_run (nat n - i) a pr addr i) (\<lambda>(i, p, intena). sleep_end p (L_pipe a) intena)
       (0, 0, False) (acquire (L_pipe a) s))"

text \<open>The copy loop of \<open>piperead\<close>; a byte that cannot be copied out has left the pipe.\<close>

primrec piperead_copy :: "nat \<Rightarrow> uint64 \<Rightarrow> nat \<Rightarrow> uint64 \<Rightarrow> nat \<Rightarrow> 'a fsst_scheme \<Rightarrow> (nat \<times> 'a fsst_scheme) outcome" where
  "piperead_copy 0 a pr addr i s = Ok (i, s)"
| "piperead_copy (Suc k) a pr addr i s =
     (if pi_nread (pipes s a) = pi_nwrite (pipes s a) then Ok (i, s)
      else
        let ch = pi_data (pipes s a) (unat (pi_nread (pipes s a)) mod PIPESIZE);
            s = upd_pipe a (\<lambda>x. x\<lparr>pi_nread := pi_nread x + 1\<rparr>) s in
        bindO (copyout (p_pagetable (procs s pr)) (addr + of_nat i) (\<lambda>_. ch) 1 s) (\<lambda>(r, s).
        if r = -1 then Ok (i, s) else piperead_copy k a pr addr (Suc i) s))"

definition piperead_run :: "uint64 \<Rightarrow> nat \<Rightarrow> uint64 \<Rightarrow> int \<Rightarrow> 'a fsst_scheme \<Rightarrow>
    ((int, nat \<times> bool) seg \<times> 'a fsst_scheme) outcome" where
  "piperead_run a pr addr n s =
     (if pi_nread (pipes s a) = pi_nwrite (pipes s a) \<and> pi_writeopen (pipes s a)
      then
        if p_killed (procs s pr) then bindO (release (L_pipe a) s) (\<lambda>s. Ok (Return (-1), s))
        else bindO (sleep_begin (Ch_pipe_nread a) (L_pipe a) s) (\<lambda>(p, intena, s). Ok (Asleep (p, intena), s))
      else
        bindO (piperead_copy (nat n) a pr addr 0 s) (\<lambda>(i, s).
        bindO (wakeup (Ch_pipe_nwrite a) s) (\<lambda>s.
        bindO (release (L_pipe a) s) (\<lambda>s. Ok (Return (int i), s)))))"

definition piperead :: "uint64 \<Rightarrow> uint64 \<Rightarrow> int \<Rightarrow> 'a fsst_scheme \<Rightarrow> ('a fsst_scheme, int \<times> 'a fsst_scheme) thread" where
  "piperead a addr n s =
     bindT (Done (curproc s)) (\<lambda>(pr, s).
     wait_loop (\<lambda>_. piperead_run a pr addr n) (\<lambda>(p, intena). sleep_end p (L_pipe a) intena)
       (0, False) (acquire (L_pipe a) s))"

end
