(* ===== verification/File.thy ===== *)
theory File
  imports Pipe
begin

text \<open>
  Open files, \<^verbatim>\<open>kernel/file.c\<close>: the table of files with their reference counts, and reading,
  writing and closing a file whatever it stands for. \<open>pipealloc\<close> of \<^verbatim>\<open>kernel/pipe.c\<close>
  allocates files and stands here too.
\<close>

section \<open>Definitions\<close>

definition fileinit :: "'a fsst_scheme \<Rightarrow> 'a fsst_scheme" where
  "fileinit s = initlock L_ftable ''ftable'' s"

primrec filealloc_from :: "nat list \<Rightarrow> 'a fsst_scheme \<Rightarrow> (nat option \<times> 'a fsst_scheme) outcome" where
  "filealloc_from [] s = bindO (release L_ftable s) (\<lambda>s. Ok (None, s))"
| "filealloc_from (f # fs) s =
     (if f_ref (files s f) = 0
      then bindO (release L_ftable (upd_file f (\<lambda>x. x\<lparr>f_ref := 1\<rparr>) s)) (\<lambda>s. Ok (Some f, s))
      else filealloc_from fs s)"

definition filealloc :: "'a fsst_scheme \<Rightarrow> (nat option \<times> 'a fsst_scheme) outcome" where
  "filealloc s = bindO (acquire L_ftable s) (filealloc_from [0..<NFILE])"

definition filedup :: "nat \<Rightarrow> 'a fsst_scheme \<Rightarrow> (nat \<times> 'a fsst_scheme) outcome" where
  "filedup f s =
     bindO (acquire L_ftable s) (\<lambda>s.
     if f_ref (files s f) < 1 then Panic ''filedup''
     else bindO (release L_ftable (upd_file f (\<lambda>x. x\<lparr>f_ref := f_ref x + 1\<rparr>) s)) (\<lambda>s. Ok (f, s)))"

text \<open>The part of \<open>fileclose\<close> under the lock: the file to close, if this was the last reference.\<close>

definition fileclose_drop :: "nat \<Rightarrow> 'a fsst_scheme \<Rightarrow> (kfile option \<times> 'a fsst_scheme) outcome" where
  "fileclose_drop f s =
     bindO (acquire L_ftable s) (\<lambda>s.
     if f_ref (files s f) < 1 then Panic ''fileclose''
     else
       let s = upd_file f (\<lambda>x. x\<lparr>f_ref := f_ref x - 1\<rparr>) s in
       if f_ref (files s f) > 0 then bindO (release L_ftable s) (\<lambda>s. Ok (None, s))
       else
         let ff = files s f in
         bindO (release L_ftable (upd_file f (\<lambda>x. x\<lparr>f_ref := 0, f_type := FD_NONE\<rparr>) s)) (\<lambda>s. Ok (Some ff, s)))"

definition iput_ptr :: "nat option \<Rightarrow> 'a fsst_scheme \<Rightarrow> ('a fsst_scheme, 'a fsst_scheme) thread" where
  "iput_ptr ptr s = (case ptr of None \<Rightarrow> Done (Panic ''kerneltrap'') | Some ip \<Rightarrow> iput ip s)"

definition fileclose :: "nat \<Rightarrow> 'a fsst_scheme \<Rightarrow> ('a fsst_scheme, unit \<times> 'a fsst_scheme) thread" where
  "fileclose f s =
     bindT (Done (fileclose_drop f s)) (\<lambda>(ff, s).
     case ff of
       None \<Rightarrow> Done (Ok ((), s))
     | Some ff \<Rightarrow>
         if f_type ff = FD_PIPE
         then bindT (Done (pipeclose (f_pipe ff) (f_writable ff) s)) (\<lambda>s. Done (Ok ((), s)))
         else if f_type ff = FD_INODE \<or> f_type ff = FD_DEVICE
         then bindT (begin_op s) (\<lambda>(_, s). bindT (iput_ptr (f_ip ff) s) end_op)
         else Done (Ok ((), s)))"

definition close_if :: "nat option \<Rightarrow> 'a fsst_scheme \<Rightarrow> ('a fsst_scheme, unit \<times> 'a fsst_scheme) thread" where
  "close_if f s = (case f of None \<Rightarrow> Done (Ok ((), s)) | Some f \<Rightarrow> fileclose f s)"

text \<open>The label \<^verbatim>\<open>bad\<close>; at every jump to it no pipe has been allocated.\<close>

definition pipealloc_bad :: "nat option \<Rightarrow> nat option \<Rightarrow> 'a fsst_scheme \<Rightarrow>
    ('a fsst_scheme, (nat \<times> nat) option \<times> 'a fsst_scheme) thread" where
  "pipealloc_bad f0 f1 s =
     bindT (close_if f0 s) (\<lambda>(_, s). bindT (close_if f1 s) (\<lambda>(_, s). Done (Ok (None, s))))"

text \<open>The two files, or \<open>None\<close> where the code returns \<^verbatim>\<open>-1\<close>.\<close>

definition pipealloc :: "'a fsst_scheme \<Rightarrow> ('a fsst_scheme, (nat \<times> nat) option \<times> 'a fsst_scheme) thread" where
  "pipealloc s =
     bindT (Done (filealloc s)) (\<lambda>(f0, s).
     case f0 of None \<Rightarrow> pipealloc_bad None None s
     | Some a \<Rightarrow>
       bindT (Done (filealloc s)) (\<lambda>(f1, s).
       case f1 of None \<Rightarrow> pipealloc_bad f0 None s
       | Some b \<Rightarrow>
         bindT (Done (kalloc s)) (\<lambda>(pg, s).
         if pg = 0 then pipealloc_bad f0 f1 s
         else
           let s = upd_pipe pg (\<lambda>x. x\<lparr>pi_readopen := True, pi_writeopen := True, pi_nwrite := 0, pi_nread := 0\<rparr>) s;
               s = initlock (L_pipe pg) ''pipe'' s;
               s = upd_file a (\<lambda>x. x\<lparr>f_type := FD_PIPE, f_readable := True, f_writable := False, f_pipe := pg\<rparr>) s;
               s = upd_file b (\<lambda>x. x\<lparr>f_type := FD_PIPE, f_readable := False, f_writable := True, f_pipe := pg\<rparr>) s in
           Done (Ok (Some (a, b), s)))))"

text \<open>\<^verbatim>\<open>struct stat\<close> as 24 bytes; the four bytes before \<^verbatim>\<open>size\<close> are padding that is never written.\<close>

definition stat_bytes :: "(nat \<Rightarrow> uint8) \<Rightarrow> stat \<Rightarrow> uint8 list" where
  "stat_bytes pad st =
     le_enc 4 (st_dev st) @ le_enc 4 (st_ino st) @ le_enc 2 (st_type st) @ le_enc 2 (st_nlink st) @
     map pad [0..<4] @ le_enc 8 (st_size st)"

definition filestat :: "(nat \<Rightarrow> uint8) \<Rightarrow> nat \<Rightarrow> uint64 \<Rightarrow> 'a fsst_scheme \<Rightarrow> ('a fsst_scheme, int \<times> 'a fsst_scheme) thread" where
  "filestat pad f addr s =
     bindT (Done (curproc s)) (\<lambda>(p, s).
     if f_type (files s f) = FD_INODE \<or> f_type (files s f) = FD_DEVICE
     then
       bindT (ilock (f_ip (files s f)) s) (\<lambda>s.
       let st = stati (the (f_ip (files s f))) s in
       bindT (Done (iunlock (f_ip (files s f)) s)) (\<lambda>s.
       bindT (Done (copyout (p_pagetable (procs s p)) addr (\<lambda>i. stat_bytes pad st ! i) 24 s)) (\<lambda>(r, s).
       Done (Ok (if r < 0 then -1 else 0, s)))))
     else Done (Ok (-1, s)))"

definition dev_read :: "uint16 \<Rightarrow> uint64 \<Rightarrow> int \<Rightarrow> 'a fsst_scheme \<Rightarrow> ('a fsst_scheme, int \<times> 'a fsst_scheme) thread" where
  "dev_read major addr n s =
     (if sint major < 0 \<or> sint major \<ge> int NDEV then Done (Ok (-1, s))
      else case devsw_read s (unat major) of
        None \<Rightarrow> Done (Ok (-1, s))
      | Some Fn_consoleread \<Rightarrow> consoleread True addr n s
      | Some Fn_consolewrite \<Rightarrow> consolewrite True addr n s)"

definition dev_write :: "uint16 \<Rightarrow> uint64 \<Rightarrow> int \<Rightarrow> 'a fsst_scheme \<Rightarrow> ('a fsst_scheme, int \<times> 'a fsst_scheme) thread" where
  "dev_write major addr n s =
     (if sint major < 0 \<or> sint major \<ge> int NDEV then Done (Ok (-1, s))
      else case devsw_write s (unat major) of
        None \<Rightarrow> Done (Ok (-1, s))
      | Some Fn_consoleread \<Rightarrow> consoleread True addr n s
      | Some Fn_consolewrite \<Rightarrow> consolewrite True addr n s)"

definition fileread :: "nat \<Rightarrow> uint64 \<Rightarrow> int \<Rightarrow> 'a fsst_scheme \<Rightarrow> ('a fsst_scheme, int \<times> 'a fsst_scheme) thread" where
  "fileread f addr n s =
     (if \<not> f_readable (files s f) then Done (Ok (-1, s))
      else case f_type (files s f) of
        FD_PIPE \<Rightarrow> piperead (f_pipe (files s f)) addr n s
      | FD_DEVICE \<Rightarrow> dev_read (f_major (files s f)) addr n s
      | FD_INODE \<Rightarrow>
          bindT (ilock (f_ip (files s f)) s) (\<lambda>s.
          bindT (readi (the (f_ip (files s f))) (Io_mem True addr) (f_off (files s f)) (word_of_int n) s) (\<lambda>(r, _, s).
          let s = (if r > 0 then upd_file f (\<lambda>x. x\<lparr>f_off := f_off x + word_of_int r\<rparr>) s else s) in
          bindT (Done (iunlock (f_ip (files s f)) s)) (\<lambda>s. Done (Ok (r, s)))))
      | FD_NONE \<Rightarrow> Done (Panic ''fileread''))"

definition filewrite_max :: int where
  "filewrite_max = (MAXOPBLOCKS - 1 - 1 - 2) div 2 * int BSIZE"

text \<open>One transaction of \<open>filewrite\<close>: what \<open>writei\<close> returns for \<open>n1\<close> bytes from \<open>addr\<close>.\<close>

definition filewrite_one :: "nat \<Rightarrow> uint64 \<Rightarrow> int \<Rightarrow> 'a fsst_scheme \<Rightarrow> ('a fsst_scheme, int \<times> 'a fsst_scheme) thread" where
  "filewrite_one f addr n1 s =
     bindT (begin_op s) (\<lambda>(_, s).
     bindT (ilock (f_ip (files s f)) s) (\<lambda>s.
     bindT (writei (the (f_ip (files s f))) (Io_mem True addr) (f_off (files s f)) (word_of_int n1) s) (\<lambda>(r, s).
     let s = (if r > 0 then upd_file f (\<lambda>x. x\<lparr>f_off := f_off x + word_of_int r\<rparr>) s else s) in
     bindT (Done (iunlock (f_ip (files s f)) s)) (\<lambda>s.
     bindT (end_op s) (\<lambda>(_, s). Done (Ok (r, s)))))))"

function filewrite_from :: "nat \<Rightarrow> uint64 \<Rightarrow> int \<Rightarrow> int \<Rightarrow> 'a fsst_scheme \<Rightarrow> ('a fsst_scheme, int \<times> 'a fsst_scheme) thread" where
  "filewrite_from f addr n i s =
     (if i < n
      then
        let n1 = (if n - i > filewrite_max then filewrite_max else n - i) in
        bindT (filewrite_one f (addr + word_of_int i) n1 s) (\<lambda>(r, s).
        if r \<noteq> n1 then Done (Ok (i, s)) else filewrite_from f addr n (i + n1) s)
      else Done (Ok (i, s)))"
  by pat_completeness auto
termination
  by (relation "measure (\<lambda>(f, addr, n, i, s). nat (n - i))") (auto simp: filewrite_max_def)

declare filewrite_from.simps [simp del]

definition filewrite :: "nat \<Rightarrow> uint64 \<Rightarrow> int \<Rightarrow> 'a fsst_scheme \<Rightarrow> ('a fsst_scheme, int \<times> 'a fsst_scheme) thread" where
  "filewrite f addr n s =
     (if \<not> f_writable (files s f) then Done (Ok (-1, s))
      else case f_type (files s f) of
        FD_PIPE \<Rightarrow> pipewrite (f_pipe (files s f)) addr n s
      | FD_DEVICE \<Rightarrow> dev_write (f_major (files s f)) addr n s
      | FD_INODE \<Rightarrow> bindT (filewrite_from f addr n 0 s) (\<lambda>(i, s). Done (Ok (if i = n then n else -1, s)))
      | FD_NONE \<Rightarrow> Done (Panic ''filewrite''))"

end
