(* ===== verification/Proclife.thy ===== *)
theory Proclife
  imports File
begin

text \<open>
  The life of a process, from \<^verbatim>\<open>kernel/proc.c\<close>: the first process, \<open>fork\<close>, \<open>exit\<close> and
  \<open>wait\<close>. A process that exits switches to the scheduler and would panic if it were ever
  switched back to.
\<close>

section \<open>Definitions\<close>

definition initcode :: "uint8 list" where
  "initcode =
     [0x17, 0x05, 0x00, 0x00, 0x13, 0x05, 0x45, 0x02, 0x97, 0x05, 0x00, 0x00, 0x93, 0x85, 0x35, 0x02,
      0x93, 0x08, 0x70, 0x00, 0x73, 0x00, 0x00, 0x00, 0x93, 0x08, 0x20, 0x00, 0x73, 0x00, 0x00, 0x00,
      0xef, 0xf0, 0x9f, 0xff, 0x2f, 0x69, 0x6e, 0x69, 0x74, 0x00, 0x00, 0x24, 0x00, 0x00, 0x00, 0x00,
      0x00, 0x00, 0x00, 0x00]"

text \<open>A string literal as a C string, and a list of bytes as an array.\<close>

definition cstring :: "string \<Rightarrow> chars" where
  "cstring str = (\<lambda>i. if i < length str then of_char (str ! i) else 0)"

definition byte_array :: "uint8 list \<Rightarrow> chars" where
  "byte_array bs = (\<lambda>i. if i < length bs then bs ! i else 0)"

abbreviation wchan :: "nat option \<Rightarrow> chan" where
  "wchan p \<equiv> (case p of None \<Rightarrow> Ch_null | Some i \<Rightarrow> Ch_proc i)"

definition userinit :: "'a fsst_scheme \<Rightarrow> ('a fsst_scheme, 'a fsst_scheme) thread" where
  "userinit s =
     bindT (Done (allocproc s)) (\<lambda>(r, s).
     let s = s\<lparr>initproc := r\<rparr> in
     case r of
       None \<Rightarrow> Done (Panic ''kerneltrap'')
     | Some p \<Rightarrow>
         bindT (Done (uvminit (p_pagetable (procs s p)) (byte_array initcode) (of_nat (length initcode)) s)) (\<lambda>s.
         let s = upd_proc p (\<lambda>q. q\<lparr>p_sz := PGSIZE\<rparr>) s;
             s = upd_tframe (p_trapframe (procs s p)) (\<lambda>t. t\<lparr>tf_epc := 0, tf_sp := PGSIZE\<rparr>) s;
             s = upd_proc p (\<lambda>q. q\<lparr>p_name := safestrcpy (p_name q) (cstring ''initcode'') 16\<rparr>) s in
         bindT (namei [slash] s) (\<lambda>(ip, s).
         let s = upd_proc p (\<lambda>q. q\<lparr>p_cwd := ip\<rparr>) s;
             s = upd_proc p (\<lambda>q. q\<lparr>p_state := RUNNABLE\<rparr>) s in
         Done (release (L_proc p) s))))"

primrec fork_files :: "nat \<Rightarrow> nat \<Rightarrow> nat list \<Rightarrow> 'a fsst_scheme \<Rightarrow> 'a fsst_scheme outcome" where
  "fork_files p np [] s = Ok s"
| "fork_files p np (i # is) s =
     (case p_ofile (procs s p) i of
        None \<Rightarrow> fork_files p np is s
      | Some f \<Rightarrow>
          bindO (filedup f s) (\<lambda>(f, s).
          fork_files p np is (upd_proc np (\<lambda>q. q\<lparr>p_ofile := (p_ofile q)(i := Some f)\<rparr>) s)))"

text \<open>What \<open>fork\<close> copies from the parent before the open files.\<close>

definition fork_copy :: "nat \<Rightarrow> nat \<Rightarrow> 'a fsst_scheme \<Rightarrow> 'a fsst_scheme" where
  "fork_copy p np s =
     (let q = procs s p;
          s = upd_proc np (\<lambda>c. c\<lparr>p_sz := p_sz q, p_signalMask := p_signalMask q,
                p_signalHandlers := (\<lambda>i. if i < 32 then p_signalHandlers q i else p_signalHandlers c i),
                p_sigMaskArray := (\<lambda>i. if i < 32 then p_sigMaskArray q i else p_sigMaskArray c i)\<rparr>) s;
          s = upd_tframe (p_trapframe (procs s np)) (\<lambda>_. tframes s (p_trapframe (procs s p))) s in
      upd_tframe (p_trapframe (procs s np)) (\<lambda>t. t\<lparr>tf_a0 := 0\<rparr>) s)"

definition fork :: "'a fsst_scheme \<Rightarrow> (int \<times> 'a fsst_scheme) outcome" where
  "fork s =
     bindO (curproc s) (\<lambda>(p, s).
     bindO (allocproc s) (\<lambda>(r, s).
     case r of
       None \<Rightarrow> Ok (-1, s)
     | Some np \<Rightarrow>
         bindO (uvmcopy (p_pagetable (procs s p)) (p_pagetable (procs s np)) (p_sz (procs s p)) s) (\<lambda>(r, s).
         if r < 0
         then bindO (freeproc np s) (\<lambda>s. bindO (release (L_proc np) s) (\<lambda>s. Ok (-1, s)))
         else
           bindO (fork_files p np [0..<NOFILE] (fork_copy p np s)) (\<lambda>s.
           bindO (case p_cwd (procs s p) of None \<Rightarrow> Panic ''kerneltrap'' | Some ip \<Rightarrow> idup ip s) (\<lambda>(ip, s).
           let s = upd_proc np (\<lambda>c. c\<lparr>p_cwd := Some ip\<rparr>) s;
               s = upd_proc np (\<lambda>c. c\<lparr>p_name := safestrcpy (p_name c) (p_name (procs s p)) 16\<rparr>) s;
               pid = p_pid (procs s np) in
           bindO (release (L_proc np) s) (\<lambda>s.
           bindO (acquire L_wait s) (\<lambda>s.
           bindO (release L_wait (upd_proc np (\<lambda>c. c\<lparr>p_parent := Some p\<rparr>) s)) (\<lambda>s.
           bindO (acquire (L_proc np) s) (\<lambda>s.
           bindO (release (L_proc np) (upd_proc np (\<lambda>c. c\<lparr>p_state := RUNNABLE\<rparr>) s)) (\<lambda>s.
           Ok (pid, s)))))))))))"

primrec reparent_from :: "nat \<Rightarrow> nat list \<Rightarrow> 'a procst_scheme \<Rightarrow> 'a procst_scheme outcome" where
  "reparent_from p [] s = Ok s"
| "reparent_from p (i # is) s =
     (if p_parent (procs s i) = Some p
      then bindO (wakeup (wchan (initproc s)) (upd_proc i (\<lambda>q. q\<lparr>p_parent := initproc s\<rparr>) s)) (reparent_from p is)
      else reparent_from p is s)"

definition reparent :: "nat \<Rightarrow> 'a procst_scheme \<Rightarrow> 'a procst_scheme outcome" where
  "reparent p s = reparent_from p [0..<NPROC] s"

primrec exit_files :: "nat \<Rightarrow> nat list \<Rightarrow> 'a fsst_scheme \<Rightarrow> ('a fsst_scheme, 'a fsst_scheme) thread" where
  "exit_files p [] s = Done (Ok s)"
| "exit_files p (fd # fds) s =
     (case p_ofile (procs s p) fd of
        None \<Rightarrow> exit_files p fds s
      | Some f \<Rightarrow>
          bindT (fileclose f s) (\<lambda>(_, s).
          exit_files p fds (upd_proc p (\<lambda>q. q\<lparr>p_ofile := (p_ofile q)(fd := None)\<rparr>) s)))"

text \<open>The end of \<open>exit\<close>, from taking \<^verbatim>\<open>wait_lock\<close> to the switch.\<close>

definition exit_zombie :: "nat \<Rightarrow> int \<Rightarrow> 'a procst_scheme \<Rightarrow> 'a procst_scheme outcome" where
  "exit_zombie p status s =
     bindO (acquire L_wait s) (\<lambda>s.
     bindO (reparent p s) (\<lambda>s.
     bindO (wakeup (wchan (p_parent (procs s p))) s) (\<lambda>s.
     bindO (acquire (L_proc p) s) (\<lambda>s.
     bindO (release L_wait (upd_proc p (\<lambda>q. q\<lparr>p_xstate := status, p_state := ZOMBIE\<rparr>) s)) (\<lambda>s.
     bindO (sched_out s) (\<lambda>(_, s). Ok s))))))"

definition exit :: "int \<Rightarrow> 'a fsst_scheme \<Rightarrow> ('a fsst_scheme, 'v) thread" where
  "exit status s =
     bindT (Done (curproc s)) (\<lambda>(p, s).
     if Some p = initproc s then Done (Panic ''init exiting'')
     else
       bindT (exit_files p [0..<NOFILE] s) (\<lambda>s.
       bindT (begin_op s) (\<lambda>(_, s).
       bindT (iput_ptr (p_cwd (procs s p)) s) (\<lambda>s.
       bindT (end_op s) (\<lambda>(_, s).
       bindT (Done (exit_zombie p status (upd_proc p (\<lambda>q. q\<lparr>p_cwd := None\<rparr>) s))) (\<lambda>s.
       Switch s (\<lambda>_. Done (Panic ''zombie exit''))))))))"

text \<open>
  The scan of \<open>wait\<close>: the value to return when a dead child was found, or else whether
  there are children.
\<close>

primrec wait_scan :: "nat \<Rightarrow> uint64 \<Rightarrow> bool \<Rightarrow> nat list \<Rightarrow> 'a procst_scheme \<Rightarrow> ((int + bool) \<times> 'a procst_scheme) outcome" where
  "wait_scan p addr havekids [] s = Ok (Inr havekids, s)"
| "wait_scan p addr havekids (np # nps) s =
     (if p_parent (procs s np) = Some p
      then
        bindO (acquire (L_proc np) s) (\<lambda>s.
        if p_state (procs s np) = ZOMBIE
        then
          let pid = p_pid (procs s np) in
          bindO (if addr \<noteq> 0
                 then copyout (p_pagetable (procs s p)) addr (byte_array (le_enc 4 (word_of_int (p_xstate (procs s np)) :: uint32))) 4 s
                 else Ok (0, s)) (\<lambda>(r, s).
          if r < 0
          then bindO (release (L_proc np) s) (\<lambda>s. bindO (release L_wait s) (\<lambda>s. Ok (Inl (-1), s)))
          else
            bindO (freeproc np s) (\<lambda>s.
            bindO (release (L_proc np) s) (\<lambda>s.
            bindO (release L_wait s) (\<lambda>s. Ok (Inl pid, s)))))
        else bindO (release (L_proc np) s) (wait_scan p addr True nps))
      else wait_scan p addr havekids nps s)"

definition wait_run :: "nat \<Rightarrow> uint64 \<Rightarrow> nat \<times> bool \<Rightarrow> 'a procst_scheme \<Rightarrow> ((int, nat \<times> bool) seg \<times> 'a procst_scheme) outcome" where
  "wait_run p addr l s =
     bindO (wait_scan p addr False [0..<NPROC] s) (\<lambda>(r, s).
     case r of
       Inl v \<Rightarrow> Ok (Return v, s)
     | Inr havekids \<Rightarrow>
         if \<not> havekids \<or> p_killed (procs s p) then bindO (release L_wait s) (\<lambda>s. Ok (Return (-1), s))
         else bindO (sleep_begin (Ch_proc p) L_wait s) (\<lambda>(q, intena, s). Ok (Asleep (q, intena), s)))"

definition wait :: "uint64 \<Rightarrow> 'a procst_scheme \<Rightarrow> ('a procst_scheme, int \<times> 'a procst_scheme) thread" where
  "wait addr s =
     bindT (Done (curproc s)) (\<lambda>(p, s).
     wait_loop (wait_run p addr) (\<lambda>(q, intena). sleep_end q L_wait intena) (0, False) (acquire L_wait s))"

end
