(* ===== verification/Exec.thy ===== *)
theory Exec
  imports Proclife
begin

text \<open>
  \<^verbatim>\<open>kernel/exec.c\<close>: replacing the image of a process by a program from the file system.
  \<open>argv\<close> is the list of the kernel addresses of the argument strings, without the null
  pointer that ends the array. Each jump to the label \<^verbatim>\<open>bad\<close> is a call of \<open>exec_bad\<close> with
  the page table, size and inode at that point.
\<close>

section \<open>ELF headers\<close>

definition ELF_MAGIC :: uint32 where [simp]: "ELF_MAGIC = 0x464C457F"
definition ELF_PROG_LOAD :: uint32 where [simp]: "ELF_PROG_LOAD = 1"

definition get64 :: "chars \<Rightarrow> nat \<Rightarrow> uint64" where
  "get64 d off = le_dec (map d [off..<off + 8])"

record elfhdr =
  elf_magic :: uint32
  elf_entry :: uint64
  elf_phoff :: uint64
  elf_phnum :: uint16

definition get_elfhdr :: "chars \<Rightarrow> elfhdr" where
  "get_elfhdr d = \<lparr>elf_magic = get32 d 0, elf_entry = get64 d 24, elf_phoff = get64 d 32, elf_phnum = get16 d 56\<rparr>"

record proghdr =
  ph_type :: uint32
  ph_off :: uint64
  ph_vaddr :: uint64
  ph_filesz :: uint64
  ph_memsz :: uint64

definition get_proghdr :: "chars \<Rightarrow> proghdr" where
  "get_proghdr d = \<lparr>ph_type = get32 d 0, ph_off = get64 d 8, ph_vaddr = get64 d 16, ph_filesz = get64 d 32, ph_memsz = get64 d 40\<rparr>"

text \<open>\<open>readi\<close> into a local variable of \<open>n\<close> bytes: whether all of it was read, and its bytes.\<close>

definition read_local :: "nat \<Rightarrow> uint32 \<Rightarrow> uint32 \<Rightarrow> 'a fsst_scheme \<Rightarrow> ('a fsst_scheme, (bool \<times> chars) \<times> 'a fsst_scheme) thread" where
  "read_local ip off n s =
     bindT (readi ip (Io_local (\<lambda>_. 0) 0) off n s) (\<lambda>(r, dst, s).
     Done (Ok ((r = int (unat n), case dst of Io_local d _ \<Rightarrow> d | Io_mem _ _ \<Rightarrow> (\<lambda>_. 0)), s)))"

section \<open>Definitions\<close>

text \<open>
  The counter of \<open>loadseg\<close> is a \<open>nat\<close>: before the 32-bit counter of the code could wrap,
  a read beyond the largest file has failed.
\<close>

function loadseg_from :: "uint64 \<Rightarrow> uint64 \<Rightarrow> nat \<Rightarrow> uint32 \<Rightarrow> uint32 \<Rightarrow> nat \<Rightarrow> 'a fsst_scheme \<Rightarrow>
    ('a fsst_scheme, int \<times> 'a fsst_scheme) thread" where
  "loadseg_from pagetable va ip offset sz i s =
     (if i < unat sz
      then
        bindT (Done (walkaddr pagetable (va + of_nat i) s)) (\<lambda>(pa, s).
        if pa = 0 then Done (Panic ''loadseg: address should exist'')
        else
          let n = (if sz - of_nat i < ucast PGSIZE then sz - of_nat i else ucast PGSIZE) in
          bindT (readi ip (Io_mem False pa) (offset + of_nat i) n s) (\<lambda>(r, _, s).
          if word_of_int r \<noteq> n then Done (Ok (-1, s))
          else loadseg_from pagetable va ip offset sz (i + unat PGSIZE) s))
      else Done (Ok (0, s)))"
  by pat_completeness auto
termination
proof (relation "measure (\<lambda>(pagetable, va, ip, offset, sz, i, s). unat sz - i)", goal_cases)
  case (2 pagetable va ip offset sz i s)
  have "0 < unat PGSIZE" by simp
  with 2 show ?case by auto
qed simp

declare loadseg_from.simps [simp del]

definition loadseg :: "uint64 \<Rightarrow> uint64 \<Rightarrow> nat \<Rightarrow> uint32 \<Rightarrow> uint32 \<Rightarrow> 'a fsst_scheme \<Rightarrow>
    ('a fsst_scheme, int \<times> 'a fsst_scheme) thread" where
  "loadseg pagetable va ip offset sz s =
     (if va mod PGSIZE \<noteq> 0 then Done (Panic ''loadseg: va must be page aligned'')
      else loadseg_from pagetable va ip offset sz 0 s)"

text \<open>
  The loop over the program headers, \<open>k\<close> of them left: whether it got to the end, and the
  size reached.
\<close>

primrec exec_load :: "nat \<Rightarrow> uint64 \<Rightarrow> nat \<Rightarrow> uint32 \<Rightarrow> uint64 \<Rightarrow> 'a fsst_scheme \<Rightarrow>
    ('a fsst_scheme, (bool \<times> uint64) \<times> 'a fsst_scheme) thread" where
  "exec_load 0 pagetable ip off sz s = Done (Ok ((True, sz), s))"
| "exec_load (Suc k) pagetable ip off sz s =
     bindT (read_local ip off 56 s) (\<lambda>((ok, d), s).
     let ph = get_proghdr d in
     if \<not> ok then Done (Ok ((False, sz), s))
     else if ph_type ph \<noteq> ELF_PROG_LOAD then exec_load k pagetable ip (off + 56) sz s
     else if ph_memsz ph < ph_filesz ph then Done (Ok ((False, sz), s))
     else if ph_vaddr ph + ph_memsz ph < ph_vaddr ph then Done (Ok ((False, sz), s))
     else
       bindT (Done (uvmalloc pagetable sz (ph_vaddr ph + ph_memsz ph) s)) (\<lambda>(sz1, s).
       if sz1 = 0 then Done (Ok ((False, sz), s))
       else if ph_vaddr ph mod PGSIZE \<noteq> 0 then Done (Ok ((False, sz1), s))
       else
         bindT (loadseg pagetable (ph_vaddr ph) ip (ucast (ph_off ph)) (ucast (ph_filesz ph)) s) (\<lambda>(r, s).
         if r < 0 then Done (Ok ((False, sz1), s))
         else exec_load k pagetable ip (off + 56) sz1 s)))"

definition exec_bad :: "uint64 \<Rightarrow> uint64 \<Rightarrow> nat option \<Rightarrow> 'a fsst_scheme \<Rightarrow> ('a fsst_scheme, int \<times> 'a fsst_scheme) thread" where
  "exec_bad pagetable sz ip s =
     bindT (Done (if pagetable \<noteq> 0 then proc_freepagetable pagetable sz s else Ok s)) (\<lambda>s.
     case ip of
       None \<Rightarrow> Done (Ok (-1, s))
     | Some ip \<Rightarrow> bindT (iunlockput ip s) (\<lambda>s. bindT (end_op s) (\<lambda>(_, s). Done (Ok (-1, s)))))"

abbreviation kstr :: "uint64 \<Rightarrow> 'a fsst_scheme \<Rightarrow> chars" where
  "kstr a s \<equiv> (\<lambda>i. mem s (a + of_nat i))"

text \<open>Pushing the argument strings: the stack pointer and the addresses pushed, or \<open>None\<close> for \<^verbatim>\<open>bad\<close>.\<close>

primrec exec_args :: "uint64 \<Rightarrow> uint64 \<Rightarrow> uint64 list \<Rightarrow> uint64 \<Rightarrow> uint64 list \<Rightarrow> 'a fsst_scheme \<Rightarrow>
    ((uint64 \<times> uint64 list) option \<times> 'a fsst_scheme) outcome" where
  "exec_args pagetable stackbase [] sp ustack s = Ok (Some (sp, ustack), s)"
| "exec_args pagetable stackbase (a # argv) sp ustack s =
     (if length ustack \<ge> MAXARG then Ok (None, s)
      else case strlen (kstr a s) of
        None \<Rightarrow> Spin
      | Some len \<Rightarrow>
          let sp = sp - (of_nat len + 1);
              sp = sp - sp mod 16 in
          if sp < stackbase then Ok (None, s)
          else
            bindO (copyout pagetable sp (kstr a s) (of_nat len + 1) s) (\<lambda>(r, s).
            if r < 0 then Ok (None, s) else exec_args pagetable stackbase argv sp (ustack @ [sp]) s))"

text \<open>The text after the last slash of a path.\<close>

definition last_elem :: "uint8 list \<Rightarrow> uint8 list" where
  "last_elem path = rev (takeWhile (\<lambda>c. c \<noteq> slash) (rev path))"

definition exec_signals :: "proc \<Rightarrow> proc" where
  "exec_signals q =
     (let caught = (\<lambda>j. j < 32 \<and> p_signalHandlers q j \<noteq> SIG_IGN \<and> p_signalHandlers q j \<noteq> SIG_DFL) in
      q\<lparr>p_signalHandlers := (\<lambda>j. if caught j then SIG_DFL else p_signalHandlers q j),
        p_sigMaskArray := (\<lambda>j. if caught j then 0 else p_sigMaskArray q j)\<rparr>)"

definition exec_commit :: "nat \<Rightarrow> uint8 list \<Rightarrow> uint64 \<Rightarrow> uint64 \<Rightarrow> uint64 \<Rightarrow> uint64 \<Rightarrow> uint64 \<Rightarrow> 'a fsst_scheme \<Rightarrow> 'a fsst_scheme outcome" where
  "exec_commit p path pagetable sz sp entry0 oldsz s =
     (let s = upd_tframe (p_trapframe (procs s p)) (\<lambda>t. t\<lparr>tf_a1 := sp\<rparr>) s;
          s = upd_proc p (\<lambda>q. q\<lparr>p_name := safestrcpy (p_name q) (byte_array (last_elem path)) 16\<rparr>) s;
          s = upd_proc p exec_signals s;
          oldpagetable = p_pagetable (procs s p);
          s = upd_proc p (\<lambda>q. q\<lparr>p_pagetable := pagetable, p_sz := sz\<rparr>) s;
          s = upd_tframe (p_trapframe (procs s p)) (\<lambda>t. t\<lparr>tf_epc := entry0, tf_sp := sp\<rparr>) s in
      proc_freepagetable oldpagetable oldsz s)"

text \<open>\<open>exec\<close> from the second \<open>myproc\<close>: the stack, the arguments and the switch to the new image.\<close>

definition exec_stack :: "uint8 list \<Rightarrow> uint64 list \<Rightarrow> uint64 \<Rightarrow> uint64 \<Rightarrow> uint64 \<Rightarrow> 'a fsst_scheme \<Rightarrow>
    ('a fsst_scheme, int \<times> 'a fsst_scheme) thread" where
  "exec_stack path argv pagetable sz entry0 s =
     bindT (Done (curproc s)) (\<lambda>(p, s).
     let oldsz = p_sz (procs s p); sz = PGROUNDUP sz in
     bindT (Done (uvmalloc pagetable sz (sz + 2 * PGSIZE) s)) (\<lambda>(sz1, s).
     if sz1 = 0 then exec_bad pagetable sz None s
     else
       bindT (Done (uvmclear pagetable (sz1 - 2 * PGSIZE) s)) (\<lambda>s.
       let stackbase = sz1 - PGSIZE in
       bindT (Done (exec_args pagetable stackbase argv sz1 [] s)) (\<lambda>(r, s).
       case r of
         None \<Rightarrow> exec_bad pagetable sz1 None s
       | Some (sp, ustack) \<Rightarrow>
           let argc = length ustack;
               sp = sp - of_nat ((argc + 1) * 8);
               sp = sp - sp mod 16 in
           if sp < stackbase then exec_bad pagetable sz1 None s
           else
             bindT (Done (copyout pagetable sp (byte_array (concat (map (le_enc 8) (ustack @ [0])))) (of_nat ((argc + 1) * 8)) s)) (\<lambda>(r, s).
             if r < 0 then exec_bad pagetable sz1 None s
             else
               bindT (Done (exec_commit p path pagetable sz1 sp entry0 oldsz s)) (\<lambda>s. Done (Ok (int argc, s))))))))"

definition exec :: "uint8 list \<Rightarrow> uint64 list \<Rightarrow> 'a fsst_scheme \<Rightarrow> ('a fsst_scheme, int \<times> 'a fsst_scheme) thread" where
  "exec path argv s =
     bindT (Done (curproc s)) (\<lambda>(p, s).
     bindT (begin_op s) (\<lambda>(_, s).
     bindT (namei path s) (\<lambda>(r, s).
     case r of
       None \<Rightarrow> bindT (end_op s) (\<lambda>(_, s). Done (Ok (-1, s)))
     | Some ip \<Rightarrow>
         bindT (ilock (Some ip) s) (\<lambda>s.
         bindT (read_local ip 0 64 s) (\<lambda>((ok, d), s).
         let elf = get_elfhdr d in
         if \<not> ok \<or> elf_magic elf \<noteq> ELF_MAGIC then exec_bad 0 0 (Some ip) s
         else
           bindT (Done (proc_pagetable p s)) (\<lambda>(pagetable, s).
           if pagetable = 0 then exec_bad 0 0 (Some ip) s
           else
             bindT (exec_load (unat (elf_phnum elf)) pagetable ip (ucast (elf_phoff elf)) 0 s) (\<lambda>((ok, sz), s).
             if \<not> ok then exec_bad pagetable sz (Some ip) s
             else
               bindT (iunlockput ip s) (\<lambda>s.
               bindT (end_op s) (\<lambda>(_, s).
               exec_stack path argv pagetable sz (elf_entry elf) s)))))))))"

end
