(* ===== verification/Sysargs.thy ===== *)
theory Sysargs
  imports Exec
begin

text \<open>
  System-call arguments, from \<^verbatim>\<open>kernel/syscall.c\<close>, and the part of the state that the trap
  code and the clock add: the tick counter of \<^verbatim>\<open>kernel/trap.c\<close>, the trap registers of the
  running hart, and the claim and completion of interrupts at the interrupt controller.
\<close>

section \<open>State\<close>

text \<open>
  \<open>plic_pending\<close> are the interrupts that the controller will hand out, in order, and
  \<open>plic_done\<close> those completed; \<open>plic_log\<close> are the writes of its set-up, in order.
\<close>

record trapst = fsst +
  ticks :: uint32
  stvec :: uint64
  sepc :: uint64
  scause :: uint64
  stval :: uint64
  sip :: uint64
  plic_pending :: "uint32 list"
  plic_done :: "uint32 list"
  plic_log :: "(nat \<times> uint32) list"
  started :: bool

section \<open>Definitions\<close>

definition fetchaddr :: "uint64 \<Rightarrow> 'a procst_scheme \<Rightarrow> (int \<times> uint64 \<times> 'a procst_scheme) outcome" where
  "fetchaddr addr s =
     bindO (curproc s) (\<lambda>(p, s).
     if addr \<ge> p_sz (procs s p) \<or> addr + 8 > p_sz (procs s p) then Ok (-1, 0, s)
     else
       bindO (copyin (p_pagetable (procs s p)) (\<lambda>_. 0) addr 8 s) (\<lambda>(r, d, s).
       if r \<noteq> 0 then Ok (-1, 0, s) else Ok (0, get64 d 0, s)))"

text \<open>A string without terminator makes \<open>strlen\<close> run on; \<open>copyinstr\<close> only succeeds with one.\<close>

definition fetchstr :: "uint64 \<Rightarrow> chars \<Rightarrow> int \<Rightarrow> 'a procst_scheme \<Rightarrow> (int \<times> chars \<times> 'a procst_scheme) outcome" where
  "fetchstr addr buf max' s =
     bindO (curproc s) (\<lambda>(p, s).
     bindO (copyinstr (p_pagetable (procs s p)) buf addr (word_of_int max') s) (\<lambda>(err, buf, s).
     if err < 0 then Ok (err, buf, s)
     else case strlen buf of None \<Rightarrow> Spin | Some n \<Rightarrow> Ok (int n, buf, s)))"

definition argraw :: "int \<Rightarrow> 'a procst_scheme \<Rightarrow> (uint64 \<times> 'a procst_scheme) outcome" where
  "argraw n s =
     bindO (curproc s) (\<lambda>(p, s).
     let t = tframes s (p_trapframe (procs s p)) in
     if n = 0 then Ok (tf_a0 t, s)
     else if n = 1 then Ok (tf_a1 t, s)
     else if n = 2 then Ok (tf_a2 t, s)
     else if n = 3 then Ok (tf_a3 t, s)
     else if n = 4 then Ok (tf_a4 t, s)
     else if n = 5 then Ok (tf_a5 t, s)
     else Panic ''argraw'')"

text \<open>
  \<open>argint\<close> and \<open>argaddr\<close> never fail: the model returns the value that the code stores
  through its pointer.
\<close>

definition argint :: "int \<Rightarrow> 'a procst_scheme \<Rightarrow> (int \<times> 'a procst_scheme) outcome" where
  "argint n s = bindO (argraw n s) (\<lambda>(w, s). Ok (sint (ucast w :: uint32), s))"

definition argaddr :: "int \<Rightarrow> 'a procst_scheme \<Rightarrow> (uint64 \<times> 'a procst_scheme) outcome" where
  "argaddr n s = argraw n s"

definition argstr :: "int \<Rightarrow> chars \<Rightarrow> int \<Rightarrow> 'a procst_scheme \<Rightarrow> (int \<times> chars \<times> 'a procst_scheme) outcome" where
  "argstr n buf max' s = bindO (argaddr n s) (\<lambda>(addr, s). fetchstr addr buf max' s)"

end
