(* ===== verification/Sysproc.thy ===== *)
theory Sysproc
  imports Sysargs
begin

text \<open>
  The system calls on processes, signals and semaphores, \<^verbatim>\<open>kernel/sysproc.c\<close>. The result of
  a system call is the 64-bit value that \<open>syscall\<close> stores in the caller's register \<open>a0\<close>.
\<close>

type_synonym 's syscall_fun = "'s \<Rightarrow> ('s, uint64 \<times> 's) thread"

text \<open>An \<^verbatim>\<open>int\<close> result, sign-extended to 64 bits.\<close>

abbreviation ret :: "int \<Rightarrow> 's \<Rightarrow> ('s, uint64 \<times> 's) thread" where
  "ret r s \<equiv> Done (Ok (word_of_int r, s))"

section \<open>Definitions\<close>

definition sys_exit :: "'a fsst_scheme syscall_fun" where
  "sys_exit s = bindT (Done (argint 0 s)) (\<lambda>(n, s). exit n s)"

definition sys_getpid :: "'a fsst_scheme syscall_fun" where
  "sys_getpid s = bindT (Done (curproc s)) (\<lambda>(p, s). ret (p_pid (procs s p)) s)"

definition sys_fork :: "'a fsst_scheme syscall_fun" where
  "sys_fork s = bindT (Done (fork s)) (\<lambda>(r, s). ret r s)"

definition sys_wait :: "'a fsst_scheme syscall_fun" where
  "sys_wait s = bindT (Done (argaddr 0 s)) (\<lambda>(p, s). bindT (wait p s) (\<lambda>(r, s). ret r s))"

definition sys_sbrk :: "'a fsst_scheme syscall_fun" where
  "sys_sbrk s =
     bindT (Done (argint 0 s)) (\<lambda>(n, s).
     bindT (Done (curproc s)) (\<lambda>(p, s).
     let addr = sint (ucast (p_sz (procs s p)) :: uint32) in
     bindT (Done (growproc n s)) (\<lambda>(r, s).
     if r < 0 then ret (-1) s else ret addr s)))"

definition sys_sleep_run :: "int \<Rightarrow> uint32 \<Rightarrow> 'a trapst_scheme \<Rightarrow> ((int, uint32 \<times> nat \<times> bool) seg \<times> 'a trapst_scheme) outcome" where
  "sys_sleep_run n ticks0 s =
     (if ticks s - ticks0 < word_of_int n
      then
        bindO (curproc s) (\<lambda>(p, s).
        if p_killed (procs s p) then bindO (release L_ticks s) (\<lambda>s. Ok (Return (-1), s))
        else bindO (sleep_begin Ch_ticks L_ticks s) (\<lambda>(q, intena, s). Ok (Asleep (ticks0, q, intena), s)))
      else bindO (release L_ticks s) (\<lambda>s. Ok (Return 0, s)))"

definition sys_sleep :: "'a trapst_scheme syscall_fun" where
  "sys_sleep s =
     bindT (Done (argint 0 s)) (\<lambda>(n, s).
     bindT (Done (acquire L_ticks s)) (\<lambda>s.
     bindT (wait_loop (\<lambda>(ticks0, q, intena). sys_sleep_run n ticks0) (\<lambda>(ticks0, q, intena). sleep_end q L_ticks intena)
       (ticks s, 0, False) (Ok s)) (\<lambda>(r, s). ret r s)))"

definition sys_kill :: "'a fsst_scheme syscall_fun" where
  "sys_kill s =
     bindT (Done (argint 0 s)) (\<lambda>(pid, s).
     bindT (Done (argint 1 s)) (\<lambda>(signum, s).
     bindT (Done (kill pid signum s)) (\<lambda>(r, s). ret r s)))"

definition sys_uptime :: "'a trapst_scheme syscall_fun" where
  "sys_uptime s =
     bindT (Done (acquire L_ticks s)) (\<lambda>s.
     let xticks = ticks s in
     bindT (Done (release L_ticks s)) (\<lambda>s. Done (Ok (ucast xticks, s))))"

definition sys_sigprocmask :: "'a fsst_scheme syscall_fun" where
  "sys_sigprocmask s =
     bindT (Done (argint 0 s)) (\<lambda>(sigmask, s).
     if sigmask < 0 then ret (-1) s
     else bindT (Done (sigprocmask (word_of_int sigmask) s)) (\<lambda>(old, s). Done (Ok (ucast old, s))))"

definition sys_sigaction :: "'a fsst_scheme syscall_fun" where
  "sys_sigaction s =
     bindT (Done (argint 0 s)) (\<lambda>(signum, s).
     bindT (Done (argaddr 1 s)) (\<lambda>(act, s).
     bindT (Done (argaddr 2 s)) (\<lambda>(oldact, s).
     bindT (Done (sigaction signum act oldact s)) (\<lambda>(r, s). ret r s))))"

definition sys_sigret :: "'a fsst_scheme syscall_fun" where
  "sys_sigret s = bindT (Done (sigret s)) (ret 0)"

definition sys_bsem_alloc :: "'a fsst_scheme syscall_fun" where
  "sys_bsem_alloc s = bindT (Done (bsem_alloc s)) (\<lambda>(r, s). ret r s)"

definition sys_bsem_free :: "'a fsst_scheme syscall_fun" where
  "sys_bsem_free s = bindT (Done (argint 0 s)) (\<lambda>(i, s). bindT (Done (bsem_free i s)) (ret 0))"

definition sys_bsem_down :: "'a fsst_scheme syscall_fun" where
  "sys_bsem_down s = bindT (Done (argint 0 s)) (\<lambda>(i, s). bindT (bsem_down i s) (\<lambda>(_, s). ret 0 s))"

definition sys_bsem_up :: "'a fsst_scheme syscall_fun" where
  "sys_bsem_up s = bindT (Done (argint 0 s)) (\<lambda>(i, s). bindT (Done (bsem_up i s)) (ret 0))"

end
