(* ===== verification/Sysfile.thy ===== *)
theory Sysfile
  imports Sysproc
begin

text \<open>
  The system calls on files, \<^verbatim>\<open>kernel/sysfile.c\<close>. Every path ends the transaction that it
  has begun and drops the inodes it has locked, in the order of the code.
\<close>

section \<open>File descriptors\<close>

definition set_ofile :: "nat \<Rightarrow> nat \<Rightarrow> nat option \<Rightarrow> 'a procst_scheme \<Rightarrow> 'a procst_scheme" where
  "set_ofile p fd v s = upd_proc p (\<lambda>q. q\<lparr>p_ofile := (p_ofile q)(fd := v)\<rparr>) s"

text \<open>The descriptor and its file; \<open>None\<close> where the code returns \<^verbatim>\<open>-1\<close>.\<close>

definition argfd :: "int \<Rightarrow> 'a fsst_scheme \<Rightarrow> ((nat \<times> nat) option \<times> 'a fsst_scheme) outcome" where
  "argfd n s =
     bindO (argint n s) (\<lambda>(fd, s).
     if fd < 0 \<or> fd \<ge> int NOFILE then Ok (None, s)
     else
       bindO (curproc s) (\<lambda>(p, s).
       case p_ofile (procs s p) (nat fd) of None \<Rightarrow> Ok (None, s) | Some f \<Rightarrow> Ok (Some (nat fd, f), s)))"

definition fdalloc :: "nat \<Rightarrow> 'a fsst_scheme \<Rightarrow> (nat option \<times> 'a fsst_scheme) outcome" where
  "fdalloc f s =
     bindO (curproc s) (\<lambda>(p, s).
     case first_match (\<lambda>fd. p_ofile (procs s p) fd = None) NOFILE of
       None \<Rightarrow> Ok (None, s)
     | Some fd \<Rightarrow> Ok (Some fd, set_ofile p fd (Some f) s))"

definition sys_dup :: "'a fsst_scheme syscall_fun" where
  "sys_dup s =
     bindT (Done (argfd 0 s)) (\<lambda>(r, s).
     case r of None \<Rightarrow> ret (-1) s
     | Some (_, f) \<Rightarrow>
       bindT (Done (fdalloc f s)) (\<lambda>(r, s).
       case r of None \<Rightarrow> ret (-1) s
       | Some fd \<Rightarrow> bindT (Done (filedup f s)) (\<lambda>(_, s). ret (int fd) s)))"

definition sys_read :: "'a fsst_scheme syscall_fun" where
  "sys_read s =
     bindT (Done (argfd 0 s)) (\<lambda>(r, s).
     case r of None \<Rightarrow> ret (-1) s
     | Some (_, f) \<Rightarrow>
       bindT (Done (argint 2 s)) (\<lambda>(n, s).
       bindT (Done (argaddr 1 s)) (\<lambda>(p, s).
       bindT (fileread f p n s) (\<lambda>(r, s). ret r s))))"

definition sys_write :: "'a fsst_scheme syscall_fun" where
  "sys_write s =
     bindT (Done (argfd 0 s)) (\<lambda>(r, s).
     case r of None \<Rightarrow> ret (-1) s
     | Some (_, f) \<Rightarrow>
       bindT (Done (argint 2 s)) (\<lambda>(n, s).
       bindT (Done (argaddr 1 s)) (\<lambda>(p, s).
       bindT (filewrite f p n s) (\<lambda>(r, s). ret r s))))"

definition sys_close :: "'a fsst_scheme syscall_fun" where
  "sys_close s =
     bindT (Done (argfd 0 s)) (\<lambda>(r, s).
     case r of None \<Rightarrow> ret (-1) s
     | Some (fd, f) \<Rightarrow>
       bindT (Done (curproc s)) (\<lambda>(p, s).
       bindT (fileclose f (set_ofile p fd None s)) (\<lambda>(_, s). ret 0 s)))"

definition sys_fstat :: "(nat \<Rightarrow> uint8) \<Rightarrow> 'a fsst_scheme syscall_fun" where
  "sys_fstat pad s =
     bindT (Done (argfd 0 s)) (\<lambda>(r, s).
     case r of None \<Rightarrow> ret (-1) s
     | Some (_, f) \<Rightarrow>
       bindT (Done (argaddr 1 s)) (\<lambda>(st, s).
       bindT (filestat pad f st s) (\<lambda>(r, s). ret r s)))"

section \<open>Paths\<close>

definition end_ret :: "int \<Rightarrow> 'a fsst_scheme \<Rightarrow> ('a fsst_scheme, uint64 \<times> 'a fsst_scheme) thread" where
  "end_ret r s = bindT (end_op s) (\<lambda>(_, s). ret r s)"

text \<open>A path argument: its bytes up to the terminator, or \<open>None\<close> where \<open>argstr\<close> fails.\<close>

definition argpath :: "int \<Rightarrow> 'a fsst_scheme \<Rightarrow> (uint8 list option \<times> 'a fsst_scheme) outcome" where
  "argpath n s =
     bindO (argstr n (\<lambda>_. 0) (int MAXPATH) s) (\<lambda>(r, buf, s).
     Ok (if r < 0 then None else Some (takeWhile (\<lambda>c. c \<noteq> 0) (map buf [0..<MAXPATH])), s))"

abbreviation upd_nlink :: "nat \<Rightarrow> (uint16 \<Rightarrow> uint16) \<Rightarrow> 'a fsst_scheme \<Rightarrow> 'a fsst_scheme" where
  "upd_nlink ip f \<equiv> upd_inode ip (\<lambda>x. x\<lparr>i_nlink := f (i_nlink x)\<rparr>)"

definition sys_link_bad :: "nat \<Rightarrow> 'a fsst_scheme \<Rightarrow> ('a fsst_scheme, uint64 \<times> 'a fsst_scheme) thread" where
  "sys_link_bad ip s =
     bindT (ilock (Some ip) s) (\<lambda>s.
     bindT (iupdate ip (upd_nlink ip (\<lambda>n. n - 1) s)) (\<lambda>s.
     bindT (iunlockput ip s) (end_ret (-1))))"

definition sys_link :: "'a fsst_scheme syscall_fun" where
  "sys_link s =
     bindT (Done (argpath 0 s)) (\<lambda>(old, s).
     case old of None \<Rightarrow> ret (-1) s
     | Some old \<Rightarrow>
       bindT (Done (argpath 1 s)) (\<lambda>(new, s).
       case new of None \<Rightarrow> ret (-1) s
       | Some new \<Rightarrow>
         bindT (begin_op s) (\<lambda>(_, s).
         bindT (namei old s) (\<lambda>(r, s).
         case r of None \<Rightarrow> end_ret (-1) s
         | Some ip \<Rightarrow>
           bindT (ilock (Some ip) s) (\<lambda>s.
           if i_type (inodes s ip) = T_DIR then bindT (iunlockput ip s) (end_ret (-1))
           else
             bindT (iupdate ip (upd_nlink ip (\<lambda>n. n + 1) s)) (\<lambda>s.
             bindT (Done (iunlock (Some ip) s)) (\<lambda>s.
             bindT (nameiparent new (\<lambda>_. 0) s) (\<lambda>((r, name), s).
             case r of None \<Rightarrow> sys_link_bad ip s
             | Some dp \<Rightarrow>
               bindT (ilock (Some dp) s) (\<lambda>s.
               bindT (if i_dev (inodes s dp) \<noteq> i_dev (inodes s ip) then Done (Ok (-1, s))
                      else dirlink dp name (i_inum (inodes s ip)) s) (\<lambda>(r, s).
               if r < 0 then bindT (iunlockput dp s) (sys_link_bad ip)
               else bindT (iunlockput dp s) (\<lambda>s. bindT (iput ip s) (end_ret 0))))))))))))"

function isdirempty_from :: "nat \<Rightarrow> nat \<Rightarrow> 'a fsst_scheme \<Rightarrow> ('a fsst_scheme, bool \<times> 'a fsst_scheme) thread" where
  "isdirempty_from dp off s =
     (if off < unat (i_size (inodes s dp))
      then
        bindT (read_dirent dp off s) (\<lambda>((r, de), s).
        if r \<noteq> 16 then Done (Panic ''isdirempty: readi'')
        else if de_inum de \<noteq> 0 then Done (Ok (False, s))
        else isdirempty_from dp (off + 16) s)
      else Done (Ok (True, s)))"
  by pat_completeness auto
termination
proof (relation "measure (\<lambda>(dp, off, s). 2 ^ 32 - off)", goal_cases)
  case (2 dp off s)
  have "unat (i_size (inodes s dp)) < 2 ^ 32" using unsigned_less [of "i_size (inodes s dp)", where ?'a = nat] by simp
  with 2 show ?case by simp
qed simp

declare isdirempty_from.simps [simp del]

definition isdirempty :: "nat \<Rightarrow> 'a fsst_scheme \<Rightarrow> ('a fsst_scheme, bool \<times> 'a fsst_scheme) thread" where
  "isdirempty dp s = isdirempty_from dp (2 * 16) s"

definition sys_unlink_bad :: "nat \<Rightarrow> 'a fsst_scheme \<Rightarrow> ('a fsst_scheme, uint64 \<times> 'a fsst_scheme) thread" where
  "sys_unlink_bad dp s = bindT (iunlockput dp s) (end_ret (-1))"

text \<open>\<open>sys_unlink\<close> once the entry at \<open>off\<close> of \<open>dp\<close> is known to name \<open>ip\<close>, both locked.\<close>

definition unlink_entry :: "nat \<Rightarrow> nat \<Rightarrow> nat \<Rightarrow> 'a fsst_scheme \<Rightarrow> ('a fsst_scheme, uint64 \<times> 'a fsst_scheme) thread" where
  "unlink_entry dp ip off s =
     bindT (writei dp (Io_local (\<lambda>_. 0) 0) (of_nat off) 16 s) (\<lambda>(n, s).
     if n \<noteq> 16 then Done (Panic ''unlink: writei'')
     else
       bindT (if i_type (inodes s ip) = T_DIR then iupdate dp (upd_nlink dp (\<lambda>n. n - 1) s) else Done (Ok s)) (\<lambda>s.
       bindT (iunlockput dp s) (\<lambda>s.
       bindT (iupdate ip (upd_nlink ip (\<lambda>n. n - 1) s)) (\<lambda>s.
       bindT (iunlockput ip s) (end_ret 0)))))"

definition sys_unlink :: "'a fsst_scheme syscall_fun" where
  "sys_unlink s =
     bindT (Done (argpath 0 s)) (\<lambda>(path, s).
     case path of None \<Rightarrow> ret (-1) s
     | Some path \<Rightarrow>
       bindT (begin_op s) (\<lambda>(_, s).
       bindT (nameiparent path (\<lambda>_. 0) s) (\<lambda>((r, name), s).
       case r of None \<Rightarrow> end_ret (-1) s
       | Some dp \<Rightarrow>
         bindT (ilock (Some dp) s) (\<lambda>s.
         if namecmp name (cstring ''.'') = 0 \<or> namecmp name (cstring ''..'') = 0 then sys_unlink_bad dp s
         else
           bindT (dirlookup dp name s) (\<lambda>(r, s).
           case r of None \<Rightarrow> sys_unlink_bad dp s
           | Some (ip, off) \<Rightarrow>
             bindT (ilock (Some ip) s) (\<lambda>s.
             if sint (i_nlink (inodes s ip)) < 1 then Done (Panic ''unlink: nlink < 1'')
             else
               bindT (if i_type (inodes s ip) = T_DIR then isdirempty ip s else Done (Ok (True, s))) (\<lambda>(can, s).
               if \<not> can then bindT (iunlockput ip s) (sys_unlink_bad dp)
               else unlink_entry dp ip off s)))))))"

text \<open>\<open>create\<close> returns the locked inode, or \<open>None\<close> for the code's null pointer.\<close>

definition create_new :: "nat \<Rightarrow> chars \<Rightarrow> uint16 \<Rightarrow> uint16 \<Rightarrow> uint16 \<Rightarrow> 'a fsst_scheme \<Rightarrow>
    ('a fsst_scheme, nat option \<times> 'a fsst_scheme) thread" where
  "create_new dp name type major minor s =
     bindT (ialloc (i_dev (inodes s dp)) type s) (\<lambda>(ip, s).
     bindT (ilock (Some ip) s) (\<lambda>s.
     bindT (iupdate ip (upd_inode ip (\<lambda>x. x\<lparr>i_major := major, i_minor := minor, i_nlink := 1\<rparr>) s)) (\<lambda>s.
     bindT (if type = T_DIR
            then
              bindT (iupdate dp (upd_nlink dp (\<lambda>n. n + 1) s)) (\<lambda>s.
              bindT (dirlink ip (cstring ''.'') (i_inum (inodes s ip)) s) (\<lambda>(r, s).
              if r < 0 then Done (Panic ''create dots'')
              else
                bindT (dirlink ip (cstring ''..'') (i_inum (inodes s dp)) s) (\<lambda>(r, s).
                if r < 0 then Done (Panic ''create dots'') else Done (Ok s))))
            else Done (Ok s)) (\<lambda>s.
     bindT (dirlink dp name (i_inum (inodes s ip)) s) (\<lambda>(r, s).
     if r < 0 then Done (Panic ''create: dirlink'')
     else bindT (iunlockput dp s) (\<lambda>s. Done (Ok (Some ip, s))))))))"

definition create :: "uint8 list \<Rightarrow> uint16 \<Rightarrow> uint16 \<Rightarrow> uint16 \<Rightarrow> 'a fsst_scheme \<Rightarrow>
    ('a fsst_scheme, nat option \<times> 'a fsst_scheme) thread" where
  "create path type major minor s =
     bindT (nameiparent path (\<lambda>_. 0) s) (\<lambda>((r, name), s).
     case r of None \<Rightarrow> Done (Ok (None, s))
     | Some dp \<Rightarrow>
       bindT (ilock (Some dp) s) (\<lambda>s.
       bindT (dirlookup dp name s) (\<lambda>(r, s).
       case r of
         Some (ip, _) \<Rightarrow>
           bindT (iunlockput dp s) (\<lambda>s.
           bindT (ilock (Some ip) s) (\<lambda>s.
           if type = T_FILE \<and> (i_type (inodes s ip) = T_FILE \<or> i_type (inodes s ip) = T_DEVICE) then Done (Ok (Some ip, s))
           else bindT (iunlockput ip s) (\<lambda>s. Done (Ok (None, s)))))
       | None \<Rightarrow> create_new dp name type major minor s)))"

definition O_RDONLY :: uint32 where [simp]: "O_RDONLY = 0"
definition O_WRONLY :: uint32 where [simp]: "O_WRONLY = 1"
definition O_RDWR :: uint32 where [simp]: "O_RDWR = 2"
definition O_CREATE :: uint32 where [simp]: "O_CREATE = 0x200"
definition O_TRUNC :: uint32 where [simp]: "O_TRUNC = 0x400"

text \<open>The first half of \<open>sys_open\<close>: the locked inode, or \<open>None\<close>.\<close>

definition open_inode :: "uint8 list \<Rightarrow> uint32 \<Rightarrow> 'a fsst_scheme \<Rightarrow> ('a fsst_scheme, nat option \<times> 'a fsst_scheme) thread" where
  "open_inode path omode s =
     (if omode AND O_CREATE \<noteq> 0 then create path T_FILE 0 0 s
      else
        bindT (namei path s) (\<lambda>(r, s).
        case r of None \<Rightarrow> Done (Ok (None, s))
        | Some ip \<Rightarrow>
          bindT (ilock (Some ip) s) (\<lambda>s.
          if i_type (inodes s ip) = T_DIR \<and> omode \<noteq> O_RDONLY
          then bindT (iunlockput ip s) (\<lambda>s. Done (Ok (None, s)))
          else Done (Ok (Some ip, s)))))"

text \<open>The second half: a file and a descriptor for the inode.\<close>

definition open_file :: "nat \<Rightarrow> uint32 \<Rightarrow> 'a fsst_scheme \<Rightarrow> ('a fsst_scheme, uint64 \<times> 'a fsst_scheme) thread" where
  "open_file ip omode s =
     bindT (Done (filealloc s)) (\<lambda>(f, s).
     case f of None \<Rightarrow> bindT (iunlockput ip s) (end_ret (-1))
     | Some f \<Rightarrow>
       bindT (Done (fdalloc f s)) (\<lambda>(fd, s).
       case fd of None \<Rightarrow> bindT (fileclose f s) (\<lambda>(_, s). bindT (iunlockput ip s) (end_ret (-1)))
       | Some fd \<Rightarrow>
         let s = (if i_type (inodes s ip) = T_DEVICE
                  then upd_file f (\<lambda>x. x\<lparr>f_type := FD_DEVICE, f_major := i_major (inodes s ip)\<rparr>) s
                  else upd_file f (\<lambda>x. x\<lparr>f_type := FD_INODE, f_off := 0\<rparr>) s);
             s = upd_file f (\<lambda>x. x\<lparr>f_ip := Some ip, f_readable := (omode AND O_WRONLY = 0),
                   f_writable := (omode AND O_WRONLY \<noteq> 0 \<or> omode AND O_RDWR \<noteq> 0)\<rparr>) s in
         bindT (if omode AND O_TRUNC \<noteq> 0 \<and> i_type (inodes s ip) = T_FILE then itrunc ip s else Done (Ok s)) (\<lambda>s.
         bindT (Done (iunlock (Some ip) s)) (end_ret (int fd)))))"

definition sys_open :: "'a fsst_scheme syscall_fun" where
  "sys_open s =
     bindT (Done (argpath 0 s)) (\<lambda>(path, s).
     case path of None \<Rightarrow> ret (-1) s
     | Some path \<Rightarrow>
       bindT (Done (argint 1 s)) (\<lambda>(omode, s).
       bindT (begin_op s) (\<lambda>(_, s).
       bindT (open_inode path (word_of_int omode) s) (\<lambda>(r, s).
       case r of None \<Rightarrow> end_ret (-1) s
       | Some ip \<Rightarrow>
         if i_type (inodes s ip) = T_DEVICE \<and> (sint (i_major (inodes s ip)) < 0 \<or> sint (i_major (inodes s ip)) \<ge> int NDEV)
         then bindT (iunlockput ip s) (end_ret (-1))
         else open_file ip (word_of_int omode) s))))"

definition sys_mkdir :: "'a fsst_scheme syscall_fun" where
  "sys_mkdir s =
     bindT (begin_op s) (\<lambda>(_, s).
     bindT (Done (argpath 0 s)) (\<lambda>(path, s).
     case path of None \<Rightarrow> end_ret (-1) s
     | Some path \<Rightarrow>
       bindT (create path T_DIR 0 0 s) (\<lambda>(r, s).
       case r of None \<Rightarrow> end_ret (-1) s
       | Some ip \<Rightarrow> bindT (iunlockput ip s) (end_ret 0))))"

definition sys_mknod :: "'a fsst_scheme syscall_fun" where
  "sys_mknod s =
     bindT (begin_op s) (\<lambda>(_, s).
     bindT (Done (argpath 0 s)) (\<lambda>(path, s).
     case path of None \<Rightarrow> end_ret (-1) s
     | Some path \<Rightarrow>
       bindT (Done (argint 1 s)) (\<lambda>(major, s).
       bindT (Done (argint 2 s)) (\<lambda>(minor, s).
       bindT (create path T_DEVICE (word_of_int major) (word_of_int minor) s) (\<lambda>(r, s).
       case r of None \<Rightarrow> end_ret (-1) s
       | Some ip \<Rightarrow> bindT (iunlockput ip s) (end_ret 0))))))"

definition sys_chdir :: "'a fsst_scheme syscall_fun" where
  "sys_chdir s =
     bindT (Done (curproc s)) (\<lambda>(p, s).
     bindT (begin_op s) (\<lambda>(_, s).
     bindT (Done (argpath 0 s)) (\<lambda>(path, s).
     case path of None \<Rightarrow> end_ret (-1) s
     | Some path \<Rightarrow>
       bindT (namei path s) (\<lambda>(r, s).
       case r of None \<Rightarrow> end_ret (-1) s
       | Some ip \<Rightarrow>
         bindT (ilock (Some ip) s) (\<lambda>s.
         if i_type (inodes s ip) \<noteq> T_DIR then bindT (iunlockput ip s) (end_ret (-1))
         else
           bindT (Done (iunlock (Some ip) s)) (\<lambda>s.
           bindT (iput_ptr (p_cwd (procs s p)) s) (\<lambda>s.
           bindT (end_op s) (\<lambda>(_, s).
           ret 0 (upd_proc p (\<lambda>q. q\<lparr>p_cwd := Some ip\<rparr>) s)))))))))"

section \<open>exec and pipe\<close>

text \<open>\<open>fetchstr\<close> into a page of the kernel.\<close>

definition fetchstr_page :: "uint64 \<Rightarrow> uint64 \<Rightarrow> 'a fsst_scheme \<Rightarrow> (int \<times> 'a fsst_scheme) outcome" where
  "fetchstr_page addr pa s =
     bindO (fetchstr addr (kstr pa s) (uint PGSIZE) s) (\<lambda>(r, buf, s).
     Ok (r, s\<lparr>mem := mwrite (mem s) pa (map buf [0..<unat PGSIZE])\<rparr>))"

text \<open>The loop that fetches the arguments, with \<open>k\<close> entries of \<open>argv\<close> left: whether it got to the null pointer.\<close>

primrec exec_argv :: "nat \<Rightarrow> uint64 \<Rightarrow> uint64 list \<Rightarrow> 'a fsst_scheme \<Rightarrow> ((bool \<times> uint64 list) \<times> 'a fsst_scheme) outcome" where
  "exec_argv 0 uargv argv s = Ok ((False, argv), s)"
| "exec_argv (Suc k) uargv argv s =
     bindO (fetchaddr (uargv + of_nat (8 * length argv)) s) (\<lambda>(r, uarg, s).
     if r < 0 then Ok ((False, argv), s)
     else if uarg = 0 then Ok ((True, argv), s)
     else
       bindO (kalloc s) (\<lambda>(pa, s).
       if pa = 0 then Ok ((False, argv), s)
       else
         bindO (fetchstr_page uarg pa s) (\<lambda>(r, s).
         if r < 0 then Ok ((False, argv @ [pa]), s) else exec_argv k uargv (argv @ [pa]) s)))"

primrec free_argv :: "uint64 list \<Rightarrow> 'a fsst_scheme \<Rightarrow> 'a fsst_scheme outcome" where
  "free_argv [] s = Ok s"
| "free_argv (a # as) s = bindO (kfree a s) (free_argv as)"

definition sys_exec :: "'a fsst_scheme syscall_fun" where
  "sys_exec s =
     bindT (Done (argpath 0 s)) (\<lambda>(path, s).
     case path of None \<Rightarrow> ret (-1) s
     | Some path \<Rightarrow>
       bindT (Done (argaddr 1 s)) (\<lambda>(uargv, s).
       bindT (Done (exec_argv MAXARG uargv [] s)) (\<lambda>((ok, argv), s).
       if \<not> ok then bindT (Done (free_argv argv s)) (ret (-1))
       else
         bindT (exec path argv s) (\<lambda>(r, s).
         bindT (Done (free_argv argv s)) (ret r)))))"

definition pipe_fail :: "nat \<Rightarrow> nat \<Rightarrow> 'a fsst_scheme \<Rightarrow> ('a fsst_scheme, uint64 \<times> 'a fsst_scheme) thread" where
  "pipe_fail rfile wfile s = bindT (fileclose rfile s) (\<lambda>(_, s). bindT (fileclose wfile s) (\<lambda>(_, s). ret (-1) s))"

definition sys_pipe :: "'a fsst_scheme syscall_fun" where
  "sys_pipe s =
     bindT (Done (curproc s)) (\<lambda>(p, s).
     bindT (Done (argaddr 0 s)) (\<lambda>(fdarray, s).
     bindT (pipealloc s) (\<lambda>(r, s).
     case r of None \<Rightarrow> ret (-1) s
     | Some (rfile, wfile) \<Rightarrow>
       bindT (Done (fdalloc rfile s)) (\<lambda>(r, s).
       case r of None \<Rightarrow> pipe_fail rfile wfile s
       | Some fd0 \<Rightarrow>
         bindT (Done (fdalloc wfile s)) (\<lambda>(r, s).
         case r of None \<Rightarrow> pipe_fail rfile wfile (set_ofile p fd0 None s)
         | Some fd1 \<Rightarrow>
           let put = (\<lambda>fd a s. copyout (p_pagetable (procs s p)) a (byte_array (le_enc 4 (of_nat fd :: uint32))) 4 s);
               fail = (\<lambda>s. pipe_fail rfile wfile (set_ofile p fd1 None (set_ofile p fd0 None s))) in
           bindT (Done (put fd0 fdarray s)) (\<lambda>(r, s).
           if r < 0 then fail s
           else
             bindT (Done (put fd1 (fdarray + 4) s)) (\<lambda>(r, s).
             if r < 0 then fail s else ret 0 s)))))))"

end
