(* ===== verification/Trap.thy ===== *)
theory Trap
  imports Sysfile
begin

text \<open>
  The dispatch of system calls (\<^verbatim>\<open>kernel/syscall.c\<close>), traps from user and kernel code
  (\<^verbatim>\<open>kernel/trap.c\<close>), the interrupt controller (\<^verbatim>\<open>kernel/plic.c\<close>), the first run of a new
  process (\<open>forkret\<close> of \<^verbatim>\<open>kernel/proc.c\<close>) and the boot sequence (\<^verbatim>\<open>kernel/main.c\<close>).
  \<open>pad\<close> are the bytes that the padding of a \<^verbatim>\<open>struct stat\<close> on the kernel stack happens to
  hold, \<open>pages\<close> is the address of the driver's queue memory.
\<close>

section \<open>System calls\<close>

definition sys_table :: "(nat \<Rightarrow> uint8) \<Rightarrow> int \<Rightarrow> 'a trapst_scheme syscall_fun option" where
  "sys_table pad num =
     (if num = 1 then Some sys_fork else if num = 2 then Some sys_exit else if num = 3 then Some sys_wait
      else if num = 4 then Some sys_pipe else if num = 5 then Some sys_read else if num = 6 then Some sys_kill
      else if num = 7 then Some sys_exec else if num = 8 then Some (sys_fstat pad) else if num = 9 then Some sys_chdir
      else if num = 10 then Some sys_dup else if num = 11 then Some sys_getpid else if num = 12 then Some sys_sbrk
      else if num = 13 then Some sys_sleep else if num = 14 then Some sys_uptime else if num = 15 then Some sys_open
      else if num = 16 then Some sys_write else if num = 17 then Some sys_mknod else if num = 18 then Some sys_unlink
      else if num = 19 then Some sys_link else if num = 20 then Some sys_mkdir else if num = 21 then Some sys_close
      else if num = 22 then Some sys_sigprocmask else if num = 23 then Some sys_sigaction else if num = 24 then Some sys_sigret
      else if num = 25 then Some sys_bsem_alloc else if num = 26 then Some sys_bsem_free
      else if num = 27 then Some sys_bsem_down else if num = 28 then Some sys_bsem_up else None)"

definition set_a0 :: "nat \<Rightarrow> uint64 \<Rightarrow> 'a procst_scheme \<Rightarrow> 'a procst_scheme" where
  "set_a0 p v s = upd_tframe (p_trapframe (procs s p)) (\<lambda>t. t\<lparr>tf_a0 := v\<rparr>) s"

definition syscall :: "(nat \<Rightarrow> uint8) \<Rightarrow> 'a trapst_scheme \<Rightarrow> ('a trapst_scheme, 'a trapst_scheme) thread" where
  "syscall pad s =
     bindT (Done (curproc s)) (\<lambda>(p, s).
     let num = sint (ucast (tf_a7 (tframes s (p_trapframe (procs s p)))) :: uint32) in
     case sys_table pad num of
       Some f \<Rightarrow> bindT (f s) (\<lambda>(v, s). Done (Ok (set_a0 p v s)))
     | None \<Rightarrow>
         bindT (Done (printf (Some (''%d %s: unknown sys call %d'' @ [CHR 10]))
           [Arg_int (p_pid (procs s p)), Arg_str (Some (name_string (p_name (procs s p)))), Arg_int num] s)) (\<lambda>s.
         Done (Ok (set_a0 p (- 1) s))))"

section \<open>Interrupt controller\<close>

definition UART0_IRQ :: nat where [simp]: "UART0_IRQ = 10"
definition VIRTIO0_IRQ :: nat where [simp]: "VIRTIO0_IRQ = 1"

definition plic_write :: "nat \<Rightarrow> uint32 \<Rightarrow> 'a trapst_scheme \<Rightarrow> 'a trapst_scheme" where
  "plic_write off v s = s\<lparr>plic_log := plic_log s @ [(off, v)]\<rparr>"

definition plicinit :: "'a trapst_scheme \<Rightarrow> 'a trapst_scheme" where
  "plicinit s = plic_write (VIRTIO0_IRQ * 4) 1 (plic_write (UART0_IRQ * 4) 1 s)"

definition plicinithart :: "'a trapst_scheme \<Rightarrow> 'a trapst_scheme" where
  "plicinithart s =
     (let hart = cpuid s;
          s = plic_write (0x2080 + hart * 0x100) (push_bit UART0_IRQ 1 OR push_bit VIRTIO0_IRQ 1) s in
      plic_write (0x201000 + hart * 0x2000) 0 s)"

text \<open>The claim register hands out the next interrupt, or 0; writing it completes one.\<close>

definition plic_claim :: "'a trapst_scheme \<Rightarrow> uint32 \<times> 'a trapst_scheme" where
  "plic_claim s = (case plic_pending s of [] \<Rightarrow> (0, s) | irq # irqs \<Rightarrow> (irq, s\<lparr>plic_pending := irqs\<rparr>))"

definition plic_complete :: "uint32 \<Rightarrow> 'a trapst_scheme \<Rightarrow> 'a trapst_scheme" where
  "plic_complete irq s = s\<lparr>plic_done := plic_done s @ [irq]\<rparr>"

section \<open>Interrupts\<close>

definition trapinit :: "'a trapst_scheme \<Rightarrow> 'a trapst_scheme" where
  "trapinit s = initlock L_ticks ''time'' s"

definition trapinithart :: "'a trapst_scheme \<Rightarrow> 'a trapst_scheme" where
  "trapinithart s = s\<lparr>stvec := ksym s Sym_kernelvec\<rparr>"

definition clockintr :: "'a trapst_scheme \<Rightarrow> 'a trapst_scheme outcome" where
  "clockintr s =
     bindO (acquire L_ticks s) (\<lambda>s.
     bindO (wakeup Ch_ticks (s\<lparr>ticks := ticks s + 1\<rparr>)) (release L_ticks))"

definition devintr :: "'a trapst_scheme \<Rightarrow> (nat \<times> 'a trapst_scheme) outcome" where
  "devintr s =
     (if scause s AND 0x8000000000000000 \<noteq> 0 \<and> scause s AND 0xff = 9
      then
        let (irq, s) = plic_claim s in
        bindO (if irq = of_nat UART0_IRQ then uartintr s
               else if irq = of_nat VIRTIO0_IRQ then virtio_disk_intr s
               else if irq \<noteq> 0 then printf (Some (''unexpected interrupt irq=%d'' @ [CHR 10])) [Arg_int (sint irq)] s
               else Ok s) (\<lambda>s.
        Ok (1, if irq \<noteq> 0 then plic_complete irq s else s))
      else if scause s = 0x8000000000000001
      then
        bindO (if cpuid s = 0 then clockintr s else Ok s) (\<lambda>s.
        Ok (2, s\<lparr>sip := sip s AND NOT 2\<rparr>))
      else Ok (0, s))"

definition yield :: "'a procst_scheme \<Rightarrow> ('a procst_scheme, 'a procst_scheme) thread" where
  "yield s = bindT (Done (yield_begin s)) (\<lambda>(p, intena, s). Switch s (\<lambda>s. Done (yield_end p intena s)))"

section \<open>Traps\<close>

text \<open>
  \<open>usertrapret\<close> ends with a jump to the trampoline at the returned address, with the
  returned page-table register as argument.
\<close>

definition usertrapret :: "'a trapst_scheme \<Rightarrow> ('a trapst_scheme, (uint64 \<times> uint64) \<times> 'a trapst_scheme) thread" where
  "usertrapret s =
     bindT (Done (curproc s)) (\<lambda>(p, s).
     bindT (signalHandler s) (\<lambda>s.
     let s = intr_off s;
         s = s\<lparr>stvec := TRAMPOLINE + (ksym s Sym_uservec - trampoline s)\<rparr>;
         s = upd_tframe (p_trapframe (procs s p)) (\<lambda>t. t\<lparr>tf_kernel_satp := satp s, tf_kernel_sp := p_kstack (procs s p) + PGSIZE,
               tf_kernel_trap := ksym s Sym_usertrap, tf_kernel_hartid := of_nat (tp s)\<rparr>) s;
         s = s\<lparr>sstatus := sstatus s AND NOT SSTATUS_SPP OR SSTATUS_SPIE\<rparr>;
         s = s\<lparr>sepc := tf_epc (tframes s (p_trapframe (procs s p)))\<rparr> in
     Done (Ok ((TRAMPOLINE + (ksym s Sym_userret - trampoline s), MAKE_SATP (p_pagetable (procs s p))), s))))"

text \<open>The middle of \<open>usertrap\<close>: system call, interrupt or fault, and the number of the device.\<close>

definition usertrap_cause :: "(nat \<Rightarrow> uint8) \<Rightarrow> nat \<Rightarrow> 'a trapst_scheme \<Rightarrow> ('a trapst_scheme, nat \<times> 'a trapst_scheme) thread" where
  "usertrap_cause pad p s =
     (if scause s = 8
      then
        if p_killed (procs s p) then exit (-1) s
        else
          let s = upd_tframe (p_trapframe (procs s p)) (\<lambda>t. t\<lparr>tf_epc := tf_epc t + 4\<rparr>) s in
          bindT (syscall pad (intr_on s)) (\<lambda>s. Done (Ok (0, s)))
      else
        bindT (Done (devintr s)) (\<lambda>(which_dev, s).
        if which_dev \<noteq> 0 then Done (Ok (which_dev, s))
        else
          bindT (Done (printf (Some (''usertrap(): unexpected scause %p pid=%d'' @ [CHR 10]))
            [Arg_ptr (scause s), Arg_int (p_pid (procs s p))] s)) (\<lambda>s.
          bindT (Done (printf (Some (''            sepc=%p stval=%p'' @ [CHR 10])) [Arg_ptr (sepc s), Arg_ptr (stval s)] s)) (\<lambda>s.
          Done (Ok (0, upd_proc p (\<lambda>q. q\<lparr>p_killed := True\<rparr>) s))))))"

definition usertrap :: "(nat \<Rightarrow> uint8) \<Rightarrow> 'a trapst_scheme \<Rightarrow> ('a trapst_scheme, (uint64 \<times> uint64) \<times> 'a trapst_scheme) thread" where
  "usertrap pad s =
     (if sstatus s AND SSTATUS_SPP \<noteq> 0 then Done (Panic ''usertrap: not from user mode'')
      else
        bindT (Done (curproc (s\<lparr>stvec := ksym s Sym_kernelvec\<rparr>))) (\<lambda>(p, s).
        let s = upd_tframe (p_trapframe (procs s p)) (\<lambda>t. t\<lparr>tf_epc := sepc s\<rparr>) s in
        bindT (usertrap_cause pad p s) (\<lambda>(which_dev, s).
        if p_killed (procs s p) then exit (-1) s
        else
          bindT (if which_dev = 2 then yield s else Done (Ok s)) usertrapret)))"

definition kerneltrap :: "'a trapst_scheme \<Rightarrow> ('a trapst_scheme, 'a trapst_scheme) thread" where
  "kerneltrap s =
     (let sepc0 = sepc s; sstatus0 = sstatus s; scause0 = scause s in
      if sstatus0 AND SSTATUS_SPP = 0 then Done (Panic ''kerneltrap: not from supervisor mode'')
      else if intr_get s then Done (Panic ''kerneltrap: interrupts enabled'')
      else
        bindT (Done (devintr s)) (\<lambda>(which_dev, s).
        if which_dev = 0
        then
          bindT (Done (printf (Some (''scause %p'' @ [CHR 10])) [Arg_ptr scause0] s)) (\<lambda>s.
          bindT (Done (printf (Some (''sepc=%p stval=%p'' @ [CHR 10])) [Arg_ptr (sepc s), Arg_ptr (stval s)] s)) (\<lambda>s.
          Done (Panic ''kerneltrap'')))
        else
          bindT (Done (myproc s)) (\<lambda>(p, s).
          bindT (if which_dev = 2 \<and> p \<noteq> None \<and> p_state (procs s (the p)) = RUNNING then yield s else Done (Ok s)) (\<lambda>s.
          Done (Ok (s\<lparr>sepc := sepc0, sstatus := sstatus0\<rparr>))))))"

text \<open>A new process starts here, with its lock still held by the scheduler.\<close>

definition forkret :: "'a trapst_scheme \<Rightarrow> ('a trapst_scheme, (uint64 \<times> uint64) \<times> 'a trapst_scheme) thread" where
  "forkret s =
     bindT (Done (curproc s)) (\<lambda>(p, s).
     bindT (Done (release (L_proc p) s)) (\<lambda>s.
     bindT (if first_forkret s then fsinit ROOTDEV (s\<lparr>first_forkret := False\<rparr>) else Done (Ok s)) usertrapret))"

section \<open>Boot\<close>

text \<open>\<open>main\<close> up to the call of the scheduler.\<close>

definition main :: "uint64 \<Rightarrow> 'a trapst_scheme \<Rightarrow> ('a trapst_scheme, 'a trapst_scheme) thread" where
  "main pages s =
     (if cpuid s = 0
      then
        let s = printfinit (consoleinit s) in
        bindT (Done (printf (Some [CHR 10]) [] s)) (\<lambda>s.
        bindT (Done (printf (Some (''xv6 kernel is booting'' @ [CHR 10])) [] s)) (\<lambda>s.
        bindT (Done (printf (Some [CHR 10]) [] s)) (\<lambda>s.
        bindT (Done (kinit s)) (\<lambda>s.
        bindT (Done (kvminit s)) (\<lambda>s.
        let s = fileinit (iinit (binit (plicinithart (plicinit (trapinithart (trapinit (procinit (kvminithart s)))))))) in
        bindT (Done (virtio_disk_init pages s)) (\<lambda>s.
        bindT (userinit s) (\<lambda>s.
        Done (Ok (s\<lparr>started := True\<rparr>)))))))))
      else if \<not> started s then Done Spin
      else
        bindT (Done (printf (Some (''hart %d starting'' @ [CHR 10])) [Arg_int (int (cpuid s))] s)) (\<lambda>s.
        Done (Ok (plicinithart (trapinithart (kvminithart s))))))"

end
