(* ===== verification/Disk.thy ===== *)
theory Disk
  imports Virtio
begin

text \<open>
  What the disk driver achieves together with the disk, the interrupt handler and the
  scheduler: a call of \<open>virtio_disk_rw\<close> returns, and the block has been transferred. The
  disk is a parameter; \<open>serve\<close> is what the virtio specification says it does with the next
  available request. The CPU that called is idle until the disk interrupts.
\<close>

section \<open>Running a thread\<close>

text \<open>
  \<open>runs turn I t m\<close>: the thread ends with outcome \<open>m\<close> when \<open>turn\<close> is what happens between
  a switch to the scheduler and the switch back, and \<open>I\<close> holds at every switch and at every
  switch back. \<open>halts turn t u\<close>: a machine that loses its power while it runs the thread can
  have been in state \<open>u\<close> at its last switch or switch back.
\<close>

inductive runs :: "('s \<Rightarrow> 's outcome) \<Rightarrow> ('s \<Rightarrow> bool) \<Rightarrow> ('s, 'v) thread \<Rightarrow> 'v outcome \<Rightarrow> bool" for turn I where
  runs_done: "runs turn I (Done m) m"
| runs_switch: "I s \<Longrightarrow> turn s = Ok s' \<Longrightarrow> I s' \<Longrightarrow> runs turn I (k s') m \<Longrightarrow> runs turn I (Switch s k) m"

inductive halts :: "('s \<Rightarrow> 's outcome) \<Rightarrow> ('s, 'v) thread \<Rightarrow> 's \<Rightarrow> bool" for turn where
  halts_before: "halts turn (Switch s k) s"
| halts_after: "turn s = Ok s' \<Longrightarrow> halts turn (Switch s k) s'"
| halts_later: "turn s = Ok s' \<Longrightarrow> halts turn (k s') u \<Longrightarrow> halts turn (Switch s k) u"

inductive_simps runs_Done [simp]: "runs turn I (Done m') m"
inductive_simps runs_Switch: "runs turn I (Switch s k) m"
inductive_cases halts_DoneE: "halts turn (Done m) u"
inductive_cases halts_SwitchE: "halts turn (Switch s k) u"

lemma runs_bindT:
  assumes "runs turn I t (Ok v)" and "runs turn I (f v) m"
  shows "runs turn I (bindT t f) m"
  using assms by (induction t "Ok v" rule: runs.induct) (auto intro: runs.intros)

lemma runs_weaken:
  assumes "runs turn I t m" and "\<And>u. I u \<Longrightarrow> J u"
  shows "runs turn J t m"
  using assms by (induction rule: runs.induct) (auto intro: runs.intros)

lemma runs_unique: "runs turn I t m \<Longrightarrow> runs turn J t m' \<Longrightarrow> m = m'"
  by (induction rule: runs.induct) (auto simp: runs_Switch)

lemma runs_halts:
  assumes "runs turn I t m" and "halts turn t u"
  shows "I u"
  using assms by (induction arbitrary: u rule: runs.induct) (auto elim: halts_DoneE halts_SwitchE)

section \<open>The disk\<close>

definition serve :: "'a fsst_scheme \<Rightarrow> 'a fsst_scheme" where
  "serve s =
     (let d = vdisk s;
          h = unat (vd_avail_ring d (unat (vd_seen s) mod NUM));
          d0 = vd_desc d h; d1 = vd_desc d (unat (d_next d0)); d2 = vd_desc d (unat (d_next d1)) in
      case (d_addr d0, d_addr d1, d_addr d2) of
        (DA_op k, DA_data b, DA_status i) \<Rightarrow>
          let base = 512 * unat (req_sector (vd_ops d k)); len = unat (d_len d1) in
          s\<lparr>bufs := (if req_type (vd_ops d k) = VIRTIO_BLK_T_IN
                then (bufs s)(b := (bufs s b)\<lparr>b_data := (\<lambda>j. if j < len then disk_img s (base + j) else b_data (bufs s b) j)\<rparr>)
                else bufs s),
             vdisk := d\<lparr>vd_info_status := (vd_info_status d)(i := 0),
                vd_used_ring := (vd_used_ring d)(unat (vd_used_dev_idx d) mod NUM := of_nat h),
                vd_used_dev_idx := vd_used_dev_idx d + 1\<rparr>,
             vd_seen := vd_seen s + 1,
             disk_img := (if req_type (vd_ops d k) = VIRTIO_BLK_T_IN then disk_img s
                else (\<lambda>a. if base \<le> a \<and> a < base + len then b_data (bufs s b) (a - base) else disk_img s a))\<rparr>
      | _ \<Rightarrow> s)"

definition virtio_blk_device :: "('a fsst_scheme \<Rightarrow> 'a fsst_scheme) \<Rightarrow> bool" where
  "virtio_blk_device dev \<longleftrightarrow> (\<forall>s. vd_seen s \<noteq> vd_avail_idx (vdisk s) \<longrightarrow> dev s = serve s)"

text \<open>
  Between a switch and the switch back: the scheduler drops the process's lock, the disk
  serves a request and interrupts, and the scheduler picks the process if it is runnable.
\<close>

definition disk_turn :: "('a fsst_scheme \<Rightarrow> 'a fsst_scheme) \<Rightarrow> nat \<Rightarrow> 'a fsst_scheme \<Rightarrow> 'a fsst_scheme outcome" where
  "disk_turn dev p s =
     bindO (scheduler_back p s) (\<lambda>s.
     bindO (virtio_disk_intr (dev s)) (\<lambda>s.
     bindO (scheduler_try p s) (\<lambda>(sw, s). if sw then Ok s else Spin)))"

section \<open>States between requests\<close>

definition calm :: "nat \<Rightarrow> 'a fsst_scheme \<Rightarrow> bool" where
  "calm p s \<longleftrightarrow> cpu_ok s \<and> c_proc (mycpu s) = Some p \<and> c_noff (mycpu s) = 0 \<and> (\<forall>lk. lock_free lk s) \<and> p < NPROC"

definition disk_idle :: "'a fsst_scheme \<Rightarrow> bool" where
  "disk_idle s \<longleftrightarrow> (\<forall>i < NUM. vd_free (vdisk s) i) \<and> vd_seen s = vd_avail_idx (vdisk s) \<and>
     vd_used_idx (vdisk s) = vd_used_dev_idx (vdisk s)"

text \<open>Processes keep everything but their state and channel.\<close>

definition same_procs :: "(nat \<Rightarrow> proc) \<Rightarrow> (nat \<Rightarrow> proc) \<Rightarrow> bool" where
  "same_procs ps ps' \<longleftrightarrow> (\<forall>i. ps' i = (ps i)\<lparr>p_state := p_state (ps' i), p_chan := p_chan (ps' i)\<rparr>)"

lemma same_procs_refl [simp]: "same_procs ps ps"
  by (simp add: same_procs_def)

lemma same_procs_trans: "same_procs ps qs \<Longrightarrow> same_procs qs rs \<Longrightarrow> same_procs ps rs"
  unfolding same_procs_def by (metis (no_types, lifting) proc.update_convs(1) proc.update_convs(2) proc.surjective)

lemma same_procs_woken: "same_procs ps (woken ch me A ps)"
  by (simp add: same_procs_def woken_def)

text \<open>What a disk operation may change besides the buffer and the disk.\<close>

definition disk_frame :: "'a fsst_scheme \<Rightarrow> 'a fsst_scheme \<Rightarrow> bool" where
  "disk_frame s s' \<longleftrightarrow> same_procs (procs s) (procs s') \<and>
     s' = s\<lparr>cpus := cpus s', procs := procs s', bufs := bufs s', vdisk := vdisk s', vd_seen := vd_seen s',
       vmmio_log := vmmio_log s', disk_img := disk_img s'\<rparr>"

section \<open>Steps of a request\<close>

lemma vd_simps [lock_simps]:
  "upd_vd f (acquired lk s) = acquired lk (upd_vd f s)" "upd_vd f (tidy s) = tidy (upd_vd f s)"
  "lock_free lk (upd_vd f s) = lock_free lk s" "cpu_ok (upd_vd f s) = cpu_ok s" "mycpu (upd_vd f s) = mycpu s"
  "intr_get (upd_vd f s) = intr_get s"
  "vmmio_write r v (acquired lk s) = acquired lk (vmmio_write r v s)" "vmmio_write r v (tidy s) = tidy (vmmio_write r v s)"
  "lock_free lk (vmmio_write r v s) = lock_free lk s" "cpu_ok (vmmio_write r v s) = cpu_ok s"
  "mycpu (vmmio_write r v s) = mycpu s" "intr_get (vmmio_write r v s) = intr_get s"
  by (simp_all add: upd_vd_def vmmio_write_def lock_simps)

lemma fs_table_intr [lock_simps]:
  "intr_get (upd_buf b fb s) = intr_get s" "intr_get (upd_sl k fl s) = intr_get s" "intr_get (upd_inode i f' s) = intr_get s"
  "intr_get (upd_file j g' s) = intr_get s" "intr_get (upd_pipe a h' s) = intr_get s"
  by (simp_all add: upd_buf_def upd_sl_def upd_inode_def upd_file_def upd_pipe_def lock_simps)

lemma upd_buf_sel [simp]:
  "vd_seen (upd_buf b f s) = vd_seen s" "sb (upd_buf b f s) = sb s" "inodes (upd_buf b f s) = inodes s"
  "files (upd_buf b f s) = files s" "pipes (upd_buf b f s) = pipes s" "mem (upd_buf b f s) = mem s"
  by (simp_all add: upd_buf_def)

lemma upd_vd_sel [simp]:
  "vdisk (upd_vd f s) = f (vdisk s)" "bufs (upd_vd f s) = bufs s" "procs (upd_vd f s) = procs s"
  "disk_img (upd_vd f s) = disk_img s" "vd_seen (upd_vd f s) = vd_seen s" "vdisk (vmmio_write r v s) = vdisk s"
  "bufs (vmmio_write r v s) = bufs s" "procs (vmmio_write r v s) = procs s" "vd_seen (vmmio_write r v s) = vd_seen s"
  "disk_img (vmmio_write r v s) = disk_img s"
  by (simp_all add: upd_vd_def vmmio_write_def)

lemma wakeup_acquired:
  assumes "cpu_ok s" and "\<forall>lk. lock_free lk s" and "\<forall>i. lk \<noteq> L_proc i"
  shows "wakeup ch (acquired lk s) = Ok (acquired lk (s\<lparr>procs := woken ch (c_proc (mycpu s)) {..<NPROC} (procs s)\<rparr>))"
  using assms by (subst wakeup_eq) (auto simp: lock_simps)

text \<open>Who runs on the CPU does not matter to locks.\<close>

abbreviation set_proc :: "nat option \<Rightarrow> 'a machine_scheme \<Rightarrow> 'a machine_scheme" where
  "set_proc x \<equiv> set_mycpu (\<lambda>c. c\<lparr>c_proc := x\<rparr>)"

lemma set_proc_simps [lock_simps]:
  "set_proc x (acquired lk s) = acquired lk (set_proc x s)" "lock_free lk (set_proc x s) = lock_free lk s"
  "cpu_ok (set_proc x s) = cpu_ok s" "intr_get (set_proc x s) = intr_get s" "c_noff (mycpu (set_proc x s)) = c_noff (mycpu s)"
  "c_proc (mycpu (set_proc x s)) = x" "procs (set_proc x t) = procs t"
  by (cases "cpus s (tp s)"; simp add: acquired_def cpu_defs lock_free_def cpu_ok_def)+

lemma scheduler_back_eq:
  assumes "cpu_ok s" and "lock_free (L_proc p) s"
  shows "scheduler_back p (acquired (L_proc p) s) = Ok (tidy (set_proc None s))"
  using assms by (simp add: scheduler_back_def lock_simps)

lemma scheduler_pick:
  assumes "cpu_ok s" and "lock_free (L_proc p) s" and "p_state (procs s p) = RUNNABLE"
  shows "scheduler_try p s = Ok (True, acquired (L_proc p) (set_proc (Some p) (upd_proc p (\<lambda>q. q\<lparr>p_state := RUNNING\<rparr>) s)))"
  using assms by (simp add: scheduler_try_def lock_simps)

lemma sched_in_same: "c_noff (mycpu s) = 0 \<Longrightarrow> sched_in (intr_get s) (acquired lk s) = acquired lk s"
  by (cases "cpus s (tp s)") (simp add: sched_in_def acquired_def cpu_defs)

lemma sleep_end_eq:
  assumes "cpu_ok s" and "c_noff (mycpu s) = 0" and "lock_free (L_proc p) s" and "lock_free lk s" and "lk \<noteq> L_proc p"
  shows "sleep_end p lk (intr_get s) (acquired (L_proc p) s) =
     Ok (acquired lk (tidy (upd_proc p (\<lambda>q. q\<lparr>p_chan := Ch_null\<rparr>) s)))"
  using assms by (simp add: sleep_end_def sched_in_same lock_simps)

section \<open>A request\<close>

lemma alloc_desc_from_find:
  "alloc_desc_from is s = (case List.find (vd_free (vdisk s)) is of
     None \<Rightarrow> (None, s) | Some i \<Rightarrow> (Some i, upd_vd (\<lambda>d. d\<lparr>vd_free := (vd_free d)(i := False)\<rparr>) s))"
  by (induction "is") auto

lemma alloc_desc_first:
  assumes "i < NUM" and "vd_free (vdisk s) i" and "\<And>j. j < i \<Longrightarrow> \<not> vd_free (vdisk s) j"
  shows "alloc_desc s = (Some i, upd_vd (\<lambda>d. d\<lparr>vd_free := (vd_free d)(i := False)\<rparr>) s)"
  using first_match_SomeI [where P = "vd_free (vdisk s)" and i = i and n = NUM] assms
  by (simp add: alloc_desc_def alloc_desc_from_find first_match_def)

lemma alloc3_idle:
  assumes "\<forall>i < NUM. vd_free (vdisk s) i"
  shows "alloc3_desc s = Ok (Some [0, 1, 2], upd_vd (\<lambda>d. d\<lparr>vd_free := (vd_free d)(0 := False, 1 := False, 2 := False)\<rparr>) s)"
proof -
  let ?t = "upd_vd (\<lambda>d. d\<lparr>vd_free := (vd_free d)(0 := False)\<rparr>) s"
  let ?u = "upd_vd (\<lambda>d. d\<lparr>vd_free := (vd_free d)(1 := False)\<rparr>) ?t"
  have "alloc_desc s = (Some 0, ?t)" using assms by (intro alloc_desc_first) auto
  moreover have "alloc_desc ?t = (Some 1, ?u)" using assms by (intro alloc_desc_first) auto
  moreover have "alloc_desc ?u = (Some 2, upd_vd (\<lambda>d. d\<lparr>vd_free := (vd_free d)(2 := False)\<rparr>) ?u)"
    using assms by (intro alloc_desc_first) auto
  ultimately show ?thesis by (simp add: alloc3_desc_def numeral_3_eq_3) (simp add: upd_vd_def)
qed

text \<open>A request for buffer \<open>b\<close> is in the queue and the disk has not seen it yet.\<close>

definition queued :: "nat \<Rightarrow> bool \<Rightarrow> uint64 \<Rightarrow> 'a fsst_scheme \<Rightarrow> bool" where
  "queued b write sector t \<longleftrightarrow>
     (let d = vdisk t in
      vd_desc d 0 = \<lparr>d_addr = DA_op 0, d_len = 16, d_flags = 1, d_next = 1\<rparr> \<and>
      vd_desc d 1 = \<lparr>d_addr = DA_data b, d_len = 1024, d_flags = (if write then 1 else 3), d_next = 2\<rparr> \<and>
      vd_desc d 2 = \<lparr>d_addr = DA_status 0, d_len = 1, d_flags = 2, d_next = 0\<rparr> \<and>
      vd_ops d 0 = \<lparr>req_type = (if write then 1 else 0), req_reserved = 0, req_sector = sector\<rparr> \<and>
      vd_info_b d 0 = Some b \<and> vd_avail_ring d (unat (vd_seen t) mod NUM) = 0 \<and> vd_avail_idx d = vd_seen t + 1 \<and>
      vd_used_idx d = vd_used_dev_idx d \<and> (\<forall>i < NUM. vd_free d i \<longleftrightarrow> 2 < i))"

definition submitted :: "nat \<Rightarrow> bool \<Rightarrow> uint64 \<Rightarrow> 'a fsst_scheme \<Rightarrow> 'a fsst_scheme" where
  "submitted b write sector s =
     rw_submit b write sector [0, 1, 2] (upd_vd (\<lambda>d. d\<lparr>vd_free := (vd_free d)(0 := False, 1 := False, 2 := False)\<rparr>) s)"

lemma rw_submit_simps [lock_simps]:
  "rw_submit b write sector idx (acquired lk s) = acquired lk (rw_submit b write sector idx s)"
  "lock_free lk (rw_submit b write sector idx s) = lock_free lk s" "cpu_ok (rw_submit b write sector idx s) = cpu_ok s"
  "mycpu (rw_submit b write sector idx s) = mycpu s" "intr_get (rw_submit b write sector idx s) = intr_get s"
  by (simp_all add: rw_submit_def Let_def set_desc_def lock_simps upd_buf_def)

lemma submitted_sel [simp]:
  "bufs (submitted b write sector s) = (bufs s)(b := (bufs s b)\<lparr>b_disk := True\<rparr>)"
  "procs (submitted b write sector s) = procs s" "disk_img (submitted b write sector s) = disk_img s"
  "vd_seen (submitted b write sector s) = vd_seen s"
  by (simp_all add: submitted_def rw_submit_def Let_def set_desc_def upd_vd_def upd_buf_def vmmio_write_def)

lemma vdisk_submitted:
  "vd_desc (vdisk (submitted b write sector s)) = (vd_desc (vdisk s))
     (0 := \<lparr>d_addr = DA_op 0, d_len = 16, d_flags = 1, d_next = 1\<rparr>,
      1 := \<lparr>d_addr = DA_data b, d_len = 1024, d_flags = (if write then 0 else 2) OR 1, d_next = 2\<rparr>,
      2 := \<lparr>d_addr = DA_status 0, d_len = 1, d_flags = 2, d_next = 0\<rparr>)"
  "vd_ops (vdisk (submitted b write sector s)) 0 =
     \<lparr>req_type = (if write then 1 else 0), req_reserved = 0, req_sector = sector\<rparr>"
  "vd_info_b (vdisk (submitted b write sector s)) 0 = Some b"
  "vd_avail_ring (vdisk (submitted b write sector s)) = (vd_avail_ring (vdisk s))(unat (vd_avail_idx (vdisk s)) mod 8 := 0)"
  "vd_avail_idx (vdisk (submitted b write sector s)) = vd_avail_idx (vdisk s) + 1"
  "vd_used_idx (vdisk (submitted b write sector s)) = vd_used_idx (vdisk s)"
  "vd_used_dev_idx (vdisk (submitted b write sector s)) = vd_used_dev_idx (vdisk s)"
  "vd_free (vdisk (submitted b write sector s)) = (vd_free (vdisk s))(0 := False, 1 := False, 2 := False)"
  by (simp_all add: submitted_def rw_submit_def Let_def set_desc_def)

lemma submitted_queued:
  assumes "disk_idle s"
  shows "queued b write sector (submitted b write sector s)"
  unfolding queued_def Let_def vdisk_submitted
proof (intro conjI)
  show "\<forall>i<NUM. ((vd_free (vdisk s))(0 := False, 1 := False, 2 := False)) i = (2 < i)"
  proof (intro allI impI)
    fix i :: nat
    assume "i < NUM"
    then have "vd_free (vdisk s) i" using assms by (simp add: disk_idle_def)
    then show "((vd_free (vdisk s))(0 := False, 1 := False, 2 := False)) i = (2 < i)" by auto
  qed
qed (use assms in \<open>auto simp: disk_idle_def\<close>)

lemma submitted_calm: "calm p s \<Longrightarrow> calm p (submitted b write sector s)"
  by (simp add: calm_def submitted_def lock_simps)

lemma submitted_frame: "disk_frame s (submitted b write sector s)"
  by (simp add: disk_frame_def submitted_def rw_submit_def Let_def set_desc_def upd_vd_def upd_buf_def vmmio_write_def)

lemma rw_wait_sleeps:
  assumes "calm p t" and "b_disk (bufs t b)"
  shows "rw_wait_run b l (acquired L_vdisk t) =
     Ok (Asleep (p, intr_get t), acquired (L_proc p) (upd_proc p (\<lambda>q. q\<lparr>p_chan := Ch_buf b, p_state := SLEEPING\<rparr>) t))"
  using assms sleep_begin_eq [of t p L_vdisk "Ch_buf b"] by (simp add: rw_wait_run_def calm_def lock_simps)

text \<open>The contents of buffer and disk once a request for \<open>b\<close> has been served.\<close>

definition moved_bufs :: "nat \<Rightarrow> bool \<Rightarrow> nat \<Rightarrow> 'a fsst_scheme \<Rightarrow> nat \<Rightarrow> buf" where
  "moved_bufs b write base s =
     (if write then bufs s
      else (bufs s)(b := (bufs s b)\<lparr>b_data := (\<lambda>j. if j < 1024 then disk_img s (base + j) else b_data (bufs s b) j)\<rparr>))"

definition moved_disk :: "nat \<Rightarrow> bool \<Rightarrow> nat \<Rightarrow> 'a fsst_scheme \<Rightarrow> nat \<Rightarrow> uint8" where
  "moved_disk b write base s =
     (if write then (\<lambda>a. if base \<le> a \<and> a < base + 1024 then b_data (bufs s b) (a - base) else disk_img s a) else disk_img s)"

lemma moved_cong:
  assumes "bufs s = bufs t" and "disk_img s = disk_img t"
  shows "moved_bufs b write base s = moved_bufs b write base t" "moved_disk b write base s = moved_disk b write base t"
  unfolding moved_bufs_def moved_disk_def assms by simp_all

lemma serve_queued:
  assumes "queued b write sector s"
  shows "serve s = s\<lparr>bufs := moved_bufs b write (512 * unat sector) s,
     vdisk := (vdisk s)\<lparr>vd_info_status := (vd_info_status (vdisk s))(0 := 0),
        vd_used_ring := (vd_used_ring (vdisk s))(unat (vd_used_dev_idx (vdisk s)) mod 8 := 0),
        vd_used_dev_idx := vd_used_dev_idx (vdisk s) + 1\<rparr>,
     vd_seen := vd_seen s + 1, disk_img := moved_disk b write (512 * unat sector) s\<rparr>"
  using assms by (simp add: serve_def queued_def Let_def moved_bufs_def moved_disk_def)

lemma virtio_disk_intr_one:
  assumes "cpu_ok s" and "\<forall>lk. lock_free lk s"
    and "vd_used_dev_idx (vdisk s) = vd_used_idx (vdisk s) + 1"
    and "vd_used_ring (vdisk s) (unat (vd_used_idx (vdisk s)) mod 8) = 0"
    and "vd_info_status (vdisk s) 0 = 0" and "vd_info_b (vdisk s) 0 = Some b"
  shows "virtio_disk_intr s = Ok (tidy (upd_vd (\<lambda>d. d\<lparr>vd_used_idx := vd_used_idx d + 1\<rparr>)
     ((upd_buf b (\<lambda>x. x\<lparr>b_disk := False\<rparr>) (vmmio_write 0x064 (vmmio s 0x060 AND 3) s))
       \<lparr>procs := woken (Ch_buf b) (c_proc (mycpu s)) {..<NPROC} (procs s)\<rparr>)))"
proof -
  let ?m = "vmmio_write 0x064 (vmmio s 0x060 AND 3) s"
  let ?w = "(upd_buf b (\<lambda>x. x\<lparr>b_disk := False\<rparr>) ?m)\<lparr>procs := woken (Ch_buf b) (c_proc (mycpu s)) {..<NPROC} (procs s)\<rparr>"
  let ?u = "upd_vd (\<lambda>d. d\<lparr>vd_used_idx := vd_used_idx d + 1\<rparr>) ?w"
  have "wakeup (Ch_buf b) (acquired L_vdisk (upd_buf b (\<lambda>x. x\<lparr>b_disk := False\<rparr>) ?m)) = Ok (acquired L_vdisk ?w)"
    using assms by (subst wakeup_acquired) (simp_all add: lock_simps)
  then have one: "virtio_intr_one (acquired L_vdisk ?m) = Ok (acquired L_vdisk ?u)"
    using assms by (simp add: virtio_intr_one_def lock_simps)
  have "vdisk ?u = (vdisk s)\<lparr>vd_used_idx := vd_used_idx (vdisk s) + 1\<rparr>" by simp
  then have "virtio_intr_loop (acquired L_vdisk ?u) = Ok (acquired L_vdisk ?u)"
    using assms(3) by (subst virtio_intr_loop.simps) (simp add: lock_simps)
  then have "virtio_intr_loop (acquired L_vdisk ?m) = Ok (acquired L_vdisk ?u)"
    using assms(3) one by (subst virtio_intr_loop.simps) (simp add: lock_simps)
  moreover have "release L_vdisk (acquired L_vdisk ?u) = Ok (tidy ?u)"
    using assms by (intro release_acquired) (simp_all add: lock_simps)
  ultimately show ?thesis using assms by (simp add: virtio_disk_intr_def lock_simps)
qed

lemma disk_frame_refl [simp]: "disk_frame s s"
  by (simp add: disk_frame_def)

lemma disk_frame_trans:
  assumes "disk_frame s t" and "disk_frame t u"
  shows "disk_frame s u"
proof -
  from assms(1) have t: "t = s\<lparr>cpus := cpus t, procs := procs t, bufs := bufs t, vdisk := vdisk t, vd_seen := vd_seen t,
       vmmio_log := vmmio_log t, disk_img := disk_img t\<rparr>" by (simp add: disk_frame_def)
  from assms(2) have "u = t\<lparr>cpus := cpus u, procs := procs u, bufs := bufs u, vdisk := vdisk u, vd_seen := vd_seen u,
       vmmio_log := vmmio_log u, disk_img := disk_img u\<rparr>" by (simp add: disk_frame_def)
  also have "\<dots> = s\<lparr>cpus := cpus u, procs := procs u, bufs := bufs u, vdisk := vdisk u, vd_seen := vd_seen u,
       vmmio_log := vmmio_log u, disk_img := disk_img u\<rparr>" by (subst t) simp
  finally show ?thesis using assms same_procs_trans unfolding disk_frame_def by blast
qed

lemma disk_frame_steps:
  assumes "disk_frame s t"
  shows "disk_frame s (tidy t)" "disk_frame s (set_mycpu f t)" "disk_frame s (upd_vd g t)" "disk_frame s (upd_buf b h t)"
    "disk_frame s (vmmio_write r v t)" "disk_frame s (t\<lparr>bufs := x1\<rparr>)" "disk_frame s (t\<lparr>vdisk := x2\<rparr>)"
    "disk_frame s (t\<lparr>vd_seen := x3\<rparr>)" "disk_frame s (t\<lparr>disk_img := x4\<rparr>)"
    "disk_frame s (t\<lparr>procs := woken ch me A (procs t)\<rparr>)" "disk_frame s (upd_proc i (\<lambda>q. q\<lparr>p_state := z\<rparr>) t)"
    "disk_frame s (upd_proc i (\<lambda>q. q\<lparr>p_chan := ch\<rparr>) t)" "disk_frame s (upd_proc i (\<lambda>q. q\<lparr>p_chan := ch, p_state := z\<rparr>) t)"
  by (rule disk_frame_trans [OF assms]; simp add: disk_frame_def tidy_def set_mycpu_def upd_vd_def upd_buf_def vmmio_write_def
      upd_proc_def woken_def same_procs_def)+

definition answered :: "vdisk \<Rightarrow> vdisk" where
  "answered d = d\<lparr>vd_info_status := (vd_info_status d)(0 := 0),
     vd_used_ring := (vd_used_ring d)(unat (vd_used_dev_idx d) mod 8 := 0),
     vd_used_dev_idx := vd_used_dev_idx d + 1, vd_used_idx := vd_used_idx d + 1\<rparr>"

lemma disk_turn_serves:
  fixes t :: "'a fsst_scheme"
  assumes dev: "virtio_blk_device dev" and calm: "calm p t" and queued: "queued b write sector t"
  shows "\<exists>x. disk_turn dev p (acquired (L_proc p) (upd_proc p (\<lambda>q. q\<lparr>p_chan := Ch_buf b, p_state := SLEEPING\<rparr>) t)) =
       Ok (acquired (L_proc p) x) \<and> calm p x \<and> intr_get x = intr_get t \<and>
     bufs x = (moved_bufs b write (512 * unat sector) t)(b := (moved_bufs b write (512 * unat sector) t b)\<lparr>b_disk := False\<rparr>) \<and>
     disk_img x = moved_disk b write (512 * unat sector) t \<and> vd_seen x = vd_seen t + 1 \<and> vdisk x = answered (vdisk t) \<and>
     disk_frame t x"
proof -
  let ?u = "upd_proc p (\<lambda>q. q\<lparr>p_chan := Ch_buf b, p_state := SLEEPING\<rparr>) t"
  let ?v = "tidy (set_proc None ?u)"
  let ?w = "serve ?v"
  let ?y = "upd_vd (\<lambda>d. d\<lparr>vd_used_idx := vd_used_idx d + 1\<rparr>)
     ((upd_buf b (\<lambda>x. x\<lparr>b_disk := False\<rparr>) (vmmio_write 0x064 (vmmio ?w 0x060 AND 3) ?w))
       \<lparr>procs := woken (Ch_buf b) None {..<NPROC} (procs ?w)\<rparr>)"
  let ?x = "set_proc (Some p) (upd_proc p (\<lambda>q. q\<lparr>p_state := RUNNING\<rparr>) (tidy ?y))"
  have ok: "cpu_ok t" "\<forall>lk. lock_free lk t" "p < NPROC" "c_noff (mycpu t) = 0" using calm by (simp_all add: calm_def)
  have v: "vdisk ?v = vdisk t" "bufs ?v = bufs t" "disk_img ?v = disk_img t" "vd_seen ?v = vd_seen t" by (simp_all add: lock_simps)
  have w: "?w = ?v\<lparr>bufs := moved_bufs b write (512 * unat sector) t,
     vdisk := (vdisk t)\<lparr>vd_info_status := (vd_info_status (vdisk t))(0 := 0),
        vd_used_ring := (vd_used_ring (vdisk t))(unat (vd_used_dev_idx (vdisk t)) mod 8 := 0),
        vd_used_dev_idx := vd_used_dev_idx (vdisk t) + 1\<rparr>,
     vd_seen := vd_seen t + 1, disk_img := moved_disk b write (512 * unat sector) t\<rparr>"
    using queued by (subst serve_queued [of b "write" sector]) (simp_all only: queued_def v moved_cong [OF v(2,3)])
  have "vd_seen ?v \<noteq> vd_avail_idx (vdisk ?v)" using queued v by (simp add: queued_def Let_def)
  then have served: "dev ?v = ?w" using dev by (simp add: virtio_blk_device_def)
  have to_sched: "scheduler_back p (acquired (L_proc p) ?u) = Ok ?v"
    using ok by (intro scheduler_back_eq) (simp_all add: lock_simps)
  have w_ok: "cpu_ok ?w" "\<forall>lk. lock_free lk ?w" "c_proc (mycpu ?w) = None" "c_noff (mycpu ?w) = 0" "intr_get ?w = intr_get t"
    using ok by (simp_all add: w lock_simps noff_tidy)
  have "virtio_disk_intr ?w = Ok (tidy ?y)"
    using w_ok queued virtio_disk_intr_one [of ?w b] by (simp add: w queued_def Let_def)
  moreover have "p_state (procs ?y p) = RUNNABLE" using ok by (simp add: w woken_def lock_simps)
  then have "scheduler_try p (tidy ?y) = Ok (True, acquired (L_proc p) ?x)"
    using w_ok by (intro scheduler_pick) (simp_all add: lock_simps)
  ultimately have "disk_turn dev p (acquired (L_proc p) ?u) = Ok (acquired (L_proc p) ?x)"
    by (simp add: disk_turn_def to_sched served)
  moreover have "calm p ?x" "intr_get ?x = intr_get t" using w_ok ok by (simp_all add: calm_def lock_simps noff_tidy)
  moreover have "bufs ?x = (moved_bufs b write (512 * unat sector) t)(b := (moved_bufs b write (512 * unat sector) t b)\<lparr>b_disk := False\<rparr>)"
    "disk_img ?x = moved_disk b write (512 * unat sector) t" "vd_seen ?x = vd_seen t + 1"
    by (simp_all add: w lock_simps)
  moreover have "vdisk ?x = answered (vdisk t)"
    using queued by (simp add: w lock_simps answered_def queued_def Let_def)
  moreover have "disk_frame t ?w" unfolding w by (intro disk_frame_steps disk_frame_refl)
  then have "disk_frame t ((upd_buf b (\<lambda>x. x\<lparr>b_disk := False\<rparr>) (vmmio_write 0x064 (vmmio ?w 0x060 AND 3) ?w))
       \<lparr>procs := woken (Ch_buf b) None {..<NPROC} (procs ?w)\<rparr>)"
    using disk_frame_steps(10) [of t "upd_buf b (\<lambda>x. x\<lparr>b_disk := False\<rparr>) (vmmio_write 0x064 (vmmio ?w 0x060 AND 3) ?w)"]
    by (simp add: disk_frame_steps)
  then have "disk_frame t ?x" by (intro disk_frame_steps)
  ultimately show ?thesis by blast
qed

text \<open>While a request is under way the disk has the old or the new contents.\<close>

definition in_transit :: "nat \<Rightarrow> bool \<Rightarrow> nat \<Rightarrow> 'a fsst_scheme \<Rightarrow> 'a fsst_scheme \<Rightarrow> bool" where
  "in_transit b write base s u \<longleftrightarrow> disk_img u = disk_img s \<or> disk_img u = moved_disk b write base s"

text \<open>The wait for a request that is in the queue.\<close>

lemma rw_wait_served:
  fixes t :: "'a fsst_scheme"
  assumes dev: "virtio_blk_device dev" and calm: "calm p t" and queued: "queued b write sector t" and b: "b_disk (bufs t b)"
  shows "\<exists>x. runs (disk_turn dev p) (in_transit b write (512 * unat sector) t) (wait_loop (rw_wait_run b) vdisk_wake l (Ok (acquired L_vdisk t))) (Ok ((), acquired L_vdisk x)) \<and>
     calm p x \<and>
     bufs x = (moved_bufs b write (512 * unat sector) t)(b := (moved_bufs b write (512 * unat sector) t b)\<lparr>b_disk := False\<rparr>) \<and>
     disk_img x = moved_disk b write (512 * unat sector) t \<and> vd_seen x = vd_seen t + 1 \<and> vdisk x = answered (vdisk t) \<and>
     disk_frame t x"
proof -
  obtain y where y: "disk_turn dev p (acquired (L_proc p) (upd_proc p (\<lambda>q. q\<lparr>p_chan := Ch_buf b, p_state := SLEEPING\<rparr>) t)) =
       Ok (acquired (L_proc p) y)" "calm p y" "intr_get y = intr_get t"
    "bufs y = (moved_bufs b write (512 * unat sector) t)(b := (moved_bufs b write (512 * unat sector) t b)\<lparr>b_disk := False\<rparr>)"
    "disk_img y = moved_disk b write (512 * unat sector) t" "vd_seen y = vd_seen t + 1" "vdisk y = answered (vdisk t)"
    "disk_frame t y"
    using disk_turn_serves [OF dev calm queued] by blast
  let ?x = "tidy (upd_proc p (\<lambda>q. q\<lparr>p_chan := Ch_null\<rparr>) y)"
  have wake: "vdisk_wake (p, intr_get t) (acquired (L_proc p) y) = Ok (acquired L_vdisk ?x)"
    using y(2) sleep_end_eq [of y p L_vdisk] by (simp add: calm_def flip: y(3))
  have go: "wait_loop (rw_wait_run b) vdisk_wake (p, intr_get t) (Ok (acquired L_vdisk ?x)) = Done (Ok ((), acquired L_vdisk ?x))"
    using y(4) by (intro wait_loop_return) (simp add: rw_wait_run_def lock_simps)
  have "wait_loop (rw_wait_run b) vdisk_wake l (Ok (acquired L_vdisk t)) =
      Switch (acquired (L_proc p) (upd_proc p (\<lambda>q. q\<lparr>p_chan := Ch_buf b, p_state := SLEEPING\<rparr>) t))
        (\<lambda>s. wait_loop (rw_wait_run b) vdisk_wake (p, intr_get t) (vdisk_wake (p, intr_get t) s))"
    using rw_wait_sleeps [OF calm b] by (intro wait_loop_asleep) simp
  then have "runs (disk_turn dev p) (in_transit b write (512 * unat sector) t) (wait_loop (rw_wait_run b) vdisk_wake l (Ok (acquired L_vdisk t))) (Ok ((), acquired L_vdisk ?x))"
    using y(1,5) wake go by (simp add: runs_Switch in_transit_def lock_simps)
  moreover have "calm p ?x" using y(2) by (simp add: calm_def lock_simps noff_tidy)
  moreover have "disk_frame t ?x" using y(8) by (intro disk_frame_steps)
  moreover have "bufs ?x = bufs y" "disk_img ?x = disk_img y" "vd_seen ?x = vd_seen y" "vdisk ?x = vdisk y"
    by (simp_all add: lock_simps)
  ultimately show ?thesis using y(4-7) by metis
qed

definition freed :: "nat \<Rightarrow> 'a fsst_scheme \<Rightarrow> 'a fsst_scheme" where
  "freed i x = (let y = upd_vd (\<lambda>d. d\<lparr>vd_free := (vd_free d)(i := True)\<rparr>)
       (upd_vd (\<lambda>d. d\<lparr>vd_desc := (vd_desc d)(i := blank_desc)\<rparr>) x)
     in y\<lparr>procs := woken Ch_disk_free (c_proc (mycpu y)) {..<NPROC} (procs y)\<rparr>)"

lemma free_desc_eq:
  assumes "calm p x" and "i < NUM" and "\<not> vd_free (vdisk x) i"
  shows "free_desc i (acquired L_vdisk x) = Ok (acquired L_vdisk (freed i x))"
  using assms wakeup_acquired [of "upd_vd (\<lambda>d. d\<lparr>vd_free := (vd_free d)(i := True)\<rparr>)
       (upd_vd (\<lambda>d. d\<lparr>vd_desc := (vd_desc d)(i := blank_desc)\<rparr>) x)" L_vdisk Ch_disk_free]
  by (simp add: free_desc_def freed_def Let_def calm_def lock_simps)

lemma freed_sel [simp]:
  "bufs (freed i x) = bufs x" "disk_img (freed i x) = disk_img x" "vd_seen (freed i x) = vd_seen x"
  "vdisk (freed i x) = (vdisk x)\<lparr>vd_desc := (vd_desc (vdisk x))(i := blank_desc), vd_free := (vd_free (vdisk x))(i := True)\<rparr>"
  by (simp_all add: freed_def Let_def)

lemma calm_steps:
  assumes "calm p x"
  shows "calm p (tidy x)" "calm p (upd_vd f x)"
  using assms by (simp_all add: calm_def lock_simps noff_tidy)

lemma freed_calm: "calm p x \<Longrightarrow> calm p (freed i x)"
  by (simp add: calm_def freed_def Let_def lock_simps)

lemma freed_frame: "disk_frame s x \<Longrightarrow> disk_frame s (freed i x)"
  unfolding freed_def Let_def by (intro disk_frame_steps)

lemma rw_finish_eq:
  assumes calm: "calm p x" and free: "\<not> vd_free (vdisk x) 0" "\<not> vd_free (vdisk x) 1" "\<not> vd_free (vdisk x) 2"
    and desc: "d_flags (vd_desc (vdisk x) 0) AND 1 \<noteq> 0" "d_next (vd_desc (vdisk x) 0) = 1"
     "d_flags (vd_desc (vdisk x) 1) AND 1 \<noteq> 0" "d_next (vd_desc (vdisk x) 1) = 2"
     "d_flags (vd_desc (vdisk x) 2) AND 1 = 0"
  shows "rw_finish 0 (acquired L_vdisk x) =
     Ok (tidy (freed 2 (freed 1 (freed 0 (upd_vd (\<lambda>d. d\<lparr>vd_info_b := (vd_info_b d)(0 := None)\<rparr>) x)))))"
proof -
  let ?x = "upd_vd (\<lambda>d. d\<lparr>vd_info_b := (vd_info_b d)(0 := None)\<rparr>) x"
  have c0: "calm p ?x" by (rule calm_steps [OF calm])
  note c = c0 freed_calm [OF c0] freed_calm [OF freed_calm [OF c0]] freed_calm [OF freed_calm [OF freed_calm [OF c0]]]
  have f0: "free_desc 0 (acquired L_vdisk ?x) = Ok (acquired L_vdisk (freed 0 ?x))"
    using free by (intro free_desc_eq [OF c(1)]) simp_all
  have f1: "free_desc 1 (acquired L_vdisk (freed 0 ?x)) = Ok (acquired L_vdisk (freed 1 (freed 0 ?x)))"
    using free by (intro free_desc_eq [OF c(2)]) simp_all
  have f2: "free_desc 2 (acquired L_vdisk (freed 1 (freed 0 ?x))) = Ok (acquired L_vdisk (freed 2 (freed 1 (freed 0 ?x))))"
    using free by (intro free_desc_eq [OF c(3)]) simp_all
  have "free_chain 2 (acquired L_vdisk (freed 1 (freed 0 ?x))) = Ok (acquired L_vdisk (freed 2 (freed 1 (freed 0 ?x))))"
    using f2 desc(5) by (subst free_chain.simps) (simp add: lock_simps)
  then have "free_chain 1 (acquired L_vdisk (freed 0 ?x)) = Ok (acquired L_vdisk (freed 2 (freed 1 (freed 0 ?x))))"
    using f1 desc(3,4) by (subst free_chain.simps) (simp add: lock_simps)
  then have "free_chain 0 (acquired L_vdisk ?x) = Ok (acquired L_vdisk (freed 2 (freed 1 (freed 0 ?x))))"
    using f0 desc(1,2) by (subst free_chain.simps) (simp add: lock_simps)
  moreover have "release L_vdisk (acquired L_vdisk (freed 2 (freed 1 (freed 0 ?x)))) = Ok (tidy (freed 2 (freed 1 (freed 0 ?x))))"
    using c(4) by (intro release_acquired) (simp_all add: calm_def)
  ultimately show ?thesis by (simp add: rw_finish_def lock_simps)
qed

section \<open>A block is transferred\<close>

lemma disk_rw_runs:
  fixes s :: "'a fsst_scheme"
  assumes dev: "virtio_blk_device dev" and calm: "calm p s" and idle: "disk_idle s"
    and small: "unat (b_blockno (bufs s b)) < 2 ^ 31"
  shows "\<exists>s'. runs (disk_turn dev p) (in_transit b write (1024 * unat (b_blockno (bufs s b))) s)
       (virtio_disk_rw b write s) (Ok ((), s')) \<and> calm p s' \<and> disk_idle s' \<and> disk_frame s s' \<and>
     bufs s' = (moved_bufs b write (1024 * unat (b_blockno (bufs s b))) s)
       (b := (moved_bufs b write (1024 * unat (b_blockno (bufs s b))) s b)\<lparr>b_disk := False\<rparr>) \<and>
     disk_img s' = moved_disk b write (1024 * unat (b_blockno (bufs s b))) s"
proof -
  let ?sec = "ucast (b_blockno (bufs s b) * 2) :: uint64"
  let ?t = "submitted b write ?sec s"
  have base: "512 * unat ?sec = 1024 * unat (b_blockno (bufs s b))"
    using small by (simp add: unat_word_ariths unat_ucast_32_64)
  have moved: "moved_bufs b write n ?t b = (moved_bufs b write n s b)\<lparr>b_disk := True\<rparr>"
    "moved_bufs b write n ?t = (moved_bufs b write n s)(b := (moved_bufs b write n s b)\<lparr>b_disk := True\<rparr>)"
    "moved_disk b write n ?t = moved_disk b write n s" for n
    by (auto simp: moved_bufs_def moved_disk_def fun_eq_iff)
  have alloc: "wait_loop rw_alloc_run vdisk_wake (0, False) (acquire L_vdisk s) =
      Done (Ok ([0, 1, 2], acquired L_vdisk (upd_vd (\<lambda>d. d\<lparr>vd_free := (vd_free d)(0 := False, 1 := False, 2 := False)\<rparr>) s)))"
    using calm idle alloc3_idle [of "acquired L_vdisk s"]
    by (intro wait_loop_return) (simp add: rw_alloc_run_def calm_def disk_idle_def lock_simps)
  have sub: "rw_submit b write ?sec [0, 1, 2] (acquired L_vdisk
      (upd_vd (\<lambda>d. d\<lparr>vd_free := (vd_free d)(0 := False, 1 := False, 2 := False)\<rparr>) s)) = acquired L_vdisk ?t"
    by (simp add: submitted_def lock_simps)
  have waiting: "b_disk (bufs ?t b)" by simp
  have transit: "in_transit b write n ?t = in_transit b write n s" for n
    by (simp add: in_transit_def moved fun_eq_iff)
  obtain x where x: "runs (disk_turn dev p) (in_transit b write (1024 * unat (b_blockno (bufs s b))) s)
      (wait_loop (rw_wait_run b) vdisk_wake (0, False) (Ok (acquired L_vdisk ?t)))
      (Ok ((), acquired L_vdisk x))" "calm p x"
    "bufs x = (moved_bufs b write (1024 * unat (b_blockno (bufs s b))) ?t)(b := (moved_bufs b write (1024 * unat (b_blockno (bufs s b))) ?t b)\<lparr>b_disk := False\<rparr>)"
    "disk_img x = moved_disk b write (1024 * unat (b_blockno (bufs s b))) ?t" "vd_seen x = vd_seen ?t + 1" "vdisk x = answered (vdisk ?t)"
    "disk_frame ?t x"
    using rw_wait_served [OF dev submitted_calm [OF calm] submitted_queued [OF idle] waiting] unfolding base transit by blast
  let ?s' = "tidy (freed 2 (freed 1 (freed 0 (upd_vd (\<lambda>d. d\<lparr>vd_info_b := (vd_info_b d)(0 := None)\<rparr>) x))))"
  have fin: "rw_finish 0 (acquired L_vdisk x) = Ok ?s'"
    by (rule rw_finish_eq [OF x(2)]) (simp_all add: x(6) answered_def vdisk_submitted)
  have "runs (disk_turn dev p) (in_transit b write (1024 * unat (b_blockno (bufs s b))) s) (virtio_disk_rw b write s) (Ok ((), ?s'))"
    unfolding virtio_disk_rw_def Let_def using x(1) alloc sub fin
    by (auto intro!: runs_bindT)
  moreover have "calm p ?s'" using x(2) by (intro calm_steps freed_calm)
  moreover have "disk_idle ?s'"
    using idle by (auto simp: disk_idle_def lock_simps x(5,6) answered_def vdisk_submitted)
  moreover have "disk_frame s ?s'"
    using disk_frame_trans [OF submitted_frame x(7)] by (intro disk_frame_steps freed_frame)
  moreover have "bufs ?s' = bufs x" "disk_img ?s' = disk_img x" by (simp_all add: lock_simps)
  ultimately show ?thesis using x(3,4) moved by auto
qed

text \<open>
  C20: reading and writing blocks. On an idle disk, with nothing else to run,
  \<open>virtio_disk_rw\<close> returns without a panic; a read has filled the buffer with the 1024 bytes
  of its block on the disk and left the disk alone, a write has put the buffer's 1024 bytes
  there and changed no other byte of the disk. Whenever the power fails on the way, the disk
  has the old contents or the new ones. The disk is idle again, all locks are free and
  nothing else of the kernel's data has changed.
\<close>

theorem virtio_disk_rw_transfers:
  fixes s :: "'a fsst_scheme"
  assumes dev: "virtio_blk_device dev" and calm: "calm p s" and idle: "disk_idle s"
    and small: "unat (b_blockno (bufs s b)) < 2 ^ 31"
  shows "\<exists>s'. runs (disk_turn dev p) (in_transit b write (1024 * unat (b_blockno (bufs s b))) s)
       (virtio_disk_rw b write s) (Ok ((), s')) \<and> calm p s' \<and> disk_idle s' \<and> disk_frame s s' \<and>
     bufs s' = (moved_bufs b write (1024 * unat (b_blockno (bufs s b))) s)
       (b := (moved_bufs b write (1024 * unat (b_blockno (bufs s b))) s b)\<lparr>b_disk := False\<rparr>) \<and>
     disk_img s' = moved_disk b write (1024 * unat (b_blockno (bufs s b))) s"
  by (rule disk_rw_runs [OF dev calm idle small])

theorem virtio_disk_rw_transfers_witness:
  "\<exists>s'. runs (disk_turn serve 1) (\<lambda>_. True) (virtio_disk_rw 3 False ((demo_fs 1 (\<lambda>_. blank_proc))\<lparr>disk_img := \<lambda>a. of_nat a\<rparr>)) (Ok ((), s')) \<and>
     b_data (bufs s' 3) 5 = 5 \<and> \<not> b_disk (bufs s' 3) \<and> disk_idle s'"
proof -
  let ?s = "(demo_fs 1 (\<lambda>_. blank_proc))\<lparr>disk_img := \<lambda>a. of_nat a\<rparr>"
  have "calm 1 ?s"
    using demo_fs_simps(3,4,5,6) [where p = 1 and ps = "\<lambda>_. blank_proc"] by (simp add: calm_def lock_free_def cpu_ok_def cpu_defs)
  moreover have "disk_idle ?s" by (simp add: disk_idle_def)
  moreover have "virtio_blk_device (serve :: fsst \<Rightarrow> fsst)" by (simp add: virtio_blk_device_def)
  ultimately obtain s' where "runs (disk_turn serve 1) (\<lambda>_. True) (virtio_disk_rw 3 False ?s) (Ok ((), s'))" "disk_idle s'"
    "bufs s' = (moved_bufs 3 False (1024 * unat (b_blockno (bufs ?s 3))) ?s)
       (3 := (moved_bufs 3 False (1024 * unat (b_blockno (bufs ?s 3))) ?s 3)\<lparr>b_disk := False\<rparr>)"
    using virtio_disk_rw_transfers [of serve 1 ?s 3 False] by (auto intro: runs_weaken)
  then show ?thesis by (intro exI [of _ s']) (simp add: moved_bufs_def)
qed

end
