(* ===== verification/Bcache.thy ===== *)
theory Bcache
  imports Disk Bio
begin

text \<open>
  What the buffer cache promises. The links of the table form one ring through the head in
  both directions, and no block is in two buffers; every operation keeps this. \<open>bget\<close> finds
  the buffer that holds a block, or recycles the one that has been unused for longest, and
  \<open>brelse\<close> moves a buffer that nobody uses any more to the front. On an idle machine
  \<open>bread\<close> returns a locked buffer with the contents of the block.
\<close>

section \<open>The ring of buffers\<close>

definition buf_ring :: "(nat \<Rightarrow> nat) \<Rightarrow> (nat \<Rightarrow> nat) \<Rightarrow> nat list \<Rightarrow> bool" where
  "buf_ring N P bs \<longleftrightarrow> map N (bhead # bs) = bs @ [bhead] \<and> map P (bs @ [bhead]) = bhead # bs \<and> distinct (bhead # bs)"

lemma map_append_eq: "length xs = length as \<Longrightarrow> map f (xs @ ys) = as @ bs \<longleftrightarrow> map f xs = as \<and> map f ys = bs"
  by (auto simp: append_eq_append_conv)

lemma buf_ring_split:
  assumes "buf_ring N P (xs @ b # ys)"
  shows "map N (bhead # xs) = xs @ [b]" "N b # map N ys = ys @ [bhead]" "map P (xs @ [b]) = bhead # xs" "map P (ys @ [bhead]) = b # ys"
proof -
  have N: "map N ((bhead # xs) @ b # ys) = (xs @ [b]) @ (ys @ [bhead])"
    and P: "map P ((xs @ [b]) @ (ys @ [bhead])) = (bhead # xs) @ (b # ys)"
    using assms by (simp_all add: buf_ring_def)
  have "map N (bhead # xs) = xs @ [b] \<and> map N (b # ys) = ys @ [bhead]" by (rule iffD1 [OF map_append_eq N]) simp
  moreover have "map P (xs @ [b]) = bhead # xs \<and> map P (ys @ [bhead]) = b # ys" by (rule iffD1 [OF map_append_eq P]) simp
  ultimately show "map N (bhead # xs) = xs @ [b]" "N b # map N ys = ys @ [bhead]" "map P (xs @ [b]) = bhead # xs" "map P (ys @ [bhead]) = b # ys"
    by simp_all
qed

lemma buf_ring_unlink:
  assumes "buf_ring N P (xs @ b # ys)"
  shows "buf_ring (N(P b := N b)) (P(N b := P b)) (xs @ ys)"
proof -
  note r = buf_ring_split [OF assms]
  have d: "distinct (bhead # xs @ b # ys)" using assms by (simp add: buf_ring_def)
  have "map (N(P b := N b)) (bhead # xs @ ys) = (xs @ ys) @ [bhead]"
  proof (cases xs rule: rev_cases)
    case Nil
    then show ?thesis using r d by auto
  next
    case (snoc zs p)
    then show ?thesis using r d by (auto simp: append_eq_append_conv)
  qed
  moreover have "map (P(N b := P b)) ((xs @ ys) @ [bhead]) = bhead # xs @ ys"
  proof (cases ys)
    case Nil
    then show ?thesis using r d by (auto simp: append_eq_append_conv)
  next
    case (Cons n zs)
    then show ?thesis using r d by (auto simp: append_eq_append_conv)
  qed
  ultimately show ?thesis using d by (simp add: buf_ring_def)
qed

lemma buf_ring_push:
  assumes "buf_ring N P zs" and "b \<notin> set (bhead # zs)"
  shows "buf_ring (N(b := N bhead, bhead := b)) (P(b := bhead, N bhead := b)) (b # zs)"
proof (cases zs)
  case Nil
  then show ?thesis using assms by (simp add: buf_ring_def)
next
  case (Cons z ws)
  then show ?thesis using assms by (auto simp: buf_ring_def)
qed

abbreviation nexts :: "'a fsst_scheme \<Rightarrow> nat \<Rightarrow> nat" where "nexts s \<equiv> (\<lambda>b. b_next (bufs s b))"
abbreviation prevs :: "'a fsst_scheme \<Rightarrow> nat \<Rightarrow> nat" where "prevs s \<equiv> (\<lambda>b. b_prev (bufs s b))"

text \<open>The list of all buffers, the most recently used first.\<close>

definition lru :: "'a fsst_scheme \<Rightarrow> nat list \<Rightarrow> bool" where
  "lru s bs \<longleftrightarrow> buf_ring (nexts s) (prevs s) bs \<and> set bs = {..<NBUF}"

text \<open>No block of a device is in two buffers. Device 0 is that of a buffer that was never used.\<close>

definition one_each :: "'a fsst_scheme \<Rightarrow> bool" where
  "one_each s \<longleftrightarrow> (\<forall>a < NBUF. \<forall>b < NBUF. b_dev (bufs s a) \<noteq> 0 \<longrightarrow> b_dev (bufs s a) = b_dev (bufs s b) \<longrightarrow>
     b_blockno (bufs s a) = b_blockno (bufs s b) \<longrightarrow> a = b)"

lemma lru_length: "lru s bs \<Longrightarrow> length bs = NBUF"
  unfolding lru_def buf_ring_def by (metis card_lessThan distinct.simps(2) distinct_card)

section \<open>Finding and recycling\<close>

lemma bscan_next:
  assumes "map (nexts s) xs = tl (xs @ [bhead])" and "bhead \<notin> set xs" and "length xs \<le> n"
  shows "bscan b_next test n (hd (xs @ [bhead])) s = Ok (find (\<lambda>b. test (bufs s b)) xs)"
  using assms
proof (induction xs arbitrary: n)
  case Nil
  then show ?case by (subst bscan.simps) simp
next
  case (Cons x xs)
  then obtain m where n: "n = Suc m" by (cases n) auto
  have "map (nexts s) xs = tl (xs @ [bhead])" "b_next (bufs s x) = hd (xs @ [bhead])"
    using Cons.prems(1) by (cases xs; simp)+
  then show ?case using Cons n by (subst bscan.simps) simp
qed

lemma bscan_prev:
  assumes "map (prevs s) xs = tl (xs @ [bhead])" and "bhead \<notin> set xs" and "length xs \<le> n"
  shows "bscan b_prev test n (hd (xs @ [bhead])) s = Ok (find (\<lambda>b. test (bufs s b)) xs)"
  using assms
proof (induction xs arbitrary: n)
  case Nil
  then show ?case by (subst bscan.simps) simp
next
  case (Cons x xs)
  then obtain m where n: "n = Suc m" by (cases n) auto
  have "map (prevs s) xs = tl (xs @ [bhead])" "b_prev (bufs s x) = hd (xs @ [bhead])"
    using Cons.prems(1) by (cases xs; simp)+
  then show ?case using Cons n by (subst bscan.simps) simp
qed

lemma lru_scans:
  assumes "lru s bs"
  shows "bscan b_next test NBUF (b_next (bufs s bhead)) s = Ok (find (\<lambda>b. test (bufs s b)) bs)"
    "bscan b_prev test NBUF (b_prev (bufs s bhead)) s = Ok (find (\<lambda>b. test (bufs s b)) (rev bs))"
proof -
  have r: "map (nexts s) (bhead # bs) = bs @ [bhead]" "map (prevs s) (bs @ [bhead]) = bhead # bs" "bhead \<notin> set bs"
    using assms by (simp_all add: lru_def buf_ring_def)
  have "map (nexts s) bs = tl (bs @ [bhead])" "b_next (bufs s bhead) = hd (bs @ [bhead])"
    using r(1) by (metis list.map(2) list.sel(3), metis list.map(2) list.sel(1))
  then show "bscan b_next test NBUF (b_next (bufs s bhead)) s = Ok (find (\<lambda>b. test (bufs s b)) bs)"
    using bscan_next [of s bs NBUF test] r(3) lru_length [OF assms] by simp
  have "rev (map (prevs s) (bs @ [bhead])) = rev (bhead # bs)" using r(2) by simp
  then have "b_prev (bufs s bhead) # map (prevs s) (rev bs) = rev bs @ [bhead]" by (simp add: rev_map)
  then have "map (prevs s) (rev bs) = tl (rev bs @ [bhead])" "b_prev (bufs s bhead) = hd (rev bs @ [bhead])"
    by (metis list.sel(3), metis list.sel(1))
  then show "bscan b_prev test NBUF (b_prev (bufs s bhead)) s = Ok (find (\<lambda>b. test (bufs s b)) (rev bs))"
    using bscan_prev [of s "rev bs" NBUF test] r(3) lru_length [OF assms] by simp
qed

text \<open>The part of \<open>bget\<close> under the lock, on a free lock.\<close>

definition holds_block :: "uint32 \<Rightarrow> uint32 \<Rightarrow> buf \<Rightarrow> bool" where
  "holds_block dev blockno x \<longleftrightarrow> b_dev x = dev \<and> b_blockno x = blockno"

lemma bget_ref_eq:
  assumes "cpu_ok s" and "lock_free L_bcache s" and "lru s bs"
  shows "bget_ref dev blockno s =
     (case find (\<lambda>b. holds_block dev blockno (bufs s b)) bs of
        Some b \<Rightarrow> Ok (b, tidy (upd_buf b (\<lambda>x. x\<lparr>b_refcnt := b_refcnt x + 1\<rparr>) s))
      | None \<Rightarrow>
          (case find (\<lambda>b. b_refcnt (bufs s b) = 0) (rev bs) of
             Some b \<Rightarrow> Ok (b, tidy (upd_buf b (\<lambda>x. x\<lparr>b_dev := dev, b_blockno := blockno, b_valid := False, b_refcnt := 1\<rparr>) s))
           | None \<Rightarrow> Panic ''bget: no buffers''))"
proof -
  have sc: "bscan link test n b (acquired lk s) = bscan link test n b s" for link :: "buf \<Rightarrow> nat" and test n b lk
    by (induction link test n b s rule: bscan.induct) (subst (1 2) bscan.simps, auto split: nat.split simp: lock_simps)
  have rel: "release L_bcache (acquired L_bcache (upd_buf b f s)) = Ok (tidy (upd_buf b f s))" for b f
    using assms by (intro release_acquired) (simp_all add: lock_simps)
  show ?thesis
    using assms(2) lru_scans [OF assms(3)]
    by (auto simp: bget_ref_def acquire_free lock_simps sc rel holds_block_def split: option.split)
qed

lemma bcache_lock_simps [simp]:
  "lru (tidy s) bs = lru s bs" "one_each (tidy s) = one_each s"
  by (simp_all add: lru_def one_each_def lock_simps)

lemma lru_upd_buf:
  "(\<And>x. b_next (f x) = b_next x \<and> b_prev (f x) = b_prev x) \<Longrightarrow> lru (upd_buf b f s) bs = lru s bs"
proof -
  assume "\<And>x. b_next (f x) = b_next x \<and> b_prev (f x) = b_prev x"
  then have "nexts (upd_buf b f s) = nexts s" "prevs (upd_buf b f s) = prevs s" by (auto simp: upd_buf_def)
  then show ?thesis by (simp add: lru_def)
qed

lemma one_each_upd_buf:
  "(\<And>x. b_dev (f x) = b_dev x \<and> b_blockno (f x) = b_blockno x) \<Longrightarrow> one_each (upd_buf b f s) = one_each s"
proof -
  assume "\<And>x. b_dev (f x) = b_dev x \<and> b_blockno (f x) = b_blockno x"
  then have "b_dev (bufs (upd_buf b f s) a) = b_dev (bufs s a)" "b_blockno (bufs (upd_buf b f s) a) = b_blockno (bufs s a)" for a
    by (simp_all add: upd_buf_def)
  then show ?thesis unfolding one_each_def by simp
qed

lemma one_each_recycle:
  assumes "one_each s" and "\<forall>a < NBUF. \<not> holds_block dev blockno (bufs s a)"
  shows "one_each (upd_buf b (\<lambda>x. x\<lparr>b_dev := dev, b_blockno := blockno, b_valid := v, b_refcnt := r\<rparr>) s)"
  using assms unfolding one_each_def holds_block_def by (auto simp: upd_buf_def)

lemma find_rev_last:
  assumes "find Q (rev bs) = Some b"
  shows "\<exists>xs ys. bs = xs @ b # ys \<and> Q b \<and> (\<forall>y \<in> set ys. \<not> Q y)"
proof -
  obtain i where i: "i < length (rev bs)" "Q (rev bs ! i)" "b = rev bs ! i" "\<forall>j < i. \<not> Q (rev bs ! j)"
    using assms unfolding find_Some_iff by blast
  have "rev bs = take i (rev bs) @ b # drop (Suc i) (rev bs)" using i(1,3) by (simp add: id_take_nth_drop)
  then have "bs = rev (drop (Suc i) (rev bs)) @ b # rev (take i (rev bs))" by (metis append_assoc append_Cons append_Nil rev.simps(2) rev_append rev_rev_ident)
  moreover have "\<forall>y \<in> set (rev (take i (rev bs))). \<not> Q y" using i(1,4) by (auto simp: in_set_conv_nth)
  ultimately show ?thesis using i(2,3) by blast
qed

section \<open>The cache after boot\<close>

lemma initsleeplock_bufs [simp]: "bufs (initsleeplock k nm s) = bufs s"
  by (simp add: initsleeplock_def initlock_def Let_def upd_sl_def)

lemma binit_from_ring:
  assumes "buf_ring (nexts s) (prevs s) zs" and "distinct bs" and "set bs \<inter> set (bhead # zs) = {}"
  shows "buf_ring (nexts (binit_from bs s)) (prevs (binit_from bs s)) (rev bs @ zs)"
  using assms
proof (induction bs arbitrary: s zs)
  case (Cons b bs)
  let ?s = "upd_buf b (\<lambda>x. x\<lparr>b_next := b_next (bufs s bhead)\<rparr>) s"
  let ?t = "initsleeplock (Buf_lock b) ''buffer'' (upd_buf b (\<lambda>x. x\<lparr>b_prev := bhead\<rparr>) ?s)"
  let ?u = "upd_buf bhead (\<lambda>x. x\<lparr>b_next := b\<rparr>) (upd_buf (b_next (bufs ?t bhead)) (\<lambda>x. x\<lparr>b_prev := b\<rparr>) ?t)"
  have b: "b \<notin> set (bhead # zs)" "b \<noteq> bhead" using Cons.prems(3) by auto
  have "nexts ?u = (nexts s)(b := nexts s bhead, bhead := b)" "prevs ?u = (prevs s)(b := bhead, nexts s bhead := b)"
    using b(2) by (auto simp: upd_buf_def fun_eq_iff)
  then have ring: "buf_ring (nexts ?u) (prevs ?u) (b # zs)" using buf_ring_push [OF Cons.prems(1) b(1)] by (simp only:)
  have "distinct bs" "set bs \<inter> set (bhead # b # zs) = {}" using Cons.prems(2,3) by auto
  then have "buf_ring (nexts (binit_from bs ?u)) (prevs (binit_from bs ?u)) (rev bs @ b # zs)" by (rule Cons.IH [OF ring])
  then show ?case unfolding binit_from.simps Let_def rev.simps append_assoc append.simps .
qed simp

lemma binit_from_dev: "b_dev (bufs (binit_from bs s) a) = b_dev (bufs s a)" "b_refcnt (bufs (binit_from bs s) a) = b_refcnt (bufs s a)"
  by (induction bs arbitrary: s) (simp_all add: Let_def upd_buf_def)

lemma binit_lru: "lru (binit s) (rev [0..<NBUF])"
proof -
  let ?s = "upd_buf bhead (\<lambda>x. x\<lparr>b_next := bhead\<rparr>) (upd_buf bhead (\<lambda>x. x\<lparr>b_prev := bhead\<rparr>) (initlock L_bcache ''bcache'' s))"
  have "buf_ring (nexts ?s) (prevs ?s) []" by (simp add: buf_ring_def upd_buf_def)
  then have "buf_ring (nexts (binit s)) (prevs (binit s)) (rev [0..<NBUF] @ [])"
    unfolding binit_def Let_def by (intro binit_from_ring) auto
  then show ?thesis by (auto simp: lru_def)
qed

lemma binit_data: "b_dev (bufs (binit s) a) = b_dev (bufs s a)" "b_refcnt (bufs (binit s) a) = b_refcnt (bufs s a)"
  unfolding binit_def Let_def binit_from_dev by (simp_all add: upd_buf_def initlock_def)

lemma binit_one_each: "(\<And>a. b_dev (bufs s a) = 0) \<Longrightarrow> one_each (binit s)"
  by (simp add: one_each_def binit_data)

lemma initlock_calm: "calm p s \<Longrightarrow> calm p (initlock lk nm s)"
  by (simp add: calm_def initlock_def lock_free_def cpu_ok_def cpu_defs)

lemma initsleeplock_calm: "calm p s \<Longrightarrow> calm p (initsleeplock k nm s)"
  using initlock_calm [of p s "L_sleep k" "''sleep lock''"] by (simp add: initsleeplock_def calm_def Let_def lock_simps)

lemma upd_buf_calm [simp]: "calm p (upd_buf b f s) = calm p s"
  by (simp add: calm_def lock_simps)

lemma binit_from_calm: "calm p s \<Longrightarrow> calm p (binit_from bs s)"
  by (induction bs arbitrary: s) (simp_all add: Let_def initsleeplock_calm)

lemma binit_calm: "calm p s \<Longrightarrow> calm p (binit s)"
  unfolding binit_def Let_def by (intro binit_from_calm) (simp add: initlock_calm)

section \<open>Giving a buffer back\<close>

lemma link_updates:
  "b_next (bufs (upd_buf a (\<lambda>x. x\<lparr>b_next := v\<rparr>) s) c) = ((nexts s)(a := v)) c"
  "b_prev (bufs (upd_buf a (\<lambda>x. x\<lparr>b_next := v\<rparr>) s) c) = prevs s c"
  "b_next (bufs (upd_buf a (\<lambda>x. x\<lparr>b_prev := v\<rparr>) s) c) = nexts s c"
  "b_prev (bufs (upd_buf a (\<lambda>x. x\<lparr>b_prev := v\<rparr>) s) c) = ((prevs s)(a := v)) c"
  by (simp_all add: upd_buf_def)

lemma bmove_front_links:
  assumes "nexts s b \<noteq> b" and "b \<noteq> bhead"
  defines "N \<equiv> (nexts s)(prevs s b := nexts s b)" and "P \<equiv> (prevs s)(nexts s b := prevs s b)"
  shows "nexts (bmove_front b s) = N(b := N bhead, bhead := b)" "prevs (bmove_front b s) = P(b := bhead, N bhead := b)"
proof -
  have p: "((prevs s)(nexts s b := prevs s b)) b = prevs s b" using assms(1) by simp
  have n: "(f(b := v)) bhead = f bhead" for f :: "nat \<Rightarrow> nat" and v using assms(2) by simp
  show "nexts (bmove_front b s) = N(b := N bhead, bhead := b)" "prevs (bmove_front b s) = P(b := bhead, N bhead := b)"
    unfolding bmove_front_def Let_def N_def P_def by (simp_all only: link_updates p n)
qed

lemma bmove_front_lru:
  assumes "lru s bs" and "b < NBUF"
  shows "lru (bmove_front b s) (b # remove1 b bs)"
proof -
  have "b \<in> set bs" using assms by (simp add: lru_def)
  then obtain xs ys where bs: "bs = xs @ b # ys" "b \<notin> set xs" by (meson split_list_first)
  have r: "buf_ring (nexts s) (prevs s) (xs @ b # ys)" and d: "distinct (bhead # xs @ b # ys)"
    using assms(1) bs(1) by (simp_all add: lru_def buf_ring_def)
  have "nexts s b = hd (ys @ [bhead])" using buf_ring_split(2) [OF r] by (metis list.sel(1))
  then have n: "nexts s b \<noteq> b" using d by (cases ys) auto
  have "buf_ring ((nexts s)(prevs s b := nexts s b)) ((prevs s)(nexts s b := prevs s b)) (xs @ ys)"
    by (rule buf_ring_unlink [OF r])
  then have "buf_ring (nexts (bmove_front b s)) (prevs (bmove_front b s)) (b # xs @ ys)"
    unfolding bmove_front_links [OF n assms(2) [THEN less_imp_neq]] using d by (intro buf_ring_push) auto
  then show ?thesis using assms(1) bs d by (auto simp: lru_def remove1_append)
qed

lemma bmove_front_keeps:
  assumes "\<And>x v. f (x\<lparr>b_next := v\<rparr>) = f x" and "\<And>x v. f (x\<lparr>b_prev := v\<rparr>) = f x"
  shows "f (bufs (bmove_front b s) a) = f (bufs s a)"
proof -
  have "f (bufs (upd_buf c (\<lambda>x. x\<lparr>b_next := v\<rparr>) t) a) = f (bufs t a)" for c v and t :: "'b fsst_scheme"
    by (simp add: upd_buf_def assms)
  moreover have "f (bufs (upd_buf c (\<lambda>x. x\<lparr>b_prev := v\<rparr>) t) a) = f (bufs t a)" for c v and t :: "'b fsst_scheme"
    by (simp add: upd_buf_def assms)
  ultimately show ?thesis unfolding bmove_front_def Let_def by (simp only:)
qed

lemma bmove_front_data:
  "b_dev (bufs (bmove_front b s) a) = b_dev (bufs s a)" "b_blockno (bufs (bmove_front b s) a) = b_blockno (bufs s a)"
  "b_refcnt (bufs (bmove_front b s) a) = b_refcnt (bufs s a)" "b_valid (bufs (bmove_front b s) a) = b_valid (bufs s a)"
  "b_data (bufs (bmove_front b s) a) = b_data (bufs s a)" "b_disk (bufs (bmove_front b s) a) = b_disk (bufs s a)"
  by (rule bmove_front_keeps; simp)+

lemma brelse_eq:
  assumes "calm p s" and "sl_locked (sleeplocks s (Buf_lock b))" and "sl_pid (sleeplocks s (Buf_lock b)) = p_pid (procs s p)"
  shows "brelse b s =
     Ok (tidy (let u = upd_buf b (\<lambda>x. x\<lparr>b_refcnt := b_refcnt x - 1\<rparr>)
               ((upd_sl (Buf_lock b) (\<lambda>l. l\<lparr>sl_locked := False, sl_pid := 0\<rparr>) s)
                 \<lparr>procs := woken (Ch_sleeplock (Buf_lock b)) (Some p) {..<NPROC} (procs s)\<rparr>) in
         if b_refcnt (bufs u b) = 0 then bmove_front b u else u))"
proof -
  have free: "lock_free lk (bmove_front b u) = lock_free lk u" "cpu_ok (bmove_front b u) = cpu_ok u"
    "bmove_front b (acquired lk u) = acquired lk (bmove_front b u)" "bmove_front b (tidy u) = tidy (bmove_front b u)"
    for u :: "'a fsst_scheme" and lk
    by (simp_all add: bmove_front_def Let_def lock_simps)
  show ?thesis
    using assms by (simp add: brelse_def calm_def lock_simps Let_def free)
qed

section \<open>The buffer of a block\<close>

text \<open>
  C30: when \<open>bget\<close> has taken a reference, the buffer it returns is the only one that stands for
  the block. A block that is in the cache keeps its buffer and its contents; otherwise the
  buffer was not in use, every buffer that has been unused for longer is in use, and its
  contents are marked as not read. The ring of buffers is as before.
\<close>

theorem bget_unique:
  assumes "cpu_ok s" and "lock_free L_bcache s" and "lru s bs" and "one_each s" and "dev \<noteq> 0"
    and "bget_ref dev blockno s = Ok (b, s')"
  shows "lru s' bs \<and> one_each s' \<and> b < NBUF \<and> (\<forall>a < NBUF. holds_block dev blockno (bufs s' a) \<longleftrightarrow> a = b) \<and>
     (\<forall>a. a \<noteq> b \<longrightarrow> bufs s' a = bufs s a) \<and> b_data (bufs s' b) = b_data (bufs s b) \<and>
     (if holds_block dev blockno (bufs s b)
      then b_refcnt (bufs s' b) = b_refcnt (bufs s b) + 1 \<and> b_valid (bufs s' b) = b_valid (bufs s b)
      else b_refcnt (bufs s b) = 0 \<and> b_refcnt (bufs s' b) = 1 \<and> \<not> b_valid (bufs s' b) \<and>
        (\<exists>newer older. bs = newer @ b # older \<and> (\<forall>a \<in> set older. b_refcnt (bufs s a) \<noteq> 0)))"
proof (cases "find (\<lambda>b. holds_block dev blockno (bufs s b)) bs")
  case (Some c)
  then have c: "c \<in> set bs" "holds_block dev blockno (bufs s c)" by (auto simp: find_Some_iff)
  have s': "b = c" "s' = tidy (upd_buf c (\<lambda>x. x\<lparr>b_refcnt := b_refcnt x + 1\<rparr>) s)"
    using assms(6) unfolding bget_ref_eq [OF assms(1-3)] Some by auto
  have "lru s' bs" "one_each s'" using assms(3,4) by (simp_all add: s'(2) lru_upd_buf one_each_upd_buf)
  moreover have "b < NBUF" using c(1) assms(3) s'(1) by (simp add: lru_def)
  moreover have "holds_block dev blockno (bufs s' a) = holds_block dev blockno (bufs s a)" for a
    by (simp add: s'(2) lock_simps upd_buf_def holds_block_def)
  moreover have "holds_block dev blockno (bufs s a) \<longleftrightarrow> a = b" if "a < NBUF" for a
    using assms(4,5) c(2) \<open>b < NBUF\<close> s'(1) that unfolding one_each_def holds_block_def by metis
  ultimately show ?thesis using c(2) by (simp add: s' lock_simps upd_buf_def)
next
  case None
  have none: "\<forall>a < NBUF. \<not> holds_block dev blockno (bufs s a)" using None assms(3) by (simp add: find_None_iff lru_def)
  obtain c where c: "find (\<lambda>b. b_refcnt (bufs s b) = 0) (rev bs) = Some c"
    using assms(6) None unfolding bget_ref_eq [OF assms(1-3)] by (auto split: option.splits)
  then have s': "b = c" "s' = tidy (upd_buf c (\<lambda>x. x\<lparr>b_dev := dev, b_blockno := blockno, b_valid := False, b_refcnt := 1\<rparr>) s)"
    using assms(6) None unfolding bget_ref_eq [OF assms(1-3)] by auto
  obtain xs ys where bs: "bs = xs @ c # ys" "b_refcnt (bufs s c) = 0" "\<forall>y \<in> set ys. b_refcnt (bufs s y) \<noteq> 0"
    using find_rev_last [OF c] by blast
  have "lru s' bs" "one_each s'" using assms(3) one_each_recycle [OF assms(4) none] by (simp_all add: s'(2) lru_upd_buf)
  moreover have b: "b < NBUF" using assms(3) bs(1) s'(1) unfolding lru_def by auto
  moreover have "holds_block dev blockno (bufs s' a) \<longleftrightarrow> a = b" if "a < NBUF" for a
    using none that by (auto simp: s' lock_simps upd_buf_def holds_block_def)
  ultimately show ?thesis using none bs by (auto simp: s' lock_simps upd_buf_def)
qed

theorem bget_unique_witness:
  "\<exists>s'. bget_ref 1 7 (binit (demo_fs 4 (\<lambda>_. blank_proc))) = Ok (0, s') \<and> holds_block 1 7 (bufs s' 0) \<and> b_refcnt (bufs s' 0) = 1 \<and>
     \<not> holds_block 1 7 (bufs s' 3)"
proof -
  let ?s = "binit (demo_fs 4 (\<lambda>_. blank_proc))"
  have "calm 4 (demo_fs 4 (\<lambda>_. blank_proc))"
    using demo_fs_simps(3,4,5,6) [where p = 4 and ps = "\<lambda>_. blank_proc"] by (simp add: calm_def)
  then have c: "cpu_ok ?s" "lock_free L_bcache ?s" using binit_calm unfolding calm_def by blast+
  have d: "\<not> holds_block 1 7 (bufs ?s a)" "b_refcnt (bufs ?s a) = 0" for a by (simp_all add: holds_block_def binit_data)
  have "List.find (\<lambda>b. b_refcnt (bufs ?s b) = 0) (rev (rev [0..<NBUF])) = Some 0" by (simp add: d upt_rec)
  moreover have "List.find (\<lambda>b. holds_block 1 7 (bufs ?s b)) (rev [0..<NBUF]) = None" using d(1) by (simp only: find_None_iff) blast
  ultimately obtain s' where s': "bget_ref 1 7 ?s = Ok (0, s')"
    unfolding bget_ref_eq [OF c binit_lru] by auto
  have "one_each ?s" by (rule binit_one_each) simp
  from bget_unique [OF c binit_lru this _ s'] s' d show ?thesis by auto
qed

end
