(* ===== verification/Blocks.thy ===== *)
theory Blocks
  imports Bcache
begin

text \<open>
  The buffer cache as a store of blocks. For one device, \<open>blocks\<close> relates the kernel to what
  its clients see: the contents of every block, how many references each block has, which
  buffers this process has locked, and what is on the disk. Each operation of the cache has
  its contract in these terms, with the disk contents that a loss of power can leave behind.
  A block without references has on the disk what the cache has.
\<close>

section \<open>The relation\<close>

type_synonym block = "nat \<Rightarrow> uint8"

definition blk :: "(nat \<Rightarrow> uint8) \<Rightarrow> uint32 \<Rightarrow> block" where
  "blk img n = (\<lambda>j. if j < 1024 then img (1024 * unat n + j) else 0)"

definition contents :: "chars \<Rightarrow> block" where
  "contents d = (\<lambda>j. if j < 1024 then d j else 0)"

definition buf_of :: "uint32 \<Rightarrow> 'a fsst_scheme \<Rightarrow> uint32 \<Rightarrow> nat option" where
  "buf_of dev s n = first_match (\<lambda>b. holds_block dev n (bufs s b)) NBUF"

definition view :: "uint32 \<Rightarrow> 'a fsst_scheme \<Rightarrow> uint32 \<Rightarrow> block" where
  "view dev s n =
     (case buf_of dev s n of
        Some b \<Rightarrow> if b_valid (bufs s b) then contents (b_data (bufs s b)) else blk (disk_img s) n
      | None \<Rightarrow> blk (disk_img s) n)"

definition refs :: "uint32 \<Rightarrow> 'a fsst_scheme \<Rightarrow> uint32 \<Rightarrow> nat" where
  "refs dev s n = (case buf_of dev s n of Some b \<Rightarrow> unat (b_refcnt (bufs s b)) | None \<Rightarrow> 0)"

text \<open>The state of the cache; \<open>L\<close> are the buffers that \<open>p\<close> has locked, with their blocks.\<close>

definition cache_ok :: "uint32 \<Rightarrow> nat \<Rightarrow> (nat \<Rightarrow> uint32 option) \<Rightarrow> 'a fsst_scheme \<Rightarrow> bool" where
  "cache_ok dev p L s \<longleftrightarrow>
     calm p s \<and> disk_idle s \<and> (\<exists>bs. lru s bs) \<and> one_each s \<and> dev \<noteq> 0 \<and>
     (\<forall>b < NBUF. b_refcnt (bufs s b) \<noteq> 0 \<longrightarrow> b_dev (bufs s b) = dev) \<and>
     (\<forall>b < NBUF. sl_locked (sleeplocks s (Buf_lock b)) \<longleftrightarrow> L b \<noteq> None) \<and>
     (\<forall>b n. L b = Some n \<longrightarrow> b < NBUF \<and> holds_block dev n (bufs s b) \<and> b_valid (bufs s b) \<and> b_refcnt (bufs s b) \<noteq> 0 \<and>
        sl_pid (sleeplocks s (Buf_lock b)) = p_pid (procs s p))"

definition blocks :: "uint32 \<Rightarrow> nat \<Rightarrow> 'a fsst_scheme \<Rightarrow> (nat \<Rightarrow> uint32 option) \<Rightarrow> (uint32 \<Rightarrow> block) \<Rightarrow> (uint32 \<Rightarrow> nat) \<Rightarrow>
    (uint32 \<Rightarrow> block) \<Rightarrow> bool" where
  "blocks dev p s L V R D \<longleftrightarrow> cache_ok dev p L s \<and> view dev s = V \<and> refs dev s = R \<and> blk (disk_img s) = D \<and>
     (\<forall>n. R n = 0 \<longrightarrow> V n = D n)"

text \<open>What the operations of the cache may change.\<close>

definition cache_frame :: "'a fsst_scheme \<Rightarrow> 'a fsst_scheme \<Rightarrow> bool" where
  "cache_frame s s' \<longleftrightarrow> same_procs (procs s) (procs s') \<and>
     s' = s\<lparr>cpus := cpus s', procs := procs s', sleeplocks := sleeplocks s', bufs := bufs s', vdisk := vdisk s', vd_seen := vd_seen s',
       vmmio_log := vmmio_log s', disk_img := disk_img s'\<rparr>"

section \<open>Buffers and blocks\<close>

lemma buf_of_SomeD: "buf_of dev s n = Some b \<Longrightarrow> b < NBUF \<and> holds_block dev n (bufs s b)"
  unfolding buf_of_def using first_match_SomeD by fast

lemma buf_of_NoneD: "buf_of dev s n = None \<Longrightarrow> b < NBUF \<Longrightarrow> \<not> holds_block dev n (bufs s b)"
  by (simp add: buf_of_def first_match_None_iff)

lemma one_eachD:
  "one_each s \<Longrightarrow> dev \<noteq> 0 \<Longrightarrow> a < NBUF \<Longrightarrow> b < NBUF \<Longrightarrow> holds_block dev n (bufs s a) \<Longrightarrow> holds_block dev n (bufs s b) \<Longrightarrow> a = b"
  unfolding one_each_def holds_block_def by metis

lemma buf_ofI:
  assumes "one_each s" and "dev \<noteq> 0" and "b < NBUF" and "holds_block dev n (bufs s b)"
  shows "buf_of dev s n = Some b"
proof (cases "buf_of dev s n")
  case None
  then show ?thesis using buf_of_NoneD [OF _ assms(3)] assms(4) by blast
next
  case (Some a)
  then show ?thesis using buf_of_SomeD [OF Some] one_eachD [OF assms(1,2)] assms(3,4) by blast
qed

lemma holds_block_unique: "holds_block dev n x \<Longrightarrow> holds_block dev m x \<Longrightarrow> n = m"
  by (simp add: holds_block_def)

lemma finite_refs: "finite {n. refs dev s n \<noteq> 0}"
proof (rule finite_subset)
  show "{n. refs dev s n \<noteq> 0} \<subseteq> (\<lambda>b. b_blockno (bufs s b)) ` {..<NBUF}"
  proof
    fix n
    assume "n \<in> {n. refs dev s n \<noteq> 0}"
    then obtain b where "buf_of dev s n = Some b" by (auto simp: refs_def split: option.splits)
    from buf_of_SomeD [OF this] show "n \<in> (\<lambda>b. b_blockno (bufs s b)) ` {..<NBUF}" by (auto simp: holds_block_def)
  qed
qed simp

text \<open>There is an unused buffer while fewer blocks are in use than there are buffers.\<close>

lemma unused_buffer:
  assumes "cache_ok dev p L s" and "card {n. refs dev s n \<noteq> 0} < NBUF"
  shows "\<exists>b < NBUF. b_refcnt (bufs s b) = 0"
proof (rule ccontr)
  assume "\<not> ?thesis"
  then have used: "b_refcnt (bufs s b) \<noteq> 0" if "b < NBUF" for b using that by blast
  have ok: "one_each s" "dev \<noteq> 0" using assms(1) by (simp_all add: cache_ok_def)
  have holds: "holds_block dev (b_blockno (bufs s b)) (bufs s b)" if "b < NBUF" for b
    using assms(1) used [OF that] that by (simp add: cache_ok_def holds_block_def)
  have inj: "inj_on (\<lambda>b. b_blockno (bufs s b)) {..<NBUF}"
  proof (rule inj_onI)
    fix a b
    assume ab: "a \<in> {..<NBUF}" "b \<in> {..<NBUF}" "b_blockno (bufs s a) = b_blockno (bufs s b)"
    then have "a < NBUF" "b < NBUF" by simp_all
    with ab(3) holds [of a] holds [of b] show "a = b" using one_eachD [OF ok] by metis
  qed
  have "(\<lambda>b. b_blockno (bufs s b)) ` {..<NBUF} \<subseteq> {n. refs dev s n \<noteq> 0}"
  proof
    fix n
    assume "n \<in> (\<lambda>b. b_blockno (bufs s b)) ` {..<NBUF}"
    then obtain b where b: "b < NBUF" "n = b_blockno (bufs s b)" by auto
    have "buf_of dev s n = Some b" using buf_ofI [OF ok b(1)] holds [OF b(1)] b(2) by blast
    then show "n \<in> {n. refs dev s n \<noteq> 0}" using used [OF b(1)] by (simp add: refs_def unat_gt_0)
  qed
  from card_mono [OF finite_refs this] have "card {..<NBUF} \<le> card {n. refs dev s n \<noteq> 0}"
    unfolding card_image [OF inj] .
  with assms(2) show False by simp
qed

section \<open>Changing one buffer\<close>

lemma buf_of_cong:
  assumes "\<And>b. b_dev (bufs s' b) = b_dev (bufs s b) \<and> b_blockno (bufs s' b) = b_blockno (bufs s b)"
  shows "buf_of dev s' n = buf_of dev s n"
  using assms by (simp add: buf_of_def holds_block_def)

lemma one_each_take:
  assumes one: "one_each s" and others: "\<And>a. a \<noteq> b \<Longrightarrow> bufs s' a = bufs s a" and n: "holds_block dev n (bufs s' b)"
    and free: "\<And>a. a < NBUF \<Longrightarrow> a \<noteq> b \<Longrightarrow> \<not> holds_block dev n (bufs s a)"
  shows "one_each s'"
  unfolding one_each_def
proof (intro allI impI)
  fix a c
  assume ac: "a < NBUF" "c < NBUF" "b_dev (bufs s' a) \<noteq> 0" "b_dev (bufs s' a) = b_dev (bufs s' c)"
    "b_blockno (bufs s' a) = b_blockno (bufs s' c)"
  consider "a = b" "c \<noteq> b" | "a \<noteq> b" "c = b" | "a = b" "c = b" | "a \<noteq> b" "c \<noteq> b" by blast
  then show "a = c"
  proof cases
    case 1
    then show ?thesis using ac n others free [of c] by (simp add: holds_block_def)
  next
    case 2
    then show ?thesis using ac n others free [of a] by (simp add: holds_block_def)
  next
    case 4
    then show ?thesis using ac others one unfolding one_each_def by metis
  qed simp
qed

lemma buf_of_take:
  assumes one: "one_each s" "one_each s'" and dev: "dev \<noteq> 0" and b: "b < NBUF"
    and others: "\<And>a. a \<noteq> b \<Longrightarrow> bufs s' a = bufs s a" and n: "holds_block dev n (bufs s' b)"
  shows "buf_of dev s' m = (if m = n then Some b else if buf_of dev s m = Some b then None else buf_of dev s m)"
proof (cases "m = n")
  case True
  then show ?thesis using buf_ofI [OF one(2) dev b] n by simp
next
  case False
  then have nb: "\<not> holds_block dev m (bufs s' b)" using n holds_block_unique by blast
  show ?thesis
  proof (cases "buf_of dev s m = None \<or> buf_of dev s m = Some b")
    case True
    have "\<not> holds_block dev m (bufs s' a)" if "a < NBUF" for a
    proof
      assume h: "holds_block dev m (bufs s' a)"
      then have "a \<noteq> b" using nb by blast
      then have "buf_of dev s m = Some a" using h others buf_ofI [OF one(1) dev that] by simp
      with True \<open>a \<noteq> b\<close> show False by simp
    qed
    then have "buf_of dev s' m = None" unfolding buf_of_def first_match_None_iff by blast
    with True False show ?thesis by auto
  next
    case a: False
    then obtain a where "buf_of dev s m = Some a" "a \<noteq> b" by auto
    moreover from this have "buf_of dev s' m = Some a"
      using buf_of_SomeD [of dev s m a] others by (intro buf_ofI [OF one(2) dev]) auto
    ultimately show ?thesis using \<open>m \<noteq> n\<close> by simp
  qed
qed

lemma lru_links: "nexts s' = nexts s \<Longrightarrow> prevs s' = prevs s \<Longrightarrow> lru s' bs = lru s bs"
  by (simp add: lru_def)

text \<open>Buffer \<open>b\<close> is taken for block \<open>n\<close>: it stands for it already, or it is unused.\<close>

lemma blocks_take:
  assumes B: "blocks dev p s L V R D" and b: "b < NBUF" "L b = None"
    and hit: "buf_of dev s n = Some b \<or> buf_of dev s n = None \<and> b_refcnt (bufs s b) = 0"
    and x: "bufs s' = (bufs s)(b := x)" "b_next x = nexts s b" "b_prev x = prevs s b" "holds_block dev n x" "b_valid x"
      "contents (b_data x) = V n" "unat (b_refcnt x) = R n + 1"
    and l: "sleeplocks s' = (sleeplocks s)(Buf_lock b := l)" "sl_locked l" "sl_pid l = p_pid (procs s p)"
    and s': "p_pid (procs s' p) = p_pid (procs s p)" "calm p s'" "disk_idle s'" "disk_img s' = disk_img s"
  shows "blocks dev p s' (L(b \<mapsto> n)) V (R(n := R n + 1)) D"
proof -
  have ok: "one_each s" "dev \<noteq> 0" and VRD: "view dev s = V" "refs dev s = R" "blk (disk_img s) = D" "\<And>n. R n = 0 \<Longrightarrow> V n = D n"
    using B by (simp_all add: blocks_def cache_ok_def)
  have others: "bufs s' a = bufs s a" if "a \<noteq> b" for a using that x(1) by simp
  have n: "holds_block dev n (bufs s' b)" using x(1,4) by simp
  have "\<not> holds_block dev n (bufs s a)" if "a < NBUF" "a \<noteq> b" for a
    using hit buf_ofI [OF ok that(1), of n] that(2) by auto
  from one_each_take [OF ok(1) others n this] have one: "one_each s'" .
  note of' = buf_of_take [OF ok(1) one ok(2) b(1) others n]
  have evicted: "V m = D m \<and> R m = 0" if "m \<noteq> n" "buf_of dev s m = Some b" for m
  proof -
    have "buf_of dev s n \<noteq> Some b" using that buf_of_SomeD [of dev s] holds_block_unique by blast
    then have "refs dev s m = 0" using hit that(2) by (simp add: refs_def)
    then show ?thesis using VRD by auto
  qed
  have "view dev s' m = V m" for m
    using evicted [of m] x VRD(3) s'(4) by (auto simp: view_def of' simp flip: VRD(1) split: option.splits)
  then have view': "view dev s' = V" by (rule ext)
  have "refs dev s' m = (R(n := R n + 1)) m" for m
    using evicted [of m] x by (auto simp: refs_def of' simp flip: VRD(2) split: option.splits)
  then have refs': "refs dev s' = R(n := R n + 1)" by (rule ext)
  have "nexts s' = nexts s" "prevs s' = prevs s" using x(1-3) by auto
  then have "lru s' bs = lru s bs" for bs by (rule lru_links)
  moreover have "b_refcnt x \<noteq> 0" "b_dev x = dev" using x(4,7) by (auto simp: holds_block_def)
  ultimately show ?thesis
    using B one s' l b x view' refs' unfolding blocks_def cache_ok_def by auto
qed

text \<open>The buffer of block \<open>n\<close>, which \<open>p\<close> has locked, changes.\<close>

lemma blocks_held:
  assumes B: "blocks dev p s L V R D" and b: "L b = Some n"
    and keys: "\<And>a. b_dev (bufs s' a) = b_dev (bufs s a) \<and> b_blockno (bufs s' a) = b_blockno (bufs s a) \<and> b_valid (bufs s' a) = b_valid (bufs s a)"
    and others: "\<And>a. a \<noteq> b \<Longrightarrow> b_data (bufs s' a) = b_data (bufs s a) \<and> b_refcnt (bufs s' a) = b_refcnt (bufs s a)"
    and s': "p_pid (procs s' p) = p_pid (procs s p)" "calm p s'" "disk_idle s'" "lru s' bs"
    and l: "\<And>a. a \<noteq> b \<Longrightarrow> sleeplocks s' (Buf_lock a) = sleeplocks s (Buf_lock a)"
    and L': "L' = L \<and> sleeplocks s' (Buf_lock b) = sleeplocks s (Buf_lock b) \<and> b_refcnt (bufs s' b) \<noteq> 0 \<or>
      L' = L(b := None) \<and> \<not> sl_locked (sleeplocks s' (Buf_lock b))"
    and D': "\<And>m. m \<noteq> n \<Longrightarrow> blk (disk_img s') m = D m"
    and clean: "b_refcnt (bufs s' b) = 0 \<Longrightarrow> contents (b_data (bufs s' b)) = blk (disk_img s') n"
  shows "blocks dev p s' L' (V(n := contents (b_data (bufs s' b)))) (R(n := unat (b_refcnt (bufs s' b)))) (blk (disk_img s'))"
proof -
  have ok: "one_each s" "dev \<noteq> 0" and VRD: "view dev s = V" "refs dev s = R" "blk (disk_img s) = D" "\<And>n. R n = 0 \<Longrightarrow> V n = D n"
    and h: "b < NBUF" "holds_block dev n (bufs s b)" "b_valid (bufs s b)"
    using B b by (simp_all add: blocks_def cache_ok_def)
  have of': "buf_of dev s' m = buf_of dev s m" for m using keys by (intro buf_of_cong) blast
  have n: "buf_of dev s n = Some b" by (rule buf_ofI [OF ok h(1,2)])
  have notb: "a \<noteq> b" if "m \<noteq> n" "buf_of dev s m = Some a" for m a
    using that n h(2) buf_of_SomeD [of dev s] holds_block_unique by blast
  have "view dev s' m = (V(n := contents (b_data (bufs s' b)))) m" for m
    using n notb [of m] h(3) keys others D' VRD(3) by (auto simp: view_def of' simp flip: VRD(1) split: option.splits)
  then have view': "view dev s' = V(n := contents (b_data (bufs s' b)))" by (rule ext)
  have "refs dev s' m = (R(n := unat (b_refcnt (bufs s' b)))) m" for m
    using n notb [of m] others by (auto simp: refs_def of' simp flip: VRD(2) split: option.splits)
  then have refs': "refs dev s' = R(n := unat (b_refcnt (bufs s' b)))" by (rule ext)
  have "one_each s'" using ok(1) keys unfolding one_each_def by metis
  moreover have "holds_block dev m (bufs s' a) = holds_block dev m (bufs s a)" for a m using keys by (simp add: holds_block_def)
  moreover have "(\<forall>a < NBUF. sl_locked (sleeplocks s' (Buf_lock a)) \<longleftrightarrow> L' a \<noteq> None)"
    using B l L' unfolding blocks_def cache_ok_def by (metis fun_upd_apply)
  moreover have "\<forall>a m. L' a = Some m \<longrightarrow> L a = Some m \<and> sleeplocks s' (Buf_lock a) = sleeplocks s (Buf_lock a) \<and>
      b_refcnt (bufs s' a) \<noteq> 0"
    using B l L' others unfolding blocks_def cache_ok_def by (metis fun_upd_apply option.distinct(1))
  moreover have "\<forall>a < NBUF. b_refcnt (bufs s' a) \<noteq> 0 \<longrightarrow> b_dev (bufs s' a) = dev"
    using B h(2) keys others unfolding blocks_def cache_ok_def holds_block_def by metis
  moreover have "\<forall>m. (R(n := unat (b_refcnt (bufs s' b)))) m = 0 \<longrightarrow> (V(n := contents (b_data (bufs s' b)))) m = blk (disk_img s') m"
    using VRD(4) D' clean by (simp add: unat_eq_zero)
  ultimately show ?thesis
    using B s' ok(2) keys view' refs' unfolding blocks_def cache_ok_def by auto
qed

section \<open>The frame\<close>

lemma cache_frame_refl [simp]: "cache_frame s s"
  by (simp add: cache_frame_def)

lemma cache_frame_trans:
  assumes "cache_frame s t" and "cache_frame t u"
  shows "cache_frame s u"
proof -
  from assms(1) have t: "t = s\<lparr>cpus := cpus t, procs := procs t, sleeplocks := sleeplocks t, bufs := bufs t, vdisk := vdisk t, vd_seen := vd_seen t,
       vmmio_log := vmmio_log t, disk_img := disk_img t\<rparr>" by (simp add: cache_frame_def)
  from assms(2) have "u = t\<lparr>cpus := cpus u, procs := procs u, sleeplocks := sleeplocks u, bufs := bufs u, vdisk := vdisk u, vd_seen := vd_seen u,
       vmmio_log := vmmio_log u, disk_img := disk_img u\<rparr>" by (simp add: cache_frame_def)
  also have "\<dots> = s\<lparr>cpus := cpus u, procs := procs u, sleeplocks := sleeplocks u, bufs := bufs u, vdisk := vdisk u, vd_seen := vd_seen u,
       vmmio_log := vmmio_log u, disk_img := disk_img u\<rparr>" by (subst t) simp
  finally show ?thesis using assms same_procs_trans unfolding cache_frame_def by blast
qed

lemma disk_frame_sleeplocks:
  assumes "disk_frame s t"
  shows "sleeplocks t = sleeplocks s"
proof -
  have t: "t = s\<lparr>cpus := cpus t, procs := procs t, bufs := bufs t, vdisk := vdisk t, vd_seen := vd_seen t,
       vmmio_log := vmmio_log t, disk_img := disk_img t\<rparr>" using assms by (simp add: disk_frame_def)
  show ?thesis by (subst t) simp
qed

lemma disk_cache_frame: "disk_frame s t \<Longrightarrow> cache_frame s t"
proof -
  assume d: "disk_frame s t"
  then have t: "t = s\<lparr>cpus := cpus t, procs := procs t, bufs := bufs t, vdisk := vdisk t, vd_seen := vd_seen t,
       vmmio_log := vmmio_log t, disk_img := disk_img t\<rparr>" by (simp add: disk_frame_def)
  have "t = s\<lparr>cpus := cpus t, procs := procs t, sleeplocks := sleeplocks t, bufs := bufs t, vdisk := vdisk t, vd_seen := vd_seen t,
       vmmio_log := vmmio_log t, disk_img := disk_img t\<rparr>" unfolding disk_frame_sleeplocks [OF d] by (subst t) simp
  with d show ?thesis unfolding cache_frame_def disk_frame_def by blast
qed

lemma cache_frame_steps:
  assumes "cache_frame s t"
  shows "cache_frame s (tidy t)" "cache_frame s (upd_sl k f t)" "cache_frame s (upd_buf b h t)"
    "cache_frame s (t\<lparr>procs := woken ch me A (procs t)\<rparr>)"
  by (rule cache_frame_trans [OF assms]; simp add: cache_frame_def tidy_def upd_sl_def upd_buf_def woken_def same_procs_def)+

lemma cache_frame_move: "cache_frame s t \<Longrightarrow> cache_frame s (bmove_front b t)"
  unfolding bmove_front_def Let_def by (intro cache_frame_steps)

lemma cache_frame_sel:
  assumes "cache_frame s t"
  shows "log t = log s" "sb t = sb s" "inodes t = inodes s" "p_pid (procs t p) = p_pid (procs s p)"
proof -
  from assms have t: "t = s\<lparr>cpus := cpus t, procs := procs t, sleeplocks := sleeplocks t, bufs := bufs t, vdisk := vdisk t, vd_seen := vd_seen t,
       vmmio_log := vmmio_log t, disk_img := disk_img t\<rparr>" and p: "same_procs (procs s) (procs t)" by (simp_all add: cache_frame_def)
  show "log t = log s" "sb t = sb s" "inodes t = inodes s" by (subst t, simp)+
  have "procs t p = (procs s p)\<lparr>p_state := p_state (procs t p), p_chan := p_chan (procs t p)\<rparr>" using p by (simp add: same_procs_def)
  from arg_cong [OF this, of p_pid] show "p_pid (procs t p) = p_pid (procs s p)" by simp
qed

section \<open>Reading a block\<close>

lemma bget_take:
  assumes B: "blocks dev p s L V R D" and n: "n \<notin> ran L" and room: "R n \<noteq> 0 \<or> card {m. R m \<noteq> 0} < NBUF"
  shows "\<exists>b f. b < NBUF \<and> L b = None \<and>
     bget dev n s = Done (Ok (b, tidy (upd_sl (Buf_lock b) (\<lambda>l. l\<lparr>sl_locked := True, sl_pid := p_pid (procs s p)\<rparr>) (tidy (upd_buf b f s))))) \<and>
     (buf_of dev s n = Some b \<and> f = (\<lambda>x. x\<lparr>b_refcnt := b_refcnt x + 1\<rparr>) \<or>
      buf_of dev s n = None \<and> b_refcnt (bufs s b) = 0 \<and>
        f = (\<lambda>x. x\<lparr>b_dev := dev, b_blockno := n, b_valid := False, b_refcnt := 1\<rparr>))"
proof -
  have C: "cache_ok dev p L s" and refs: "refs dev s = R" using B by (simp_all add: blocks_def)
  then obtain bs where ok: "calm p s" "lru s bs" "one_each s" "dev \<noteq> 0" by (auto simp: cache_ok_def)
  have free: "\<not> sl_locked (sleeplocks s (Buf_lock b))" if "b < NBUF" "L b = None" for b using C that by (simp add: cache_ok_def)
  have cpu: "cpu_ok s" "lock_free L_bcache s" using ok(1) by (simp_all add: calm_def)
  have lock: "acquiresleep (Buf_lock b) (tidy (upd_buf b f s)) =
      Done (Ok ((), tidy (upd_sl (Buf_lock b) (\<lambda>l. l\<lparr>sl_locked := True, sl_pid := p_pid (procs s p)\<rparr>) (tidy (upd_buf b f s)))))"
    if "b < NBUF" "L b = None" for b f
    using ok(1) free [OF that] acquiresleep_free [of "tidy (upd_buf b f s)" p "Buf_lock b"] by (simp add: calm_def lock_simps)
  have got: "bget dev n s = Done (Ok (b, tidy (upd_sl (Buf_lock b) (\<lambda>l. l\<lparr>sl_locked := True, sl_pid := p_pid (procs s p)\<rparr>) (tidy (upd_buf b f s)))))"
    if "bget_ref dev n s = Ok (b, tidy (upd_buf b f s))" "b < NBUF" "L b = None" for b f
    using lock [OF that(2,3)] that(1) by (simp add: bget_def)
  show ?thesis
  proof (cases "List.find (\<lambda>b. holds_block dev n (bufs s b)) bs")
    case (Some b)
    then have b: "b \<in> set bs" "holds_block dev n (bufs s b)" by (auto simp: find_Some_iff)
    then have "b < NBUF" using ok(2) by (simp add: lru_def)
    moreover have "L b = None"
    proof (rule ccontr)
      assume "L b \<noteq> None"
      then obtain m where m: "L b = Some m" by blast
      then have "holds_block dev m (bufs s b)" using C by (simp add: cache_ok_def)
      then show False using b(2) m n holds_block_unique by (metis ranI)
    qed
    moreover have "buf_of dev s n = Some b" by (rule buf_ofI [OF ok(3,4) \<open>b < NBUF\<close> b(2)])
    ultimately show ?thesis using got [of b] bget_ref_eq [OF cpu ok(2), of dev n] Some by auto
  next
    case None
    have none: "buf_of dev s n = None"
      using None ok(2) by (auto simp: find_None_iff lru_def buf_of_def first_match_None_iff)
    then have "R n = 0" by (simp add: refs_def flip: refs)
    then have "\<exists>b < NBUF. b_refcnt (bufs s b) = 0" using room unused_buffer [OF C] refs by simp
    then have "List.find (\<lambda>b. b_refcnt (bufs s b) = 0) (rev bs) \<noteq> None"
      using ok(2) by (auto simp: find_None_iff lru_def)
    then obtain b where b: "List.find (\<lambda>b. b_refcnt (bufs s b) = 0) (rev bs) = Some b" by blast
    have "b \<in> set bs" "b_refcnt (bufs s b) = 0" using find_rev_last [OF b] by auto
    moreover from this have "b < NBUF" using ok(2) by (simp add: lru_def)
    moreover have "L b = None" using C \<open>b_refcnt (bufs s b) = 0\<close> by (cases "L b") (auto simp: cache_ok_def)
    ultimately show ?thesis using got [of b] bget_ref_eq [OF cpu ok(2), of dev n] None b none by auto
  qed
qed

lemma blk_read: "contents (\<lambda>j. if j < 1024 then img (1024 * unat n + j) else d j) = blk img n"
  by (auto simp: contents_def blk_def)

lemma upd_sl_calm [simp]: "calm p (upd_sl k f s) = calm p s"
  by (simp add: calm_def lock_simps)

lemma disk_idle_simps [simp]:
  "disk_idle (tidy s) = disk_idle s" "disk_idle (upd_sl k f s) = disk_idle s" "disk_idle (upd_buf b g s) = disk_idle s"
  by (simp_all add: disk_idle_def lock_simps upd_sl_def upd_buf_def)

text \<open>
  \<open>bread\<close> returns a locked buffer with the contents of the block. Nothing changes on the disk.
\<close>

lemma bread_runs:
  assumes dsk: "virtio_blk_device disk" and B: "blocks dev p s L V R D" and n: "n \<notin> ran L" "unat n < 2 ^ 31"
    and room: "R n \<noteq> 0 \<or> card {m. R m \<noteq> 0} < NBUF" and few: "R n + 1 < 2 ^ 32"
  shows "\<exists>b s'. runs (disk_turn disk p) (\<lambda>u. blk (disk_img u) = D) (bread dev n s) (Ok (b, s')) \<and> L b = None \<and>
     blocks dev p s' (L(b \<mapsto> n)) V (R(n := R n + 1)) D \<and> cache_frame s s'"
proof -
  have C: "cache_ok dev p L s" and VRD: "view dev s = V" "refs dev s = R" "blk (disk_img s) = D" using B by (simp_all add: blocks_def)
  then have ok: "calm p s" "disk_idle s" by (simp_all add: cache_ok_def)
  obtain b f where b: "b < NBUF" "L b = None"
    and got: "bget dev n s = Done (Ok (b, tidy (upd_sl (Buf_lock b) (\<lambda>l. l\<lparr>sl_locked := True, sl_pid := p_pid (procs s p)\<rparr>) (tidy (upd_buf b f s)))))"
    and f: "buf_of dev s n = Some b \<and> f = (\<lambda>x. x\<lparr>b_refcnt := b_refcnt x + 1\<rparr>) \<or>
      buf_of dev s n = None \<and> b_refcnt (bufs s b) = 0 \<and>
        f = (\<lambda>x. x\<lparr>b_dev := dev, b_blockno := n, b_valid := False, b_refcnt := 1\<rparr>)"
    using bget_take [OF B n(1) room] by blast
  let ?t = "tidy (upd_sl (Buf_lock b) (\<lambda>l. l\<lparr>sl_locked := True, sl_pid := p_pid (procs s p)\<rparr>) (tidy (upd_buf b f s)))"
  let ?x = "f (bufs s b)"
  have hit: "buf_of dev s n = Some b \<or> buf_of dev s n = None \<and> b_refcnt (bufs s b) = 0" using f by blast
  have x: "b_next ?x = nexts s b" "b_prev ?x = prevs s b" "holds_block dev n ?x" "unat (b_refcnt ?x) = R n + 1"
    "b_valid ?x \<Longrightarrow> contents (b_data ?x) = V n" "\<not> b_valid ?x \<Longrightarrow> blk (disk_img s) n = V n"
  proof -
    have "unat (b_refcnt (bufs s b) + 1) = unat (b_refcnt (bufs s b)) + 1" if "buf_of dev s n = Some b"
      using few that by (subst unat_add_lem [THEN iffD1]) (simp_all add: refs_def flip: VRD(2))
    then show "b_next ?x = nexts s b" "b_prev ?x = prevs s b" "holds_block dev n ?x" "unat (b_refcnt ?x) = R n + 1"
      "b_valid ?x \<Longrightarrow> contents (b_data ?x) = V n" "\<not> b_valid ?x \<Longrightarrow> blk (disk_img s) n = V n"
      using f buf_of_SomeD [of dev s n b] by (auto simp: refs_def view_def holds_block_def simp flip: VRD(1,2) split: option.splits)
  qed
  have t: "calm p ?t" "disk_idle ?t" "cache_frame s ?t"
    using ok by (intro calm_steps, simp add: calm_steps, simp, intro cache_frame_steps cache_frame_refl)
  have sel: "bufs ?t = (bufs s)(b := ?x)" "disk_img ?t = disk_img s" "procs ?t = procs s"
    "sleeplocks ?t = (sleeplocks s)(Buf_lock b := (sleeplocks s (Buf_lock b))\<lparr>sl_locked := True, sl_pid := p_pid (procs s p)\<rparr>)"
    by (simp_all add: lock_simps upd_sl_def)
  show ?thesis
  proof (cases "b_valid ?x")
    case True
    have "blocks dev p ?t (L(b \<mapsto> n)) V (R(n := R n + 1)) D"
      by (rule blocks_take [OF B b hit sel(1) x(1-3) True x(5) [OF True] x(4) sel(4)]) (simp_all add: t ok sel)
    moreover have "bread dev n s = Done (Ok (b, ?t))" using True by (simp add: bread_def got sel)
    ultimately show ?thesis using b(2) t(3) by auto
  next
    case False
    have nb: "b_blockno (bufs ?t b) = n" using x(3) by (simp add: sel holds_block_def)
    obtain u where u: "runs (disk_turn disk p) (in_transit b False (1024 * unat n) ?t) (virtio_disk_rw b False ?t) (Ok ((), u))"
      "calm p u" "disk_idle u" "disk_frame ?t u"
      "bufs u = (moved_bufs b False (1024 * unat n) ?t)(b := (moved_bufs b False (1024 * unat n) ?t b)\<lparr>b_disk := False\<rparr>)"
      "disk_img u = moved_disk b False (1024 * unat n) ?t"
      using disk_rw_runs [OF dsk t(1,2), of b False] n(2) unfolding nb by blast
    let ?u = "upd_buf b (\<lambda>x. x\<lparr>b_valid := True\<rparr>) u"
    let ?y = "?x\<lparr>b_data := (\<lambda>j. if j < 1024 then disk_img s (1024 * unat n + j) else b_data ?x j), b_disk := False, b_valid := True\<rparr>"
    have u': "bufs ?u = (bufs s)(b := ?y)" "disk_img ?u = disk_img s"
      by (simp_all add: u(5,6) moved_bufs_def moved_disk_def sel cong: if_cong)
    have fr: "cache_frame ?t ?u" using disk_cache_frame [OF u(4)] by (rule cache_frame_steps)
    have sl: "sleeplocks ?u = sleeplocks ?t" using disk_frame_sleeplocks [OF u(4)] by simp
    have "blocks dev p ?u (L(b \<mapsto> n)) V (R(n := R n + 1)) D"
      by (rule blocks_take [OF B b hit u'(1) _ _ _ _ _ _ sl [unfolded sel(4)]])
        (use x False cache_frame_sel(4) [OF fr] in \<open>simp_all add: u moved_disk_def blk_read sel holds_block_def\<close>)
    moreover have "runs (disk_turn disk p) (\<lambda>u. blk (disk_img u) = D) (virtio_disk_rw b False ?t) (Ok ((), u))"
      by (rule runs_weaken [OF u(1)]) (simp add: in_transit_def moved_disk_def sel VRD(3))
    then have "runs (disk_turn disk p) (\<lambda>u. blk (disk_img u) = D) (bread dev n s) (Ok (b, ?u))"
      using False by (simp add: bread_def got sel runs_bindT)
    ultimately show ?thesis using b(2) cache_frame_trans [OF t(3) fr] by blast
  qed
qed

section \<open>Writing a block and giving it back\<close>

text \<open>A locked buffer has the contents of its block.\<close>

lemma blocks_heldD:
  assumes "blocks dev p s L V R D" and "L b = Some n"
  shows "calm p s" "disk_idle s" "\<exists>bs. lru s bs" "b < NBUF" "b_blockno (bufs s b) = n" "contents (b_data (bufs s b)) = V n"
    "b_refcnt (bufs s b) \<noteq> 0" "unat (b_refcnt (bufs s b)) = R n" "R n \<noteq> 0"
    "sl_locked (sleeplocks s (Buf_lock b))" "sl_pid (sleeplocks s (Buf_lock b)) = p_pid (procs s p)" "blk (disk_img s) = D"
proof -
  have C: "cache_ok dev p L s" and VRD: "view dev s = V" "refs dev s = R" and D: "blk (disk_img s) = D"
    using assms(1) by (simp_all add: blocks_def)
  have h: "b < NBUF" "holds_block dev n (bufs s b)" "b_valid (bufs s b)" "b_refcnt (bufs s b) \<noteq> 0" "one_each s" "dev \<noteq> 0"
    "sl_pid (sleeplocks s (Buf_lock b)) = p_pid (procs s p)"
    using C assms(2) by (simp_all add: cache_ok_def)
  have "buf_of dev s n = Some b" by (rule buf_ofI [OF h(5,6,1,2)])
  then show "contents (b_data (bufs s b)) = V n" "unat (b_refcnt (bufs s b)) = R n"
    using h(3) by (simp_all add: view_def refs_def flip: VRD)
  then show "R n \<noteq> 0" using h(4) by (metis unat_eq_zero)
  show "calm p s" "disk_idle s" "\<exists>bs. lru s bs" "b < NBUF" "b_blockno (bufs s b) = n" "b_refcnt (bufs s b) \<noteq> 0"
    "sl_locked (sleeplocks s (Buf_lock b))" "sl_pid (sleeplocks s (Buf_lock b)) = p_pid (procs s p)" "blk (disk_img s) = D"
    using C h assms(2) D by (auto simp: cache_ok_def holds_block_def)
qed

lemma blk_write:
  "blk (\<lambda>a. if 1024 * unat n \<le> a \<and> a < 1024 * unat n + 1024 then d (a - 1024 * unat n) else img a) m = (if m = n then contents d else blk img m)"
proof (cases "m = n")
  case False
  then have "unat m \<noteq> unat n" by (metis unsigned_word_eqI)
  then have "1024 * unat m + 1024 \<le> 1024 * unat n \<or> 1024 * unat n + 1024 \<le> 1024 * unat m" by linarith
  then show ?thesis using False by (auto simp: blk_def fun_eq_iff)
qed (auto simp: blk_def contents_def fun_eq_iff)

lemma bwrite_runs:
  assumes dsk: "virtio_blk_device disk" and B: "blocks dev p s L V R D" and b: "L b = Some n" and small: "unat n < 2 ^ 31"
  shows "\<exists>s'. runs (disk_turn disk p) (\<lambda>u. blk (disk_img u) = D \<or> blk (disk_img u) = D(n := V n)) (bwrite b s) (Ok ((), s')) \<and>
     blocks dev p s' L V R (D(n := V n)) \<and> cache_frame s s'"
proof -
  note h = blocks_heldD [OF B b]
  have held: "holdingsleep (Buf_lock b) s = Ok (True, tidy s)"
    using h(1,10,11) holdingsleep_eq [of s p "Buf_lock b"] by (simp add: calm_def)
  have t: "calm p (tidy s)" "disk_idle (tidy s)" "b_blockno (bufs (tidy s) b) = n"
    using h(1,2,5) by (simp_all add: calm_steps lock_simps)
  obtain u where u: "runs (disk_turn disk p) (in_transit b True (1024 * unat n) (tidy s)) (virtio_disk_rw b True (tidy s)) (Ok ((), u))"
    "calm p u" "disk_idle u" "disk_frame (tidy s) u"
    "bufs u = (moved_bufs b True (1024 * unat n) (tidy s))(b := (moved_bufs b True (1024 * unat n) (tidy s) b)\<lparr>b_disk := False\<rparr>)"
    "disk_img u = moved_disk b True (1024 * unat n) (tidy s)"
    using disk_rw_runs [OF dsk t(1,2), of b True] small unfolding t(3) by blast
  have bufs: "bufs u = (bufs s)(b := (bufs s b)\<lparr>b_disk := False\<rparr>)" by (simp add: u(5) moved_bufs_def lock_simps)
  have D': "blk (moved_disk b True (1024 * unat n) (tidy s)) = D(n := V n)"
    using h(6,12) by (auto simp: moved_disk_def blk_write lock_simps fun_eq_iff)
  have "runs (disk_turn disk p) (\<lambda>u. blk (disk_img u) = D \<or> blk (disk_img u) = D(n := V n)) (virtio_disk_rw b True (tidy s)) (Ok ((), u))"
    by (rule runs_weaken [OF u(1)]) (use D' h(12) in \<open>auto simp: in_transit_def lock_simps\<close>)
  then have "runs (disk_turn disk p) (\<lambda>u. blk (disk_img u) = D \<or> blk (disk_img u) = D(n := V n)) (bwrite b s) (Ok ((), u))"
    by (simp add: bwrite_def held)
  moreover have fr: "cache_frame s u"
    by (rule cache_frame_trans [OF cache_frame_steps(1) [OF cache_frame_refl] disk_cache_frame [OF u(4)]])
  moreover have "sleeplocks u = sleeplocks s" using disk_frame_sleeplocks [OF u(4)] by (simp add: lock_simps)
  moreover obtain bs where "lru s bs" using h(3) by blast
  then have "lru u bs" using lru_links [of u s bs] by (simp add: bufs fun_eq_iff)
  ultimately have "blocks dev p u L (V(n := contents (b_data (bufs u b)))) (R(n := unat (b_refcnt (bufs u b)))) (blk (disk_img u))"
    using h cache_frame_sel(4) [OF fr] D' u(2,3) by (intro blocks_held [OF B b]) (auto simp: bufs u(6))
  moreover have "V(n := contents (b_data (bufs u b))) = V" "R(n := unat (b_refcnt (bufs u b))) = R" using h(6,8) by (auto simp: bufs)
  ultimately show ?thesis using \<open>cache_frame s u\<close> D' u(6) \<open>runs _ _ (bwrite b s) _\<close> by auto
qed

lemma set_data_blocks:
  assumes B: "blocks dev p s L V R D" and b: "L b = Some n"
  shows "blocks dev p (set_data b f s) L (V(n := contents (f (b_data (bufs s b))))) R D" "cache_frame s (set_data b f s)"
proof -
  note h = blocks_heldD [OF B b]
  let ?u = "set_data b f s"
  obtain bs where "lru s bs" using h(3) by blast
  then have "lru ?u bs" by (simp add: set_data_def lru_upd_buf)
  then have "blocks dev p ?u L (V(n := contents (b_data (bufs ?u b)))) (R(n := unat (b_refcnt (bufs ?u b)))) (blk (disk_img ?u))"
    using h by (intro blocks_held [OF B b]) (auto simp: set_data_def)
  moreover have "R(n := unat (b_refcnt (bufs ?u b))) = R" "blk (disk_img ?u) = D" using h(8,12) by (auto simp: set_data_def)
  ultimately show "blocks dev p ?u L (V(n := contents (f (b_data (bufs s b))))) R D" by (simp add: set_data_def)
  show "cache_frame s ?u" unfolding set_data_def by (intro cache_frame_steps cache_frame_refl)
qed

lemma unat_pred: "x \<noteq> 0 \<Longrightarrow> unat (x - 1) = unat x - 1" for x :: uint32
  by (simp add: unat_minus_one)

lemma bmove_front_sel [simp]:
  "sleeplocks (bmove_front b s) = sleeplocks s" "disk_img (bmove_front b s) = disk_img s" "procs (bmove_front b s) = procs s"
  "calm p (bmove_front b s) = calm p s" "disk_idle (bmove_front b s) = disk_idle s"
  by (simp_all add: bmove_front_def Let_def)

text \<open>A buffer that loses its last reference has to be on the disk.\<close>

lemma brelse_blocks:
  assumes B: "blocks dev p s L V R D" and b: "L b = Some n" and clean: "R n > 1 \<or> V n = D n"
  shows "\<exists>s'. brelse b s = Ok s' \<and> blocks dev p s' (L(b := None)) V (R(n := R n - 1)) D \<and> cache_frame s s'"
proof -
  note h = blocks_heldD [OF B b]
  let ?l = "upd_sl (Buf_lock b) (\<lambda>l. l\<lparr>sl_locked := False, sl_pid := 0\<rparr>) s"
  let ?w = "?l\<lparr>procs := woken (Ch_sleeplock (Buf_lock b)) (Some p) {..<NPROC} (procs ?l)\<rparr>"
  let ?t = "upd_buf b (\<lambda>x. x\<lparr>b_refcnt := b_refcnt x - 1\<rparr>) ?w"
  let ?m = "if b_refcnt (bufs ?t b) = 0 then bmove_front b ?t else ?t"
  have r: "brelse b s = Ok (tidy ?m)" using brelse_eq [OF h(1,10,11)] by (simp add: Let_def)
  have calm: "calm p ?t" using h(1) by (simp add: calm_def lock_simps)
  have idle: "disk_idle ?t" using h(2) by (simp add: disk_idle_def upd_sl_def)
  have ft: "cache_frame s ?t" by (intro cache_frame_steps cache_frame_refl)
  have "cache_frame s ?m" using ft cache_frame_move [OF ft] by simp
  then have fr: "cache_frame s (tidy ?m)" by (rule cache_frame_steps)
  have m: "b_dev (bufs (tidy ?m) a) = b_dev (bufs s a)" "b_blockno (bufs (tidy ?m) a) = b_blockno (bufs s a)"
    "b_valid (bufs (tidy ?m) a) = b_valid (bufs s a)" "b_data (bufs (tidy ?m) a) = b_data (bufs s a)"
    "b_refcnt (bufs (tidy ?m) a) = (if a = b then b_refcnt (bufs s b) - 1 else b_refcnt (bufs s a))" for a
    by (simp_all add: bmove_front_data lock_simps)
  have sel: "sleeplocks (tidy ?m) = (sleeplocks s)(Buf_lock b := (sleeplocks s (Buf_lock b))\<lparr>sl_locked := False, sl_pid := 0\<rparr>)"
    "disk_img (tidy ?m) = disk_img s" "calm p (tidy ?m)" "disk_idle (tidy ?m)"
    using calm idle by (simp_all add: lock_simps upd_sl_def calm_steps)
  obtain bs where bs: "lru s bs" using h(3) by blast
  have "lru ?t bs" using bs by (simp add: lru_upd_buf) (simp add: lru_def upd_sl_def)
  then have "\<exists>cs. lru (tidy ?m) cs" using bmove_front_lru [of ?t bs b] h(4) by auto
  then obtain cs where cs: "lru (tidy ?m) cs" ..
  have "V n = D n" if "b_refcnt (bufs s b) - 1 = 0"
    using that clean h(7,8) unat_pred [of "b_refcnt (bufs s b)"] by auto
  moreover define u where "u = tidy ?m"
  note u = m [folded u_def] sel [folded u_def] fr [folded u_def] r [folded u_def] cs [folded u_def]
  ultimately have "blocks dev p u (L(b := None)) (V(n := contents (b_data (bufs u b)))) (R(n := unat (b_refcnt (bufs u b)))) (blk (disk_img u))"
    using h cache_frame_sel(4) [OF u(10)] by (intro blocks_held [OF B b _ _ _ u(8,9,12)]) (simp_all add: u)
  moreover have "V(n := contents (b_data (bufs u b))) = V" "R(n := unat (b_refcnt (bufs u b))) = R(n := R n - 1)"
    using h(6,7,8) by (auto simp: u unat_pred)
  ultimately show ?thesis using u(7,10,11) h(12) by auto
qed

lemma bunpin_blocks:
  assumes B: "blocks dev p s L V R D" and b: "L b = Some n" and two: "R n > 1"
  shows "\<exists>s'. bunpin b s = Ok s' \<and> blocks dev p s' L V (R(n := R n - 1)) D \<and> cache_frame s s'"
proof -
  note h = blocks_heldD [OF B b]
  let ?u = "tidy (upd_buf b (\<lambda>x. x\<lparr>b_refcnt := b_refcnt x - 1\<rparr>) s)"
  have r: "bunpin b s = Ok ?u" using h(1) by (simp add: bunpin_def calm_def lock_simps)
  have fr: "cache_frame s ?u" by (intro cache_frame_steps cache_frame_refl)
  have one: "b_refcnt (bufs s b) - 1 \<noteq> 0" using two h(7,8) unat_pred [of "b_refcnt (bufs s b)"] by auto
  obtain bs where "lru s bs" using h(3) by blast
  then have "lru ?u bs" by (simp add: lru_upd_buf)
  then have "blocks dev p ?u L (V(n := contents (b_data (bufs ?u b)))) (R(n := unat (b_refcnt (bufs ?u b)))) (blk (disk_img ?u))"
    using h one by (intro blocks_held [OF B b]) (auto simp: lock_simps calm_steps)
  moreover have "V(n := contents (b_data (bufs ?u b))) = V" "R(n := unat (b_refcnt (bufs ?u b))) = R(n := R n - 1)" "disk_img ?u = disk_img s"
    using h(6,7,8) by (auto simp: lock_simps unat_pred)
  ultimately show ?thesis using r fr h(12) by auto
qed

section \<open>A cache that has just been set up\<close>

definition fresh_cache :: "'a fsst_scheme \<Rightarrow> bool" where
  "fresh_cache s \<longleftrightarrow> (\<exists>bs. lru s bs) \<and>
     (\<forall>b < NBUF. b_dev (bufs s b) = 0 \<and> b_refcnt (bufs s b) = 0 \<and> \<not> sl_locked (sleeplocks s (Buf_lock b)))"

lemma initsleeplock_sleeplocks:
  "sleeplocks (initsleeplock k nm s) = (sleeplocks s)(k := (sleeplocks s k)\<lparr>sl_name := nm, sl_locked := False, sl_pid := 0\<rparr>)"
  by (simp add: initsleeplock_def initlock_def upd_sl_def)

lemma binit_from_locks:
  "b \<in> set bs \<or> \<not> sl_locked (sleeplocks s (Buf_lock b)) \<Longrightarrow> \<not> sl_locked (sleeplocks (binit_from bs s) (Buf_lock b))"
proof (induction bs arbitrary: s)
  case (Cons a bs)
  show ?case unfolding binit_from.simps Let_def
    by (rule Cons.IH) (use Cons.prems in \<open>auto simp: initsleeplock_sleeplocks simp del: initsleeplock_bufs\<close>)
qed simp

lemma initsleeplock_sel:
  "vdisk (initsleeplock k nm s) = vdisk s" "vd_seen (initsleeplock k nm s) = vd_seen s" "disk_img (initsleeplock k nm s) = disk_img s"
  by (simp_all add: initsleeplock_def initlock_def upd_sl_def)

lemma binit_from_sel:
  "vdisk (binit_from bs s) = vdisk s" "vd_seen (binit_from bs s) = vd_seen s" "disk_img (binit_from bs s) = disk_img s"
  by (induction bs arbitrary: s) (simp_all add: Let_def initsleeplock_sel del: initsleeplock_bufs)

lemma binit_disk: "disk_idle (binit s) = disk_idle s" "disk_img (binit s) = disk_img s"
  unfolding disk_idle_def binit_def Let_def binit_from_sel by (simp_all add: initlock_def)

lemma binit_fresh:
  assumes "\<And>b. b_dev (bufs s b) = 0 \<and> b_refcnt (bufs s b) = 0"
  shows "fresh_cache (binit s)"
proof -
  have "\<not> sl_locked (sleeplocks (binit s) (Buf_lock b))" if "b < NBUF" for b
    unfolding binit_def Let_def using that by (intro binit_from_locks) auto
  then show ?thesis using assms binit_lru unfolding fresh_cache_def by (auto simp only: binit_data)
qed

lemma fresh_blocks:
  assumes "calm p s" and "disk_idle s" and "fresh_cache s" and "dev \<noteq> 0"
  shows "blocks dev p s (\<lambda>_. None) (blk (disk_img s)) (\<lambda>_. 0) (blk (disk_img s))"
proof -
  have none: "buf_of dev s n = None" for n
    using assms(3,4) by (auto simp: buf_of_def first_match_None_iff fresh_cache_def holds_block_def)
  have "one_each s" using assms(3) by (auto simp: one_each_def fresh_cache_def)
  moreover have "view dev s = blk (disk_img s)" "refs dev s = (\<lambda>_. 0)" by (auto simp: view_def refs_def none)
  ultimately show ?thesis using assms unfolding blocks_def cache_ok_def fresh_cache_def by auto
qed

section \<open>Updating a block\<close>

text \<open>
  C34: a client reads a block, changes it, writes it and gives it back. None of this panics or
  waits for ever; the buffer had the contents of the block, and in the end exactly that block has
  the new contents, in the cache and on the disk, and its references and the buffers that the
  process holds are as before. If the power fails on the way, the disk is as before or has just
  that block changed.
\<close>

theorem block_update:
  assumes dsk: "virtio_blk_device disk" and B: "blocks dev p s L V R D" and n: "n \<notin> ran L" "unat n < 2 ^ 31"
    and room: "R n \<noteq> 0 \<or> card {m. R m \<noteq> 0} < NBUF" and few: "R n + 1 < 2 ^ 32"
  shows "\<exists>b s1 s2 s3. runs (disk_turn disk p) (\<lambda>u. blk (disk_img u) = D) (bread dev n s) (Ok (b, s1)) \<and> contents (b_data (bufs s1 b)) = V n \<and>
     runs (disk_turn disk p) (\<lambda>u. blk (disk_img u) = D \<or> blk (disk_img u) = D(n := contents (f (b_data (bufs s1 b)))))
       (bwrite b (set_data b f s1)) (Ok ((), s2)) \<and> brelse b s2 = Ok s3 \<and>
     blocks dev p s3 L (V(n := contents (f (b_data (bufs s1 b))))) R (D(n := contents (f (b_data (bufs s1 b))))) \<and> cache_frame s s3"
proof -
  obtain b s1 where 1: "runs (disk_turn disk p) (\<lambda>u. blk (disk_img u) = D) (bread dev n s) (Ok (b, s1))" "L b = None"
    "blocks dev p s1 (L(b \<mapsto> n)) V (R(n := R n + 1)) D" "cache_frame s s1"
    using bread_runs [OF dsk B n room few] by blast
  have b: "(L(b \<mapsto> n)) b = Some n" by simp
  let ?x = "contents (f (b_data (bufs s1 b)))"
  note u = set_data_blocks [where L = "L(b \<mapsto> n)", OF 1(3) b, of f]
  obtain s2 where 2: "runs (disk_turn disk p) (\<lambda>u. blk (disk_img u) = D \<or> blk (disk_img u) = D(n := ?x)) (bwrite b (set_data b f s1)) (Ok ((), s2))"
    "blocks dev p s2 (L(b \<mapsto> n)) (V(n := ?x)) (R(n := R n + 1)) (D(n := ?x))" "cache_frame (set_data b f s1) s2"
    using bwrite_runs [where L = "L(b \<mapsto> n)", OF dsk u(1) b n(2)] by auto
  obtain s3 where 3: "brelse b s2 = Ok s3" "blocks dev p s3 (L(b \<mapsto> n, b := None)) (V(n := ?x)) (R(n := R n + 1, n := R n + 1 - 1)) (D(n := ?x))" "cache_frame s2 s3"
    using brelse_blocks [where L = "L(b \<mapsto> n)", OF 2(2) b] by auto
  have "L(b \<mapsto> n, b := None) = L" "R(n := R n + 1, n := R n + 1 - 1) = R" using 1(2) by auto
  moreover have "cache_frame s s3" by (rule cache_frame_trans [OF 1(4)] cache_frame_trans [OF u(2)] cache_frame_trans [OF 2(3)] 3(3))+
  ultimately show ?thesis using 1(1) 2(1) 3(1,2) blocks_heldD(6) [where L = "L(b \<mapsto> n)", OF 1(3) b] by auto
qed

lemma demo_blocks:
  "blocks 1 4 (binit (demo_fs 4 (\<lambda>_. blank_proc))) (\<lambda>_. None) (\<lambda>_ _. 0) (\<lambda>_. 0) (\<lambda>_ _. 0)"
proof -
  let ?s = "binit (demo_fs 4 (\<lambda>_. blank_proc))"
  have "calm 4 (demo_fs 4 (\<lambda>_. blank_proc))"
    using demo_fs_simps(3,4,5,6) [where p = 4 and ps = "\<lambda>_. blank_proc"] by (simp add: calm_def)
  then have "calm 4 ?s" by (rule binit_calm)
  moreover have "disk_idle ?s" unfolding binit_disk by (simp add: disk_idle_def)
  moreover have "fresh_cache ?s" by (rule binit_fresh) simp
  moreover have "blk (disk_img ?s) = (\<lambda>_ _. 0)" unfolding binit_disk by (simp add: blk_def fun_eq_iff)
  ultimately show ?thesis using fresh_blocks [of 4 ?s 1] by simp
qed

theorem block_update_witness:
  "\<exists>b s1 s2 s3. runs (disk_turn serve 4) (\<lambda>_. True) (bread 1 50 (binit (demo_fs 4 (\<lambda>_. blank_proc)))) (Ok (b, s1)) \<and>
     runs (disk_turn serve 4) (\<lambda>_. True) (bwrite b (set_data b (\<lambda>_ _. 9) s1)) (Ok ((), s2)) \<and> brelse b s2 = Ok s3 \<and>
     blk (disk_img s3) 50 5 = 9 \<and> blk (disk_img s3) 51 5 = 0"
proof -
  have dsk: "virtio_blk_device (serve :: fsst \<Rightarrow> fsst)" by (simp add: virtio_blk_device_def)
  from block_update [OF dsk demo_blocks, of 50 "\<lambda>_ _. 9"] obtain b s1 s2 s3 where r:
    "runs (disk_turn serve 4) (\<lambda>u. blk (disk_img u) = (\<lambda>_ _. 0)) (bread 1 50 (binit (demo_fs 4 (\<lambda>_. blank_proc)))) (Ok (b, s1))"
    "runs (disk_turn serve 4) (\<lambda>u. blk (disk_img u) = (\<lambda>_ _. 0) \<or> blk (disk_img u) = (\<lambda>_ _. 0)(50 := contents (\<lambda>_. 9)))
       (bwrite b (set_data b (\<lambda>_ _. 9) s1)) (Ok ((), s2))"
    "brelse b s2 = Ok s3" "blocks 1 4 s3 (\<lambda>_. None) ((\<lambda>_ _. 0)(50 := contents (\<lambda>_. 9))) (\<lambda>_. 0) ((\<lambda>_ _. 0)(50 := contents (\<lambda>_. 9)))"
    by auto
  have "runs (disk_turn serve 4) (\<lambda>_. True) (bread 1 50 (binit (demo_fs 4 (\<lambda>_. blank_proc)))) (Ok (b, s1))"
    "runs (disk_turn serve 4) (\<lambda>_. True) (bwrite b (set_data b (\<lambda>_ _. 9) s1)) (Ok ((), s2))"
    by (rule runs_weaken [OF r(1)], simp, rule runs_weaken [OF r(2)], simp)
  moreover from r(4) have "blk (disk_img s3) = (\<lambda>_ _. 0)(50 := contents (\<lambda>_. 9))" by (simp add: blocks_def)
  then have "blk (disk_img s3) 50 5 = 9" "blk (disk_img s3) 51 5 = 0" by (simp_all add: contents_def)
  ultimately show ?thesis using r(3) by blast
qed

end
