(* ===== verification/Logsafe.thy ===== *)
theory Logsafe
  imports Blocks Log
begin

text \<open>
  What the log promises: a transaction reaches the disk as a whole or not at all, whenever the
  power fails. The disk is seen as the contents of its blocks, through \<open>blocks\<close>; \<open>outcome\<close>
  is what recovery makes of a disk. Each step of a commit keeps an invariant on the contents of
  the disk that implies the outcome, and recovery, which may be interrupted too, establishes it.
\<close>

section \<open>The log on the disk\<close>

definition log_blk :: "uint32 \<Rightarrow> nat \<Rightarrow> uint32" where
  "log_blk st i = st + of_nat i + 1"

definition log_area :: "uint32 \<Rightarrow> uint32 set" where
  "log_area st = {x. unat st \<le> unat x \<and> unat x \<le> unat st + 30}"

definition head_n :: "block \<Rightarrow> int" where
  "head_n h = sint (get32 h 0)"

definition head_dst :: "block \<Rightarrow> nat \<Rightarrow> uint32" where
  "head_dst h i = get32 h (4 + 4 * i)"

text \<open>\<open>n\<close> blocks are logged, for \<open>n\<close> different blocks outside of the log.\<close>

definition dsts_ok :: "uint32 \<Rightarrow> nat \<Rightarrow> (nat \<Rightarrow> uint32) \<Rightarrow> bool" where
  "dsts_ok st n f \<longleftrightarrow> n \<le> 30 \<and> inj_on f {..<n} \<and> (\<forall>i < n. f i \<notin> log_area st \<and> unat (f i) < 2 ^ 31)"

definition head_ok :: "uint32 \<Rightarrow> (uint32 \<Rightarrow> block) \<Rightarrow> bool" where
  "head_ok st D \<longleftrightarrow> head_n (D st) \<ge> 0 \<and> dsts_ok st (nat (head_n (D st))) (head_dst (D st))"

definition outcome :: "uint32 \<Rightarrow> (uint32 \<Rightarrow> block) \<Rightarrow> uint32 \<Rightarrow> block" where
  "outcome st D x =
     (case first_match (\<lambda>i. head_dst (D st) i = x) (nat (head_n (D st))) of
        Some i \<Rightarrow> D (log_blk st i)
      | None \<Rightarrow> D x)"

lemma unat_log_blk:
  assumes "unat st + 31 < 2 ^ 31" and "i < 30"
  shows "unat (log_blk st i) = unat st + i + 1"
proof -
  have i: "unat (of_nat i :: uint32) = i" using assms(2) by (simp add: unat_of_nat)
  have c: "unat st + i < 2 ^ 32" "unat st + i + 1 < 2 ^ 32" using assms by simp_all
  have "unat (st + of_nat i) = unat st + i" using unat_add_lem [of st "of_nat i"] c i by simp
  then show ?thesis using unat_add_lem [of "st + of_nat i" 1] c by (simp add: log_blk_def)
qed

lemma log_blk_area:
  assumes "unat st + 31 < 2 ^ 31" and "i < 30"
  shows "log_blk st i \<in> log_area st" "log_blk st i \<noteq> st" "unat (log_blk st i) < 2 ^ 31"
  using assms unat_log_blk [OF assms] by (auto simp: log_area_def)

lemma log_blk_inj:
  assumes "unat st + 31 < 2 ^ 31" and "i < 30" and "j < 30" and "log_blk st i = log_blk st j"
  shows "i = j"
  using arg_cong [OF assms(4), of unat] unfolding unat_log_blk [OF assms(1,2)] unat_log_blk [OF assms(1,3)] by linarith

lemma start_area: "st \<in> log_area st"
  by (simp add: log_area_def)

lemma outcome_none: "head_n (D st) = 0 \<Longrightarrow> outcome st D x = D x"
  by (simp add: outcome_def first_match_def)

lemma outcome_at:
  assumes "inj_on (head_dst (D st)) {..<nat (head_n (D st))}" and "i < nat (head_n (D st))"
  shows "outcome st D (head_dst (D st) i) = D (log_blk st i)"
proof -
  have "first_match (\<lambda>j. head_dst (D st) j = head_dst (D st) i) (nat (head_n (D st))) = Some i"
    using assms by (intro first_match_SomeI) (auto dest: inj_onD)
  then show ?thesis by (simp add: outcome_def)
qed

lemma outcome_other:
  assumes "\<And>i. i < nat (head_n (D st)) \<Longrightarrow> head_dst (D st) i \<noteq> x"
  shows "outcome st D x = D x"
proof -
  have "first_match (\<lambda>i. head_dst (D st) i = x) (nat (head_n (D st))) = None"
    using assms by (auto simp: first_match_None_iff)
  then show ?thesis by (simp add: outcome_def)
qed

text \<open>Two disks with the same header, the same log and otherwise differences in blocks that are to be installed only.\<close>

lemma outcome_cong:
  assumes "D' st = D st" and "\<And>i. i < nat (head_n (D st)) \<Longrightarrow> D' (log_blk st i) = D (log_blk st i)"
    and "\<And>x. (\<And>i. i < nat (head_n (D st)) \<Longrightarrow> head_dst (D st) i \<noteq> x) \<Longrightarrow> D' x = D x"
  shows "outcome st D' x = outcome st D x"
proof (cases "first_match (\<lambda>i. head_dst (D st) i = x) (nat (head_n (D st)))")
  case None
  then have "D' x = D x" using assms(3) [of x] by (auto simp: first_match_None_iff)
  then show ?thesis using None assms(1) by (simp add: outcome_def)
next
  case (Some i)
  then have "i < nat (head_n (D st))" by (rule first_match_SomeD)
  then show ?thesis using Some assms(1,2) by (simp add: outcome_def)
qed

section \<open>One block of a commit\<close>

abbreviation on_disk :: "((uint32 \<Rightarrow> block) \<Rightarrow> bool) \<Rightarrow> 'a fsst_scheme \<Rightarrow> bool" where
  "on_disk P \<equiv> (\<lambda>u. P (blk (disk_img u)))"

abbreviation idle_blocks :: "uint32 \<Rightarrow> nat \<Rightarrow> 'a fsst_scheme \<Rightarrow> (uint32 \<Rightarrow> block) \<Rightarrow> (uint32 \<Rightarrow> nat) \<Rightarrow> (uint32 \<Rightarrow> block) \<Rightarrow> bool" where
  "idle_blocks dev p s V R D \<equiv> blocks dev p s (\<lambda>_. None) V R D"

lemma bread_safe:
  assumes "virtio_blk_device disk" and "blocks dev p s L V R D" and "n \<notin> ran L" and "unat n < 2 ^ 31"
    and "R n \<noteq> 0 \<or> card {m. R m \<noteq> 0} < NBUF" and "R n + 1 < 2 ^ 32" and P: "P D"
  shows "\<exists>b s'. runs (disk_turn disk p) (on_disk P) (bread dev n s) (Ok (b, s')) \<and> L b = None \<and>
     blocks dev p s' (L(b \<mapsto> n)) V (R(n := R n + 1)) D \<and> cache_frame s s'"
proof -
  obtain b s' where "runs (disk_turn disk p) (\<lambda>u. blk (disk_img u) = D) (bread dev n s) (Ok (b, s'))" "L b = None"
    "blocks dev p s' (L(b \<mapsto> n)) V (R(n := R n + 1)) D" "cache_frame s s'"
    using bread_runs [OF assms(1-6)] by blast
  moreover from this(1) have "runs (disk_turn disk p) (on_disk P) (bread dev n s) (Ok (b, s'))"
    by (rule runs_weaken) (simp add: P)
  ultimately show ?thesis by blast
qed

lemma bwrite_safe:
  assumes "virtio_blk_device disk" and "blocks dev p s L V R D" and "L b = Some n" and "unat n < 2 ^ 31"
    and P: "P D" "P (D(n := V n))"
  shows "\<exists>s'. runs (disk_turn disk p) (on_disk P) (bwrite b s) (Ok ((), s')) \<and> blocks dev p s' L V R (D(n := V n)) \<and> cache_frame s s'"
proof -
  obtain s' where "runs (disk_turn disk p) (\<lambda>u. blk (disk_img u) = D \<or> blk (disk_img u) = D(n := V n)) (bwrite b s) (Ok ((), s'))"
    "blocks dev p s' L V R (D(n := V n))" "cache_frame s s'"
    using bwrite_runs [OF assms(1-4)] by blast
  moreover from this(1) have "runs (disk_turn disk p) (on_disk P) (bwrite b s) (Ok ((), s'))"
    by (rule runs_weaken) (use P in auto)
  ultimately show ?thesis by blast
qed

lemma finite_R: "blocks dev p s L V R D \<Longrightarrow> finite {m. R m \<noteq> 0}"
  using finite_refs by (auto simp: blocks_def)

lemma copy_blocks:
  assumes "blocks dev p s L V R D" and "L dst = Some n" and "L src = Some m"
  shows "blocks dev p (copy_block dst src s) L (V(n := V m)) R D" "cache_frame s (copy_block dst src s)"
proof -
  have "contents (\<lambda>i. if i < BSIZE then b_data (bufs s src) i else d i) = contents (b_data (bufs s src))" for d
    by (auto simp: contents_def)
  then have "contents (\<lambda>i. if i < BSIZE then b_data (bufs s src) i else d i) = V m" for d
    using blocks_heldD(6) [OF assms(1,3)] by simp
  then show "blocks dev p (copy_block dst src s) L (V(n := V m)) R D"
    using set_data_blocks(1) [OF assms(1,2), of "\<lambda>d i. if i < BSIZE then b_data (bufs s src) i else d i"] by (simp add: copy_block_def)
  show "cache_frame s (copy_block dst src s)" unfolding copy_block_def by (rule set_data_blocks(2) [OF assms(1,2)])
qed

lemma write_log_one_runs:
  assumes dsk: "virtio_blk_device disk" and B: "idle_blocks dev p s V R D"
    and l: "lg_dev (log s) = dev" "log_blk (lg_start (log s)) tail = m" "lh_block (log s) tail = q"
    and m: "R m = 0" "unat m < 2 ^ 31" and q: "R q = 1" "unat q < 2 ^ 31" and room: "card {x. R x \<noteq> 0} < NBUF"
    and P: "P D" "P (D(m := V q))"
  shows "\<exists>s'. runs (disk_turn disk p) (on_disk P) (write_log_one tail s) (Ok s') \<and>
     idle_blocks dev p s' (V(m := V q)) R (D(m := V q)) \<and> cache_frame s s'"
proof -
  have qm: "q \<noteq> m" using m q by auto
  obtain b s1 where 1: "runs (disk_turn disk p) (on_disk P) (bread dev m s) (Ok (b, s1))"
    "blocks dev p s1 ((\<lambda>_. None)(b \<mapsto> m)) V (R(m := 1)) D" "cache_frame s s1"
    using bread_safe [where P = P, OF dsk B _ m(2) _ _ P(1)] m(1) room by auto
  obtain c s2 where 2: "runs (disk_turn disk p) (on_disk P) (bread dev q s1) (Ok (c, s2))" "((\<lambda>_. None)(b \<mapsto> m)) c = None"
    "blocks dev p s2 ((\<lambda>_. None)(b \<mapsto> m, c \<mapsto> q)) V (R(m := 1, q := Suc 1)) D" "cache_frame s1 s2"
    using bread_safe [where P = P, OF dsk 1(2) _ q(2) _ _ P(1)] qm q(1) by auto
  have cb: "c \<noteq> b" using 2(2) by (auto split: if_splits)
  let ?L = "(\<lambda>_. None)(b \<mapsto> m, c \<mapsto> q)"
  have 3: "blocks dev p (copy_block b c s2) ?L (V(m := V q)) (R(m := 1, q := Suc 1)) D" "cache_frame s2 (copy_block b c s2)"
    using cb by (intro copy_blocks [OF 2(3)]; simp)+
  obtain s4 where 4: "runs (disk_turn disk p) (on_disk P) (bwrite b (copy_block b c s2)) (Ok ((), s4))"
    "blocks dev p s4 ?L (V(m := V q)) (R(m := 1, q := Suc 1)) (D(m := V q))" "cache_frame (copy_block b c s2) s4"
    using bwrite_safe [where P = P and b = b, OF dsk 3(1) _ m(2) P(1)] P(2) cb by auto
  obtain s5 where 5: "brelse c s4 = Ok s5" "blocks dev p s5 (?L(c := None)) (V(m := V q)) (R(m := 1, q := Suc 1 - 1)) (D(m := V q))" "cache_frame s4 s5"
    using brelse_blocks [OF 4(2), of c q] by auto
  have L5: "?L(c := None) = (\<lambda>_. None)(b \<mapsto> m)" using cb by auto
  have R5: "R(m := 1, q := Suc 1 - 1) = R(m := 1)" using q(1) qm by auto
  obtain s6 where 6: "brelse b s5 = Ok s6" "blocks dev p s6 ((\<lambda>_. None)(b \<mapsto> m, b := None)) (V(m := V q)) (R(m := 1, m := 1 - 1)) (D(m := V q))" "cache_frame s5 s6"
    using brelse_blocks [OF 5(2) [unfolded L5 R5], of b m] by auto
  have "(\<lambda>_. None)(b \<mapsto> m, b := None) = (\<lambda>_. None)" "R(m := 1, m := 1 - 1) = R" using m(1) by auto
  moreover have "log s1 = log s" by (rule cache_frame_sel [OF 1(3)])
  then have "runs (disk_turn disk p) (on_disk P) (write_log_one tail s) (Ok s6)"
    using 1(1) 2(1) 4(1) 5(1) 6(1) l unfolding write_log_one_def log_blk_def by (auto intro!: runs_bindT)
  moreover have "cache_frame s s6"
    by (rule cache_frame_trans [OF 1(3)] cache_frame_trans [OF 2(4)] cache_frame_trans [OF 3(2)] cache_frame_trans [OF 4(3)] cache_frame_trans [OF 5(3)] 6(3))+
  ultimately show ?thesis using 6(2) by auto
qed

lemma install_one_runs:
  assumes dsk: "virtio_blk_device disk" and B: "idle_blocks dev p s V R D"
    and l: "lg_dev (log s) = dev" "log_blk (lg_start (log s)) tail = m" "lh_block (log s) tail = q"
    and m: "R m = 0" "unat m < 2 ^ 31" and q: "q \<noteq> m" "unat q < 2 ^ 31"
    and R: "if recovering then R = (\<lambda>_. 0) else R q = 1" and room: "card {x. R x \<noteq> 0} < NBUF"
    and P: "P D" "P (D(q := D m))"
  shows "\<exists>s'. runs (disk_turn disk p) (on_disk P) (install_one recovering tail s) (Ok s') \<and>
     idle_blocks dev p s' (V(q := D m)) (R(q := 0)) (D(q := D m)) \<and> cache_frame s s'"
proof -
  have VD: "V m = D m" using B m(1) by (auto simp: blocks_def)
  obtain b s1 where 1: "runs (disk_turn disk p) (on_disk P) (bread dev m s) (Ok (b, s1))"
    "blocks dev p s1 ((\<lambda>_. None)(b \<mapsto> m)) V (R(m := 1)) D" "cache_frame s s1"
    using bread_safe [where P = P, OF dsk B _ m(2) _ _ P(1)] m(1) room by auto
  have "{x. (R(m := 1)) x \<noteq> 0} = {m}" if recovering using R that by auto
  then have room2: "(R(m := 1)) q \<noteq> 0 \<or> card {x. (R(m := 1)) x \<noteq> 0} < NBUF" using R q(1) by (cases recovering) simp_all
  have few: "(R(m := 1)) q + 1 < 2 ^ 32" using R q(1) by (cases recovering) simp_all
  obtain c s2 where 2: "runs (disk_turn disk p) (on_disk P) (bread dev q s1) (Ok (c, s2))" "((\<lambda>_. None)(b \<mapsto> m)) c = None"
    "blocks dev p s2 ((\<lambda>_. None)(b \<mapsto> m, c \<mapsto> q)) V (R(m := 1, q := R q + 1)) D" "cache_frame s1 s2"
    using bread_safe [where P = P and R = "R(m := 1)", OF dsk 1(2) _ q(2) room2 few P(1)] q(1) by auto
  have cb: "c \<noteq> b" using 2(2) by (auto split: if_splits)
  let ?L = "(\<lambda>_. None)(b \<mapsto> m, c \<mapsto> q)"
  have 3: "blocks dev p (copy_block c b s2) ?L (V(q := D m)) (R(m := 1, q := R q + 1)) D" "cache_frame s2 (copy_block c b s2)"
    using cb copy_blocks [OF 2(3), of c q b m] by (simp_all add: VD)
  obtain s4 where 4: "runs (disk_turn disk p) (on_disk P) (bwrite c (copy_block c b s2)) (Ok ((), s4))"
    "blocks dev p s4 ?L (V(q := D m)) (R(m := 1, q := R q + 1)) (D(q := D m))" "cache_frame (copy_block c b s2) s4"
    using bwrite_safe [where P = P and b = c, OF dsk 3(1) _ q(2) P(1)] P(2) by auto
  have "\<exists>s5. (if recovering then Ok s4 else bunpin c s4) = Ok s5 \<and>
      blocks dev p s5 ?L (V(q := D m)) (R(m := 1, q := 1)) (D(q := D m)) \<and> cache_frame s4 s5"
  proof (cases recovering)
    case True
    then have "R(m := 1, q := R q + 1) = R(m := 1, q := 1)" using R by simp
    then show ?thesis using True 4(2) by auto
  next
    case False
    then have Rq: "(R(m := 1, q := R q + 1)) q > 1" "R(m := 1, q := R q + 1, q := (R(m := 1, q := R q + 1)) q - 1) = R(m := 1, q := 1)"
      using R by auto
    show ?thesis using bunpin_blocks [OF 4(2) _ Rq(1), of c] False unfolding Rq(2) by auto
  qed
  then obtain s5 where 5: "(if recovering then Ok s4 else bunpin c s4) = Ok s5"
    "blocks dev p s5 ?L (V(q := D m)) (R(m := 1, q := 1)) (D(q := D m))" "cache_frame s4 s5" by blast
  obtain s6 where 6: "brelse b s5 = Ok s6" "blocks dev p s6 (?L(b := None)) (V(q := D m)) (R(m := 1, q := 1, m := 0)) (D(q := D m))" "cache_frame s5 s6"
    using brelse_blocks [OF 5(2), of b m] cb q(1) VD by auto
  obtain s7 where 7: "brelse c s6 = Ok s7" "blocks dev p s7 (?L(b := None, c := None)) (V(q := D m)) (R(m := 1, q := 1, m := 0, q := 0)) (D(q := D m))"
    "cache_frame s6 s7"
    using brelse_blocks [OF 6(2), of c q] cb q(1) by auto
  have "?L(b := None, c := None) = (\<lambda>_. None)" "R(m := 1, q := 1, m := 0, q := 0) = R(q := 0)" using m(1) q(1) by auto
  moreover have "log s1 = log s" by (rule cache_frame_sel [OF 1(3)])
  then have "runs (disk_turn disk p) (on_disk P) (install_one recovering tail s) (Ok s7)"
    using 1(1) 2(1) 4(1) 5(1) 6(1) 7(1) l unfolding install_one_def log_blk_def by (auto intro!: runs_bindT)
  moreover have "cache_frame s s7"
    by (rule cache_frame_trans [OF 1(3)] cache_frame_trans [OF 2(4)] cache_frame_trans [OF 3(2)] cache_frame_trans [OF 4(3)]
        cache_frame_trans [OF 5(3)] cache_frame_trans [OF 6(3)] 7(3))+
  ultimately show ?thesis using 7(2) by auto
qed

section \<open>The header\<close>

lemma get32_contents: "off + 4 \<le> 1024 \<Longrightarrow> get32 (contents d) off = get32 d off"
proof -
  assume "off + 4 \<le> 1024"
  then have "map (contents d) [off..<off + 4] = map d [off..<off + 4]" by (intro map_cong) (auto simp: contents_def)
  then show ?thesis by (simp only: get32_def)
qed

lemma head_of_put:
  fixes l :: logst
  defines "n \<equiv> nat (sint (lh_n l))"
  assumes "n \<le> 30"
  shows "head_n (contents (put_array 4 (lh_block l) n (put32 0 (lh_n l) d))) = sint (lh_n l)"
    "\<And>i. i < n \<Longrightarrow> head_dst (contents (put_array 4 (lh_block l) n (put32 0 (lh_n l) d))) i = lh_block l i"
  using assms(2) by (simp_all add: head_n_def head_dst_def get32_contents get_put_array_other get_put_array)

lemma blocks_cong:
  assumes "bufs s' = bufs s" and "sleeplocks s' = sleeplocks s" and "disk_img s' = disk_img s"
    and "p_pid (procs s' p) = p_pid (procs s p)" and "calm p s' = calm p s" and "disk_idle s' = disk_idle s"
  shows "blocks dev p s' L V R D = blocks dev p s L V R D"
proof -
  have "view dev s' = view dev s" "refs dev s' = refs dev s"
    by (rule ext, simp only: view_def refs_def buf_of_def assms)+
  moreover have "cache_ok dev p L s' = cache_ok dev p L s"
    unfolding cache_ok_def lru_def one_each_def assms ..
  ultimately show ?thesis by (simp only: blocks_def assms)
qed

lemma upd_log_blocks: "blocks dev p (upd_log f s) L V R D = blocks dev p s L V R D"
  by (rule blocks_cong) (simp_all add: upd_log_def calm_def lock_simps disk_idle_def)

lemma upd_log_view: "view dev (upd_log f s) = view dev s" "disk_img (upd_log f s) = disk_img s"
proof -
  have sel: "bufs (upd_log f s) = bufs s" "disk_img (upd_log f s) = disk_img s" by (simp_all add: upd_log_def)
  show "view dev (upd_log f s) = view dev s" by (rule ext) (simp only: view_def buf_of_def sel)
qed (simp add: upd_log_def)

lemma write_head_runs:
  assumes dsk: "virtio_blk_device disk" and B: "idle_blocks dev p s V R D"
    and l: "lg_dev (log s) = dev" "lg_start (log s) = st" and n: "nat (log_n s) \<le> 30"
    and st: "R st = 0" "unat st < 2 ^ 31" and room: "card {x. R x \<noteq> 0} < NBUF"
    and P: "P D" "\<And>h. head_n h = log_n s \<Longrightarrow> (\<And>i. i < nat (log_n s) \<Longrightarrow> head_dst h i = lh_block (log s) i) \<Longrightarrow> P (D(st := h))"
  shows "\<exists>s' h. runs (disk_turn disk p) (on_disk P) (write_head s) (Ok s') \<and> idle_blocks dev p s' (V(st := h)) R (D(st := h)) \<and>
     cache_frame s s' \<and> head_n h = log_n s \<and> (\<forall>i < nat (log_n s). head_dst h i = lh_block (log s) i)"
proof -
  obtain b s1 where 1: "runs (disk_turn disk p) (on_disk P) (bread dev st s) (Ok (b, s1))"
    "blocks dev p s1 ((\<lambda>_. None)(b \<mapsto> st)) V (R(st := 1)) D" "cache_frame s s1"
    using bread_safe [where P = P, OF dsk B _ st(2) _ _ P(1)] st(1) room by auto
  have log1: "log s1 = log s" by (rule cache_frame_sel [OF 1(3)])
  let ?f = "put_array 4 (lh_block (log s)) (nat (log_n s))"
  let ?t = "set_data b (put32 0 (lh_n (log s))) s1"
  let ?u = "set_data b ?f ?t"
  define h where "h = contents (?f (put32 0 (lh_n (log s)) (b_data (bufs s1 b))))"
  have h: "head_n h = log_n s" "\<And>i. i < nat (log_n s) \<Longrightarrow> head_dst h i = lh_block (log s) i"
    unfolding h_def by (rule head_of_put [OF n])+
  have t: "blocks dev p ?t ((\<lambda>_. None)(b \<mapsto> st)) (V(st := contents (put32 0 (lh_n (log s)) (b_data (bufs s1 b))))) (R(st := 1)) D" "cache_frame s1 ?t"
    by (rule set_data_blocks [OF 1(2)], simp)+
  have u: "blocks dev p ?u ((\<lambda>_. None)(b \<mapsto> st)) (V(st := h)) (R(st := 1)) D" "cache_frame ?t ?u"
    using set_data_blocks [OF t(1), of b st ?f] by (simp_all add: h_def set_data_def)
  obtain s4 where 4: "runs (disk_turn disk p) (on_disk P) (bwrite b ?u) (Ok ((), s4))"
    "blocks dev p s4 ((\<lambda>_. None)(b \<mapsto> st)) (V(st := h)) (R(st := 1)) (D(st := h))" "cache_frame ?u s4"
    using bwrite_safe [where P = P and b = b, OF dsk u(1) _ st(2) P(1)] P(2) [OF h] by auto
  obtain s5 where 5: "brelse b s4 = Ok s5" "blocks dev p s5 ((\<lambda>_. None)(b \<mapsto> st, b := None)) (V(st := h)) (R(st := 1, st := 0)) (D(st := h))"
    "cache_frame s4 s5"
    using brelse_blocks [OF 4(2), of b st] by auto
  have "(\<lambda>_. None)(b \<mapsto> st, b := None) = (\<lambda>_. None)" "R(st := 1, st := 0) = R" using st(1) by auto
  moreover have "log ?t = log s" using log1 by (simp add: set_data_def)
  then have "runs (disk_turn disk p) (on_disk P) (write_head s) (Ok s5)"
    using 1(1) 4(1) 5(1) l log1 unfolding write_head_def Let_def by (auto intro!: runs_bindT)
  moreover have "cache_frame s s5"
    by (rule cache_frame_trans [OF 1(3)] cache_frame_trans [OF t(2)] cache_frame_trans [OF u(2)] cache_frame_trans [OF 4(3)] 5(3))+
  ultimately show ?thesis using 5(2) h by auto
qed

lemma read_head_runs:
  assumes dsk: "virtio_blk_device disk" and B: "idle_blocks dev p s V R D"
    and l: "lg_dev (log s) = dev" "lg_start (log s) = st" and n: "nat (head_n (D st)) \<le> 30"
    and st: "R st = 0" "unat st < 2 ^ 31" and room: "card {x. R x \<noteq> 0} < NBUF" and P: "P D"
  shows "\<exists>s'. runs (disk_turn disk p) (on_disk P) (read_head s) (Ok s') \<and> idle_blocks dev p s' V R D \<and>
     lg_dev (log s') = dev \<and> lg_start (log s') = st \<and> log_n s' = head_n (D st) \<and>
     (\<forall>i < nat (log_n s'). lh_block (log s') i = head_dst (D st) i)"
proof -
  have VD: "V st = D st" using B st(1) by (auto simp: blocks_def)
  obtain b s1 where 1: "runs (disk_turn disk p) (on_disk P) (bread dev st s) (Ok (b, s1))"
    "blocks dev p s1 ((\<lambda>_. None)(b \<mapsto> st)) V (R(st := 1)) D" "cache_frame s s1"
    using bread_safe [where P = P, OF dsk B _ st(2) _ _ P] st(1) room by auto
  have log1: "log s1 = log s" by (rule cache_frame_sel [OF 1(3)])
  have "contents (b_data (bufs s1 b)) = D st" using blocks_heldD(6) [OF 1(2), of b st] VD by simp
  then have get: "get32 (b_data (bufs s1 b)) off = get32 (D st) off" if "off + 4 \<le> 1024" for off
    using get32_contents [OF that, of "b_data (bufs s1 b)"] by simp
  let ?t = "upd_log (\<lambda>l. l\<lparr>lh_n := get32 (b_data (bufs s1 b)) 0\<rparr>) s1"
  let ?u = "upd_log (\<lambda>l. l\<lparr>lh_block := (\<lambda>i. if int i < log_n ?t then get32 (b_data (bufs s1 b)) (4 + 4 * i) else lh_block l i)\<rparr>) ?t"
  have "blocks dev p ?u ((\<lambda>_. None)(b \<mapsto> st)) V (R(st := 1)) D" using 1(2) by (simp only: upd_log_blocks)
  then obtain s2 where 2: "brelse b ?u = Ok s2" "blocks dev p s2 ((\<lambda>_. None)(b \<mapsto> st, b := None)) V (R(st := 1, st := 0)) D" "cache_frame ?u s2"
    using brelse_blocks [of dev p ?u "(\<lambda>_. None)(b \<mapsto> st)" V "R(st := 1)" D b st] VD by auto
  have "(\<lambda>_. None)(b \<mapsto> st, b := None) = (\<lambda>_. None)" "R(st := 1, st := 0) = R" using st(1) by auto
  moreover have "runs (disk_turn disk p) (on_disk P) (read_head s) (Ok s2)"
    using 1(1) 2(1) l unfolding read_head_def Let_def by (auto intro!: runs_bindT)
  moreover have log2: "log s2 = log ?u" by (rule cache_frame_sel [OF 2(3)])
  then have "log_n s2 = head_n (D st)" using get [of 0] by (simp add: upd_log_def head_n_def)
  moreover from this have "\<forall>i < nat (log_n s2). lh_block (log s2) i = head_dst (D st) i"
    using n log2 get by (auto simp: upd_log_def head_dst_def)
  moreover have "lg_dev (log s2) = dev" "lg_start (log s2) = st" using l log1 by (simp_all add: log2 upd_log_def)
  ultimately show ?thesis using 2(2) by auto
qed

section \<open>The loops\<close>

text \<open>A log in memory for the blocks that are pinned in the cache.\<close>

definition log_ready :: "uint32 \<Rightarrow> nat \<Rightarrow> uint32 \<Rightarrow> logst \<Rightarrow> bool" where
  "log_ready dev n st l \<longleftrightarrow> lg_dev l = dev \<and> lg_start l = st \<and> sint (lh_n l) = int n \<and> unat st + 31 < 2 ^ 31 \<and> dsts_ok st n (lh_block l)"

lemma log_readyD:
  assumes "log_ready dev n st l"
  shows "lg_dev l = dev" "lg_start l = st" "sint (lh_n l) = int n" "unat st + 31 < 2 ^ 31" "n \<le> 30" "inj_on (lh_block l) {..<n}"
    "\<And>i. i < n \<Longrightarrow> lh_block l i \<notin> log_area st" "\<And>i. i < n \<Longrightarrow> unat (lh_block l i) < 2 ^ 31"
    "\<And>i. i < n \<Longrightarrow> log_blk st i \<in> log_area st" "\<And>i. i < n \<Longrightarrow> unat (log_blk st i) < 2 ^ 31" "\<And>i. i < n \<Longrightarrow> log_blk st i \<noteq> st"
    "\<And>i j. i < n \<Longrightarrow> j < n \<Longrightarrow> log_blk st i = log_blk st j \<Longrightarrow> i = j" "unat st < 2 ^ 31"
proof -
  show l: "lg_dev l = dev" "lg_start l = st" "sint (lh_n l) = int n" "unat st + 31 < 2 ^ 31" "n \<le> 30" "inj_on (lh_block l) {..<n}"
    "\<And>i. i < n \<Longrightarrow> lh_block l i \<notin> log_area st" "\<And>i. i < n \<Longrightarrow> unat (lh_block l i) < 2 ^ 31"
    using assms by (simp_all add: log_ready_def dsts_ok_def)
  show "log_blk st i \<in> log_area st" "unat (log_blk st i) < 2 ^ 31" "log_blk st i \<noteq> st" if "i < n" for i
    using log_blk_area [OF l(4), of i] that l(5) by simp_all
  show "i = j" if "i < n" "j < n" "log_blk st i = log_blk st j" for i j
    using log_blk_inj [OF l(4) _ _ that(3)] that(1,2) l(5) by simp
  show "unat st < 2 ^ 31" using l(4) by simp
qed

lemma write_log_from_runs:
  assumes dsk: "virtio_blk_device disk" and "idle_blocks dev p s V R D" and "log_ready dev n st (log s)" and "log s = l"
    and pins: "\<And>i. i < n \<Longrightarrow> R (lh_block l i) = 1" and clear: "\<And>x. x \<in> log_area st \<Longrightarrow> R x = 0" and room: "card {x. R x \<noteq> 0} < NBUF"
    and "\<And>D'. (\<And>x. (\<And>i. i < n \<Longrightarrow> x \<noteq> log_blk st i) \<Longrightarrow> D' x = D x) \<Longrightarrow> P D'" and "tail \<le> n"
  shows "\<exists>s' V' D'. runs (disk_turn disk p) (on_disk P) (write_log_from tail s) (Ok s') \<and> idle_blocks dev p s' V' R D' \<and> cache_frame s s' \<and>
     (\<forall>i. tail \<le> i \<longrightarrow> i < n \<longrightarrow> D' (log_blk st i) = V (lh_block l i)) \<and>
     (\<forall>x. (\<forall>i. tail \<le> i \<longrightarrow> i < n \<longrightarrow> x \<noteq> log_blk st i) \<longrightarrow> D' x = D x \<and> V' x = V x)"
  using assms(2-4,8,9)
proof (induction "n - tail" arbitrary: tail s V D)
  case 0
  note l = log_readyD [OF 0(3)]
  have "write_log_from tail s = Done (Ok s)" using 0 l(3) by (subst write_log_from.simps) simp
  with 0 show ?case by (intro exI [of _ s] exI [of _ V] exI [of _ D]) auto
next
  case (Suc k)
  note l = log_readyD [OF Suc.prems(2)]
  let ?m = "log_blk st tail" and ?q = "lh_block l tail"
  have t: "tail < n" using Suc(2) by simp
  have PD: "P D" "P (D(?m := V ?q))" using t by (auto intro!: Suc.prems(4))
  obtain s1 where 1: "runs (disk_turn disk p) (on_disk P) (write_log_one tail s) (Ok s1)"
    "idle_blocks dev p s1 (V(?m := V ?q)) R (D(?m := V ?q))" "cache_frame s s1"
    using write_log_one_runs [where P = P, OF dsk Suc.prems(1) l(1) _ _ clear [OF l(9) [OF t]] l(10) [OF t] pins [OF t] _ room PD] l(2,8) t Suc.prems(3)
    by auto
  have log1: "log s1 = log s" by (rule cache_frame_sel [OF 1(3)])
  have P1: "P D'" if "\<And>x. (\<And>i. i < n \<Longrightarrow> x \<noteq> log_blk st i) \<Longrightarrow> D' x = (D(?m := V ?q)) x" for D'
    using that t by (intro Suc.prems(4)) auto
  have k: "k = n - Suc tail" "Suc tail \<le> n" using Suc(2) t by auto
  obtain s2 V2 D2 where 2: "runs (disk_turn disk p) (on_disk P) (write_log_from (Suc tail) s1) (Ok s2)" "idle_blocks dev p s2 V2 R D2"
    "cache_frame s1 s2" "\<And>i. Suc tail \<le> i \<Longrightarrow> i < n \<Longrightarrow> D2 (log_blk st i) = (V(?m := V ?q)) (lh_block l i)"
    "\<And>x. (\<And>i. Suc tail \<le> i \<Longrightarrow> i < n \<Longrightarrow> x \<noteq> log_blk st i) \<Longrightarrow> D2 x = (D(?m := V ?q)) x \<and> V2 x = (V(?m := V ?q)) x"
    using Suc.hyps(1) [OF k(1) 1(2) _ _ P1 k(2)] log1 Suc.prems(2,3) by auto
  have "runs (disk_turn disk p) (on_disk P) (write_log_from tail s) (Ok s2)"
    using 1(1) 2(1) t l(3) Suc.prems(3) by (subst write_log_from.simps) (auto intro!: runs_bindT)
  moreover have "D2 (log_blk st i) = V (lh_block l i)" if "tail \<le> i" "i < n" for i
  proof (cases "i = tail")
    case True
    have "?m \<noteq> log_blk st j" if "Suc tail \<le> j" "j < n" for j using l(12) [OF t that(2)] that(1) by auto
    from 2(5) [OF this] show ?thesis using True by simp
  next
    case False
    then have "D2 (log_blk st i) = (V(?m := V ?q)) (lh_block l i)" using that by (intro 2(4)) simp_all
    moreover have "lh_block l i \<noteq> ?m" using l(7) [OF that(2)] l(9) [OF t] Suc.prems(3) by metis
    ultimately show ?thesis by simp
  qed
  moreover have "D2 x = D x \<and> V2 x = V x" if "\<And>i. tail \<le> i \<Longrightarrow> i < n \<Longrightarrow> x \<noteq> log_blk st i" for x
    using 2(5) [of x] that t by auto
  ultimately show ?case using 2(2) cache_frame_trans [OF 1(3) 2(3)] by blast
qed

lemma install_from_runs:
  assumes dsk: "virtio_blk_device disk" and "idle_blocks dev p s V R D" and "log_ready dev n st (log s)" and "log s = l"
    and "if recovering then R = (\<lambda>_. 0) else (\<forall>i. tail \<le> i \<longrightarrow> i < n \<longrightarrow> R (lh_block l i) = 1)"
    and "\<And>x. x \<in> log_area st \<Longrightarrow> R x = 0" and "card {x. R x \<noteq> 0} < NBUF"
    and "\<And>D'. (\<And>x. (\<And>i. i < n \<Longrightarrow> x \<noteq> lh_block l i) \<Longrightarrow> D' x = D x) \<Longrightarrow>
      (\<And>i. i < n \<Longrightarrow> D' (lh_block l i) = D (lh_block l i) \<or> D' (lh_block l i) = D (log_blk st i)) \<Longrightarrow> P D'" and "tail \<le> n"
  shows "\<exists>s' V' R' D'. runs (disk_turn disk p) (on_disk P) (install_from recovering tail s) (Ok s') \<and> idle_blocks dev p s' V' R' D' \<and>
     cache_frame s s' \<and> (\<forall>i. tail \<le> i \<longrightarrow> i < n \<longrightarrow> D' (lh_block l i) = D (log_blk st i) \<and> R' (lh_block l i) = 0) \<and>
     (\<forall>x. (\<forall>i. tail \<le> i \<longrightarrow> i < n \<longrightarrow> x \<noteq> lh_block l i) \<longrightarrow> D' x = D x \<and> V' x = V x \<and> R' x = R x)"
  using assms(2-9)
proof (induction "n - tail" arbitrary: tail s V R D)
  case 0
  note l = log_readyD [OF 0(3)]
  have "install_from recovering tail s = Done (Ok s)" using 0 l(3) by (subst install_from.simps) simp
  with 0 show ?case by (intro exI [of _ s] exI [of _ V] exI [of _ R] exI [of _ D]) auto
next
  case (Suc k)
  note l = log_readyD [OF Suc.prems(2), unfolded Suc.prems(3)]
  let ?m = "log_blk st tail" and ?q = "lh_block l tail"
  let ?D = "D(?q := D ?m)" and ?V = "V(?q := D ?m)" and ?R = "R(?q := 0)"
  have t: "tail < n" using Suc(2) by simp
  have area: "lh_block l j \<noteq> log_blk st i" if "i < n" "j < n" for i j using l(7) [OF that(2)] l(9) [OF that(1)] by metis
  have inj: "lh_block l i \<noteq> ?q" if "i < n" "i \<noteq> tail" for i using l(6) that t by (auto dest: inj_onD)
  have Rq: "if recovering then R = (\<lambda>_. 0) else R ?q = 1" using Suc.prems(4) t by auto
  have "P D" by (rule Suc.prems(7)) auto
  moreover have "P ?D"
  proof (rule Suc.prems(7))
    show "?D x = D x" if "\<And>i. i < n \<Longrightarrow> x \<noteq> lh_block l i" for x using that [OF t] by simp
    show "?D (lh_block l i) = D (lh_block l i) \<or> ?D (lh_block l i) = D (log_blk st i)" if "i < n" for i
      using inj [OF that] by (cases "i = tail") auto
  qed
  ultimately have PD: "P D" "P ?D" .
  obtain s1 where 1: "runs (disk_turn disk p) (on_disk P) (install_one recovering tail s) (Ok s1)"
    "idle_blocks dev p s1 ?V ?R ?D" "cache_frame s s1"
    using install_one_runs [where P = P and recovering = recovering, OF dsk Suc.prems(1) _ _ _ Suc.prems(5) [OF l(9) [OF t]] l(10) [OF t] area [OF t t] l(8) [OF t] Rq
        Suc.prems(6) PD] l(1,2) Suc.prems(3)
    by auto
  have log1: "log s1 = l" using cache_frame_sel(1) [OF 1(3)] Suc.prems(3) by simp
  have R1: "if recovering then ?R = (\<lambda>_. 0) else (\<forall>i. Suc tail \<le> i \<longrightarrow> i < n \<longrightarrow> ?R (lh_block l i) = 1)"
    using Suc.prems(4) inj by (cases recovering) auto
  have clear1: "?R x = 0" if "x \<in> log_area st" for x using Suc.prems(5) [OF that] by simp
  have "{x. ?R x \<noteq> 0} \<subseteq> {x. R x \<noteq> 0}" by auto
  from card_mono [OF finite_R [OF Suc.prems(1)] this] have room1: "card {x. ?R x \<noteq> 0} < NBUF" using Suc.prems(6) by linarith
  have log_kept: "?D (log_blk st i) = D (log_blk st i)" if "i < n" for i using area [OF that t] by auto
  have P1: "P D'" if out: "\<And>x. (\<And>i. i < n \<Longrightarrow> x \<noteq> lh_block l i) \<Longrightarrow> D' x = ?D x"
    and ins: "\<And>i. i < n \<Longrightarrow> D' (lh_block l i) = ?D (lh_block l i) \<or> D' (lh_block l i) = ?D (log_blk st i)" for D'
  proof (rule Suc.prems(7))
    show "D' x = D x" if "\<And>i. i < n \<Longrightarrow> x \<noteq> lh_block l i" for x using out [OF that] that [OF t] by simp
    show "D' (lh_block l i) = D (lh_block l i) \<or> D' (lh_block l i) = D (log_blk st i)" if "i < n" for i
      using ins [OF that] log_kept [OF that] inj [OF that]
      by (cases "i = tail") auto
  qed
  have k: "k = n - Suc tail" "Suc tail \<le> n" using Suc(2) t by auto
  obtain s2 V2 R2 D2 where 2: "runs (disk_turn disk p) (on_disk P) (install_from recovering (Suc tail) s1) (Ok s2)"
    "idle_blocks dev p s2 V2 R2 D2" "cache_frame s1 s2"
    "\<And>i. Suc tail \<le> i \<Longrightarrow> i < n \<Longrightarrow> D2 (lh_block l i) = ?D (log_blk st i) \<and> R2 (lh_block l i) = 0"
    "\<And>x. (\<And>i. Suc tail \<le> i \<Longrightarrow> i < n \<Longrightarrow> x \<noteq> lh_block l i) \<Longrightarrow> D2 x = ?D x \<and> V2 x = ?V x \<and> R2 x = ?R x"
    using Suc.hyps(1) [OF k(1) 1(2) _ log1 R1 clear1 room1 P1 k(2)] log1 Suc.prems(2,3) by auto
  have "runs (disk_turn disk p) (on_disk P) (install_from recovering tail s) (Ok s2)"
    using 1(1) 2(1) t l(3) Suc.prems(3) by (subst install_from.simps) (auto intro!: runs_bindT)
  moreover have "D2 (lh_block l i) = D (log_blk st i) \<and> R2 (lh_block l i) = 0" if "tail \<le> i" "i < n" for i
  proof (cases "i = tail")
    case True
    have "?q \<noteq> lh_block l j" if "Suc tail \<le> j" "j < n" for j using inj [OF that(2)] that(1) by auto
    from 2(5) [OF this] show ?thesis using True by simp
  next
    case False
    then show ?thesis using 2(4) [of i] that log_kept [OF that(2)] by simp
  qed
  moreover have "D2 x = D x \<and> V2 x = V x \<and> R2 x = R x" if "\<And>i. tail \<le> i \<Longrightarrow> i < n \<Longrightarrow> x \<noteq> lh_block l i" for x
    using 2(5) [of x] that t by auto
  ultimately show ?case using 2(2) cache_frame_trans [OF 1(3) 2(3)] by blast
qed

section \<open>Recovery\<close>

lemma dsts_ok_cong: "(\<And>i. i < n \<Longrightarrow> f i = g i) \<Longrightarrow> dsts_ok st n f = dsts_ok st n g"
  using inj_on_cong [of "{..<n}" f g] by (auto simp: dsts_ok_def)

text \<open>The disk while blocks are being installed, and when the log is empty again.\<close>

lemma installing_outcome:
  assumes "head_ok st D" and "unat st + 31 < 2 ^ 31"
    and "\<And>x. (\<And>i. i < nat (head_n (D st)) \<Longrightarrow> x \<noteq> head_dst (D st) i) \<Longrightarrow> D' x = D x"
  shows "head_ok st D' \<and> outcome st D' x = outcome st D x"
proof -
  have dst: "head_dst (D st) i \<notin> log_area st" if "i < nat (head_n (D st))" for i
    using assms(1) that by (simp add: head_ok_def dsts_ok_def)
  have "nat (head_n (D st)) \<le> 30" using assms(1) by (simp add: head_ok_def dsts_ok_def)
  then have "log_blk st i \<in> log_area st" if "i < nat (head_n (D st))" for i
    using that log_blk_area(1) [OF assms(2), of i] by simp
  then have lb: "D' (log_blk st i) = D (log_blk st i)" if "i < nat (head_n (D st))" for i
    using that dst by (intro assms(3)) metis
  have st: "D' st = D st" using dst start_area [of st] by (intro assms(3)) metis
  have "outcome st D' x = outcome st D x"
  proof (rule outcome_cong [OF st lb])
    show "D' y = D y" if "\<And>i. i < nat (head_n (D st)) \<Longrightarrow> head_dst (D st) i \<noteq> y" for y using that by (intro assms(3)) metis
  qed
  then show ?thesis using assms(1) by (simp add: head_ok_def st)
qed

lemma emptied_outcome:
  assumes "head_n h = 0"
  shows "head_ok st (D(st := h)) \<and> (\<forall>x. x \<notin> log_area st \<longrightarrow> outcome st (D(st := h)) x = D x)"
  using assms outcome_none [of "D(st := h)" st] start_area [of st] by (auto simp: head_ok_def dsts_ok_def)

lemma outcome_installed:
  assumes "head_ok st D" and "\<And>i. i < nat (head_n (D st)) \<Longrightarrow> D' (head_dst (D st) i) = D (log_blk st i)"
    and "\<And>x. (\<And>i. i < nat (head_n (D st)) \<Longrightarrow> x \<noteq> head_dst (D st) i) \<Longrightarrow> D' x = D x"
  shows "D' x = outcome st D x"
proof (cases "\<exists>i < nat (head_n (D st)). head_dst (D st) i = x")
  case True
  then obtain i where "i < nat (head_n (D st))" "head_dst (D st) i = x" by blast
  then show ?thesis using assms(1,2) outcome_at [of D st i] by (auto simp: head_ok_def dsts_ok_def)
next
  case False
  then show ?thesis using assms(3) [of x] outcome_other [of D st x] by metis
qed

text \<open>Installing the blocks of the log and emptying it, the end of a commit and of recovery.\<close>

definition pinned :: "bool \<Rightarrow> nat \<Rightarrow> logst \<Rightarrow> uint32 \<Rightarrow> nat" where
  "pinned recovering n l = (\<lambda>x. if \<not> recovering \<and> x \<in> lh_block l ` {..<n} then 1 else 0)"

lemma pinned_facts:
  assumes ready: "log_ready dev n st l" and n: "recovering \<or> n < NBUF"
  shows "\<And>x. x \<in> log_area st \<Longrightarrow> pinned recovering n l x = 0" "card {x. pinned recovering n l x \<noteq> 0} < NBUF"
    "if recovering then pinned recovering n l = (\<lambda>_. 0) else (\<forall>i. t \<le> i \<longrightarrow> i < n \<longrightarrow> pinned recovering n l (lh_block l i) = 1)"
proof -
  note l = log_readyD [OF ready]
  show "pinned recovering n l x = 0" if "x \<in> log_area st" for x using that l(7) by (auto simp: pinned_def)
  have "{x. pinned recovering n l x \<noteq> 0} = (if recovering then {} else lh_block l ` {..<n})" by (auto simp: pinned_def)
  then show "card {x. pinned recovering n l x \<noteq> 0} < NBUF" using n card_image [OF l(6)] by (cases recovering) simp_all
  show "if recovering then pinned recovering n l = (\<lambda>_. 0) else (\<forall>i. t \<le> i \<longrightarrow> i < n \<longrightarrow> pinned recovering n l (lh_block l i) = 1)"
    by (auto simp: pinned_def)
qed

lemma empty_log_runs:
  assumes dsk: "virtio_blk_device disk" and B: "idle_blocks dev p s V (pinned recovering n (log s)) D" and ready: "log_ready dev n st (log s)"
    and n: "recovering \<or> n < NBUF" and ok: "head_ok st D"
    and h: "head_n (D st) = int n" "\<And>i. i < n \<Longrightarrow> lh_block (log s) i = head_dst (D st) i"
    and P: "\<And>D'. head_ok st D' \<Longrightarrow> (\<And>x. x \<notin> log_area st \<Longrightarrow> outcome st D' x = outcome st D x) \<Longrightarrow> P D'"
  shows "\<exists>s' D'. runs (disk_turn disk p) (on_disk P)
       (bindT (install_trans recovering s) (\<lambda>s. write_head (upd_log (\<lambda>l. l\<lparr>lh_n := 0\<rparr>) s))) (Ok s') \<and>
     idle_blocks dev p s' D' (\<lambda>_. 0) D' \<and> head_n (D' st) = 0 \<and> log s' = (log s)\<lparr>lh_n := 0\<rparr> \<and> (\<forall>x. x \<notin> log_area st \<longrightarrow> D' x = outcome st D x)"
proof -
  note l = log_readyD [OF ready] and pin = pinned_facts [OF ready n]
  have P1: "P D'" if "\<And>x. (\<And>i. i < n \<Longrightarrow> x \<noteq> lh_block (log s) i) \<Longrightarrow> D' x = D x" for D'
    using installing_outcome [OF ok l(4), of D'] that h by (intro P) auto
  obtain s1 V1 R1 D1 where 1: "runs (disk_turn disk p) (on_disk P) (install_from recovering 0 s) (Ok s1)" "idle_blocks dev p s1 V1 R1 D1"
    "cache_frame s s1" "\<And>i. i < n \<Longrightarrow> D1 (lh_block (log s) i) = D (log_blk st i) \<and> R1 (lh_block (log s) i) = 0"
    "\<And>x. (\<And>i. i < n \<Longrightarrow> x \<noteq> lh_block (log s) i) \<Longrightarrow> D1 x = D x \<and> V1 x = V x \<and> R1 x = pinned recovering n (log s) x"
    using install_from_runs [where P = P and recovering = recovering and tail = 0, OF dsk B ready refl pin(3) pin(1,2) P1] by auto
  have "R1 x = 0" for x
  proof (cases "x \<in> lh_block (log s) ` {..<n}")
    case False
    then have "R1 x = pinned recovering n (log s) x" by (intro 1(5) [THEN conjunct2, THEN conjunct2]) auto
    then show ?thesis using False by (simp add: pinned_def)
  qed (use 1(4) in auto)
  then have R1: "R1 = (\<lambda>_. 0)" by (rule ext)
  then have V1: "V1 = D1" using 1(2) by (auto simp: blocks_def fun_eq_iff)
  have D1: "D1 x = outcome st D x" for x by (rule outcome_installed [OF ok]) (use 1(4,5) h in auto)
  let ?s = "upd_log (\<lambda>l. l\<lparr>lh_n := 0\<rparr>) s1"
  have B2: "idle_blocks dev p ?s D1 (\<lambda>_. 0) D1" using 1(2) by (simp only: upd_log_blocks R1 V1)
  have l2: "lg_dev (log ?s) = dev" "lg_start (log ?s) = st" "nat (log_n ?s) \<le> 30" "log_n ?s = 0"
    using l(1,2) cache_frame_sel(1) [OF 1(3)] by (simp_all add: upd_log_def)
  have PD: "P D1" using 1(5) by (intro P1) blast
  have P2: "P (D1(st := h))" if "head_n h = log_n ?s" for h using emptied_outcome [of h st D1] that l2(4) D1 by (intro P) auto
  have room: "card {x. (\<lambda>_. 0 :: nat) (x :: uint32) \<noteq> 0} < NBUF" by simp
  obtain s2 h where 2: "runs (disk_turn disk p) (on_disk P) (write_head ?s) (Ok s2)" "idle_blocks dev p s2 (D1(st := h)) (\<lambda>_. 0) (D1(st := h))"
    "head_n h = 0" "cache_frame ?s s2"
    using write_head_runs [where P = P, OF dsk B2 l2(1-3) _ l(13) room PD P2] l2(4) by auto
  have "log s2 = (log s)\<lparr>lh_n := 0\<rparr>" using cache_frame_sel(1) [OF 2(4)] cache_frame_sel(1) [OF 1(3)] by (simp add: upd_log_def)
  moreover have "(D1(st := h)) x = outcome st D x" if "x \<notin> log_area st" for x using that start_area [of st] D1 by auto
  moreover have "runs (disk_turn disk p) (on_disk P) (bindT (install_trans recovering s) (\<lambda>s. write_head (upd_log (\<lambda>l. l\<lparr>lh_n := 0\<rparr>) s))) (Ok s2)"
    unfolding install_trans_def by (rule runs_bindT [OF 1(1)]) (rule 2(1))
  ultimately show ?thesis using 2(2,3) by (intro exI [of _ s2] exI [of _ "D1(st := h)"]) simp
qed

lemma recover_runs:
  assumes dsk: "virtio_blk_device disk" and B: "idle_blocks dev p s D (\<lambda>_. 0) D"
    and l: "lg_dev (log s) = dev" "lg_start (log s) = st" and ok: "head_ok st D" and st: "unat st + 31 < 2 ^ 31"
  shows "\<exists>s' D'. runs (disk_turn disk p)
       (on_disk (\<lambda>D'. head_ok st D' \<and> (\<forall>x. x \<notin> log_area st \<longrightarrow> outcome st D' x = outcome st D x))) (recover_from_log s) (Ok s') \<and>
     idle_blocks dev p s' D' (\<lambda>_. 0) D' \<and> head_n (D' st) = 0 \<and> (\<forall>x. x \<notin> log_area st \<longrightarrow> D' x = outcome st D x)"
proof -
  let ?P = "\<lambda>D'. head_ok st D' \<and> (\<forall>x. x \<notin> log_area st \<longrightarrow> outcome st D' x = outcome st D x)"
  let ?n = "nat (head_n (D st))"
  have n: "?n \<le> 30" "head_n (D st) = int ?n" and small: "unat st < 2 ^ 31" using ok st by (simp_all add: head_ok_def dsts_ok_def)
  have PD: "?P D" using ok by simp
  obtain s1 where 1: "runs (disk_turn disk p) (on_disk ?P) (read_head s) (Ok s1)" "idle_blocks dev p s1 D (\<lambda>_. 0) D"
    "lg_dev (log s1) = dev" "lg_start (log s1) = st" "log_n s1 = head_n (D st)" "\<And>i. i < ?n \<Longrightarrow> lh_block (log s1) i = head_dst (D st) i"
    using read_head_runs [where P = ?P, OF dsk B l n(1) _ small _ PD] by auto
  have ready: "log_ready dev ?n st (log s1)"
    using ok n st 1(3-5) dsts_ok_cong [of ?n "lh_block (log s1)" "head_dst (D st)" st] 1(6) by (simp add: log_ready_def head_ok_def)
  have "pinned True ?n (log s1) = (\<lambda>_. 0)" by (simp add: pinned_def)
  then have B1: "idle_blocks dev p s1 D (pinned True ?n (log s1)) D" using 1(2) by simp
  obtain s2 D2 where 2: "runs (disk_turn disk p) (on_disk ?P) (bindT (install_trans True s1) (\<lambda>s. write_head (upd_log (\<lambda>l. l\<lparr>lh_n := 0\<rparr>) s))) (Ok s2)"
    "idle_blocks dev p s2 D2 (\<lambda>_. 0) D2" "head_n (D2 st) = 0" "\<forall>x. x \<notin> log_area st \<longrightarrow> D2 x = outcome st D x"
    using empty_log_runs [where P = ?P, OF dsk B1 ready _ ok n(2) 1(6)] by auto
  have "runs (disk_turn disk p) (on_disk ?P) (recover_from_log s) (Ok s2)"
    unfolding recover_from_log_def by (rule runs_bindT [OF 1(1)]) (rule 2(1))
  then show ?thesis using 2(2-4) by blast
qed

section \<open>Commit\<close>

text \<open>The disk once the header of a transaction has been written.\<close>

lemma committed_outcome:
  assumes ready: "log_ready dev n st l" and h: "head_n (D st) = int n" "\<And>i. i < n \<Longrightarrow> head_dst (D st) i = lh_block l i"
    and new: "\<And>i. i < n \<Longrightarrow> D (log_blk st i) = V (lh_block l i)"
    and old: "\<And>x. x \<notin> log_area st \<Longrightarrow> x \<notin> lh_block l ` {..<n} \<Longrightarrow> D x = V x"
  shows "head_ok st D" "x \<notin> log_area st \<Longrightarrow> outcome st D x = V x"
proof -
  have "dsts_ok st n (head_dst (D st))"
    using ready dsts_ok_cong [of n "head_dst (D st)" "lh_block l" st] h(2) by (simp add: log_ready_def)
  then show ok: "head_ok st D" by (simp add: head_ok_def h(1))
  show "outcome st D x = V x" if x: "x \<notin> log_area st"
  proof (cases "\<exists>i < n. lh_block l i = x")
    case True
    then obtain i where i: "i < n" "lh_block l i = x" by blast
    have "outcome st D (head_dst (D st) i) = D (log_blk st i)"
      using ok i(1) h(1) by (intro outcome_at) (simp_all add: head_ok_def dsts_ok_def)
    then show ?thesis using h(2) new i by simp
  next
    case False
    then have "outcome st D x = D x" using h by (intro outcome_other) auto
    then show ?thesis using False old [OF x] by auto
  qed
qed

lemma commit_runs:
  assumes dsk: "virtio_blk_device disk" and B: "idle_blocks dev p s V (pinned False n (log s)) D" and ready: "log_ready dev n st (log s)"
    and n: "0 < n" "n < NBUF" and empty: "head_n (D st) = 0"
  shows "\<exists>s' D'. runs (disk_turn disk p)
       (on_disk (\<lambda>D'. head_ok st D' \<and> ((\<forall>x. x \<notin> log_area st \<longrightarrow> outcome st D' x = D x) \<or> (\<forall>x. x \<notin> log_area st \<longrightarrow> outcome st D' x = V x))))
       (commit s) (Ok s') \<and>
     idle_blocks dev p s' D' (\<lambda>_. 0) D' \<and> head_n (D' st) = 0 \<and> log s' = (log s)\<lparr>lh_n := 0\<rparr> \<and> (\<forall>x. x \<notin> log_area st \<longrightarrow> D' x = V x)"
proof -
  let ?P = "\<lambda>D'. head_ok st D' \<and> ((\<forall>x. x \<notin> log_area st \<longrightarrow> outcome st D' x = D x) \<or> (\<forall>x. x \<notin> log_area st \<longrightarrow> outcome st D' x = V x))"
  let ?bl = "lh_block (log s)"
  note l = log_readyD [OF ready] and pin = pinned_facts [where recovering = False, OF ready disjI2 [OF n(2)]]
  have VD: "V x = D x" if "x \<notin> ?bl ` {..<n}" for x using B that by (auto simp: blocks_def pinned_def)
  have P1: "?P D'" if agree: "\<And>x. (\<And>i. i < n \<Longrightarrow> x \<noteq> log_blk st i) \<Longrightarrow> D' x = D x" for D'
  proof -
    have "D' st = D st" using l(11) by (intro agree) metis
    then have h: "head_n (D' st) = 0" using empty by simp
    have "D' x = D x" if x: "x \<notin> log_area st" for x using l(9) x by (intro agree) metis
    then show ?thesis using outcome_none [of D' st] h by (simp add: head_ok_def dsts_ok_def)
  qed
  obtain s1 V1 D1 where 1: "runs (disk_turn disk p) (on_disk ?P) (write_log_from 0 s) (Ok s1)" "idle_blocks dev p s1 V1 (pinned False n (log s)) D1"
    "cache_frame s s1" "\<And>i. i < n \<Longrightarrow> D1 (log_blk st i) = V (?bl i)" "\<And>x. (\<And>i. i < n \<Longrightarrow> x \<noteq> log_blk st i) \<Longrightarrow> D1 x = D x \<and> V1 x = V x"
    using write_log_from_runs [where P = ?P and tail = 0, OF dsk B ready refl _ pin(1,2) P1] pin(3) [of 0] by auto
  have log1: "log s1 = log s" by (rule cache_frame_sel [OF 1(3)])
  have commits: "head_ok st (D1(st := h))" "\<And>x. x \<notin> log_area st \<Longrightarrow> outcome st (D1(st := h)) x = V x"
    if h: "head_n h = log_n s1" "\<And>i. i < nat (log_n s1) \<Longrightarrow> head_dst h i = lh_block (log s1) i" for h
  proof -
    have "(D1(st := h)) (log_blk st i) = V (?bl i)" if "i < n" for i using 1(4) [OF that] l(11) [OF that] by simp
    moreover have "(D1(st := h)) x = V x" if x: "x \<notin> log_area st" "x \<notin> ?bl ` {..<n}" for x
    proof -
      have "D1 x = D x" using l(9) x(1) by (intro 1(5) [THEN conjunct1]) metis
      then show ?thesis using VD [OF x(2)] x(1) start_area [of st] by auto
    qed
    ultimately show "head_ok st (D1(st := h))" "\<And>x. x \<notin> log_area st \<Longrightarrow> outcome st (D1(st := h)) x = V x"
      using h l(3) log1 by (intro committed_outcome [OF ready]; simp)+
  qed
  have P2: "?P (D1(st := h))" if "head_n h = log_n s1" "\<And>i. i < nat (log_n s1) \<Longrightarrow> head_dst h i = lh_block (log s1) i" for h
    using commits [OF that] by simp
  have PD1: "?P D1" using 1(5) by (intro P1) blast
  have n1: "nat (log_n s1) \<le> 30" and l1: "lg_dev (log s1) = dev" "lg_start (log s1) = st" using l(1-3,5) log1 by simp_all
  obtain s2 h where 2: "runs (disk_turn disk p) (on_disk ?P) (write_head s1) (Ok s2)" "idle_blocks dev p s2 (V1(st := h)) (pinned False n (log s)) (D1(st := h))"
    "cache_frame s1 s2" "head_n h = log_n s1" "\<And>i. i < nat (log_n s1) \<Longrightarrow> head_dst h i = lh_block (log s1) i"
    using write_head_runs [where P = ?P and st = st, OF dsk 1(2) l1 n1 pin(1) [OF start_area] l(13) pin(2) PD1 P2] by blast
  have c: "head_ok st (D1(st := h))" "\<And>x. x \<notin> log_area st \<Longrightarrow> outcome st (D1(st := h)) x = V x"
    by (rule commits, rule 2(4), erule 2(5), assumption?)+
  have log2: "log s2 = log s" using cache_frame_sel(1) [OF 2(3)] log1 by simp
  have h: "head_n ((D1(st := h)) st) = int n" "\<And>i. i < n \<Longrightarrow> lh_block (log s2) i = head_dst ((D1(st := h)) st) i"
    using 2(4,5) l(3) log1 log2 by simp_all
  have ready2: "log_ready dev n st (log s2)" using ready log2 by simp
  have P3: "?P D'" if "head_ok st D'" "\<And>x. x \<notin> log_area st \<Longrightarrow> outcome st D' x = outcome st (D1(st := h)) x" for D'
    using that c(2) by simp
  obtain s3 D3 where 3: "runs (disk_turn disk p) (on_disk ?P) (bindT (install_trans False s2) (\<lambda>s. write_head (upd_log (\<lambda>l. l\<lparr>lh_n := 0\<rparr>) s))) (Ok s3)"
    "idle_blocks dev p s3 D3 (\<lambda>_. 0) D3" "head_n (D3 st) = 0" "log s3 = (log s2)\<lparr>lh_n := 0\<rparr>" "\<And>x. x \<notin> log_area st \<Longrightarrow> D3 x = outcome st (D1(st := h)) x"
    using empty_log_runs [where P = ?P and D = "D1(st := h)", OF dsk 2(2) [folded log2] ready2 disjI2 [OF n(2)] c(1) h P3] by blast
  have "log_n s > 0" using n(1) l(3) by simp
  then have "runs (disk_turn disk p) (on_disk ?P) (commit s) (Ok s3)"
    unfolding commit_def write_log_def by (simp only: if_True) (intro runs_bindT [OF 1(1)] runs_bindT [OF 2(1)] 3(1))
  then show ?thesis using 3(2-5) c(2) log2 by (intro exI [of _ s3] exI [of _ D3]) simp
qed

section \<open>Loss of power\<close>

text \<open>A machine in which a process runs after the caches have been set up.\<close>

definition booted :: "nat \<Rightarrow> 'a fsst_scheme \<Rightarrow> bool" where
  "booted q r \<longleftrightarrow> calm q r \<and> disk_idle r \<and> fresh_cache r"

text \<open>
  \<open>restarts disk dev sblk img img'\<close>: the disk has contents \<open>img'\<close> after the machine has been
  started with contents \<open>img\<close> and has lost its power during recovery, any number of times.
\<close>

inductive restarts :: "('a fsst_scheme \<Rightarrow> 'a fsst_scheme) \<Rightarrow> uint32 \<Rightarrow> superblock \<Rightarrow> (nat \<Rightarrow> uint8) \<Rightarrow> (nat \<Rightarrow> uint8) \<Rightarrow> bool"
  for disk dev sblk where
  first_start: "restarts disk dev sblk img img"
| start_again: "restarts disk dev sblk img (disk_img r) \<Longrightarrow> booted q r \<Longrightarrow> halts (disk_turn disk q) (initlog dev sblk r) u \<Longrightarrow>
     restarts disk dev sblk img (disk_img u)"

lemma initlog_runs:
  assumes dsk: "virtio_blk_device disk" and r: "booted q r" and dev: "dev \<noteq> 0"
    and ok: "head_ok (sb_logstart sblk) (blk (disk_img r))" and st: "unat (sb_logstart sblk) + 31 < 2 ^ 31"
  shows "\<exists>r'. runs (disk_turn disk q)
       (on_disk (\<lambda>D'. head_ok (sb_logstart sblk) D' \<and>
          (\<forall>x. x \<notin> log_area (sb_logstart sblk) \<longrightarrow> outcome (sb_logstart sblk) D' x = outcome (sb_logstart sblk) (blk (disk_img r)) x)))
       (initlog dev sblk r) (Ok r') \<and>
     (\<forall>x. x \<notin> log_area (sb_logstart sblk) \<longrightarrow> blk (disk_img r') x = outcome (sb_logstart sblk) (blk (disk_img r)) x)"
proof -
  let ?r = "upd_log (\<lambda>l. l\<lparr>lg_start := sb_logstart sblk, lg_size := sb_nlog sblk, lg_dev := dev\<rparr>) (initlock L_log ''log'' r)"
  have "idle_blocks dev q (initlock L_log ''log'' r) (blk (disk_img (initlock L_log ''log'' r))) (\<lambda>_. 0) (blk (disk_img (initlock L_log ''log'' r)))"
    using r dev initlock_calm [of q r L_log "''log''"]
    by (intro fresh_blocks) (auto simp: booted_def disk_idle_def fresh_cache_def lru_def initlock_def)
  moreover have "disk_img (initlock L_log ''log'' r) = disk_img r" by (simp add: initlock_def)
  ultimately have B: "idle_blocks dev q ?r (blk (disk_img r)) (\<lambda>_. 0) (blk (disk_img r))" by (simp add: upd_log_blocks)
  have "lg_dev (log ?r) = dev" "lg_start (log ?r) = sb_logstart sblk" by (simp_all add: upd_log_def)
  from recover_runs [OF dsk B this ok st] show ?thesis by (auto simp: initlog_def blocks_def)
qed

lemma restarts_outcome:
  assumes "restarts disk dev sblk img img'" and dsk: "virtio_blk_device disk" and dev: "dev \<noteq> 0"
    and "head_ok (sb_logstart sblk) (blk img)" and st: "unat (sb_logstart sblk) + 31 < 2 ^ 31"
  shows "head_ok (sb_logstart sblk) (blk img') \<and>
     (\<forall>x. x \<notin> log_area (sb_logstart sblk) \<longrightarrow> outcome (sb_logstart sblk) (blk img') x = outcome (sb_logstart sblk) (blk img) x)"
  using assms(1,4)
proof (induction rule: restarts.induct)
  case (start_again img r q u)
  then have IH: "head_ok (sb_logstart sblk) (blk (disk_img r))"
    "\<And>x. x \<notin> log_area (sb_logstart sblk) \<Longrightarrow> outcome (sb_logstart sblk) (blk (disk_img r)) x = outcome (sb_logstart sblk) (blk img) x" by blast+
  from initlog_runs [OF dsk start_again(2) dev IH(1) st] obtain r' where
    "runs (disk_turn disk q) (on_disk (\<lambda>D'. head_ok (sb_logstart sblk) D' \<and>
        (\<forall>x. x \<notin> log_area (sb_logstart sblk) \<longrightarrow> outcome (sb_logstart sblk) D' x = outcome (sb_logstart sblk) (blk (disk_img r)) x)))
      (initlog dev sblk r) (Ok r')" by blast
  from runs_halts [OF this start_again(3)] show ?case using IH(2) by auto
qed simp

text \<open>What a recovery that comes to its end leaves, after any number of failures.\<close>

lemma recovery_completes:
  assumes dsk: "virtio_blk_device disk" and dev: "dev \<noteq> 0" and small: "unat st + 31 < 2 ^ 31" and st: "sb_logstart sblk = st"
    and ok: "head_ok st (blk img)"
    and P: "(\<forall>x. x \<notin> log_area st \<longrightarrow> outcome st (blk img) x = A x) \<or> (\<forall>x. x \<notin> log_area st \<longrightarrow> outcome st (blk img) x = B x)"
    and r: "restarts disk dev sblk img (disk_img r)" "booted q r"
  shows "\<exists>r'. runs (disk_turn disk q) (\<lambda>_. True) (initlog dev sblk r) (Ok r') \<and>
     ((\<forall>x. x \<notin> log_area st \<longrightarrow> blk (disk_img r') x = A x) \<or> (\<forall>x. x \<notin> log_area st \<longrightarrow> blk (disk_img r') x = B x))"
proof -
  have R: "head_ok st (blk (disk_img r))" "\<And>x. x \<notin> log_area st \<Longrightarrow> outcome st (blk (disk_img r)) x = outcome st (blk img) x"
    using restarts_outcome [OF r(1) dsk dev] ok small unfolding st by blast+
  obtain r' where r': "runs (disk_turn disk q) (\<lambda>_. True) (initlog dev sblk r) (Ok r')" "\<And>x. x \<notin> log_area st \<Longrightarrow> blk (disk_img r') x = outcome st (blk (disk_img r)) x"
    using initlog_runs [OF dsk r(2) dev, of sblk] R(1) small unfolding st by (blast intro: runs_weaken)
  from P consider "\<forall>x. x \<notin> log_area st \<longrightarrow> outcome st (blk img) x = A x" | "\<forall>x. x \<notin> log_area st \<longrightarrow> outcome st (blk img) x = B x" by blast
  then show ?thesis using r' R(2) by cases auto
qed

text \<open>A transaction that is ready to be committed: its blocks are pinned in the cache, the log on the disk is empty.\<close>

definition transaction :: "uint32 \<Rightarrow> nat \<Rightarrow> uint32 \<Rightarrow> nat \<Rightarrow> 'a fsst_scheme \<Rightarrow> bool" where
  "transaction dev p st n s \<longleftrightarrow> log_ready dev n st (log s) \<and> 0 < n \<and> n < NBUF \<and> head_n (blk (disk_img s) st) = 0 \<and>
     blocks dev p s (\<lambda>_. None) (view dev s) (pinned False n (log s)) (blk (disk_img s))"


text \<open>A concrete transaction: block 50 of device 1 has been filled with sevens.\<close>

definition demo_txn :: fsst where
  "demo_txn = upd_log (\<lambda>l. l\<lparr>lg_dev := 1, lg_start := 2, lh_n := 1, lh_block := (\<lambda>_. 50)\<rparr>)
     (upd_buf 0 (\<lambda>x. x\<lparr>b_dev := 1, b_blockno := 50, b_valid := True, b_refcnt := 1, b_data := (\<lambda>_. 7)\<rparr>)
       (binit (demo_fs 4 (\<lambda>_. blank_proc))))"

lemma demo_txn_blocks:
  defines "l \<equiv> log demo_txn"
  shows "blocks 1 4 demo_txn (\<lambda>_. None) (view 1 demo_txn) (pinned False 1 l) (blk (disk_img demo_txn))"
    "view 1 demo_txn 50 = contents (\<lambda>_. 7)"
proof -
  let ?s = "binit (demo_fs 4 (\<lambda>_. blank_proc))"
  let ?t = "upd_buf 0 (\<lambda>x. x\<lparr>b_dev := 1, b_blockno := 50, b_valid := True, b_refcnt := 1, b_data := (\<lambda>_. 7)\<rparr>) ?s"
  have "calm 4 (demo_fs 4 (\<lambda>_. blank_proc))"
    using demo_fs_simps(3,4,5,6) [where p = 4 and ps = "\<lambda>_. blank_proc"] by (simp add: calm_def)
  then have calm: "calm 4 ?s" by (rule binit_calm)
  have idle: "disk_idle ?s" unfolding binit_disk by (simp add: disk_idle_def)
  have fresh: "fresh_cache ?s" by (rule binit_fresh) simp
  have none: "buf_of 1 ?s n = None" "\<not> holds_block 1 n (bufs ?s a)" for n a
    by (simp_all add: buf_of_def first_match_None_iff holds_block_def binit_data)
  have "one_each ?s" by (rule binit_one_each) simp
  have one: "one_each ?t" by (rule one_each_take [OF \<open>one_each ?s\<close>, where b = 0 and dev = 1 and n = 50]) (simp_all add: none holds_block_def binit_data)
  have of': "buf_of 1 ?t m = (if m = 50 then Some 0 else None)" for m
    using buf_of_take [OF \<open>one_each ?s\<close> one, of 1 0 50 m] by (simp add: none holds_block_def)
  have v: "view 1 ?t m = (if m = 50 then contents (\<lambda>_. 7) else blk (disk_img ?t) m)" "refs 1 ?t m = (if m = 50 then 1 else 0)" for m
    by (simp_all add: view_def refs_def of')
  obtain bs where "lru ?s bs" using fresh by (auto simp: fresh_cache_def)
  then have "lru ?t bs" by (simp add: lru_upd_buf)
  then have "cache_ok 1 4 (\<lambda>_. None) ?t"
    using calm idle one fresh by (auto simp: cache_ok_def fresh_cache_def)
  moreover have "view 1 ?t m = blk (disk_img ?t) m" if "refs 1 ?t m = 0" for m using that by (simp add: v split: if_splits)
  ultimately have "blocks 1 4 ?t (\<lambda>_. None) (view 1 ?t) (refs 1 ?t) (blk (disk_img ?t))" unfolding blocks_def by blast
  moreover have "refs 1 ?t = pinned False 1 l" by (auto simp: v pinned_def l_def demo_txn_def upd_log_def)
  moreover have "view 1 demo_txn = view 1 ?t" "disk_img demo_txn = disk_img ?t"
    by (simp_all only: demo_txn_def upd_log_view)
  ultimately show "blocks 1 4 demo_txn (\<lambda>_. None) (view 1 demo_txn) (pinned False 1 l) (blk (disk_img demo_txn))"
    "view 1 demo_txn 50 = contents (\<lambda>_. 7)" by (simp_all add: demo_txn_def upd_log_blocks v)
qed


end
