(* ===== verification/Logops.thy ===== *)
theory Logops
  imports Logsafe
begin

text \<open>
  What the users of the log rely on: \<open>log_write\<close> keeps the log in memory well-formed and pins
  the block, and a system call that brackets its updates with \<open>begin_op\<close> and \<open>end_op\<close>
  changes the disk in one step, whatever happens to the power.
\<close>

section \<open>Recording a block\<close>

lemma upd_log_lock_simps [lock_simps]:
  "upd_log f (acquired lk s) = acquired lk (upd_log f s)" "upd_log f (tidy s) = tidy (upd_log f s)"
  "lock_free lk (upd_log f s) = lock_free lk s" "cpu_ok (upd_log f s) = cpu_ok s" "mycpu (upd_log f s) = mycpu s"
  by (simp_all add: upd_log_def lock_simps)

lemma upd_log_sel [simp]:
  "log (upd_log f s) = f (log s)" "bufs (upd_log f s) = bufs s" "procs (upd_log f s) = procs s" "upd_log g (upd_log f s) = upd_log (\<lambda>l. g (f l)) s"
  "calm p (upd_log f s) = calm p s"
  by (simp_all add: upd_log_def calm_def lock_simps)

lemma bpin_log:
  assumes "calm p s"
  shows "bpin b (acquired L_log s) = Ok (acquired L_log (upd_buf b (\<lambda>x. x\<lparr>b_refcnt := b_refcnt x + 1\<rparr>) s))"
  using assms by (simp add: bpin_def calm_def lock_simps)

definition logged :: "uint32 \<Rightarrow> logst \<Rightarrow> bool" where
  "logged x l \<longleftrightarrow> (\<exists>i < nat (sint (lh_n l)). lh_block l i = x)"

lemma log_write_eq:
  assumes calm: "calm p s" and small: "\<not> (log_n s \<ge> LOGSIZE \<or> log_n s \<ge> sint (lg_size (log s)) - 1)" and n: "0 \<le> log_n s"
    and inside: "1 \<le> lg_outstanding (log s)" and x: "b_blockno (bufs s b) = x"
  shows "log_write b s =
     (if logged x (log s) then Ok (tidy s)
      else Ok (tidy (upd_log (\<lambda>l. l\<lparr>lh_block := (lh_block l)(nat (log_n s) := x), lh_n := lh_n l + 1\<rparr>)
        (upd_buf b (\<lambda>x. x\<lparr>b_refcnt := b_refcnt x + 1\<rparr>) s))))"
proof (cases "first_match (\<lambda>i. lh_block (log s) i = x) (nat (log_n s))")
  case (Some i)
  then have i: "i < nat (log_n s)" "lh_block (log s) i = x" by (rule first_match_SomeD)+
  then have "upd_log (\<lambda>l. l\<lparr>lh_block := (lh_block l)(i := x)\<rparr>) s = s" by (simp add: upd_log_def fun_upd_idem)
  moreover have "int i \<noteq> log_n s" using i(1) by linarith
  moreover have "logged x (log s)" using i by (auto simp: logged_def)
  moreover have "release L_log (acquired L_log s) = Ok (tidy s)" using calm by (intro release_acquired) (simp_all add: calm_def)
  ultimately show ?thesis
    using calm small inside Some by (simp add: log_write_def calm_def lock_simps Let_def x)
next
  case None
  then have "\<not> logged x (log s)" by (auto simp: logged_def first_match_None_iff)
  moreover let ?t = "upd_log (\<lambda>l. l\<lparr>lh_block := (lh_block l)(nat (log_n s) := x)\<rparr>) s"
  have "calm p ?t" using calm by simp
  from bpin_log [OF this, of b] have "bpin b (acquired L_log ?t) = Ok (acquired L_log (upd_buf b (\<lambda>x. x\<lparr>b_refcnt := b_refcnt x + 1\<rparr>) ?t))" .
  moreover let ?u = "upd_log (\<lambda>l. l\<lparr>lh_n := lh_n l + 1\<rparr>) (upd_buf b (\<lambda>x. x\<lparr>b_refcnt := b_refcnt x + 1\<rparr>) ?t)"
  have "release L_log (acquired L_log ?u) = Ok (tidy ?u)" using calm by (intro release_acquired) (simp_all add: calm_def lock_simps)
  moreover have "?u = upd_log (\<lambda>l. l\<lparr>lh_block := (lh_block l)(nat (log_n s) := x), lh_n := lh_n l + 1\<rparr>)
      (upd_buf b (\<lambda>x. x\<lparr>b_refcnt := b_refcnt x + 1\<rparr>) s)"
    by (simp add: upd_log_def upd_buf_def)
  ultimately show ?thesis
    using calm small inside None n by (simp add: log_write_def calm_def lock_simps Let_def x)
qed

lemma sint_succ:
  fixes x :: uint32
  assumes "sint x = int n" and "n < 30"
  shows "sint (x + 1) = int (Suc n)"
proof -
  have "x + 1 = of_int (int n + 1)" using arg_cong [OF assms(1), of "of_int :: int \<Rightarrow> uint32"] by simp
  moreover have "sint (of_int (int n + 1) :: uint32) = signed_take_bit 31 (int n + 1)"
    by (simp add: signed_of_int del: of_int_add of_int_of_nat_eq)
  moreover have "signed_take_bit 31 (int n + 1) = int n + 1" using assms(2) by (intro signed_take_bit_int_eq_self) simp_all
  ultimately show ?thesis by simp
qed

text \<open>An entry for a new block.\<close>

lemma log_ready_add:
  assumes ready: "log_ready dev n st l" and n: "n < 30" and x: "\<not> logged x l" "x \<notin> log_area st" "unat x < 2 ^ 31"
  shows "log_ready dev (Suc n) st (l\<lparr>lh_block := (lh_block l)(n := x), lh_n := lh_n l + 1\<rparr>)"
    "((lh_block l)(n := x)) ` {..<Suc n} = insert x (lh_block l ` {..<n})"
proof -
  note l = log_readyD [OF ready]
  have new: "lh_block l i \<noteq> x" if "i < n" for i using x(1) that l(3) by (auto simp: logged_def)
  have "inj_on ((lh_block l)(n := x)) {..<Suc n}"
  proof (rule inj_onI)
    fix i j
    assume ij: "i \<in> {..<Suc n}" "j \<in> {..<Suc n}" "((lh_block l)(n := x)) i = ((lh_block l)(n := x)) j"
    show "i = j"
    proof (cases "i = n \<or> j = n")
      case True
      then show ?thesis using ij new [of i] new [of j] by (auto simp: less_Suc_eq)
    next
      case False
      then show ?thesis using ij l(6) by (auto simp: less_Suc_eq dest: inj_onD)
    qed
  qed
  then show "log_ready dev (Suc n) st (l\<lparr>lh_block := (lh_block l)(n := x), lh_n := lh_n l + 1\<rparr>)"
    using ready n x(2,3) sint_succ [OF l(3) n] by (auto simp: log_ready_def dsts_ok_def less_Suc_eq)
  show "((lh_block l)(n := x)) ` {..<Suc n} = insert x (lh_block l ` {..<n})" by (auto simp: less_Suc_eq image_iff)
qed

lemma pin_blocks:
  assumes B: "blocks dev p s L V R D" and b: "L b = Some x" and few: "R x + 1 < 2 ^ 32"
  shows "blocks dev p (tidy (upd_log f (upd_buf b (\<lambda>x. x\<lparr>b_refcnt := b_refcnt x + 1\<rparr>) s))) L V (R(x := R x + 1)) D"
proof -
  note h = blocks_heldD [OF B b]
  let ?u = "tidy (upd_buf b (\<lambda>x. x\<lparr>b_refcnt := b_refcnt x + 1\<rparr>) s)"
  have r: "unat (b_refcnt (bufs s b) + 1) = R x + 1"
    using few h(8) unat_add_lem [of "b_refcnt (bufs s b)" 1] by simp
  then have "b_refcnt (bufs s b) + 1 \<noteq> 0" by (metis add_is_0 one_neq_zero unat_0)
  moreover obtain bs where "lru s bs" using h(3) by blast
  then have "lru ?u bs" by (simp add: lru_upd_buf)
  ultimately have "blocks dev p ?u L (V(x := contents (b_data (bufs ?u b)))) (R(x := unat (b_refcnt (bufs ?u b)))) (blk (disk_img ?u))"
    using h by (intro blocks_held [OF B b]) (auto simp: lock_simps calm_steps)
  moreover have "V(x := contents (b_data (bufs ?u b))) = V" "R(x := unat (b_refcnt (bufs ?u b))) = R(x := R x + 1)" "disk_img ?u = disk_img s"
    using h(6) r by (auto simp: lock_simps)
  ultimately have "blocks dev p (upd_log f ?u) L V (R(x := R x + 1)) D" using h(12) by (simp add: upd_log_blocks)
  then show ?thesis by (simp add: lock_simps)
qed

lemma tidy_blocks: "blocks dev p s L V R D \<Longrightarrow> blocks dev p (tidy s) L V R D"
proof -
  assume B: "blocks dev p s L V R D"
  then have "calm p s" by (simp add: blocks_def cache_ok_def)
  then show ?thesis using B blocks_cong [of "tidy s" s p] by (simp add: lock_simps calm_steps)
qed

lemma log_write_blocks:
  assumes B: "blocks dev p s L V R D" and b: "L b = Some x" and ready: "log_ready dev n st (log s)"
    and small: "n < 30" "int n < sint (lg_size (log s)) - 1" and inside: "1 \<le> lg_outstanding (log s)"
    and x: "x \<notin> log_area st" "unat x < 2 ^ 31" and few: "R x + 1 < 2 ^ 32"
  shows "\<exists>s' n'. log_write b s = Ok s' \<and> n' = (if logged x (log s) then n else Suc n) \<and> log_ready dev n' st (log s') \<and>
     lh_block (log s') ` {..<n'} = insert x (lh_block (log s) ` {..<n}) \<and> lg_outstanding (log s') = lg_outstanding (log s) \<and>
     lg_committing (log s') = lg_committing (log s) \<and> lg_size (log s') = lg_size (log s) \<and>
     blocks dev p s' L V (if logged x (log s) then R else R(x := R x + 1)) D"
proof -
  note l = log_readyD [OF ready]
  have calm: "calm p s" and blockno: "b_blockno (bufs s b) = x" using blocks_heldD(1,5) [OF B b] by simp_all
  have n: "nat (log_n s) = n" "0 \<le> log_n s" using l(3) by simp_all
  have "\<not> (log_n s \<ge> LOGSIZE \<or> log_n s \<ge> sint (lg_size (log s)) - 1)" using small l(3) by simp
  note w = log_write_eq [OF calm this n(2) inside blockno, unfolded n(1)]
  show ?thesis
  proof (cases "logged x (log s)")
    case True
    then have "insert x (lh_block (log s) ` {..<n}) = lh_block (log s) ` {..<n}" using n(1) by (auto simp: logged_def)
    then show ?thesis using w True ready tidy_blocks [OF B] by (simp add: lock_simps)
  next
    case False
    show ?thesis
      using w False pin_blocks [OF B b few] log_ready_add [OF ready small(1) False x] by (simp add: lock_simps)
  qed
qed

text \<open>
  C33: \<open>log_write\<close> on a locked buffer keeps the log well-formed: at most 30 entries, all for
  different blocks outside of the log. A block that has an entry is absorbed; a new block gets an entry
  and is pinned. A transaction that is too big, and a call outside of a transaction, end in their
  panics.
\<close>

theorem log_write_wellformed:
  assumes B: "blocks dev p s L V R D" and b: "L b = Some x" and ready: "log_ready dev n st (log s)"
    and x: "x \<notin> log_area st" "unat x < 2 ^ 31" and few: "R x + 1 < 2 ^ 32"
  shows "if 30 \<le> n \<or> sint (lg_size (log s)) - 1 \<le> int n then log_write b s = Panic ''too big a transaction''
     else if lg_outstanding (log s) < 1 then log_write b s = Panic ''log_write outside of trans''
     else (\<exists>s' n'. log_write b s = Ok s' \<and> n' = (if logged x (log s) then n else Suc n) \<and> log_ready dev n' st (log s') \<and>
       lh_block (log s') ` {..<n'} = insert x (lh_block (log s) ` {..<n}) \<and>
       blocks dev p s' L V (if logged x (log s) then R else R(x := R x + 1)) D)"
proof -
  have "calm p s" "log_n s = int n" using blocks_heldD(1) [OF B b] log_readyD(3) [OF ready] by simp_all
  then show ?thesis
    using log_write_blocks [OF B b ready _ _ _ x few] by (auto simp: log_write_def calm_def lock_simps)
qed

theorem log_write_wellformed_witness:
  "\<exists>b s s'. log_write b (s :: fsst) = Ok s' \<and> log_n s = 0 \<and> log_n s' = 1 \<and> lh_block (log s') 0 = 50"
proof -
  let ?s = "upd_log (\<lambda>l. l\<lparr>lg_dev := 1, lg_start := 2, lg_size := 30, lh_n := 0, lg_outstanding := 1\<rparr>) (binit (demo_fs 4 (\<lambda>_. blank_proc)))"
  have dsk: "virtio_blk_device (serve :: fsst \<Rightarrow> fsst)" by (simp add: virtio_blk_device_def)
  have "idle_blocks 1 4 ?s (\<lambda>_ _. 0) (\<lambda>_. 0) (\<lambda>_ _. 0)" using demo_blocks by (simp add: upd_log_blocks)
  from bread_runs [OF dsk this, of 50] obtain b t where
    t: "blocks 1 4 t ((\<lambda>_. None)(b \<mapsto> 50)) (\<lambda>_ _. 0) ((\<lambda>_. 0)(50 := 0 + 1)) (\<lambda>_ _. 0)" "cache_frame ?s t" by auto
  have log: "log t = log ?s" by (rule cache_frame_sel [OF t(2)])
  have ready: "log_ready 1 0 2 (log t)" by (simp add: log log_ready_def dsts_ok_def)
  from log_write_wellformed [OF t(1) _ ready, of b 50] obtain s' n' where
    "log_write b t = Ok s'" "n' = (if logged 50 (log t) then 0 else Suc 0)" "log_ready 1 n' 2 (log s')"
    "lh_block (log s') ` {..<n'} = insert 50 (lh_block (log t) ` {..<0})"
    by (auto simp: log log_area_def)
  moreover have "\<not> logged 50 (log t)" by (simp add: log logged_def)
  ultimately have "log_write b t = Ok s'" "log_n s' = 1" "lh_block (log s') 0 = 50" using log_readyD(3) by auto
  moreover have "log_n t = 0" by (simp add: log)
  ultimately show ?thesis by blast
qed

section \<open>A system call\<close>

text \<open>
  The shape of every update: blocks are read, changed in the cache, recorded and given back. An
  edit is local if it looks at the 1024 bytes of the block only.
\<close>

primrec log_puts :: "uint32 \<Rightarrow> (uint32 \<times> (chars \<Rightarrow> chars)) list \<Rightarrow> 'a fsst_scheme \<Rightarrow> ('a fsst_scheme, 'a fsst_scheme) thread" where
  "log_puts dev [] s = Done (Ok s)"
| "log_puts dev (u # us) s =
     bindT (bread dev (fst u) s) (\<lambda>(b, s).
     bindT (Done (log_write b (set_data b (snd u) s))) (\<lambda>s.
     bindT (Done (brelse b s)) (log_puts dev us)))"

definition system_call :: "uint32 \<Rightarrow> (uint32 \<times> (chars \<Rightarrow> chars)) list \<Rightarrow> 'a fsst_scheme \<Rightarrow> ('a fsst_scheme, unit \<times> 'a fsst_scheme) thread" where
  "system_call dev us s = bindT (begin_op s) (\<lambda>(_, s). bindT (log_puts dev us s) end_op)"

definition local_edit :: "(chars \<Rightarrow> chars) \<Rightarrow> bool" where
  "local_edit f \<longleftrightarrow> (\<forall>d. contents (f d) = contents (f (contents d)))"

definition edit :: "uint32 \<times> (chars \<Rightarrow> chars) \<Rightarrow> (uint32 \<Rightarrow> block) \<Rightarrow> uint32 \<Rightarrow> block" where
  "edit u V = V(fst u := contents (snd u (V (fst u))))"

definition edits_ok :: "uint32 \<Rightarrow> (uint32 \<times> (chars \<Rightarrow> chars)) list \<Rightarrow> bool" where
  "edits_ok st us \<longleftrightarrow> (\<forall>u \<in> set us. fst u \<notin> log_area st \<and> unat (fst u) < 2 ^ 31 \<and> local_edit (snd u))"

text \<open>The log of an open transaction.\<close>

definition log_open :: "uint32 \<Rightarrow> nat \<Rightarrow> uint32 \<Rightarrow> logst \<Rightarrow> bool" where
  "log_open dev n st l \<longleftrightarrow> log_ready dev n st l \<and> lg_outstanding l = 1 \<and> \<not> lg_committing l \<and> 11 < sint (lg_size l)"

lemma pinned_logged: "sint (lh_n l) = int n \<Longrightarrow> pinned False n l x = (if logged x l then 1 else 0)"
  by (auto simp: pinned_def logged_def)

lemma log_put_runs:
  assumes dsk: "virtio_blk_device disk" and B: "idle_blocks dev p s V (pinned False n (log s)) D" and l: "log_open dev n st (log s)" and n: "n < 10"
    and u: "fst u \<notin> log_area st" "unat (fst u) < 2 ^ 31" "local_edit (snd u)" and P: "P D"
  shows "\<exists>b s1 s2 s3 n'. runs (disk_turn disk p) (on_disk P) (bread dev (fst u) s) (Ok (b, s1)) \<and> log_write b (set_data b (snd u) s1) = Ok s2 \<and>
     brelse b s2 = Ok s3 \<and> idle_blocks dev p s3 (edit u V) (pinned False n' (log s3)) D \<and> log_open dev n' st (log s3) \<and> n' \<le> Suc n"
proof -
  let ?x = "fst u" and ?R = "pinned False n (log s)"
  have ready: "log_ready dev n st (log s)" using l by (simp add: log_open_def)
  note pin = pinned_facts [where recovering = False, OF ready disjI2] and li = pinned_logged [OF log_readyD(3) [OF ready]]
  have few: "?R ?x + 1 < 2 ^ 32" by (simp add: li)
  obtain b s1 where 1: "runs (disk_turn disk p) (on_disk P) (bread dev ?x s) (Ok (b, s1))"
    "blocks dev p s1 ((\<lambda>_. None)(b \<mapsto> ?x)) V (?R(?x := ?R ?x + 1)) D" "cache_frame s s1"
    using bread_safe [where P = P, OF dsk B _ u(2) _ few P] pin(2) n by auto
  have log1: "log (set_data b (snd u) s1) = log s" using cache_frame_sel(1) [OF 1(3)] by (simp add: set_data_def)
  have "contents (b_data (bufs s1 b)) = V ?x" using blocks_heldD(6) [OF 1(2), of b ?x] by simp
  then have "V(?x := contents (snd u (b_data (bufs s1 b)))) = edit u V" using u(3) by (metis edit_def local_edit_def)
  then have B1: "blocks dev p (set_data b (snd u) s1) ((\<lambda>_. None)(b \<mapsto> ?x)) (edit u V) (?R(?x := ?R ?x + 1)) D"
    using set_data_blocks(1) [OF 1(2), of b ?x "snd u"] by simp
  have w: "n < 30" "int n < sint (lg_size (log (set_data b (snd u) s1))) - 1" "1 \<le> lg_outstanding (log (set_data b (snd u) s1))"
    "(?R(?x := ?R ?x + 1)) ?x + 1 < 2 ^ 32" "((\<lambda>_. None)(b \<mapsto> ?x)) b = Some ?x" "log_ready dev n st (log (set_data b (snd u) s1))"
    using n l ready by (simp_all add: log1 log_open_def li)
  let ?R1 = "?R(?x := ?R ?x + 1)"
  let ?R2 = "if logged ?x (log s) then ?R1 else ?R1(?x := ?R1 ?x + 1)"
  obtain s2 n' where 2: "log_write b (set_data b (snd u) s1) = Ok s2" "n' = (if logged ?x (log s) then n else Suc n)" "log_ready dev n' st (log s2)"
    "lh_block (log s2) ` {..<n'} = insert ?x (lh_block (log s) ` {..<n})" "lg_outstanding (log s2) = lg_outstanding (log s)"
    "lg_committing (log s2) = lg_committing (log s)" "lg_size (log s2) = lg_size (log s)"
    "blocks dev p s2 ((\<lambda>_. None)(b \<mapsto> ?x)) (edit u V) ?R2 D"
    using log_write_blocks [where L = "(\<lambda>_. None)(b \<mapsto> ?x)" and R = ?R1, OF B1 w(5,6,1,2,3) u(1,2) w(4)] unfolding log1 by blast
  have opened: "log_open dev n' st (log s2)" using l 2(3,5-7) by (simp add: log_open_def)
  have "?R2 ?x > 1" by (simp add: li)
  then obtain s3 where 3: "brelse b s2 = Ok s3" "blocks dev p s3 ((\<lambda>_. None)(b \<mapsto> ?x, b := None)) (edit u V) (?R2(?x := ?R2 ?x - 1)) D" "cache_frame s2 s3"
    using brelse_blocks [where L = "(\<lambda>_. None)(b \<mapsto> ?x)" and R = ?R2, OF 2(8) w(5)] by blast
  have log3: "log s3 = log s2" by (rule cache_frame_sel [OF 3(3)])
  have lg: "logged ?x (log s) \<longleftrightarrow> ?x \<in> lh_block (log s) ` {..<n}" by (auto simp: logged_def log_readyD(3) [OF ready] intro: rev_image_eqI)
  have R3: "?R2(?x := ?R2 ?x - 1) = pinned False n' (log s3)"
    using 2(4) by (auto simp: log3 pinned_def fun_eq_iff lg)
  have L3: "(\<lambda>_. None)(b \<mapsto> ?x, b := None) = (\<lambda>_. None)" by auto
  have B3: "idle_blocks dev p s3 (edit u V) (pinned False n' (log s3)) D" using 3(2) unfolding R3 L3 .
  have "n' \<le> Suc n" using 2(2) by simp
  then show ?thesis using 1(1) 2(1) 3(1) B3 opened [folded log3] by blast
qed

lemma log_puts_runs:
  assumes "virtio_blk_device disk" and "idle_blocks dev p s V (pinned False n (log s)) D" and "log_open dev n st (log s)"
    and "n + length us \<le> 10" and "edits_ok st us" and "P D"
  shows "\<exists>s' n'. runs (disk_turn disk p) (on_disk P) (log_puts dev us s) (Ok s') \<and>
     idle_blocks dev p s' (fold edit us V) (pinned False n' (log s')) D \<and> log_open dev n' st (log s') \<and> n' \<le> 10"
  using assms
proof (induction us arbitrary: s V n)
  case Nil
  then show ?case by (intro exI [of _ s] exI [of _ n]) simp
next
  case (Cons u us)
  have n: "n < 10" "fst u \<notin> log_area st" "unat (fst u) < 2 ^ 31" "local_edit (snd u)" using Cons.prems(4,5) by (simp_all add: edits_ok_def)
  obtain b s1 s2 s3 n' where 1: "runs (disk_turn disk p) (on_disk P) (bread dev (fst u) s) (Ok (b, s1))" "log_write b (set_data b (snd u) s1) = Ok s2"
    "brelse b s2 = Ok s3" "idle_blocks dev p s3 (edit u V) (pinned False n' (log s3)) D" "log_open dev n' st (log s3)" "n' \<le> Suc n"
    using log_put_runs [where P = P, OF Cons.prems(1,2,3) n Cons.prems(6)] by blast
  have "n' + length us \<le> 10" "edits_ok st us" using 1(6) Cons.prems(4,5) by (simp_all add: edits_ok_def)
  then obtain s4 n'' where 2: "runs (disk_turn disk p) (on_disk P) (log_puts dev us s3) (Ok s4)"
    "idle_blocks dev p s4 (fold edit us (edit u V)) (pinned False n'' (log s4)) D" "log_open dev n'' st (log s4)" "n'' \<le> 10"
    using Cons.IH [OF Cons.prems(1) 1(4,5) _ _ Cons.prems(6)] by blast
  have "runs (disk_turn disk p) (on_disk P) (log_puts dev (u # us) s) (Ok s4)"
    unfolding log_puts.simps by (rule runs_bindT [OF 1(1)]) (simp add: 1(2,3) 2(1))
  then show ?case using 2(2-4) by auto
qed

lemma begin_op_free:
  assumes "calm p s" and "\<not> lg_committing (log s)" and "log_n s + (lg_outstanding (log s) + 1) * MAXOPBLOCKS \<le> LOGSIZE"
  shows "begin_op s = Done (Ok ((), tidy (upd_log (\<lambda>l. l\<lparr>lg_outstanding := lg_outstanding l + 1\<rparr>) s)))"
proof -
  have "release L_log (acquired L_log (upd_log (\<lambda>l. l\<lparr>lg_outstanding := lg_outstanding l + 1\<rparr>) s)) =
      Ok (tidy (upd_log (\<lambda>l. l\<lparr>lg_outstanding := lg_outstanding l + 1\<rparr>) s))"
    using assms(1) by (intro release_acquired) (simp_all add: calm_def lock_simps)
  then show ?thesis
    unfolding begin_op_def using assms by (intro wait_loop_return) (simp add: begin_op_run_def calm_def lock_simps)
qed

lemma end_op_begin_last:
  assumes "calm p s" and "\<not> lg_committing (log s)" and "lg_outstanding (log s) = 1"
  shows "end_op_begin s = Ok (True, tidy (upd_log (\<lambda>l. l\<lparr>lg_outstanding := 0, lg_committing := True\<rparr>) s))"
proof -
  have "upd_log (\<lambda>l. l\<lparr>lg_outstanding := lg_outstanding l - 1, lg_committing := True\<rparr>) s =
      upd_log (\<lambda>l. l\<lparr>lg_outstanding := 0, lg_committing := True\<rparr>) s"
    using assms(3) by (simp add: upd_log_def)
  then have "release L_log (acquired L_log (upd_log (\<lambda>l. l\<lparr>lg_outstanding := lg_outstanding l - 1, lg_committing := True\<rparr>) s)) =
      Ok (tidy (upd_log (\<lambda>l. l\<lparr>lg_outstanding := 0, lg_committing := True\<rparr>) s))"
    using assms(1) by (simp only:) (intro release_acquired; simp add: calm_def lock_simps)
  then show ?thesis using assms by (simp add: end_op_begin_def calm_def lock_simps Let_def)
qed

lemma end_op_end_blocks:
  assumes B: "blocks dev p s L V R D"
  shows "\<exists>s'. end_op_end s = Ok s' \<and> blocks dev p s' L V R D \<and> log s' = (log s)\<lparr>lg_committing := False\<rparr>"
proof -
  have calm: "calm p s" using B by (simp add: blocks_def cache_ok_def)
  let ?t = "upd_log (\<lambda>l. l\<lparr>lg_committing := False\<rparr>) s"
  let ?u = "?t\<lparr>procs := woken Ch_log (c_proc (mycpu ?t)) {..<NPROC} (procs ?t)\<rparr>"
  have "wakeup Ch_log (acquired L_log ?t) = Ok (acquired L_log ?u)"
    using calm by (intro wakeup_acquired) (simp_all add: calm_def lock_simps)
  moreover have "release L_log (acquired L_log ?u) = Ok (tidy ?u)" using calm by (intro release_acquired) (simp_all add: calm_def lock_simps)
  ultimately have "end_op_end s = Ok (tidy ?u)" using calm by (simp add: end_op_end_def calm_def lock_simps)
  moreover have "p_pid (procs ?u p) = p_pid (procs ?t p)" by (simp add: woken_def)
  then have "blocks dev p ?u L V R D = blocks dev p ?t L V R D"
    using calm by (intro blocks_cong) (simp_all add: calm_def lock_simps disk_idle_def upd_log_def)
  then have "blocks dev p (tidy ?u) L V R D" using B by (intro tidy_blocks) (simp add: upd_log_blocks)
  ultimately show ?thesis by (auto simp: lock_simps)
qed

text \<open>Between system calls: nothing is pinned or locked, the log is empty in memory and on the disk.\<close>

definition quiescent :: "uint32 \<Rightarrow> nat \<Rightarrow> uint32 \<Rightarrow> 'a fsst_scheme \<Rightarrow> bool" where
  "quiescent dev p st s \<longleftrightarrow> idle_blocks dev p s (blk (disk_img s)) (\<lambda>_. 0) (blk (disk_img s)) \<and> head_n (blk (disk_img s) st) = 0 \<and>
     log_ready dev 0 st (log s) \<and> lg_outstanding (log s) = 0 \<and> \<not> lg_committing (log s) \<and> 11 < sint (lg_size (log s))"

abbreviation either :: "uint32 \<Rightarrow> (uint32 \<Rightarrow> block) \<Rightarrow> (uint32 \<Rightarrow> block) \<Rightarrow> (uint32 \<Rightarrow> block) \<Rightarrow> bool" where
  "either st A B D' \<equiv> head_ok st D' \<and>
     ((\<forall>x. x \<notin> log_area st \<longrightarrow> outcome st D' x = A x) \<or> (\<forall>x. x \<notin> log_area st \<longrightarrow> outcome st D' x = B x))"

lemma log_ready_fields: "log_ready dev n st (l\<lparr>lg_outstanding := o', lg_committing := c\<rparr>) = log_ready dev n st l"
  by (simp add: log_ready_def)

lemma pinned_fields: "pinned r n (l\<lparr>lg_outstanding := o', lg_committing := c\<rparr>) = pinned r n l"
  by (simp add: pinned_def)

lemma end_op_runs:
  assumes dsk: "virtio_blk_device disk" and B: "idle_blocks dev p s V (pinned False n (log s)) D" and l: "log_open dev n st (log s)" and n: "n \<le> 10"
    and empty: "head_n (D st) = 0"
  shows "\<exists>s'. runs (disk_turn disk p) (on_disk (either st D V)) (end_op s) (Ok ((), s')) \<and> quiescent dev p st s' \<and>
     (\<forall>x. x \<notin> log_area st \<longrightarrow> blk (disk_img s') x = V x)"
proof -
  let ?P = "either st D V"
  let ?t = "tidy (upd_log (\<lambda>l. l\<lparr>lg_outstanding := 0, lg_committing := True\<rparr>) s)"
  have calm: "calm p s" using B by (simp add: blocks_def cache_ok_def)
  have first: "end_op_begin s = Ok (True, ?t)" using l by (intro end_op_begin_last [OF calm]) (simp_all add: log_open_def)
  have log_t: "log ?t = (log s)\<lparr>lg_outstanding := 0, lg_committing := True\<rparr>" by (simp add: lock_simps)
  have Bt: "idle_blocks dev p ?t V (pinned False n (log ?t)) D" unfolding log_t pinned_fields using B by (intro tidy_blocks) (simp add: upd_log_blocks)
  have ready: "log_ready dev n st (log ?t)" unfolding log_t log_ready_fields using l by (simp add: log_open_def)
  have "\<exists>s1 D1. runs (disk_turn disk p) (on_disk ?P) (commit ?t) (Ok s1) \<and> idle_blocks dev p s1 D1 (\<lambda>_. 0) D1 \<and> head_n (D1 st) = 0 \<and>
      log s1 = (log ?t)\<lparr>lh_n := 0\<rparr> \<and> (\<forall>x. x \<notin> log_area st \<longrightarrow> D1 x = V x)"
  proof (cases "n = 0")
    case True
    then have R: "pinned False n (log ?t) = (\<lambda>_. 0)" by (simp add: pinned_def)
    then have "V = D" using Bt by (auto simp: blocks_def fun_eq_iff)
    moreover have "lh_n (log ?t) = 0" using log_readyD(3) [OF ready] True by (simp add: signed_eq_0_iff)
    moreover from this have "log ?t = (log ?t)\<lparr>lh_n := 0\<rparr>" by simp
    ultimately show ?thesis using Bt R empty by (intro exI [of _ ?t] exI [of _ D]) (simp add: commit_def)
  next
    case False
    then have "0 < n" "n < NBUF" using n by simp_all
    from commit_runs [OF dsk Bt ready this empty] show ?thesis by blast
  qed
  then obtain s1 D1 where 1: "runs (disk_turn disk p) (on_disk ?P) (commit ?t) (Ok s1)" "idle_blocks dev p s1 D1 (\<lambda>_. 0) D1" "head_n (D1 st) = 0"
    "log s1 = (log ?t)\<lparr>lh_n := 0\<rparr>" "\<And>x. x \<notin> log_area st \<Longrightarrow> D1 x = V x" by blast
  obtain s2 where 2: "end_op_end s1 = Ok s2" "idle_blocks dev p s2 D1 (\<lambda>_. 0) D1" "log s2 = (log s1)\<lparr>lg_committing := False\<rparr>"
    using end_op_end_blocks [OF 1(2)] by blast
  have "runs (disk_turn disk p) (on_disk ?P) (end_op s) (Ok ((), s2))"
    unfolding end_op_def by (simp add: first) (rule runs_bindT [OF 1(1)], simp add: 2(1))
  moreover have "blk (disk_img s2) = D1" using 2(2) by (simp add: blocks_def)
  moreover have "log_ready dev 0 st (log s2)" "lg_outstanding (log s2) = 0" "\<not> lg_committing (log s2)" "11 < sint (lg_size (log s2))"
    using ready l unfolding 2(3) 1(4) log_t by (simp_all add: log_ready_def dsts_ok_def log_open_def)
  ultimately show ?thesis using 2(2) 1(3,5) by (auto simp: quiescent_def)
qed

lemma system_call_runs:
  assumes dsk: "virtio_blk_device disk" and q: "quiescent dev p st s" and us: "edits_ok st us" "length us \<le> 10"
  shows "\<exists>s'. runs (disk_turn disk p) (on_disk (either st (blk (disk_img s)) (fold edit us (blk (disk_img s))))) (system_call dev us s) (Ok ((), s')) \<and>
     quiescent dev p st s' \<and> (\<forall>x. x \<notin> log_area st \<longrightarrow> blk (disk_img s') x = fold edit us (blk (disk_img s)) x)"
proof -
  let ?D = "blk (disk_img s)"
  let ?V = "fold edit us ?D"
  let ?P = "either st ?D ?V"
  let ?t = "tidy (upd_log (\<lambda>l. l\<lparr>lg_outstanding := lg_outstanding l + 1\<rparr>) s)"
  have q': "idle_blocks dev p s ?D (\<lambda>_. 0) ?D" "head_n (?D st) = 0" "log_ready dev 0 st (log s)" "lg_outstanding (log s) = 0" "\<not> lg_committing (log s)"
    "11 < sint (lg_size (log s))" using q by (simp_all add: quiescent_def)
  have calm: "calm p s" using q'(1) by (simp add: blocks_def cache_ok_def)
  have first: "begin_op s = Done (Ok ((), ?t))" using q' log_readyD(3) [OF q'(3)] by (intro begin_op_free [OF calm]) simp_all
  have "pinned False 0 (log ?t) = (\<lambda>_. 0)" by (simp add: pinned_def)
  then have Bt: "idle_blocks dev p ?t ?D (pinned False 0 (log ?t)) ?D" using q'(1) by (simp add: tidy_blocks upd_log_blocks)
  have lt: "log_open dev 0 st (log ?t)" using q' by (simp add: log_open_def lock_simps log_ready_def)
  have PD: "?P ?D" using q'(2) outcome_none [of ?D st] by (simp add: head_ok_def dsts_ok_def)
  obtain s1 n where 1: "runs (disk_turn disk p) (on_disk ?P) (log_puts dev us ?t) (Ok s1)" "idle_blocks dev p s1 ?V (pinned False n (log s1)) ?D"
    "log_open dev n st (log s1)" "n \<le> 10"
    using log_puts_runs [where P = ?P, OF dsk Bt lt _ us(1) PD] us(2) by auto
  obtain s2 where 2: "runs (disk_turn disk p) (on_disk ?P) (end_op s1) (Ok ((), s2))" "quiescent dev p st s2"
    "\<And>x. x \<notin> log_area st \<Longrightarrow> blk (disk_img s2) x = ?V x"
    using end_op_runs [OF dsk 1(2-4) q'(2)] by blast
  have "runs (disk_turn disk p) (on_disk ?P) (system_call dev us s) (Ok ((), s2))"
    unfolding system_call_def by (simp add: first) (rule runs_bindT [OF 1(1)], rule 2(1))
  then show ?thesis using 2(2,3) by blast
qed


lemma demo_quiescent:
  "quiescent 1 4 2 (upd_log (\<lambda>l. l\<lparr>lg_dev := 1, lg_start := 2, lg_size := 30, lh_n := 0, lg_outstanding := 0, lg_committing := False\<rparr>)
     (binit (demo_fs 4 (\<lambda>_. blank_proc))))"
proof -
  let ?s = "binit (demo_fs 4 (\<lambda>_. blank_proc))"
  have D: "blk (disk_img ?s) = (\<lambda>_ _. 0)" using demo_blocks by (simp add: blocks_def)
  then have "head_n (blk (disk_img ?s) 2) = 0" by (simp add: head_n_def get32_def upt_rec)
  then show ?thesis using demo_blocks D
    by (simp add: quiescent_def upd_log_blocks upd_log_view log_ready_def dsts_ok_def)
qed


end
