(* ===== verification/Uprog.thy ===== *)
theory Uprog
  imports Prelude
begin

text \<open>
  User programs. A program computes on its own memory and talks to the kernel through system
  calls only, so it is an interaction tree: it has returned a value, has called \<open>exit\<close>,
  takes one more pass of a loop, or makes a system call and goes on from the kernel's answer.
  Its loops are \<open>iterP\<close>, which may run for ever. \<open>does\<close> runs a program against a kernel
  given as a function and relates it to what it has returned or exited with; being able to
  derive it means that the program ends. \<open>io_kernel\<close> is what a program relies on when it
  reads and writes: reads give out the bytes of a file in order, in pieces of any size, and
  nothing only at its end; writes append.
\<close>

named_theorems prog_simps \<open>rules that run user programs\<close>

section \<open>System calls\<close>

text \<open>
  The calls of \<open>user/user.h\<close>, with the bytes a call reads from the caller's memory. An
  answer is the value returned and the bytes stored into the caller's memory.
\<close>

datatype sysreq =
    S_fork | S_exit int | S_wait | S_pipe
  | S_write int string | S_read int nat | S_close int | S_kill int int
  | S_exec string "string list" | S_open string int | S_mknod string int int
  | S_unlink string | S_fstat int | S_link string string | S_mkdir string | S_chdir string
  | S_dup int | S_getpid | S_sbrk int | S_sleep int | S_uptime

type_synonym sysans = "int \<times> string"

section \<open>Programs\<close>

codatatype 'v prog =
    Ret (result: 'v)
  | Exited (status: int)
  | Tau (later: "'v prog")
  | Call (request: sysreq) (go_on: "sysans \<Rightarrow> 'v prog")

primcorec bindP :: "'v prog \<Rightarrow> ('v \<Rightarrow> 'w prog) \<Rightarrow> 'w prog" where
  "bindP t f =
     (case t of
        Ret v \<Rightarrow> f v
      | Exited n \<Rightarrow> Exited n
      | Tau u \<Rightarrow> Tau (bindP u f)
      | Call q k \<Rightarrow> Call q (\<lambda>a. bindP (k a) f))"

lemma bindP_simps [simp, prog_simps]:
  "bindP (Ret v) f = f v"
  "bindP (Exited n) f = Exited n"
  "bindP (Tau u) f = Tau (bindP u f)"
  "bindP (Call q k) f = Call q (\<lambda>a. bindP (k a) f)"
  by (subst bindP.code; simp)+

lemma bindP_assoc: "bindP (bindP t f) g = bindP t (\<lambda>x. bindP (f x) g)"
proof (coinduction arbitrary: t rule: prog.coinduct_strong)
  case (Eq_prog t)
  show ?case by (cases t) (auto simp: rel_fun_def)
qed

text \<open>A loop: its body ends with the variables of the next pass or with the loop's result.\<close>

primcorec iterT :: "('l \<Rightarrow> ('l + 'v) prog) \<Rightarrow> ('l + 'v) prog \<Rightarrow> 'v prog" where
  "iterT body t =
     (case t of
        Ret lv \<Rightarrow> (case lv of Inl l \<Rightarrow> Tau (iterT body (body l)) | Inr v \<Rightarrow> Ret v)
      | Exited n \<Rightarrow> Exited n
      | Tau u \<Rightarrow> Tau (iterT body u)
      | Call q k \<Rightarrow> Call q (\<lambda>a. iterT body (k a)))"

definition iterP :: "('l \<Rightarrow> ('l + 'v) prog) \<Rightarrow> 'l \<Rightarrow> 'v prog" where
  "iterP body l = iterT body (body l)"

lemma iterT_simps [simp]:
  "iterT body (Ret (Inl l)) = Tau (iterP body l)"
  "iterT body (Ret (Inr v)) = Ret v"
  "iterT body (Exited n) = Exited n"
  "iterT body (Tau u) = Tau (iterT body u)"
  "iterT body (Call q k) = Call q (\<lambda>a. iterT body (k a))"
  unfolding iterP_def by (subst iterT.code; simp)+

definition sysP :: "sysreq \<Rightarrow> sysans prog" where
  "sysP q = Call q Ret"

text \<open>A call of which only the returned value is used.\<close>

definition callP :: "sysreq \<Rightarrow> int prog" where
  "callP q = Call q (\<lambda>a. Ret (fst a))"

text \<open>\<open>exit\<close> does not return.\<close>

definition exitP :: "int \<Rightarrow> 'v prog" where
  "exitP n = Call (S_exit n) (\<lambda>_. Exited n)"

lemma bindP_calls [simp, prog_simps]:
  "bindP (sysP q) f = Call q f"
  "bindP (callP q) h = Call q (\<lambda>a. h (fst a))"
  "bindP (exitP n) g = exitP n"
  by (simp_all add: sysP_def callP_def exitP_def)

primrec eachP :: "('x \<Rightarrow> unit prog) \<Rightarrow> 'x list \<Rightarrow> unit prog" where
  "eachP f [] = Ret ()"
| "eachP f (x # xs) = bindP (f x) (\<lambda>_. eachP f xs)"

section \<open>Running a program\<close>

inductive does :: "(sysreq \<Rightarrow> 'k \<Rightarrow> sysans \<times> 'k) \<Rightarrow> 'v prog \<Rightarrow> 'k \<Rightarrow> int + 'v \<Rightarrow> 'k \<Rightarrow> bool" for sys where
  does_Ret: "does sys (Ret v) k (Inr v) k"
| does_Exited: "does sys (Exited n) k (Inl n) k"
| does_Tau: "does sys t k r k' \<Longrightarrow> does sys (Tau t) k r k'"
| does_Call: "sys q k = (a, k1) \<Longrightarrow> does sys (f a) k1 r k' \<Longrightarrow> does sys (Call q f) k r k'"

inductive_simps does_Ret_iff [simp]: "does sys (Ret v) k r k'"
inductive_simps does_Exited_iff [simp]: "does sys (Exited n) k r k'"
inductive_simps does_Tau_iff [simp]: "does sys (Tau t) k r k'"
inductive_simps does_Call_iff: "does sys (Call q f) k r k'"

lemma does_Call_eq [simp]:
  "does sys (Call q f) k r k' \<longleftrightarrow> does sys (f (fst (sys q k))) (snd (sys q k)) r k'"
  unfolding does_Call_iff by (cases "sys q k") auto

lemma does_unique: "does sys t k r k' \<Longrightarrow> does sys t k r2 k2 \<Longrightarrow> r2 = r \<and> k2 = k'"
  by (induction rule: does.induct) auto

lemma does_bindP:
  assumes "does sys t k x k1" and "x = Inr v" and "does sys (f v) k1 r k'"
  shows "does sys (bindP t f) k r k'"
  using assms by (induction rule: does.induct) auto

lemma does_bindP_exit:
  assumes "does sys t k x k'" and "x = Inl n"
  shows "does sys (bindP t f) k (Inl n) k'"
  using assms by (induction rule: does.induct) auto

lemma does_iterT:
  assumes "does sys t k x k1" and "x = Inr (Inl l)" and "does sys (iterP body l) k1 r k'"
  shows "does sys (iterT body t) k r k'"
  using assms by (induction rule: does.induct) auto

lemma does_iterT_stop:
  assumes "does sys t k x k'"
  shows "x = Inr (Inr v) \<Longrightarrow> does sys (iterT body t) k (Inr v) k'" "x = Inl n \<Longrightarrow> does sys (iterT body t) k (Inl n) k'"
  using assms by (induction rule: does.induct) auto

lemma does_iterP:
  "does sys (body l) k (Inr (Inl l')) k1 \<Longrightarrow> does sys (iterP body l') k1 r k' \<Longrightarrow> does sys (iterP body l) k r k'"
  "does sys (body l) k (Inr (Inr v)) k' \<Longrightarrow> does sys (iterP body l) k (Inr v) k'"
  "does sys (body l) k (Inl n) k' \<Longrightarrow> does sys (iterP body l) k (Inl n) k'"
  unfolding iterP_def [of body l] by (auto intro: does_iterT does_iterT_stop)

section \<open>Files as a program sees them\<close>

definition io_kernel :: "(sysreq \<Rightarrow> 'k \<Rightarrow> sysans \<times> 'k) \<Rightarrow> ('k \<Rightarrow> int \<Rightarrow> string) \<Rightarrow> ('k \<Rightarrow> int \<Rightarrow> string) \<Rightarrow> bool" where
  "io_kernel sys inp out \<longleftrightarrow>
     (\<forall>k fd n. \<exists>m d k'. sys (S_read fd n) k = ((int m, d), k') \<and> m \<le> n \<and> d = take m (inp k fd) \<and> m = length d \<and>
        (m = 0 \<longrightarrow> n = 0 \<or> inp k fd = []) \<and> inp k' = (inp k)(fd := drop m (inp k fd)) \<and> out k' = out k) \<and>
     (\<forall>k fd d. \<exists>e k'. sys (S_write fd d) k = ((int (length d), e), k') \<and> inp k' = inp k \<and>
        out k' = (out k)(fd := out k fd @ d))"

lemma io_read:
  assumes "io_kernel sys inp out"
  shows "\<exists>m d k'. sys (S_read fd n) k = ((int m, d), k') \<and> m \<le> n \<and> d = take m (inp k fd) \<and> m = length d \<and>
     (m = 0 \<longrightarrow> n = 0 \<or> inp k fd = []) \<and> inp k' = (inp k)(fd := drop m (inp k fd)) \<and> out k' = out k"
  using assms unfolding io_kernel_def by blast

lemma io_write:
  assumes "io_kernel sys inp out"
  shows "\<exists>e k'. sys (S_write fd d) k = ((int (length d), e), k') \<and> inp k' = inp k \<and> out k' = (out k)(fd := out k fd @ d)"
  using assms unfolding io_kernel_def by blast

text \<open>A kernel with files in memory that hands out at most \<open>c + 1\<close> bytes at a time.\<close>

fun ram_kernel :: "nat \<Rightarrow> sysreq \<Rightarrow> (int \<Rightarrow> string) \<times> (int \<Rightarrow> string) \<Rightarrow> sysans \<times> ((int \<Rightarrow> string) \<times> (int \<Rightarrow> string))" where
  "ram_kernel c (S_read fd n) (i, w) =
     (let d = take (min n (Suc c)) (i fd) in ((int (length d), d), (i(fd := drop (min n (Suc c)) (i fd)), w)))"
| "ram_kernel c (S_write fd d) (i, w) = ((int (length d), []), (i, w(fd := w fd @ d)))"
| "ram_kernel c q k = ((0, []), k)"

lemma ram_kernel_io: "io_kernel (ram_kernel c) fst snd"
proof -
  have "\<exists>m d k'. ram_kernel c (S_read fd n) k = ((int m, d), k') \<and> m \<le> n \<and> d = take m (fst k fd) \<and> m = length d \<and>
      (m = 0 \<longrightarrow> n = 0 \<or> fst k fd = []) \<and> fst k' = (fst k)(fd := drop m (fst k fd)) \<and> snd k' = snd k" for k fd n
    by (cases k) (auto simp: Let_def min_def)
  moreover have "\<exists>e k'. ram_kernel c (S_write fd d) k = ((int (length d), e), k') \<and> fst k' = fst k \<and>
      snd k' = (snd k)(fd := snd k fd @ d)" for k fd d
    by (cases k) auto
  ultimately show ?thesis unfolding io_kernel_def by blast
qed

end
