(* ===== verification/Ulib.thy ===== *)
theory Ulib
  imports Uprog
begin

text \<open>
  The library that every user program is linked with: the string and memory routines of
  \<^verbatim>\<open>user/ulib.c\<close> and the formatted output of \<^verbatim>\<open>user/printf.c\<close>. A C string is the list of
  its characters without the terminator; a process's memory is a function from addresses to
  characters. \<open>memmove\<close> copies overlapping blocks as if through a second buffer, and under a
  kernel whose files work \<open>printf\<close> writes exactly the text its format stands for.
\<close>

type_synonym umem = "nat \<Rightarrow> char"

abbreviation NUL :: char where "NUL \<equiv> CHR 0x00"

section \<open>Strings and memory\<close>

definition u_strcpy :: "umem \<Rightarrow> nat \<Rightarrow> string \<Rightarrow> umem" where
  "u_strcpy m s t = (\<lambda>a. if s \<le> a \<and> a < s + length t then t ! (a - s) else if a = s + length t then NUL else m a)"

fun u_strcmp :: "string \<Rightarrow> string \<Rightarrow> int" where
  "u_strcmp (c # p) (d # q) = (if c = d then u_strcmp p q else of_char c - of_char d)"
| "u_strcmp (c # p) [] = of_char c"
| "u_strcmp [] (d # q) = - of_char d"
| "u_strcmp [] [] = 0"

primrec u_strlen :: "string \<Rightarrow> nat" where
  "u_strlen [] = 0"
| "u_strlen (c # s) = Suc (u_strlen s)"

definition u_memset :: "umem \<Rightarrow> nat \<Rightarrow> int \<Rightarrow> nat \<Rightarrow> umem" where
  "u_memset m dst c n = (\<lambda>a. if dst \<le> a \<and> a < dst + n then char_of (nat (c mod 256)) else m a)"

text \<open>\<open>strchr\<close> gives the offset of the first occurrence.\<close>

primrec u_strchr :: "string \<Rightarrow> char \<Rightarrow> nat option" where
  "u_strchr [] c = None"
| "u_strchr (x # s) c = (if x = c then Some 0 else map_option Suc (u_strchr s c))"

text \<open>\<open>int\<close> arithmetic of \<open>atoi\<close> wraps at 32 bits.\<close>

fun atoi_from :: "int \<Rightarrow> string \<Rightarrow> int" where
  "atoi_from n [] = n"
| "atoi_from n (c # s) =
     (if 48 \<le> (of_char c :: int) \<and> (of_char c :: int) \<le> 57
      then atoi_from (signed_take_bit 31 (n * 10 + of_char c - 48)) s else n)"

definition u_atoi :: "string \<Rightarrow> int" where
  "u_atoi s = atoi_from 0 s"

text \<open>The two loops of \<open>memmove\<close>.\<close>

primrec u_copy_up :: "nat \<Rightarrow> nat \<Rightarrow> nat \<Rightarrow> umem \<Rightarrow> umem" where
  "u_copy_up 0 d s m = m"
| "u_copy_up (Suc n) d s m = u_copy_up n (Suc d) (Suc s) (m(d := m s))"

primrec u_copy_down :: "nat \<Rightarrow> nat \<Rightarrow> nat \<Rightarrow> umem \<Rightarrow> umem" where
  "u_copy_down 0 d s m = m"
| "u_copy_down (Suc n) d s m = u_copy_down n (d - 1) (s - 1) (m(d - 1 := m (s - 1)))"

definition u_memmove :: "umem \<Rightarrow> nat \<Rightarrow> nat \<Rightarrow> int \<Rightarrow> umem" where
  "u_memmove m vdst vsrc n =
     (if vsrc > vdst then u_copy_up (nat n) vdst vsrc m
      else u_copy_down (nat n) (vdst + nat n) (vsrc + nat n) m)"

primrec u_memcmp_from :: "nat \<Rightarrow> umem \<Rightarrow> nat \<Rightarrow> nat \<Rightarrow> int" where
  "u_memcmp_from 0 m p1 p2 = 0"
| "u_memcmp_from (Suc n) m p1 p2 =
     (if m p1 \<noteq> m p2 then of_char (m p1) - of_char (m p2) else u_memcmp_from n m (Suc p1) (Suc p2))"

definition u_memcmp :: "umem \<Rightarrow> nat \<Rightarrow> nat \<Rightarrow> nat \<Rightarrow> int" where
  "u_memcmp m s1 s2 n = u_memcmp_from n m s1 s2"

definition u_memcpy :: "umem \<Rightarrow> nat \<Rightarrow> nat \<Rightarrow> nat \<Rightarrow> umem" where
  "u_memcpy m dst src n = u_memmove m dst src (int n)"

text \<open>\<open>gets\<close> returns what it has put into the buffer before the terminator.\<close>

definition gets_pass :: "int \<Rightarrow> string \<Rightarrow> (string + string) prog" where
  "gets_pass lim buf =
     (if int (length buf) + 1 < lim
      then bindP (sysP (S_read 0 1)) (\<lambda>(cc, d).
        if cc < 1 then Ret (Inr buf)
        else
          let c = hd (d @ [NUL]) in
          if c = CHR 0x0A \<or> c = CHR 0x0D then Ret (Inr (buf @ [c])) else Ret (Inl (buf @ [c])))
      else Ret (Inr buf))"

definition gets :: "int \<Rightarrow> string prog" where
  "gets lim = iterP (gets_pass lim) []"

text \<open>\<open>stat\<close> returns the bytes of the structure that \<open>fstat\<close> has stored.\<close>

definition u_stat :: "string \<Rightarrow> sysans prog" where
  "u_stat n =
     bindP (callP (S_open n 0)) (\<lambda>fd.
     if fd < 0 then Ret (-1, [])
     else bindP (sysP (S_fstat fd)) (\<lambda>r.
       bindP (callP (S_close fd)) (\<lambda>_. Ret r)))"

section \<open>Formatted output\<close>

definition putc :: "int \<Rightarrow> char \<Rightarrow> unit prog" where
  "putc fd c = bindP (callP (S_write fd [c])) (\<lambda>_. Ret ())"

definition u_digits :: "nat \<Rightarrow> char" where
  "u_digits d = ''0123456789ABCDEF'' ! d"

text \<open>The digits as \<open>buf\<close> holds them, the last one first, in base 10 or 16.\<close>

function u_printint_digits :: "nat \<Rightarrow> nat \<Rightarrow> string" where
  "u_printint_digits base x =
     u_digits (x mod base) # (if x div base = 0 \<or> base < 2 then [] else u_printint_digits base (x div base))"
  by pat_completeness auto
termination by (relation "measure snd") (auto intro!: div_less_dividend intro: Nat.gr0I)

declare u_printint_digits.simps [simp del]

definition u_printint_buf :: "int \<Rightarrow> nat \<Rightarrow> bool \<Rightarrow> string" where
  "u_printint_buf xx base sg =
     (if sg \<and> xx < 0 then u_printint_digits base (nat (- xx mod 2 ^ 32)) @ ''-''
      else u_printint_digits base (nat (xx mod 2 ^ 32)))"

definition u_printint :: "int \<Rightarrow> int \<Rightarrow> nat \<Rightarrow> bool \<Rightarrow> unit prog" where
  "u_printint fd xx base sg = eachP (putc fd) (rev (u_printint_buf xx base sg))"

primrec u_printptr_from :: "nat \<Rightarrow> int \<Rightarrow> uint64 \<Rightarrow> unit prog" where
  "u_printptr_from 0 fd x = Ret ()"
| "u_printptr_from (Suc n) fd x =
     bindP (putc fd (u_digits (unat (drop_bit 60 x)))) (\<lambda>_. u_printptr_from n fd (push_bit 4 x))"

definition u_printptr :: "int \<Rightarrow> uint64 \<Rightarrow> unit prog" where
  "u_printptr fd x =
     bindP (putc fd CHR ''0'') (\<lambda>_. bindP (putc fd CHR ''x'') (\<lambda>_. u_printptr_from 16 fd x))"

text \<open>
  An argument of \<open>printf\<close> is a number in a register or a pointer to a string. Asking for
  more arguments than there are, or for one of the other sort, is undefined in C; here it
  ends the process.
\<close>

datatype uarg = U_num uint64 | U_str "string option"

fun u_directive :: "int \<Rightarrow> char \<Rightarrow> uarg list \<Rightarrow> uarg list prog" where
  "u_directive fd c args =
     (if c = CHR ''d'' then
        (case args of U_num x # rest \<Rightarrow> bindP (u_printint fd (sint (ucast x :: uint32)) 10 True) (\<lambda>_. Ret rest) | _ \<Rightarrow> Exited (-1))
      else if c = CHR ''l'' then
        (case args of U_num x # rest \<Rightarrow> bindP (u_printint fd (sint (ucast x :: uint32)) 10 False) (\<lambda>_. Ret rest) | _ \<Rightarrow> Exited (-1))
      else if c = CHR ''x'' then
        (case args of U_num x # rest \<Rightarrow> bindP (u_printint fd (sint (ucast x :: uint32)) 16 False) (\<lambda>_. Ret rest) | _ \<Rightarrow> Exited (-1))
      else if c = CHR ''p'' then
        (case args of U_num x # rest \<Rightarrow> bindP (u_printptr fd x) (\<lambda>_. Ret rest) | _ \<Rightarrow> Exited (-1))
      else if c = CHR ''s'' then
        (case args of
           U_str s # rest \<Rightarrow> bindP (eachP (putc fd) (case s of None \<Rightarrow> ''(null)'' | Some t \<Rightarrow> t)) (\<lambda>_. Ret rest)
         | _ \<Rightarrow> Exited (-1))
      else if c = CHR ''c'' then
        (case args of U_num x # rest \<Rightarrow> bindP (putc fd (char_of (unat x))) (\<lambda>_. Ret rest) | _ \<Rightarrow> Exited (-1))
      else if c = CHR ''%'' then bindP (putc fd c) (\<lambda>_. Ret args)
      else bindP (putc fd CHR ''%'') (\<lambda>_. bindP (putc fd c) (\<lambda>_. Ret args)))"

text \<open>The loop over the format; \<open>after\<close> is the state that a percent sign has been seen.\<close>

primrec vprintf_from :: "int \<Rightarrow> string \<Rightarrow> bool \<Rightarrow> uarg list \<Rightarrow> unit prog" where
  "vprintf_from fd [] after args = Ret ()"
| "vprintf_from fd (c # fmt) after args =
     (if \<not> after
      then (if c = CHR ''%'' then vprintf_from fd fmt True args
            else bindP (putc fd c) (\<lambda>_. vprintf_from fd fmt False args))
      else bindP (u_directive fd c args) (\<lambda>args. vprintf_from fd fmt False args))"

definition vprintf :: "int \<Rightarrow> string \<Rightarrow> uarg list \<Rightarrow> unit prog" where
  "vprintf fd fmt ap = vprintf_from fd fmt False ap"

definition u_fprintf :: "int \<Rightarrow> string \<Rightarrow> uarg list \<Rightarrow> unit prog" where
  "u_fprintf fd fmt ap = vprintf fd fmt ap"

definition u_printf :: "string \<Rightarrow> uarg list \<Rightarrow> unit prog" where
  "u_printf fmt ap = vprintf 1 fmt ap"

section \<open>Overlapping copies\<close>

lemma u_copy_up_apply:
  "d < s \<Longrightarrow> u_copy_up n d s m a = (if d \<le> a \<and> a < d + n then m (a - d + s) else m a)"
proof (induction n arbitrary: d s m)
  case (Suc n)
  have IH: "u_copy_up (Suc n) d s m a =
      (if Suc d \<le> a \<and> a < Suc d + n then (m(d := m s)) (a - Suc d + Suc s) else (m(d := m s)) a)"
    unfolding u_copy_up.simps using Suc.prems by (intro Suc.IH) simp
  consider "a < d" | "a = d" | "Suc d \<le> a" "a < Suc d + n" | "Suc d + n \<le> a" by linarith
  then show ?case
  proof cases
    case 3
    then have "a - Suc d + Suc s = a - d + s" "a - d + s \<noteq> d" using Suc.prems by linarith+
    then show ?thesis using IH 3 by simp
  qed (use IH in simp_all)
qed auto

lemma u_copy_down_apply:
  "s \<le> d \<Longrightarrow> u_copy_down n (d + n) (s + n) m a = (if d \<le> a \<and> a < d + n then m (a - d + s) else m a)"
proof (induction n arbitrary: m)
  case (Suc n)
  have IH: "u_copy_down (Suc n) (d + Suc n) (s + Suc n) m a =
      (if d \<le> a \<and> a < d + n then (m(d + n := m (s + n))) (a - d + s) else (m(d + n := m (s + n))) a)"
    using Suc.IH [OF Suc.prems, of "m(d + n := m (s + n))"] by (simp del: fun_upd_apply)
  consider "a < d" | "d \<le> a" "a < d + n" | "a = d + n" | "d + n < a" by linarith
  then show ?case
  proof cases
    case 2
    then have "a - d + s \<noteq> d + n" using Suc.prems by linarith
    then show ?thesis using IH 2 by simp
  qed (use IH in \<open>simp_all add: add.commute\<close>)
qed auto

text \<open>
  The test of \<open>memmove\<close> chooses the direction so that no byte is overwritten before it has been
  copied.
\<close>

lemma u_memmove_apply:
  "u_memmove m dst src n a = (if dst \<le> a \<and> a < dst + nat n then m (a - dst + src) else m a)"
  unfolding u_memmove_def by (auto simp: u_copy_up_apply u_copy_down_apply)

section \<open>What is written\<close>

text \<open>A piece of a program that writes a text to one file, touches no other, and returns.\<close>

definition writes :: "(sysreq \<Rightarrow> 'k \<Rightarrow> sysans \<times> 'k) \<Rightarrow> ('k \<Rightarrow> int \<Rightarrow> string) \<Rightarrow> ('k \<Rightarrow> int \<Rightarrow> string) \<Rightarrow>
    int \<Rightarrow> 'v prog \<Rightarrow> string \<Rightarrow> 'v \<Rightarrow> bool" where
  "writes sys inp out fd t tx v \<longleftrightarrow>
     (\<forall>k. \<exists>k'. does sys t k (Inr v) k' \<and> inp k' = inp k \<and> out k' = (out k)(fd := out k fd @ tx))"

lemma writes_Ret: "writes sys inp out fd (Ret v) [] v"
  by (simp add: writes_def)

lemma writes_bind:
  assumes "writes sys inp out fd t tx v" and "writes sys inp out fd (f v) tx2 w"
  shows "writes sys inp out fd (bindP t f) (tx @ tx2) w"
  unfolding writes_def
proof
  fix k
  obtain k1 where 1: "does sys t k (Inr v) k1" "inp k1 = inp k" "out k1 = (out k)(fd := out k fd @ tx)"
    using assms(1) unfolding writes_def by blast
  obtain k2 where 2: "does sys (f v) k1 (Inr w) k2" "inp k2 = inp k1" "out k2 = (out k1)(fd := out k1 fd @ tx2)"
    using assms(2) unfolding writes_def by blast
  show "\<exists>k'. does sys (bindP t f) k (Inr w) k' \<and> inp k' = inp k \<and> out k' = (out k)(fd := out k fd @ tx @ tx2)"
    using does_bindP [OF 1(1) refl, of f "Inr w" k2] 1 2 by auto
qed

lemma writes_write:
  assumes "io_kernel sys inp out"
  shows "writes sys inp out fd (bindP (callP (S_write fd d)) (\<lambda>_. Ret ())) d ()"
  unfolding writes_def
proof
  fix k
  show "\<exists>k'. does sys (bindP (callP (S_write fd d)) (\<lambda>_. Ret ())) k (Inr ()) k' \<and> inp k' = inp k \<and>
      out k' = (out k)(fd := out k fd @ d)"
    using io_write [OF assms, of fd d k] by auto
qed

lemma writes_putc: "io_kernel sys inp out \<Longrightarrow> writes sys inp out fd (putc fd c) [c] ()"
  unfolding putc_def by (rule writes_write)

lemma writes_putc_then:
  assumes "io_kernel sys inp out" and "writes sys inp out fd t tx v"
  shows "writes sys inp out fd (bindP (putc fd c) (\<lambda>_. t)) (c # tx) v"
  using writes_bind [OF writes_putc [OF assms(1)], where f = "\<lambda>_. t"] assms(2) by fastforce

lemma writes_then_Ret: "writes sys inp out fd t tx () \<Longrightarrow> writes sys inp out fd (bindP t (\<lambda>_. Ret v)) tx v"
  using writes_bind [where f = "\<lambda>_. Ret v", OF _ writes_Ret] by fastforce

lemma writes_each: "io_kernel sys inp out \<Longrightarrow> writes sys inp out fd (eachP (putc fd) s) s ()"
  by (induction s) (simp_all add: writes_Ret writes_putc_then)

primrec u_ptr_text :: "nat \<Rightarrow> uint64 \<Rightarrow> string" where
  "u_ptr_text 0 x = []"
| "u_ptr_text (Suc n) x = u_digits (unat (drop_bit 60 x)) # u_ptr_text n (push_bit 4 x)"

fun u_conv :: "char \<Rightarrow> uarg \<Rightarrow> string option" where
  "u_conv c (U_num x) =
     (if c = CHR ''d'' then Some (rev (u_printint_buf (sint (ucast x :: uint32)) 10 True))
      else if c = CHR ''l'' then Some (rev (u_printint_buf (sint (ucast x :: uint32)) 10 False))
      else if c = CHR ''x'' then Some (rev (u_printint_buf (sint (ucast x :: uint32)) 16 False))
      else if c = CHR ''p'' then Some (''0x'' @ u_ptr_text 16 x)
      else if c = CHR ''c'' then Some [char_of (unat x)]
      else None)"
| "u_conv c (U_str s) = (if c = CHR ''s'' then Some (case s of None \<Rightarrow> ''(null)'' | Some t \<Rightarrow> t) else None)"

text \<open>The text that a format and its arguments stand for, if the arguments fit.\<close>

fun u_render :: "string \<Rightarrow> uarg list \<Rightarrow> string option" where
  "u_render [] args = Some []"
| "u_render (c # fmt) args =
     (if c \<noteq> CHR ''%'' then map_option (Cons c) (u_render fmt args)
      else case fmt of
        [] \<Rightarrow> Some []
      | d # ds \<Rightarrow>
          if d \<in> set ''dlxpsc''
          then (case args of
             [] \<Rightarrow> None
           | x # rest \<Rightarrow> (case (u_conv d x, u_render ds rest) of (Some a, Some b) \<Rightarrow> Some (a @ b) | _ \<Rightarrow> None))
          else map_option (append (if d = CHR ''%'' then [d] else [CHR ''%'', d])) (u_render ds args))"

lemma writes_ptr: "io_kernel sys inp out \<Longrightarrow> writes sys inp out fd (u_printptr_from n fd x) (u_ptr_text n x) ()"
  by (induction n arbitrary: x) (simp_all add: writes_Ret writes_putc_then)

lemma writes_directive:
  assumes io: "io_kernel sys inp out" and "d \<in> set ''dlxpsc''" and "u_conv d x = Some a"
  shows "writes sys inp out fd (u_directive fd d (x # rest)) a rest"
proof -
  have ptr: "writes sys inp out fd (u_printptr fd y) (''0x'' @ u_ptr_text 16 y) ()" for y
    unfolding u_printptr_def by (simp add: writes_putc_then [OF io] writes_ptr [OF io])
  note out = writes_then_Ret [OF writes_each [OF io]] writes_then_Ret [OF ptr] writes_then_Ret [OF writes_putc [OF io]]
  have "d = CHR ''d'' \<or> d = CHR ''l'' \<or> d = CHR ''x'' \<or> d = CHR ''p'' \<or> d = CHR ''s'' \<or> d = CHR ''c''"
    using assms(2) by simp
  then show ?thesis
    using assms(3) by (elim disjE; cases x) (auto simp: u_printint_def out simp del: append.simps bindP_simps eachP.simps)
qed

lemma writes_percent:
  assumes io: "io_kernel sys inp out" and "d \<notin> set ''dlxpsc''"
  shows "writes sys inp out fd (u_directive fd d args) (if d = CHR ''%'' then [d] else [CHR ''%'', d]) args"
proof -
  have e: "u_directive fd d args = (if d = CHR ''%'' then bindP (putc fd d) (\<lambda>_. Ret args)
      else bindP (putc fd CHR ''%'') (\<lambda>_. bindP (putc fd d) (\<lambda>_. Ret args)))"
    using assms(2) by (simp del: bindP_simps)
  show ?thesis unfolding e by (simp add: writes_putc_then [OF io] writes_Ret)
qed

lemma writes_vprintf:
  assumes io: "io_kernel sys inp out" and "u_render fmt args = Some tx"
  shows "writes sys inp out fd (vprintf fd fmt args) tx ()"
  unfolding vprintf_def using assms(2)
proof (induction fmt args arbitrary: tx rule: u_render.induct)
  case (1 args)
  then show ?case by (simp add: writes_Ret)
next
  case (2 c fmt args)
  show ?case
  proof (cases "c = CHR ''%''")
    case False
    then obtain t where "u_render fmt args = Some t" "tx = c # t" using 2(4) by auto
    then show ?thesis using False 2(1) [OF False] by (simp add: writes_putc_then [OF io])
  next
    case True
    show ?thesis
    proof (cases fmt)
      case Nil
      then show ?thesis using True 2(4) by (simp add: writes_Ret)
    next
      case (Cons d ds)
      show ?thesis
      proof (cases "d \<in> set ''dlxpsc''")
        case conv: True
        then obtain x rest where args: "args = x # rest" using 2(4) True Cons by (cases args) (auto split: if_splits)
        then obtain a b where ab: "u_conv d x = Some a" "u_render ds rest = Some b" "tx = a @ b"
          using 2(4) True Cons conv by (simp split: option.splits)
        then show ?thesis
          using True Cons args writes_bind [OF writes_directive [OF io conv ab(1)], where f = "\<lambda>rest. vprintf_from fd ds False rest"]
            2(2) conv by (simp del: u_directive.simps)
      next
        case False
        then obtain t where t: "u_render ds args = Some t" "tx = (if d = CHR ''%'' then [d] else [CHR ''%'', d]) @ t"
          using 2(4) True Cons by auto
        then show ?thesis
          using True Cons writes_bind [OF writes_percent [OF io False], where f = "\<lambda>rest. vprintf_from fd ds False rest"]
            2(3) False by (simp del: u_directive.simps)
      qed
    qed
  qed
qed

end
