(* ===== verification/Grep.thy ===== *)
theory Grep
  imports Ulib
begin

text \<open>
  The program \<^verbatim>\<open>user/grep.c\<close>: the recursive matcher of Kernighan and Pike for patterns with
  \<^verbatim>\<open>^\<close>, \<^verbatim>\<open>.\<close>, \<^verbatim>\<open>*\<close> and \<^verbatim>\<open>$\<close>, and the loop that cuts its input into lines in a buffer
  of 1024 bytes. The matcher is shown to decide the language that a pattern denotes, and the
  loop to print exactly the lines that match, however the kernel cuts the input into reads,
  as long as no line fills the buffer.
\<close>

section \<open>The matcher\<close>

function (sequential) matchhere :: "string \<Rightarrow> string \<Rightarrow> bool"
  and matchstar :: "char \<Rightarrow> string \<Rightarrow> string \<Rightarrow> bool" where
  "matchhere [] text = True"
| "matchhere (c # re) text =
     (if re \<noteq> [] \<and> hd re = CHR ''*'' then matchstar c (tl re) text
      else if c = CHR ''$'' \<and> re = [] then text = []
      else if text \<noteq> [] \<and> (c = CHR ''.'' \<or> c = hd text) then matchhere re (tl text)
      else False)"
| "matchstar c re text =
     (if matchhere re text then True
      else if text \<noteq> [] \<and> (hd text = c \<or> c = CHR ''.'') then matchstar c re (tl text)
      else False)"
  by pat_completeness auto
termination
  by (relation "measures [\<lambda>x. case x of Inl (re, text) \<Rightarrow> length re | Inr (c, re, text) \<Rightarrow> length re,
      \<lambda>x. case x of Inl (re, text) \<Rightarrow> length text | Inr (c, re, text) \<Rightarrow> length text,
      \<lambda>x. case x of Inl _ \<Rightarrow> 0 | Inr _ \<Rightarrow> 1]") auto

declare matchhere.simps [simp del] matchstar.simps [simp del]

text \<open>The loop of \<open>match\<close> over the start of the match, which also looks at the empty end of the text.\<close>

fun match_from :: "string \<Rightarrow> string \<Rightarrow> bool" where
  "match_from re text = (if matchhere re text then True else if text = [] then False else match_from re (tl text))"

declare match_from.simps [simp del]

definition match :: "string \<Rightarrow> string \<Rightarrow> bool" where
  "match re text =
     (if re \<noteq> [] \<and> hd re = CHR ''^'' then matchhere (tl re) text else match_from re text)"

section \<open>The program\<close>

text \<open>
  The inner loop of \<open>grep\<close> on the bytes of the buffer that have not been looked at: it
  finds the end of a line with \<open>strchr\<close>, which stops at a zero byte, and yields the lines
  to write and what is left.
\<close>

definition line_end :: "string \<Rightarrow> nat option" where
  "line_end b = u_strchr (takeWhile (\<lambda>c. c \<noteq> NUL) b) CHR 0x0A"

lemma u_strchr_less: "u_strchr s c = Some i \<Longrightarrow> i < length s \<and> s ! i = c \<and> c \<notin> set (take i s)"
  by (induction s arbitrary: i) (auto split: if_splits)

lemma line_end_less: "line_end b = Some i \<Longrightarrow> i < length b"
  unfolding line_end_def using length_takeWhile_le [of "\<lambda>c. c \<noteq> NUL" b] u_strchr_less by fastforce

function grep_lines :: "string \<Rightarrow> string \<Rightarrow> string list \<times> string" where
  "grep_lines pattern b =
     (case line_end b of
        None \<Rightarrow> ([], b)
      | Some q \<Rightarrow>
          let (ls, rest) = grep_lines pattern (drop (Suc q) b) in
          (if match pattern (take q b) then take (Suc q) b # ls else ls, rest))"
  by pat_completeness auto
termination by (relation "measure (length \<circ> snd)") (auto dest: line_end_less)

declare grep_lines.simps [simp del]

definition grep_pass :: "string \<Rightarrow> int \<Rightarrow> string \<Rightarrow> (string + unit) prog" where
  "grep_pass pattern fd b =
     bindP (sysP (S_read fd (1024 - length b - 1))) (\<lambda>(n, d).
     if n > 0 then
       let (ls, rest) = grep_lines pattern (b @ d) in
       bindP (eachP (\<lambda>l. bindP (callP (S_write 1 l)) (\<lambda>_. Ret ())) ls) (\<lambda>_. Ret (Inl rest))
     else Ret (Inr ()))"

definition grep :: "string \<Rightarrow> int \<Rightarrow> unit prog" where
  "grep pattern fd = iterP (grep_pass pattern fd) []"

primrec grep_files :: "string \<Rightarrow> string list \<Rightarrow> unit prog" where
  "grep_files pattern [] = exitP 0"
| "grep_files pattern (f # fs) =
     bindP (callP (S_open f 0)) (\<lambda>fd.
     if fd < 0 then bindP (u_printf ''grep: cannot open %s\<newline>'' [U_str (Some f)]) (\<lambda>_. exitP 1)
     else bindP (grep pattern fd) (\<lambda>_. bindP (callP (S_close fd)) (\<lambda>_. grep_files pattern fs)))"

definition grep_main :: "string list \<Rightarrow> unit prog" where
  "grep_main argv =
     (if length argv \<le> 1 then bindP (u_fprintf 2 ''usage: grep pattern [file ...]\<newline>'' []) (\<lambda>_. exitP 1)
      else if length argv \<le> 2 then bindP (grep (argv ! 1) 0) (\<lambda>_. exitP 0)
      else grep_files (argv ! 1) (drop 2 argv))"

section \<open>The language of a pattern\<close>

text \<open>
  A pattern is a list of items, a character that may be starred, with or without an anchor at
  its end. An item other than a dot stands for its character.
\<close>

fun items :: "string \<Rightarrow> (char \<times> bool) list \<times> bool" where
  "items [] = ([], False)"
| "items [c] = (if c = CHR ''$'' then ([], True) else ([(c, False)], False))"
| "items (c # d # re) =
     (if d = CHR ''*'' then apfst (Cons (c, True)) (items re) else apfst (Cons (c, False)) (items (d # re)))"

definition fits :: "char \<Rightarrow> char \<Rightarrow> bool" where
  "fits c x \<longleftrightarrow> c = CHR ''.'' \<or> c = x"

fun lang :: "(char \<times> bool) list \<Rightarrow> string set" where
  "lang [] = {[]}"
| "lang ((c, starred) # its) =
     (if starred then {u @ v |u v. list_all (fits c) u \<and> v \<in> lang its} else {x # v |x v. fits c x \<and> v \<in> lang its})"

definition denotes :: "string \<Rightarrow> string \<Rightarrow> bool" where
  "denotes re text \<longleftrightarrow> (\<exists>u v. text = u @ v \<and> u \<in> lang (fst (items re)) \<and> (snd (items re) \<longrightarrow> v = []))"

lemma denotes_star: "denotes (c # CHR ''*'' # re) t \<longleftrightarrow> (\<exists>a b. t = a @ b \<and> list_all (fits c) a \<and> denotes re b)"
proof -
  obtain its e where it: "items re = (its, e)" by fastforce
  have "denotes (c # CHR ''*'' # re) t \<longleftrightarrow>
      (\<exists>u v. t = u @ v \<and> (\<exists>a w. u = a @ w \<and> list_all (fits c) a \<and> w \<in> lang its) \<and> (e \<longrightarrow> v = []))"
    by (simp add: denotes_def it)
  also have "\<dots> \<longleftrightarrow> (\<exists>a b. t = a @ b \<and> list_all (fits c) a \<and> denotes re b)"
    unfolding denotes_def it fst_conv snd_conv by (metis append_assoc)
  finally show ?thesis .
qed

lemma denotes_step:
  assumes "re = [] \<longrightarrow> c \<noteq> CHR ''$''" and "re \<noteq> [] \<longrightarrow> hd re \<noteq> CHR ''*''"
  shows "denotes (c # re) t \<longleftrightarrow> (\<exists>x t'. t = x # t' \<and> fits c x \<and> denotes re t')"
proof -
  obtain its e where it: "items re = (its, e)" by fastforce
  have "items (c # re) = ((c, False) # its, e)" using assms it by (cases re) auto
  then have "denotes (c # re) t \<longleftrightarrow> (\<exists>u v. t = u @ v \<and> (\<exists>x w. u = x # w \<and> fits c x \<and> w \<in> lang its) \<and> (e \<longrightarrow> v = []))"
    by (simp add: denotes_def)
  also have "\<dots> \<longleftrightarrow> (\<exists>x t'. t = x # t' \<and> fits c x \<and> denotes re t')"
    unfolding denotes_def it fst_conv snd_conv by (metis append_Cons)
  finally show ?thesis .
qed

lemma split_first:
  assumes "\<not> Q t"
  shows "(\<exists>a b. t = a @ b \<and> list_all P a \<and> Q b) \<longleftrightarrow>
     t \<noteq> [] \<and> P (hd t) \<and> (\<exists>a b. tl t = a @ b \<and> list_all P a \<and> Q b)"
proof (cases t)
  case (Cons x u)
  have "\<exists>a b. u = a @ b \<and> list_all P a \<and> Q b" "P x" if "t = a @ b" "list_all P a" "Q b" for a b
    using that assms Cons by (cases a; auto)+
  moreover have "\<exists>a b. t = a @ b \<and> list_all P a \<and> Q b" if "u = a @ b" "list_all P a" "Q b" "P x" for a b
    using that Cons by (intro exI [of _ "x # a"] exI [of _ b]) simp
  ultimately show ?thesis unfolding Cons list.sel by (metis Cons list.distinct(1))
qed (use assms in simp)

lemma matchhere_denotes:
  "matchhere re text \<longleftrightarrow> denotes re text"
  "matchstar c re text \<longleftrightarrow> (\<exists>a b. text = a @ b \<and> list_all (fits c) a \<and> denotes re b)"
proof (induction re "text" and c re "text" rule: matchhere_matchstar.induct)
  case (1 "text")
  then show ?case by (simp add: matchhere.simps denotes_def)
next
  case (2 c re "text")
  show ?case
  proof (cases "re \<noteq> [] \<and> hd re = CHR ''*''")
    case True
    then have "re = CHR ''*'' # tl re" by (cases re) auto
    then show ?thesis using 2(1) [OF True] True denotes_star [of c "tl re" "text"] by (simp add: matchhere.simps)
  next
    case star: False
    show ?thesis
    proof (cases "c = CHR ''$'' \<and> re = []")
      case True
      then show ?thesis by (auto simp: matchhere.simps denotes_def)
    next
      case False
      then have "denotes (c # re) text \<longleftrightarrow> (\<exists>x t. text = x # t \<and> fits c x \<and> denotes re t)"
        using star by (intro denotes_step) auto
      then show ?thesis using star False 2(2) [OF star False] by (cases "text") (auto simp: matchhere.simps fits_def)
    qed
  qed
next
  case (3 c re "text")
  show ?case
  proof (cases "matchhere re text")
    case True
    then show ?thesis using 3(1) by (auto simp: matchstar.simps intro: exI [of _ "[]"])
  next
    case False
    then have "\<not> denotes re text" using 3(1) by simp
    then have step: "(\<exists>a b. text = a @ b \<and> list_all (fits c) a \<and> denotes re b) \<longleftrightarrow>
        text \<noteq> [] \<and> fits c (hd text) \<and> (\<exists>a b. tl text = a @ b \<and> list_all (fits c) a \<and> denotes re b)"
      by (rule split_first)
    have "fits c (hd text) \<longleftrightarrow> hd text = c \<or> c = CHR ''.''" by (auto simp: fits_def)
    moreover have "matchstar c re text \<longleftrightarrow> text \<noteq> [] \<and> (hd text = c \<or> c = CHR ''.'') \<and> matchstar c re (tl text)"
      using False by (subst matchstar.simps) auto
    ultimately show ?thesis unfolding step using 3(2) [OF False] by blast
  qed
qed

lemma match_from_denotes: "match_from re text \<longleftrightarrow> (\<exists>a b. text = a @ b \<and> denotes re b)"
proof (induction re "text" rule: match_from.induct)
  case (1 re "text")
  show ?case
  proof (cases "matchhere re text")
    case True
    then show ?thesis by (auto simp: match_from.simps matchhere_denotes(1) intro: exI [of _ "[]"])
  next
    case False
    then have "\<not> denotes re text" by (simp add: matchhere_denotes(1))
    then have "(\<exists>a b. text = a @ b \<and> denotes re b) \<longleftrightarrow> text \<noteq> [] \<and> (\<exists>a b. tl text = a @ b \<and> denotes re b)"
      by (cases "text") (auto simp: Cons_eq_append_conv)
    then show ?thesis using 1 False by (subst match_from.simps) auto
  qed
qed

text \<open>
  C22: the matcher of \<open>grep\<close> always returns, and it accepts exactly the lines that the pattern
  denotes: those with a piece in the pattern's language, the piece at the start of the line
  when the pattern begins with a caret and at its end when it ends with a dollar sign.
\<close>

theorem match_denotes:
  "match re text \<longleftrightarrow>
     (if take 1 re = ''^'' then denotes (tl re) text else (\<exists>a b. text = a @ b \<and> denotes re b))"
  by (cases re) (auto simp: match_def matchhere_denotes(1) match_from_denotes)

section \<open>Lines in, lines out\<close>

abbreviation ln :: "string \<Rightarrow> string" where "ln l \<equiv> l @ [CHR 0x0A]"

definition plain :: "string \<Rightarrow> bool" where
  "plain l \<longleftrightarrow> CHR 0x0A \<notin> set l \<and> NUL \<notin> set l"

lemma u_strchr_first: "c \<notin> set l \<Longrightarrow> u_strchr (l @ c # y) c = Some (length l)" "c \<notin> set l \<Longrightarrow> u_strchr l c = None"
  by (induction l) auto

lemma line_end_first:
  "NUL \<notin> set y \<Longrightarrow> plain l \<Longrightarrow> line_end (l @ CHR 0x0A # y) = Some (length l)" "plain l \<Longrightarrow> line_end l = None"
proof -
  have whole: "takeWhile (\<lambda>c. c \<noteq> NUL) z = z" if "NUL \<notin> set z" for z using that by (simp add: takeWhile_eq_all_conv) metis
  show "NUL \<notin> set y \<Longrightarrow> plain l \<Longrightarrow> line_end (l @ CHR 0x0A # y) = Some (length l)"
    unfolding line_end_def plain_def by (subst whole) (auto simp: u_strchr_first)
  show "plain l \<Longrightarrow> line_end l = None"
    unfolding line_end_def plain_def by (subst whole) (auto simp: u_strchr_first)
qed

lemma grep_lines_split:
  assumes "list_all plain ls" and "plain r"
  shows "grep_lines pattern (concat (map ln ls) @ r) = (map ln (filter (match pattern) ls), r)"
  using assms(1)
proof (induction ls)
  case Nil
  then show ?case using assms(2) by (subst grep_lines.simps) (simp add: line_end_first)
next
  case (Cons l ls)
  have "NUL \<notin> set (concat (map ln ls) @ r)" using Cons.prems assms(2) by (auto simp: plain_def list_all_iff)
  then have e: "line_end (concat (map ln (l # ls)) @ r) = Some (length l)"
    using Cons.prems line_end_first(1) [of "concat (map ln ls) @ r" l] by simp
  show ?case using Cons by (subst grep_lines.simps, subst e) simp
qed

text \<open>Cutting a text of lines anywhere leaves whole lines, the start of one, and the rest.\<close>

lemma cut_lines:
  assumes "p @ q = concat (map ln ls) @ tail" and "plain tail" and "list_all plain ls"
  shows "\<exists>ls1 ls2 r. ls = ls1 @ ls2 \<and> p = concat (map ln ls1) @ r \<and> plain r \<and> r @ q = concat (map ln ls2) @ tail"
  using assms(1,3)
proof (induction ls arbitrary: p)
  case Nil
  then have "set p \<subseteq> set tail" by (metis Un_upper1 append_Nil concat.simps(1) list.simps(8) set_append)
  then have "plain p" using assms(2) by (auto simp: plain_def)
  then show ?case using Nil by (intro exI [of _ "[]"] exI [of _ p]) simp
next
  case (Cons l ls)
  show ?case
  proof (cases "length p \<le> length l")
    case True
    then have "p = take (length p) l" using arg_cong [OF Cons.prems(1), of "take (length p)"] by simp
    then have "set p \<subseteq> set l" by (metis set_take_subset)
    then have "plain p" using Cons.prems(2) by (auto simp: plain_def)
    then show ?thesis using Cons.prems(1) by (intro exI [of _ "[]"] exI [of _ "l # ls"] exI [of _ p]) simp
  next
    case False
    then obtain p' where p: "p = ln l @ p'"
      using arg_cong [OF Cons.prems(1), of "take (length l + 1)"] append_take_drop_id [of "length l + 1" p] by simp metis
    have "p' @ q = concat (map ln ls) @ tail" "list_all plain ls" using Cons.prems unfolding p by simp_all
    then obtain ls1 ls2 r where "ls = ls1 @ ls2" "p' = concat (map ln ls1) @ r" "plain r" "r @ q = concat (map ln ls2) @ tail"
      using Cons.IH by blast
    then show ?thesis using p by (intro exI [of _ "l # ls1"] exI [of _ ls2] exI [of _ r]) simp
  qed
qed

lemma writes_lines:
  assumes io: "io_kernel sys inp out"
  shows "writes sys inp out 1 (eachP (\<lambda>l. bindP (callP (S_write 1 l)) (\<lambda>_. Ret ())) ls) (concat ls) ()"
proof (induction ls)
  case (Cons l ls)
  then show ?case
    using writes_bind [OF writes_write [OF io], where f = "\<lambda>_. eachP (\<lambda>l. bindP (callP (S_write 1 l)) (\<lambda>_. Ret ())) ls"]
    by fastforce
qed (simp add: writes_Ret)

text \<open>The loop, with the start of a line in the buffer.\<close>

lemma grep_loop:
  assumes io: "io_kernel sys inp out"
    and "b @ inp k fd = concat (map ln ls) @ tail" and "plain b"
    and "list_all (\<lambda>l. plain l \<and> length l \<le> 1022) ls" and "plain tail" and "length tail \<le> 1023"
  shows "\<exists>k'. does sys (iterP (grep_pass pattern fd) b) k (Inr ()) k' \<and> inp k' = (inp k)(fd := []) \<and>
     out k' = (out k)(1 := out k 1 @ concat (map ln (filter (match pattern) ls)))"
  using assms(2,3,4)
proof (induction "length (inp k fd)" arbitrary: b k ls rule: less_induct)
  case less
  have lsp: "list_all plain ls" using less.prems(3) by (auto simp: list_all_iff)
  obtain m d k1 where r: "sys (S_read fd (1024 - length b - 1)) k = ((int m, d), k1)" "m \<le> 1024 - length b - 1"
      "d = take m (inp k fd)" "m = length d" "m = 0 \<longrightarrow> 1024 - length b - 1 = 0 \<or> inp k fd = []"
      "inp k1 = (inp k)(fd := drop m (inp k fd))" "out k1 = out k"
    using io_read [OF io] by metis
  have full: "inp k fd = []" if "1023 \<le> length b"
  proof (cases ls)
    case Nil
    have "length b + length (inp k fd) = length tail" using arg_cong [OF less.prems(1), of length] Nil by simp
    then have "length (inp k fd) = 0" using that assms(6) by linarith
    then show ?thesis by simp
  next
    case (Cons l ls')
    then have l: "length l < length b" using that less.prems(3) by simp
    then have "b ! length l = (b @ inp k fd) ! length l" by (simp add: nth_append)
    also have "\<dots> = CHR 0x0A" unfolding less.prems(1) Cons by (simp add: nth_append)
    finally have "CHR 0x0A \<in> set b" using l by (metis nth_mem)
    then show ?thesis using less.prems(2) by (simp add: plain_def)
  qed
  show ?case
  proof (cases "m = 0")
    case True
    then have end_of: "inp k fd = []" using r(5) full by auto
    then have "ls = []" using less.prems(1,2) by (cases ls) (auto simp: plain_def)
    moreover have "does sys (grep_pass pattern fd b) k (Inr (Inr ())) k1" using r(1) True by (simp add: grep_pass_def)
    ultimately show ?thesis using does_iterP(2) r(6,7) True end_of by (intro exI [of _ k1]) auto
  next
    case False
    obtain ls1 ls2 rest where c: "ls = ls1 @ ls2" "b @ d = concat (map ln ls1) @ rest" "plain rest"
        "rest @ drop m (inp k fd) = concat (map ln ls2) @ tail"
      using cut_lines [of "b @ d" "drop m (inp k fd)" ls tail] less.prems(1) assms(5) lsp r(3) by auto
    have g: "grep_lines pattern (b @ d) = (map ln (filter (match pattern) ls1), rest)"
      using grep_lines_split [of ls1 rest pattern] c lsp by simp
    obtain k2 where w: "does sys (eachP (\<lambda>l. bindP (callP (S_write 1 l)) (\<lambda>_. Ret ())) (map ln (filter (match pattern) ls1))) k1 (Inr ()) k2"
        "inp k2 = inp k1" "out k2 = (out k1)(1 := out k1 1 @ concat (map ln (filter (match pattern) ls1)))"
      using writes_lines [OF io] unfolding writes_def by blast
    have pass: "does sys (grep_pass pattern fd b) k (Inr (Inl rest)) k2"
      using r(1) False g does_bindP [OF w(1) refl, of "\<lambda>_. Ret (Inl rest)" "Inr (Inl rest)" k2] by (simp add: grep_pass_def)
    have "m = length (take m (inp k fd))" using r(3,4) by metis
    then have "m \<le> length (inp k fd)" by simp
    then have "length (inp k2 fd) < length (inp k fd)" using False by (simp add: w(2) r(6))
    moreover have "rest @ inp k2 fd = concat (map ln ls2) @ tail" using c(4) by (simp add: w(2) r(6))
    ultimately obtain k' where it: "does sys (iterP (grep_pass pattern fd) rest) k2 (Inr ()) k'" "inp k' = (inp k2)(fd := [])"
        "out k' = (out k2)(1 := out k2 1 @ concat (map ln (filter (match pattern) ls2)))"
      using less.hyps [of k2 rest ls2] c(1,3) less.prems(3) by fastforce
    have "does sys (iterP (grep_pass pattern fd) b) k (Inr ()) k'"
      by (rule does_iterP(1) [where body = "grep_pass pattern fd" and l = b and l' = rest, OF pass it(1)])
    then show ?thesis by (intro exI [of _ k']) (simp add: it w(2,3) r(6,7) c(1))
  qed
qed



end
