(* ===== verification/Ucmds.thy ===== *)
theory Ucmds
  imports Ulib
begin

text \<open>
  The small programs under \<^verbatim>\<open>user/\<close>: \<^verbatim>\<open>cat\<close>, \<^verbatim>\<open>echo\<close>, \<^verbatim>\<open>wc\<close>, \<^verbatim>\<open>ls\<close>, \<^verbatim>\<open>init\<close>, \<^verbatim>\<open>kill\<close>,
  \<^verbatim>\<open>ln\<close>, \<^verbatim>\<open>mkdir\<close>, \<^verbatim>\<open>rm\<close>, \<^verbatim>\<open>zombie\<close> and \<^verbatim>\<open>forktest\<close>. Each program is its \<open>main\<close> as a
  function of \<open>argv\<close> (the program's own name first). \<open>cat\<close> is shown to copy its input
  byte for byte and \<open>wc\<close> to print the numbers of lines, words and characters.
\<close>

section \<open>cat and echo\<close>

definition cat_pass :: "int \<Rightarrow> unit \<Rightarrow> (unit + unit) prog" where
  "cat_pass fd l =
     bindP (sysP (S_read fd 512)) (\<lambda>(n, d).
     if n > 0 then
       bindP (callP (S_write 1 d)) (\<lambda>w.
       if w \<noteq> n then bindP (u_fprintf 2 ''cat: write error\<newline>'' []) (\<lambda>_. exitP 1) else Ret (Inl ()))
     else if n < 0 then bindP (u_fprintf 2 ''cat: read error\<newline>'' []) (\<lambda>_. exitP 1)
     else Ret (Inr ()))"

definition cat :: "int \<Rightarrow> unit prog" where
  "cat fd = iterP (cat_pass fd) ()"

primrec cat_files :: "string list \<Rightarrow> unit prog" where
  "cat_files [] = exitP 0"
| "cat_files (f # fs) =
     bindP (callP (S_open f 0)) (\<lambda>fd.
     if fd < 0 then bindP (u_fprintf 2 ''cat: cannot open %s\<newline>'' [U_str (Some f)]) (\<lambda>_. exitP 1)
     else bindP (cat fd) (\<lambda>_. bindP (callP (S_close fd)) (\<lambda>_. cat_files fs)))"

definition cat_main :: "string list \<Rightarrow> unit prog" where
  "cat_main argv = (if length argv \<le> 1 then bindP (cat 0) (\<lambda>_. exitP 0) else cat_files (tl argv))"

fun echo_args :: "string list \<Rightarrow> unit prog" where
  "echo_args [] = exitP 0"
| "echo_args (a # as) =
     bindP (callP (S_write 1 (take (u_strlen a) a))) (\<lambda>_.
     bindP (callP (S_write 1 (if as \<noteq> [] then '' '' else ''\<newline>''))) (\<lambda>_. echo_args as))"

definition echo_main :: "string list \<Rightarrow> unit prog" where
  "echo_main argv = echo_args (tl argv)"

section \<open>wc\<close>

text \<open>The counters are \<open>int\<close>s of 32 bits.\<close>

record wcst =
  wc_l :: int
  wc_w :: int
  wc_c :: int
  wc_inword :: bool

definition incr :: "int \<Rightarrow> int" where
  "incr n = signed_take_bit 31 (n + 1)"

definition wc_char :: "char \<Rightarrow> wcst \<Rightarrow> wcst" where
  "wc_char x s =
     (let s = s\<lparr>wc_c := incr (wc_c s)\<rparr>;
          s = (if x = CHR 0x0A then s\<lparr>wc_l := incr (wc_l s)\<rparr> else s) in
      if u_strchr [CHR 0x20, CHR 0x0D, CHR 0x09, CHR 0x0A, CHR 0x0B] x \<noteq> None then s\<lparr>wc_inword := False\<rparr>
      else if \<not> wc_inword s then s\<lparr>wc_w := incr (wc_w s), wc_inword := True\<rparr>
      else s)"

definition wc_pass :: "int \<Rightarrow> wcst \<Rightarrow> (wcst + wcst) prog" where
  "wc_pass fd s =
     bindP (sysP (S_read fd 512)) (\<lambda>(n, d).
     if n > 0 then Ret (Inl (fold wc_char d s))
     else if n < 0 then bindP (u_printf ''wc: read error\<newline>'' []) (\<lambda>_. exitP 1)
     else Ret (Inr s))"

definition wc :: "int \<Rightarrow> string \<Rightarrow> unit prog" where
  "wc fd name =
     bindP (iterP (wc_pass fd) \<lparr>wc_l = 0, wc_w = 0, wc_c = 0, wc_inword = False\<rparr>) (\<lambda>s.
     u_printf ''%d %d %d %s\<newline>''
       [U_num (word_of_int (wc_l s)), U_num (word_of_int (wc_w s)), U_num (word_of_int (wc_c s)), U_str (Some name)])"

primrec wc_files :: "string list \<Rightarrow> unit prog" where
  "wc_files [] = exitP 0"
| "wc_files (f # fs) =
     bindP (callP (S_open f 0)) (\<lambda>fd.
     if fd < 0 then bindP (u_printf ''wc: cannot open %s\<newline>'' [U_str (Some f)]) (\<lambda>_. exitP 1)
     else bindP (wc fd f) (\<lambda>_. bindP (callP (S_close fd)) (\<lambda>_. wc_files fs)))"

definition wc_main :: "string list \<Rightarrow> unit prog" where
  "wc_main argv = (if length argv \<le> 1 then bindP (wc 0 '''') (\<lambda>_. exitP 0) else wc_files (tl argv))"

section \<open>ls\<close>

text \<open>Fields of structures that the kernel has stored, in the byte order of the machine.\<close>

definition le_nat :: "string \<Rightarrow> nat" where
  "le_nat d = foldr (\<lambda>c n. of_char c + 256 * n) d 0"

definition field :: "nat \<Rightarrow> nat \<Rightarrow> string \<Rightarrow> nat" where
  "field off n d = le_nat (take n (drop off d))"

definition fmtname :: "string \<Rightarrow> string" where
  "fmtname path =
     (let p = rev (takeWhile (\<lambda>c. c \<noteq> CHR ''/'') (rev path)) in
      if u_strlen p \<ge> 14 then p else p @ replicate (14 - u_strlen p) CHR '' '')"

text \<open>\<open>st.type\<close> is a \<open>short\<close> at offset 8, \<open>st.ino\<close> a \<open>uint\<close> at 4 and \<open>st.size\<close> a \<open>uint64\<close> at 16.\<close>

definition st_type :: "string \<Rightarrow> int" where
  "st_type st = signed_take_bit 15 (int (field 8 2 st))"

definition stat_args :: "string \<Rightarrow> string \<Rightarrow> uarg list" where
  "stat_args name st =
     [U_str (Some name), U_num (word_of_int (st_type st)), U_num (of_nat (field 4 4 st)), U_num (of_nat (field 16 8 st))]"

definition ls_pass :: "string \<Rightarrow> int \<Rightarrow> unit \<Rightarrow> (unit + unit) prog" where
  "ls_pass path fd l =
     bindP (sysP (S_read fd 16)) (\<lambda>(n, de).
     if n \<noteq> 16 then Ret (Inr ())
     else if field 0 2 de = 0 then Ret (Inl ())
     else
       let buf = path @ ''/'' @ takeWhile (\<lambda>c. c \<noteq> NUL) (take 14 (drop 2 de)) in
       bindP (u_stat buf) (\<lambda>(r, st).
       if r < 0 then bindP (u_printf ''ls: cannot stat %s\<newline>'' [U_str (Some buf)]) (\<lambda>_. Ret (Inl ()))
       else bindP (u_printf ''%s %d %d %d\<newline>'' (stat_args (fmtname buf) st)) (\<lambda>_. Ret (Inl ()))))"

definition ls :: "string \<Rightarrow> unit prog" where
  "ls path =
     bindP (callP (S_open path 0)) (\<lambda>fd.
     if fd < 0 then u_fprintf 2 ''ls: cannot open %s\<newline>'' [U_str (Some path)]
     else bindP (sysP (S_fstat fd)) (\<lambda>(r, st).
     if r < 0 then
       bindP (u_fprintf 2 ''ls: cannot stat %s\<newline>'' [U_str (Some path)]) (\<lambda>_.
       bindP (callP (S_close fd)) (\<lambda>_. Ret ()))
     else
       bindP
         (if st_type st = 2 then u_printf ''%s %d %d %l\<newline>'' (stat_args (fmtname path) st)
          else if st_type st = 1 then
            (if u_strlen path + 1 + 14 + 1 > 512 then u_printf ''ls: path too long\<newline>'' []
             else iterP (ls_pass path fd) ())
          else Ret ()) (\<lambda>_.
       bindP (callP (S_close fd)) (\<lambda>_. Ret ()))))"

definition ls_main :: "string list \<Rightarrow> unit prog" where
  "ls_main argv =
     (if length argv < 2 then bindP (ls ''.'') (\<lambda>_. exitP 0)
      else bindP (eachP ls (tl argv)) (\<lambda>_. exitP 0))"

section \<open>init\<close>

definition init_wait_pass :: "int \<Rightarrow> unit \<Rightarrow> (unit + unit) prog" where
  "init_wait_pass pid l =
     bindP (callP S_wait) (\<lambda>wpid.
     if wpid = pid then Ret (Inr ())
     else if wpid < 0 then bindP (u_printf ''init: wait returned an error\<newline>'' []) (\<lambda>_. exitP 1)
     else Ret (Inl ()))"

definition init_pass :: "unit \<Rightarrow> (unit + unit) prog" where
  "init_pass l =
     bindP (u_printf ''init: starting sh\<newline>'' []) (\<lambda>_.
     bindP (callP S_fork) (\<lambda>pid.
     if pid < 0 then bindP (u_printf ''init: fork failed\<newline>'' []) (\<lambda>_. exitP 1)
     else if pid = 0 then
       bindP (callP (S_exec ''sh'' [''sh''])) (\<lambda>_.
       bindP (u_printf ''init: exec sh failed\<newline>'' []) (\<lambda>_. exitP 1))
     else bindP (iterP (init_wait_pass pid) ()) (\<lambda>_. Ret (Inl ()))))"

definition init_main :: "unit prog" where
  "init_main =
     bindP (callP (S_open ''console'' 2)) (\<lambda>fd.
     bindP (if fd < 0 then
              bindP (callP (S_mknod ''console'' 1 0)) (\<lambda>_. bindP (callP (S_open ''console'' 2)) (\<lambda>_. Ret ()))
            else Ret ()) (\<lambda>_.
     bindP (callP (S_dup 0)) (\<lambda>_.
     bindP (callP (S_dup 0)) (\<lambda>_.
     iterP init_pass ()))))"

section \<open>Commands that are one system call each\<close>

fun kill_args :: "string list \<Rightarrow> unit prog" where
  "kill_args (a # b # as) = bindP (callP (S_kill (u_atoi a) (u_atoi b))) (\<lambda>_. kill_args as)"
| "kill_args _ = exitP 0"

definition kill_main :: "string list \<Rightarrow> unit prog" where
  "kill_main argv =
     (if length argv < 2 then bindP (u_fprintf 2 ''usage: kill pid...\<newline>'' []) (\<lambda>_. exitP 1)
      else kill_args (tl argv))"

definition ln_main :: "string list \<Rightarrow> unit prog" where
  "ln_main argv =
     (if length argv \<noteq> 3 then bindP (u_fprintf 2 ''Usage: ln old new\<newline>'' []) (\<lambda>_. exitP 1)
      else bindP (callP (S_link (argv ! 1) (argv ! 2))) (\<lambda>r.
        bindP (if r < 0 then u_fprintf 2 ''link %s %s: failed\<newline>'' [U_str (Some (argv ! 1)), U_str (Some (argv ! 2))]
               else Ret ()) (\<lambda>_. exitP 0)))"

primrec mkdir_args :: "string list \<Rightarrow> unit prog" where
  "mkdir_args [] = exitP 0"
| "mkdir_args (a # as) =
     bindP (callP (S_mkdir a)) (\<lambda>r.
     if r < 0 then bindP (u_fprintf 2 ''mkdir: %s failed to create\<newline>'' [U_str (Some a)]) (\<lambda>_. exitP 0)
     else mkdir_args as)"

definition mkdir_main :: "string list \<Rightarrow> unit prog" where
  "mkdir_main argv =
     (if length argv < 2 then bindP (u_fprintf 2 ''Usage: mkdir files...\<newline>'' []) (\<lambda>_. exitP 1)
      else mkdir_args (tl argv))"

primrec rm_args :: "string list \<Rightarrow> unit prog" where
  "rm_args [] = exitP 0"
| "rm_args (a # as) =
     bindP (callP (S_unlink a)) (\<lambda>r.
     if r < 0 then bindP (u_fprintf 2 ''rm: %s failed to delete\<newline>'' [U_str (Some a)]) (\<lambda>_. exitP 0)
     else rm_args as)"

definition rm_main :: "string list \<Rightarrow> unit prog" where
  "rm_main argv =
     (if length argv < 2 then bindP (u_fprintf 2 ''Usage: rm files...\<newline>'' []) (\<lambda>_. exitP 1)
      else rm_args (tl argv))"

definition zombie_main :: "unit prog" where
  "zombie_main =
     bindP (callP S_fork) (\<lambda>pid.
     bindP (if pid > 0 then bindP (callP (S_sleep 5)) (\<lambda>_. Ret ()) else Ret ()) (\<lambda>_. exitP 0))"

section \<open>forktest\<close>

definition print :: "string \<Rightarrow> unit prog" where
  "print s = bindP (callP (S_write 1 (take (u_strlen s) s))) (\<lambda>_. Ret ())"

text \<open>The forking loop yields how many children there are; \<open>left\<close> counts down from 1000.\<close>

primrec fork_children :: "nat \<Rightarrow> nat \<Rightarrow> nat prog" where
  "fork_children 0 n = Ret n"
| "fork_children (Suc left) n =
     bindP (callP S_fork) (\<lambda>pid.
     if pid < 0 then Ret n else if pid = 0 then exitP 0 else fork_children left (Suc n))"

primrec wait_children :: "nat \<Rightarrow> unit prog" where
  "wait_children 0 = Ret ()"
| "wait_children (Suc n) =
     bindP (callP S_wait) (\<lambda>r.
     if r < 0 then bindP (print ''wait stopped early\<newline>'') (\<lambda>_. exitP 1) else wait_children n)"

definition forktest :: "unit prog" where
  "forktest =
     bindP (print ''fork test\<newline>'') (\<lambda>_.
     bindP (fork_children 1000 0) (\<lambda>n.
     if n = 1000 then bindP (print ''fork claimed to work N times!\<newline>'') (\<lambda>_. exitP 1)
     else bindP (wait_children n) (\<lambda>_.
       bindP (callP S_wait) (\<lambda>r.
       if r \<noteq> -1 then bindP (print ''wait got too many\<newline>'') (\<lambda>_. exitP 1)
       else print ''fork test OK\<newline>''))))"

definition forktest_main :: "unit prog" where
  "forktest_main = bindP forktest (\<lambda>_. exitP 0)"

section \<open>Copying and counting\<close>

text \<open>One read of a file that is not at its end.\<close>

lemma io_read_some:
  assumes "io_kernel sys inp out" and "0 < n"
  shows "\<exists>m d k'. sys (S_read fd n) k = ((int m, d), k') \<and> d = take m (inp k fd) \<and> m \<le> length (inp k fd) \<and>
     (m = 0 \<longleftrightarrow> inp k fd = []) \<and> inp k' = (inp k)(fd := drop m (inp k fd)) \<and> out k' = out k"
proof -
  obtain m d k' where r: "sys (S_read fd n) k = ((int m, d), k')" "d = take m (inp k fd)" "m = length d"
      "m = 0 \<longrightarrow> n = 0 \<or> inp k fd = []" "inp k' = (inp k)(fd := drop m (inp k fd))" "out k' = out k"
    using io_read [OF assms(1)] by metis
  have "m = length (take m (inp k fd))" using r(2,3) by metis
  then have le: "m \<le> length (inp k fd)" by simp
  then have "m = 0 \<longleftrightarrow> inp k fd = []" using r(4) assms(2) by auto
  with r le show ?thesis by blast
qed

lemma cat_loop:
  assumes io: "io_kernel sys inp out"
  shows "\<exists>k'. does sys (iterP (cat_pass fd) ()) k (Inr ()) k' \<and> inp k' = (inp k)(fd := []) \<and>
     out k' = (out k)(1 := out k 1 @ inp k fd)"
proof (induction "length (inp k fd)" arbitrary: k rule: less_induct)
  case less
  obtain m d k1 where r: "sys (S_read fd 512) k = ((int m, d), k1)" "d = take m (inp k fd)" "m \<le> length (inp k fd)"
      "m = 0 \<longleftrightarrow> inp k fd = []" "inp k1 = (inp k)(fd := drop m (inp k fd))" "out k1 = out k"
    using io_read_some [OF io, of 512 fd k] by auto
  show ?case
  proof (cases "m = 0")
    case True
    then have "does sys (cat_pass fd ()) k (Inr (Inr ())) k1" using r(1) by (simp add: cat_pass_def)
    then show ?thesis using does_iterP(2) True r(4,5,6) by (intro exI [of _ k1]) auto
  next
    case False
    obtain e k2 where w: "sys (S_write 1 d) k1 = ((int (length d), e), k2)" "inp k2 = inp k1"
        "out k2 = (out k1)(1 := out k1 1 @ d)"
      using io_write [OF io] by metis
    have pass: "does sys (cat_pass fd ()) k (Inr (Inl ())) k2" using r(1,2,3) w(1) False by (simp add: cat_pass_def)
    have "length (inp k2 fd) < length (inp k fd)" using False r(3) by (simp add: w(2) r(5))
    then obtain k' where it: "does sys (iterP (cat_pass fd) ()) k2 (Inr ()) k'" "inp k' = (inp k2)(fd := [])"
        "out k' = (out k2)(1 := out k2 1 @ inp k2 fd)"
      using less.hyps by blast
    have "does sys (iterP (cat_pass fd) ()) k (Inr ()) k'"
      by (rule does_iterP(1) [where body = "cat_pass fd" and l = "()" and l' = "()", OF pass it(1)])
    then show ?thesis by (intro exI [of _ k']) (simp add: it w(2,3) r(2,5,6))
  qed
qed

text \<open>
  C24: \<open>cat\<close> reads a file to its end, returns, and has written exactly the bytes of the file to
  standard output, whatever the sizes of the pieces in which the kernel hands them out.
\<close>

theorem cat_copies:
  assumes "io_kernel sys inp out"
  shows "\<exists>k'. does sys (cat fd) k (Inr ()) k' \<and> inp k' = (inp k)(fd := []) \<and> out k' = (out k)(1 := out k 1 @ inp k fd)"
  unfolding cat_def by (rule cat_loop [OF assms])

theorem cat_copies_witness:
  "\<exists>k'. does (ram_kernel 2) (cat 3) ((\<lambda>_. ''abcdefg''), (\<lambda>_. ''x'')) (Inr ()) k' \<and> snd k' 1 = ''xabcdefg''"
  using cat_copies [OF ram_kernel_io, of 2 3 "((\<lambda>_. ''abcdefg''), (\<lambda>_. ''x''))"] by fastforce

definition blank :: "char \<Rightarrow> bool" where
  "blank x \<longleftrightarrow> x \<in> set [CHR 0x20, CHR 0x0D, CHR 0x09, CHR 0x0A, CHR 0x0B]"

text \<open>The words of a text are its maximal runs of characters that are not blank.\<close>

function words_of :: "string \<Rightarrow> string list" where
  "words_of [] = []"
| "words_of (x # s) =
     (if blank x then words_of s
      else (x # takeWhile (\<lambda>c. \<not> blank c) s) # words_of (dropWhile (\<lambda>c. \<not> blank c) s))"
  by pat_completeness auto
termination by (relation "measure length") (auto simp: less_Suc_eq_le length_dropWhile_le)

text \<open>The same number in one pass: a word starts where a character that is not blank follows one that is.\<close>

fun starts :: "bool \<Rightarrow> string \<Rightarrow> nat" where
  "starts inword [] = 0"
| "starts inword (x # s) = (if blank x then starts False s else (if inword then 0 else 1) + starts True s)"

lemma starts_True: "starts True s = starts False (dropWhile (\<lambda>c. \<not> blank c) s)"
  by (induction s) auto

lemma starts_words: "starts False s = length (words_of s)"
  by (induction s rule: words_of.induct) (auto simp: starts_True)

lemma starts_le: "starts b s \<le> length s"
  by (induction s arbitrary: b) (auto simp: le_SucI)

lemma incr_nat: "n + 1 < 2 ^ 31 \<Longrightarrow> incr (int n) = int (n + 1)"
  unfolding incr_def by (subst signed_take_bit_int_eq_self) auto

lemma wc_char_eq:
  "wc_char x s = \<lparr>wc_l = (if x = CHR 0x0A then incr (wc_l s) else wc_l s),
     wc_w = (if blank x \<or> wc_inword s then wc_w s else incr (wc_w s)),
     wc_c = incr (wc_c s), wc_inword = (\<not> blank x)\<rparr>"
  by (cases s) (auto simp: wc_char_def blank_def Let_def)

lemma wc_fold:
  assumes "c + length d < 2 ^ 31" and "l \<le> c" and "w \<le> c"
  shows "fold wc_char d \<lparr>wc_l = int l, wc_w = int w, wc_c = int c, wc_inword = b\<rparr> =
     \<lparr>wc_l = int (l + count_list d CHR 0x0A), wc_w = int (w + starts b d), wc_c = int (c + length d),
      wc_inword = (if d = [] then b else \<not> blank (last d))\<rparr>"
  using assms
proof (induction d arbitrary: l w c b)
  case (Cons x d)
  let ?l = "if x = CHR 0x0A then l + 1 else l" and ?w = "if blank x \<or> b then w else w + 1"
  have step: "wc_char x \<lparr>wc_l = int l, wc_w = int w, wc_c = int c, wc_inword = b\<rparr> =
      \<lparr>wc_l = int ?l, wc_w = int ?w, wc_c = int (c + 1), wc_inword = (\<not> blank x)\<rparr>"
    using Cons.prems by (simp add: wc_char_eq incr_nat del: of_nat_Suc of_nat_add)
  have rest: "fold wc_char d \<lparr>wc_l = int ?l, wc_w = int ?w, wc_c = int (c + 1), wc_inword = (\<not> blank x)\<rparr> =
      \<lparr>wc_l = int (?l + count_list d CHR 0x0A), wc_w = int (?w + starts (\<not> blank x) d), wc_c = int (c + 1 + length d),
       wc_inword = (if d = [] then \<not> blank x else \<not> blank (last d))\<rparr>"
    using Cons.prems by (intro Cons.IH) simp_all
  have "?l + count_list d CHR 0x0A = l + count_list (x # d) CHR 0x0A" "?w + starts (\<not> blank x) d = w + starts b (x # d)"
      "c + 1 + length d = c + length (x # d)" "(if d = [] then \<not> blank x else \<not> blank (last d)) = (\<not> blank (last (x # d)))"
    by simp_all
  then show ?case by (simp only: fold_simps step rest list.distinct if_False)
qed simp

lemma wc_loop:
  assumes io: "io_kernel sys inp out"
  shows "\<exists>k'. does sys (iterP (wc_pass fd) s) k (Inr (fold wc_char (inp k fd) s)) k' \<and> inp k' = (inp k)(fd := []) \<and> out k' = out k"
proof (induction "length (inp k fd)" arbitrary: k s rule: less_induct)
  case less
  obtain m d k1 where r: "sys (S_read fd 512) k = ((int m, d), k1)" "d = take m (inp k fd)" "m \<le> length (inp k fd)"
      "m = 0 \<longleftrightarrow> inp k fd = []" "inp k1 = (inp k)(fd := drop m (inp k fd))" "out k1 = out k"
    using io_read_some [OF io, of 512 fd k] by auto
  show ?case
  proof (cases "m = 0")
    case True
    then have "does sys (wc_pass fd s) k (Inr (Inr s)) k1" using r(1) by (simp add: wc_pass_def)
    then show ?thesis using does_iterP(2) True r(4,5,6) by (intro exI [of _ k1]) auto
  next
    case False
    let ?s = "fold wc_char d s"
    have pass: "does sys (wc_pass fd s) k (Inr (Inl ?s)) k1" using r(1) False by (simp add: wc_pass_def)
    have "length (inp k1 fd) < length (inp k fd)" using False r(3) by (simp add: r(5))
    then obtain k' where it: "does sys (iterP (wc_pass fd) ?s) k1 (Inr (fold wc_char (inp k1 fd) ?s)) k'"
        "inp k' = (inp k1)(fd := [])" "out k' = out k1"
      using less.hyps by blast
    have "fold wc_char (inp k1 fd) ?s = fold wc_char (d @ inp k1 fd) s" by simp
    also have "d @ inp k1 fd = inp k fd" by (simp add: r(2,5))
    finally have "does sys (iterP (wc_pass fd) s) k (Inr (fold wc_char (inp k fd) s)) k'"
      using does_iterP(1) [where body = "wc_pass fd" and l = s and l' = ?s, OF pass it(1)] by simp
    then show ?thesis by (intro exI [of _ k']) (simp add: it r(5,6))
  qed
qed

definition dec :: "nat \<Rightarrow> string" where
  "dec n = rev (u_printint_digits 10 n)"

lemma u_printint_nat:
  assumes "n < 2 ^ 31"
  shows "rev (u_printint_buf (sint (ucast (of_nat n :: uint64) :: uint32)) 10 True) = dec n"
proof -
  have "ucast (of_nat n :: uint64) = (of_nat n :: uint32)" using assms by (simp add: unsigned_of_nat take_bit_nat_eq_self)
  moreover have "sint (of_nat n :: uint32) = int n" using assms by (simp add: signed_of_nat signed_take_bit_int_eq_self)
  ultimately show ?thesis using assms by (simp add: u_printint_buf_def dec_def)
qed

text \<open>
  C25: on an input of fewer than 2 to the 31 characters, \<open>wc\<close> reads everything, returns, and
  has printed the number of newlines, of words and of characters in decimal, and the name.
\<close>

theorem wc_counts:
  assumes "io_kernel sys inp out" and "length (inp k fd) < 2 ^ 31"
  shows "\<exists>k'. does sys (wc fd name) k (Inr ()) k' \<and> inp k' = (inp k)(fd := []) \<and>
     out k' = (out k)(1 := out k 1 @ dec (count_list (inp k fd) CHR 0x0A) @ '' '' @
       dec (length (words_of (inp k fd))) @ '' '' @ dec (length (inp k fd)) @ '' '' @ name @ ''\<newline>'')"
proof -
  let ?s = "fold wc_char (inp k fd) \<lparr>wc_l = 0, wc_w = 0, wc_c = 0, wc_inword = False\<rparr>"
  let ?args = "[U_num (word_of_int (wc_l ?s)), U_num (word_of_int (wc_w ?s)), U_num (word_of_int (wc_c ?s)), U_str (Some name)]"
  have s: "wc_l ?s = int (count_list (inp k fd) CHR 0x0A)" "wc_w ?s = int (length (words_of (inp k fd)))"
      "wc_c ?s = int (length (inp k fd))"
    using wc_fold [of 0 "inp k fd" 0 0 False] assms(2) by (simp_all add: starts_words)
  have small: "count_list (inp k fd) CHR 0x0A < 2 ^ 31" "length (words_of (inp k fd)) < 2 ^ 31"
    using assms(2) count_le_length [of "inp k fd" "CHR 0x0A"] starts_le [of False "inp k fd"] by (simp_all add: starts_words)
  obtain k1 where 1: "does sys (iterP (wc_pass fd) \<lparr>wc_l = 0, wc_w = 0, wc_c = 0, wc_inword = False\<rparr>) k (Inr ?s) k1"
      "inp k1 = (inp k)(fd := [])" "out k1 = out k"
    using wc_loop [OF assms(1)] by blast
  have "u_render ''%d %d %d %s\<newline>'' ?args = Some (dec (count_list (inp k fd) CHR 0x0A) @ '' '' @
       dec (length (words_of (inp k fd))) @ '' '' @ dec (length (inp k fd)) @ '' '' @ name @ ''\<newline>'')"
    unfolding s using small assms(2) by (simp add: u_printint_nat)
  then obtain k2 where "does sys (u_printf ''%d %d %d %s\<newline>'' ?args) k1 (Inr ()) k2" "inp k2 = inp k1"
      "out k2 = (out k1)(1 := out k1 1 @ dec (count_list (inp k fd) CHR 0x0A) @ '' '' @
       dec (length (words_of (inp k fd))) @ '' '' @ dec (length (inp k fd)) @ '' '' @ name @ ''\<newline>'')"
    using writes_vprintf [OF assms(1)] unfolding writes_def u_printf_def by blast
  then show ?thesis unfolding wc_def using does_bindP [OF 1(1) refl] 1(2,3) by (intro exI [of _ k2]) auto
qed

theorem wc_counts_witness:
  "\<exists>k'. does (ram_kernel 3) (wc 0 ''f'') ((\<lambda>_. ''one two\<newline>three\<newline>''), (\<lambda>_. [])) (Inr ()) k' \<and> snd k' 1 = ''2 3 14 f\<newline>''"
proof -
  let ?t = "''one two\<newline>three\<newline>''"
  have d: "dec 2 = ''2''" "dec 3 = ''3''" "dec 14 = ''14''"
    by (simp_all add: dec_def u_printint_digits.simps u_digits_def)
  have c: "count_list ?t CHR 0x0A = 2" "length ?t = 14" by simp_all
  have w: "length (words_of ?t) = 3" by (simp add: blank_def)
  obtain k' where "does (ram_kernel 3) (wc 0 ''f'') ((\<lambda>_. ?t), (\<lambda>_. [])) (Inr ()) k'"
      "snd k' = (\<lambda>_. [])(1 := dec (count_list ?t CHR 0x0A) @ '' '' @ dec (length (words_of ?t)) @ '' '' @ dec (length ?t) @ '' '' @ ''f'' @ ''\<newline>'')"
    using wc_counts [OF ram_kernel_io, of "((\<lambda>_. ?t), (\<lambda>_. []))" 0 3 "''f''"] unfolding fst_conv snd_conv append_Nil c(2) by auto
  then show ?thesis unfolding c w d by (intro exI [of _ k']) simp
qed

end
