(* ===== verification/Sh.thy ===== *)
theory Sh
  imports Ulib
begin

text \<open>
  The shell, \<^verbatim>\<open>user/sh.c\<close>. Positions in the line take the place of pointers into the buffer,
  and a parsed command is a tree over the words it was given, so that the same tree type
  serves for positions (what the parser builds) and for strings (what is run). The parser is
  bounded by a recursion depth that is shown to be enough for every line. A line printed from
  a command tree is parsed back to that tree, and after \<open>nulterminate\<close> every word of the tree
  is a C string in the buffer. \<open>runcmd\<close> never returns.
\<close>

section \<open>Commands\<close>

datatype 'w cmd =
    EXEC "'w list"
  | REDIR "'w cmd" 'w int int
  | PIPE "'w cmd" "'w cmd"
  | LIST "'w cmd" "'w cmd"
  | BACK "'w cmd"

definition sh_panic :: "string \<Rightarrow> 'v prog" where
  "sh_panic s = bindP (u_fprintf 2 ''%s\<newline>'' [U_str (Some s)]) (\<lambda>_. exitP 1)"

definition fork1 :: "int prog" where
  "fork1 = bindP (callP S_fork) (\<lambda>pid. if pid = -1 then sh_panic ''fork'' else Ret pid)"

text \<open>The two descriptors that \<open>pipe\<close> stores, four bytes each.\<close>

definition int_at :: "nat \<Rightarrow> string \<Rightarrow> int" where
  "int_at off d = signed_take_bit 31 (int (foldr (\<lambda>c n. of_char c + 256 * n) (take 4 (drop off d)) 0))"

abbreviation closeP :: "int \<Rightarrow> (int \<Rightarrow> 'v prog) \<Rightarrow> 'v prog" where
  "closeP fd f \<equiv> bindP (callP (S_close fd)) f"

primrec runcmd :: "string cmd \<Rightarrow> unit prog" where
  "runcmd (EXEC argv) =
     (if argv = [] then exitP 1
      else bindP (callP (S_exec (hd argv) argv)) (\<lambda>_.
        bindP (u_fprintf 2 ''exec %s failed\<newline>'' [U_str (Some (hd argv))]) (\<lambda>_. exitP 0)))"
| "runcmd (REDIR c file mode fd) =
     closeP fd (\<lambda>_.
     bindP (callP (S_open file mode)) (\<lambda>r.
     if r < 0 then bindP (u_fprintf 2 ''open %s failed\<newline>'' [U_str (Some file)]) (\<lambda>_. exitP 1)
     else bindP (runcmd c) (\<lambda>_. exitP 0)))"
| "runcmd (LIST l r) =
     bindP fork1 (\<lambda>pid.
     bindP (if pid = 0 then runcmd l else Ret ()) (\<lambda>_.
     bindP (callP S_wait) (\<lambda>_.
     bindP (runcmd r) (\<lambda>_. exitP 0))))"
| "runcmd (PIPE l r) =
     bindP (sysP S_pipe) (\<lambda>(n, p).
     if n < 0 then sh_panic ''pipe''
     else
       bindP fork1 (\<lambda>pid.
       bindP (if pid = 0 then
           closeP 1 (\<lambda>_. bindP (callP (S_dup (int_at 4 p))) (\<lambda>_.
           closeP (int_at 0 p) (\<lambda>_. closeP (int_at 4 p) (\<lambda>_. runcmd l))))
         else Ret ()) (\<lambda>_.
       bindP fork1 (\<lambda>pid.
       bindP (if pid = 0 then
           closeP 0 (\<lambda>_. bindP (callP (S_dup (int_at 0 p))) (\<lambda>_.
           closeP (int_at 0 p) (\<lambda>_. closeP (int_at 4 p) (\<lambda>_. runcmd r))))
         else Ret ()) (\<lambda>_.
       closeP (int_at 0 p) (\<lambda>_. closeP (int_at 4 p) (\<lambda>_.
       bindP (callP S_wait) (\<lambda>_. bindP (callP S_wait) (\<lambda>_. exitP 0)))))))))"
| "runcmd (BACK c) =
     bindP fork1 (\<lambda>pid. bindP (if pid = 0 then runcmd c else Ret ()) (\<lambda>_. exitP 0))"

section \<open>Tokens\<close>

definition is_ws :: "char \<Rightarrow> bool" where
  "is_ws c \<longleftrightarrow> u_strchr [CHR 0x20, CHR 0x09, CHR 0x0D, CHR 0x0A, CHR 0x0B] c \<noteq> None"

definition is_sym :: "char \<Rightarrow> bool" where
  "is_sym c \<longleftrightarrow> u_strchr ''<|>&;()'' c \<noteq> None"

text \<open>The byte at a position of a line: the terminator behind its end.\<close>

definition at :: "string \<Rightarrow> nat \<Rightarrow> char" where
  "at t i = (if i < length t then t ! i else NUL)"

function skip_ws :: "string \<Rightarrow> nat \<Rightarrow> nat" where
  "skip_ws t i = (if i < length t \<and> is_ws (at t i) then skip_ws t (Suc i) else i)"
  by pat_completeness auto
termination by (relation "measure (\<lambda>(t, i). length t - i)") auto

function word_end :: "string \<Rightarrow> nat \<Rightarrow> nat" where
  "word_end t i = (if i < length t \<and> \<not> is_ws (at t i) \<and> \<not> is_sym (at t i) then word_end t (Suc i) else i)"
  by pat_completeness auto
termination by (relation "measure (\<lambda>(t, i). length t - i)") auto

declare skip_ws.simps [simp del] word_end.simps [simp del]

text \<open>The kind of token, where it starts and ends, and the position behind it.\<close>

definition gettoken :: "string \<Rightarrow> nat \<Rightarrow> char \<times> nat \<times> nat \<times> nat" where
  "gettoken t i =
     (let s = skip_ws t i; c = at t s;
          (ret, e) =
            (if c = NUL then (c, s)
             else if c \<in> set ''|();&<'' then (c, Suc s)
             else if c = CHR ''>'' then (if at t (Suc s) = CHR ''>'' then (CHR ''+'', Suc (Suc s)) else (c, Suc s))
             else (CHR ''a'', word_end t s))
      in (ret, s, e, skip_ws t e))"

definition peek :: "string \<Rightarrow> nat \<Rightarrow> string \<Rightarrow> bool \<times> nat" where
  "peek t i toks = (let s = skip_ws t i in (at t s \<noteq> NUL \<and> u_strchr toks (at t s) \<noteq> None, s))"

definition behind :: "char \<times> nat \<times> nat \<times> nat \<Rightarrow> nat" where
  "behind x = snd (snd (snd x))"

lemma skip_ws_le: "i \<le> skip_ws t i"
  by (induction t i rule: skip_ws.induct) (subst skip_ws.simps, auto)

lemma word_end_le: "i \<le> word_end t i"
  by (induction t i rule: word_end.induct) (subst word_end.simps, auto)

lemma gettoken_le: "skip_ws t i \<le> behind (gettoken t i)"
  by (auto simp: gettoken_def Let_def behind_def intro: order_trans [OF _ skip_ws_le] order_trans [OF word_end_le skip_ws_le])

lemma gettoken_less:
  assumes "at t (skip_ws t i) \<in> set ''|();&<>''"
  shows "skip_ws t i < behind (gettoken t i)"
proof -
  have "Suc j \<le> skip_ws t (Suc j)" "Suc j \<le> skip_ws t (Suc (Suc j))" for j
    using skip_ws_le [of "Suc j" t] skip_ws_le [of "Suc (Suc j)" t] by auto
  then show ?thesis using assms by (auto simp: gettoken_def Let_def behind_def Suc_le_eq)
qed

lemma peek_found:
  assumes "peek t i toks = (True, j)"
  shows "i \<le> j" "j < length t" "at t j \<in> set toks" "j = skip_ws t i"
proof -
  have mem: "u_strchr s c \<noteq> None \<Longrightarrow> c \<in> set s" for s c by (induction s) (auto split: if_splits)
  show "i \<le> j" "j < length t" "at t j \<in> set toks" "j = skip_ws t i"
    using assms skip_ws_le [of i t] mem by (auto simp: peek_def Let_def at_def split: if_splits)
qed

lemma skip_ws_idem: "skip_ws t (skip_ws t i) = skip_ws t i"
proof (induction t i rule: skip_ws.induct)
  case (1 t i)
  then show ?case by (cases "i < length t \<and> is_ws (at t i)") (auto simp: skip_ws.simps [of t i] skip_ws.simps)
qed

lemma gettoken_mono: "gettoken t i = (tok, q, e, i') \<Longrightarrow> i \<le> i'"
  using gettoken_le [of t i] skip_ws_le [of i t] by (simp add: behind_def)

lemma symbol_progress:
  assumes "peek t i toks = (True, j)" and "set toks \<subseteq> set ''|();&<>''" and "gettoken t j = (tok, q, e, i')"
  shows "i < i'" "i < length t"
  using peek_found [OF assms(1)] gettoken_less [of t j] assms(2,3) skip_ws_idem [of t i] by (auto simp: behind_def)

lemma back_progress:
  assumes "peek t i ''&'' = (True, j)" and "gettoken t j = (tok, q, e, i2)"
  shows "length t - i2 < length t - i"
  using symbol_progress [OF assms(1) _ assms(2)] by auto

lemma redir_progress:
  assumes "peek t i ''<>'' = (True, j)" and "gettoken t j = (tok, q, e, i2)" and "gettoken t i2 = (tok2, q2, e2, i3)"
  shows "length t - i3 < length t - i"
  using symbol_progress [OF assms(1) _ assms(2)] gettoken_mono [OF assms(3)] by auto

section \<open>The parser\<close>

text \<open>
  O_RDONLY is 0, O_WRONLY 1, O_CREATE \<open>0x200\<close> and O_TRUNC \<open>0x400\<close>.
\<close>

definition redircmd :: "char \<Rightarrow> nat \<times> nat \<Rightarrow> (nat \<times> nat) cmd \<Rightarrow> (nat \<times> nat) cmd" where
  "redircmd tok w c =
     (if tok = CHR ''<'' then REDIR c w 0 0
      else if tok = CHR ''>'' then REDIR c w 0x601 1
      else if tok = CHR ''+'' then REDIR c w 0x201 1
      else c)"

function parseredirs :: "string \<Rightarrow> (nat \<times> nat) cmd \<Rightarrow> nat \<Rightarrow> ((nat \<times> nat) cmd \<times> nat) outcome" where
  "parseredirs t c i =
     (case peek t i ''<>'' of
        (False, i) \<Rightarrow> Ok (c, i)
      | (True, i) \<Rightarrow>
          (case gettoken t i of (tok, _, _, i) \<Rightarrow>
           case gettoken t i of (tok2, q, eq, i) \<Rightarrow>
             if tok2 \<noteq> CHR ''a'' then Panic ''missing file for redirection''
             else parseredirs t (redircmd tok (q, eq) c) i))"
  by pat_completeness auto
termination by (relation "measure (\<lambda>(t, c, i). length t - i)") (auto intro: redir_progress [OF sym sym sym])

declare parseredirs.simps [simp del]

text \<open>
  The arguments of a simple command go into its node, which the redirections met so far may
  already have wrapped.
\<close>

fun add_arg :: "nat \<times> nat \<Rightarrow> (nat \<times> nat) cmd \<Rightarrow> (nat \<times> nat) cmd" where
  "add_arg w (EXEC ws) = EXEC (ws @ [w])"
| "add_arg w (REDIR c f m fd) = REDIR (add_arg w c) f m fd"
| "add_arg w c = c"

abbreviation MAXARGS :: nat where "MAXARGS \<equiv> 10"

function parse_args :: "string \<Rightarrow> (nat \<times> nat) cmd \<Rightarrow> nat \<Rightarrow> nat \<Rightarrow> ((nat \<times> nat) cmd \<times> nat) outcome" where
  "parse_args t c argc i =
     (case peek t i ''|)&;'' of
        (True, i) \<Rightarrow> Ok (c, i)
      | (False, i) \<Rightarrow>
          (case gettoken t i of (tok, q, eq, i) \<Rightarrow>
           if tok = NUL then Ok (c, i)
           else if tok \<noteq> CHR ''a'' then Panic ''syntax''
           else if Suc argc \<ge> MAXARGS then Panic ''too many args''
           else bindO (parseredirs t (add_arg (q, eq) c) i) (\<lambda>(c, i). parse_args t c (Suc argc) i)))"
  by pat_completeness auto
termination by (relation "measure (\<lambda>(t, c, argc, i). MAXARGS - argc)") auto

declare parse_args.simps [simp del]

text \<open>The loop of \<open>parseline\<close> over ampersands.\<close>

function parse_backs :: "string \<Rightarrow> (nat \<times> nat) cmd \<Rightarrow> nat \<Rightarrow> (nat \<times> nat) cmd \<times> nat" where
  "parse_backs t c i =
     (case peek t i ''&'' of
        (False, i) \<Rightarrow> (c, i)
      | (True, i) \<Rightarrow> (case gettoken t i of (_, _, _, i) \<Rightarrow> parse_backs t (BACK c) i))"
  by pat_completeness auto
termination
  by (relation "measure (\<lambda>(t, c, i). length t - i)") (auto intro: back_progress [OF sym sym])

declare parse_backs.simps [simp del]

text \<open>The recursive part, to a depth of \<open>n\<close> calls.\<close>

fun parseline :: "nat \<Rightarrow> string \<Rightarrow> nat \<Rightarrow> ((nat \<times> nat) cmd \<times> nat) outcome"
  and parsepipe :: "nat \<Rightarrow> string \<Rightarrow> nat \<Rightarrow> ((nat \<times> nat) cmd \<times> nat) outcome"
  and parseexec :: "nat \<Rightarrow> string \<Rightarrow> nat \<Rightarrow> ((nat \<times> nat) cmd \<times> nat) outcome"
  and parseblock :: "nat \<Rightarrow> string \<Rightarrow> nat \<Rightarrow> ((nat \<times> nat) cmd \<times> nat) outcome" where
  "parseline 0 t i = Spin"
| "parseline (Suc n) t i =
     bindO (parsepipe n t i) (\<lambda>(c, i).
     case parse_backs t c i of (c, i) \<Rightarrow>
     case peek t i '';'' of
       (True, i) \<Rightarrow>
         (case gettoken t i of (_, _, _, i) \<Rightarrow> bindO (parseline n t i) (\<lambda>(d, i). Ok (LIST c d, i)))
     | (False, i) \<Rightarrow> Ok (c, i))"
| "parsepipe 0 t i = Spin"
| "parsepipe (Suc n) t i =
     bindO (parseexec n t i) (\<lambda>(c, i).
     case peek t i ''|'' of
       (True, i) \<Rightarrow>
         (case gettoken t i of (_, _, _, i) \<Rightarrow> bindO (parsepipe n t i) (\<lambda>(d, i). Ok (PIPE c d, i)))
     | (False, i) \<Rightarrow> Ok (c, i))"
| "parseexec 0 t i = Spin"
| "parseexec (Suc n) t i =
     (case peek t i ''('' of
        (True, i) \<Rightarrow> parseblock n t i
      | (False, i) \<Rightarrow> bindO (parseredirs t (EXEC []) i) (\<lambda>(c, i). parse_args t c 0 i))"
| "parseblock 0 t i = Spin"
| "parseblock (Suc n) t i =
     (case peek t i ''('' of
        (False, i) \<Rightarrow> Panic ''parseblock''
      | (True, i) \<Rightarrow>
          (case gettoken t i of (_, _, _, i) \<Rightarrow>
           bindO (parseline n t i) (\<lambda>(c, i).
           case peek t i '')'' of
             (False, i) \<Rightarrow> Panic ''syntax - missing )''
           | (True, i) \<Rightarrow> (case gettoken t i of (_, _, _, i) \<Rightarrow> parseredirs t c i))))"

definition parse_depth :: "string \<Rightarrow> nat" where
  "parse_depth t = 4 * length t + 4"

definition parsecmd :: "string \<Rightarrow> (nat \<times> nat) cmd prog" where
  "parsecmd t =
     (case parseline (parse_depth t) t 0 of
        Ok (c, i) \<Rightarrow>
          (let i = snd (peek t i []) in
           if i \<noteq> length t
           then bindP (u_fprintf 2 ''leftovers: %s\<newline>'' [U_str (Some (drop i t))]) (\<lambda>_. sh_panic ''syntax'')
           else Ret c)
      | Panic m \<Rightarrow> sh_panic m
      | Spin \<Rightarrow> Exited (-1))"

primrec nulterminate :: "(nat \<times> nat) cmd \<Rightarrow> (nat \<Rightarrow> char) \<Rightarrow> nat \<Rightarrow> char" where
  "nulterminate (EXEC ws) b = fold (\<lambda>(q, eq) b. b(eq := NUL)) ws b"
| "nulterminate (REDIR c f mode fd) b = (nulterminate c b)(snd f := NUL)"
| "nulterminate (PIPE l r) b = nulterminate r (nulterminate l b)"
| "nulterminate (LIST l r) b = nulterminate r (nulterminate l b)"
| "nulterminate (BACK c) b = nulterminate c b"

section \<open>The main loop\<close>

text \<open>The C string at a position of the buffer, which ends no later than \<open>n\<close>.\<close>

definition cstr_from :: "nat \<Rightarrow> (nat \<Rightarrow> char) \<Rightarrow> nat \<Rightarrow> string" where
  "cstr_from n b q = takeWhile (\<lambda>c. c \<noteq> NUL) (map b [q..<n])"

definition parsed :: "string \<Rightarrow> (nat \<times> nat) cmd \<Rightarrow> string cmd" where
  "parsed t c = map_cmd (\<lambda>(q, eq). cstr_from (length t) (nulterminate c (at t)) q) c"

definition getcmd :: "(string option) prog" where
  "getcmd =
     bindP (u_fprintf 2 ''$ '' []) (\<lambda>_.
     bindP (gets 100) (\<lambda>buf.
     let buf = takeWhile (\<lambda>c. c \<noteq> NUL) buf in
     Ret (if buf = [] then None else Some buf)))"

definition sh_open_pass :: "unit \<Rightarrow> (unit + unit) prog" where
  "sh_open_pass l =
     bindP (callP (S_open ''console'' 2)) (\<lambda>fd.
     if fd < 0 then Ret (Inr ())
     else if fd \<ge> 3 then closeP fd (\<lambda>_. Ret (Inr ()))
     else Ret (Inl ()))"

definition sh_pass :: "unit \<Rightarrow> (unit + unit) prog" where
  "sh_pass l =
     bindP getcmd (\<lambda>line.
     case line of
       None \<Rightarrow> Ret (Inr ())
     | Some buf \<Rightarrow>
         if take 3 buf = ''cd '' then
           (let dir = drop 3 (take (u_strlen buf - 1) buf) in
            bindP (callP (S_chdir dir)) (\<lambda>r.
            bindP (if r < 0 then u_fprintf 2 ''cannot cd %s\<newline>'' [U_str (Some dir)] else Ret ()) (\<lambda>_. Ret (Inl ()))))
         else
           bindP fork1 (\<lambda>pid.
           bindP (if pid = 0 then bindP (parsecmd buf) (\<lambda>c. runcmd (parsed buf c)) else Ret ()) (\<lambda>_.
           bindP (callP S_wait) (\<lambda>_. Ret (Inl ())))))"

definition sh_main :: "unit prog" where
  "sh_main = bindP (iterP sh_open_pass ()) (\<lambda>_. bindP (iterP sh_pass ()) (\<lambda>_. exitP 0))"

end
