(* ===== verification/Shparse.thy ===== *)
theory Shparse
  imports Sh
begin

text \<open>
  What the shell's parser does: it never runs out of depth, the words of the tree it builds
  are words of the line that stay intact when the others are terminated, and it inverts the
  printing of command trees.
\<close>

section \<open>The parser returns\<close>

text \<open>A part of the parser returns, and not to a position before \<open>i\<close>.\<close>

definition returns_from :: "nat \<Rightarrow> ('c \<times> nat) outcome \<Rightarrow> bool" where
  "returns_from i m \<longleftrightarrow> m \<noteq> Spin \<and> (\<forall>c j. m = Ok (c, j) \<longrightarrow> i \<le> j)"

lemma returns_from_simps [simp]: "returns_from i (Ok (c, j)) \<longleftrightarrow> i \<le> j" "returns_from i (Panic e)" "\<not> returns_from i Spin"
  by (simp_all add: returns_from_def)

lemma returns_from_le: "returns_from j m \<Longrightarrow> i \<le> j \<Longrightarrow> returns_from i m"
  by (fastforce simp: returns_from_def)

lemma returns_bind:
  assumes "returns_from i m" and "\<And>c j. m = Ok (c, j) \<Longrightarrow> i \<le> j \<Longrightarrow> returns_from i (f (c, j))"
  shows "returns_from i (bindO m f)"
  using assms by (cases m) (auto simp: returns_from_def)

lemma peek_le: "peek t i toks = (b, j) \<Longrightarrow> i \<le> j"
  using skip_ws_le [of i t] by (auto simp: peek_def Let_def)

lemma parseredirs_returns: "returns_from i (parseredirs t c i)"
proof (induction t c i rule: parseredirs.induct)
  case (1 t c i)
  obtain b i1 where p: "peek t i ''<>'' = (b, i1)" by fastforce
  obtain tok q e i2 where g: "gettoken t i1 = (tok, q, e, i2)" by (metis prod_cases4)
  obtain tok2 q2 e2 i3 where g2: "gettoken t i2 = (tok2, q2, e2, i3)" by (metis prod_cases4)
  have "i \<le> i1" "i \<le> i3" using peek_le [OF p] gettoken_mono [OF g] gettoken_mono [OF g2] by linarith+
  then show ?case
    using 1 [of b i1 tok "(q, e, i2)" q "(e, i2)" e i2 tok2 "(q2, e2, i3)" q2 "(e2, i3)" e2 i3] p g g2
    by (subst parseredirs.simps) (auto intro: returns_from_le split: bool.splits)
qed

lemma parse_args_returns: "returns_from i (parse_args t c argc i)"
proof (induction "MAXARGS - argc" arbitrary: argc c i rule: less_induct)
  case less
  obtain b i1 where p: "peek t i ''|)&;'' = (b, i1)" by fastforce
  obtain tok q e i2 where g: "gettoken t i1 = (tok, q, e, i2)" by (metis prod_cases4)
  have le: "i \<le> i1" "i \<le> i2" using peek_le [OF p] gettoken_mono [OF g] by linarith+
  have "returns_from i (bindO (parseredirs t (add_arg (q, e) c) i2) (\<lambda>(c, i). parse_args t c (Suc argc) i))"
    if "\<not> MAXARGS \<le> Suc argc"
  proof (rule returns_bind [OF returns_from_le [OF parseredirs_returns le(2)]])
    fix c' j
    assume "i \<le> j"
    moreover have "returns_from j (parse_args t c' (Suc argc) j)" using that by (intro less) simp
    ultimately show "returns_from i (case (c', j) of (c, i) \<Rightarrow> parse_args t c (Suc argc) i)" by (simp add: returns_from_le)
  qed
  then show ?case using p g le by (subst parse_args.simps) (auto split: bool.splits)
qed

lemma parse_backs_le: "parse_backs t c i = (c', j) \<Longrightarrow> i \<le> j"
proof (induction "length t - i" arbitrary: c i rule: less_induct)
  case less
  obtain b i1 where p: "peek t i ''&'' = (b, i1)" by fastforce
  obtain tok q e i2 where g: "gettoken t i1 = (tok, q, e, i2)" by (metis prod_cases4)
  have le: "i \<le> i1" "i \<le> i2" using peek_le [OF p] gettoken_mono [OF g] by linarith+
  have eq: "parse_backs t c i = (if b then parse_backs t (BACK c) i2 else (c, i1))"
    using p g by (subst parse_backs.simps) (simp split: bool.splits)
  show ?case
  proof (cases b)
    case True
    then have "length t - i2 < length t - i" using back_progress [of t i i1] p g by simp
    then show ?thesis using less eq True le(2) by fastforce
  qed (use less eq le in simp)
qed

text \<open>One level of each function, given that the next one returns.\<close>

lemma parseline_step:
  assumes pipe: "\<And>j. 4 * (length t - j) + 3 \<le> n \<Longrightarrow> returns_from j (parsepipe n t j)"
    and line: "\<And>j. 4 * (length t - j) + 4 \<le> n \<Longrightarrow> returns_from j (parseline n t j)"
    and d: "4 * (length t - i) + 4 \<le> Suc n"
  shows "returns_from i (parseline (Suc n) t i)"
  unfolding parseline.simps
proof (rule returns_bind, use d in \<open>simp add: pipe\<close>)
  fix c j
  assume "i \<le> j"
  obtain c1 j1 where b: "parse_backs t c j = (c1, j1)" by fastforce
  obtain f j2 where p: "peek t j1 '';'' = (f, j2)" by fastforce
  obtain tok q e j3 where g: "gettoken t j2 = (tok, q, e, j3)" by (metis prod_cases4)
  have le: "i \<le> j1" "i \<le> j2" "i \<le> j3"
    using \<open>i \<le> j\<close> parse_backs_le [OF b] peek_le [OF p] gettoken_mono [OF g] by linarith+
  have "returns_from i (bindO (parseline n t j3) (\<lambda>(d, i). Ok (LIST c1 d, i)))" if f
  proof (rule returns_bind)
    have "j1 < j3" "j1 < length t" using symbol_progress [of t j1 "'';''" j2] p g that by auto
    then have "4 * (length t - j3) + 4 \<le> n" using d le(1) by linarith
    then show "returns_from i (parseline n t j3)" using line le(3) returns_from_le by blast
  qed simp
  then show "returns_from i (case (c, j) of (c, i) \<Rightarrow>
      case parse_backs t c i of (c, i) \<Rightarrow>
      case peek t i '';'' of
        (True, i) \<Rightarrow> (case gettoken t i of (_, _, _, i) \<Rightarrow> bindO (parseline n t i) (\<lambda>(d, i). Ok (LIST c d, i)))
      | (False, i) \<Rightarrow> Ok (c, i))"
    using b p g le by (auto split: bool.splits)
qed

lemma parsepipe_step:
  assumes exec: "\<And>j. 4 * (length t - j) + 2 \<le> n \<Longrightarrow> returns_from j (parseexec n t j)"
    and pipe: "\<And>j. 4 * (length t - j) + 3 \<le> n \<Longrightarrow> returns_from j (parsepipe n t j)"
    and d: "4 * (length t - i) + 3 \<le> Suc n"
  shows "returns_from i (parsepipe (Suc n) t i)"
  unfolding parsepipe.simps
proof (rule returns_bind, use d in \<open>simp add: exec\<close>)
  fix c j
  assume j: "i \<le> j"
  obtain f j2 where p: "peek t j ''|'' = (f, j2)" by fastforce
  obtain tok q e j3 where g: "gettoken t j2 = (tok, q, e, j3)" by (metis prod_cases4)
  have le: "i \<le> j2" "i \<le> j3" using j peek_le [OF p] gettoken_mono [OF g] by linarith+
  have "returns_from i (bindO (parsepipe n t j3) (\<lambda>(d, i). Ok (PIPE c d, i)))" if f
  proof (rule returns_bind)
    have "j < j3" "j < length t" using symbol_progress [of t j "''|''" j2] p g that by auto
    then have "4 * (length t - j3) + 3 \<le> n" using d j by linarith
    then show "returns_from i (parsepipe n t j3)" using pipe le(2) returns_from_le by blast
  qed simp
  then show "returns_from i (case (c, j) of (c, i) \<Rightarrow>
      case peek t i ''|'' of
        (True, i) \<Rightarrow> (case gettoken t i of (_, _, _, i) \<Rightarrow> bindO (parsepipe n t i) (\<lambda>(d, i). Ok (PIPE c d, i)))
      | (False, i) \<Rightarrow> Ok (c, i))"
    using p g le by (auto split: bool.splits)
qed

lemma parseexec_step:
  assumes block: "\<And>j. j < length t \<Longrightarrow> 4 * (length t - j) + 1 \<le> n \<Longrightarrow> returns_from j (parseblock n t j)"
    and d: "4 * (length t - i) + 2 \<le> Suc n"
  shows "returns_from i (parseexec (Suc n) t i)"
proof -
  obtain f j where p: "peek t i ''('' = (f, j)" by fastforce
  have le: "i \<le> j" using peek_le [OF p] .
  have "returns_from i (parseblock n t j)" if f
  proof -
    have "j < length t" "4 * (length t - j) + 1 \<le> n" using peek_found [of t i "''(''" j] p that d le by auto
    then show ?thesis using block le returns_from_le by blast
  qed
  moreover have "returns_from i (bindO (parseredirs t (EXEC []) j) (\<lambda>(c, i). parse_args t c 0 i))"
    by (rule returns_bind [OF returns_from_le [OF parseredirs_returns le]]) (auto intro: returns_from_le [OF parse_args_returns])
  ultimately show ?thesis using p by (auto split: bool.splits)
qed

lemma parseblock_step:
  assumes line: "\<And>j. 4 * (length t - j) + 4 \<le> n \<Longrightarrow> returns_from j (parseline n t j)"
    and i: "i < length t" and d: "4 * (length t - i) + 1 \<le> Suc n"
  shows "returns_from i (parseblock (Suc n) t i)"
proof -
  obtain f j where p: "peek t i ''('' = (f, j)" by fastforce
  obtain tok q e j1 where g: "gettoken t j = (tok, q, e, j1)" by (metis prod_cases4)
  have "returns_from i
      (case peek t k '')'' of
         (False, i) \<Rightarrow> Panic ''syntax - missing )''
       | (True, i) \<Rightarrow> (case gettoken t i of (_, _, _, i) \<Rightarrow> parseredirs t c i))" if "i \<le> k" for c k
  proof -
    obtain f k1 where p: "peek t k '')'' = (f, k1)" by fastforce
    obtain tok q e k2 where g: "gettoken t k1 = (tok, q, e, k2)" by (metis prod_cases4)
    have "i \<le> k2" using that peek_le [OF p] gettoken_mono [OF g] by linarith
    then show ?thesis using p g returns_from_le [OF parseredirs_returns] by (auto split: bool.splits)
  qed
  moreover have "returns_from i (parseline n t j1)" if f
  proof -
    have "i < j1" using symbol_progress [of t i "''(''" j] p g that by auto
    then have "4 * (length t - j1) + 4 \<le> n" "i \<le> j1" using d i by linarith+
    then show ?thesis using line returns_from_le by blast
  qed
  ultimately show ?thesis using p g by (auto intro!: returns_bind split: bool.splits)
qed

lemma parse_returns:
  "(4 * (length t - i) + 4 \<le> n \<longrightarrow> returns_from i (parseline n t i)) \<and>
   (4 * (length t - i) + 3 \<le> n \<longrightarrow> returns_from i (parsepipe n t i)) \<and>
   (4 * (length t - i) + 2 \<le> n \<longrightarrow> returns_from i (parseexec n t i)) \<and>
   (i < length t \<longrightarrow> 4 * (length t - i) + 1 \<le> n \<longrightarrow> returns_from i (parseblock n t i))"
proof (induction n arbitrary: i)
  case (Suc n)
  then show ?case by (intro conjI impI parseline_step parsepipe_step parseexec_step parseblock_step) blast+
qed simp

text \<open>A larger depth changes nothing once the parser returns.\<close>

lemma bindO_deeper:
  assumes "bindO m f \<noteq> Spin" and "m \<noteq> Spin \<Longrightarrow> m' = m" and "\<And>x. m = Ok x \<Longrightarrow> f x \<noteq> Spin \<Longrightarrow> f' x = f x"
  shows "bindO m' f' = bindO m f"
  using assms by (cases m) auto

lemma parse_deeper:
  "(parseline n t i \<noteq> Spin \<longrightarrow> parseline (n + k) t i = parseline n t i) \<and>
   (parsepipe n t i \<noteq> Spin \<longrightarrow> parsepipe (n + k) t i = parsepipe n t i) \<and>
   (parseexec n t i \<noteq> Spin \<longrightarrow> parseexec (n + k) t i = parseexec n t i) \<and>
   (parseblock n t i \<noteq> Spin \<longrightarrow> parseblock (n + k) t i = parseblock n t i)"
proof (induction n arbitrary: i)
  case (Suc n)
  show ?case
    unfolding add_Suc parseline.simps parsepipe.simps parseexec.simps parseblock.simps
    by (intro conjI impI; (erule bindO_deeper)?; (auto simp: Suc split: prod.splits bool.splits intro!: bindO_deeper)?)
qed simp

text \<open>
  C26: the recursive-descent parser of the shell returns on every line, with a tree or with an
  error message: nested as deep as it may be, a line never needs more than four calls for
  each of its characters, and a larger bound on the depth gives the same result.
\<close>

theorem parseline_returns:
  assumes "parse_depth t \<le> n"
  shows "parseline n t 0 \<noteq> Spin \<and> parseline n t 0 = parseline (parse_depth t) t 0"
proof -
  have "returns_from 0 (parseline (parse_depth t) t 0)" using parse_returns [of t 0 "parse_depth t"] by (simp add: parse_depth_def)
  then have "parseline (parse_depth t) t 0 \<noteq> Spin" by (simp add: returns_from_def)
  then show ?thesis using parse_deeper [of "parse_depth t" t 0 "n - parse_depth t"] assms by simp
qed

theorem parseline_returns_witness: "parseline 100 ''(a|b)&'' 0 \<noteq> Spin"
proof -
  have "parse_depth ''(a|b)&'' \<le> 100" by (simp add: parse_depth_def)
  then show ?thesis using parseline_returns by blast
qed

section \<open>Words stay intact\<close>

definition word_at :: "string \<Rightarrow> nat \<Rightarrow> bool" where
  "word_at t i \<longleftrightarrow> i < length t \<and> \<not> is_ws (at t i) \<and> \<not> is_sym (at t i)"

definition span_ok :: "string \<Rightarrow> nat \<times> nat \<Rightarrow> bool" where
  "span_ok t w \<longleftrightarrow> fst w < snd w \<and> snd w \<le> length t \<and> (\<forall>i. fst w \<le> i \<and> i < snd w \<longrightarrow> word_at t i) \<and> \<not> word_at t (snd w)"

lemma word_end_spec: "i \<le> length t \<Longrightarrow> word_end t i \<le> length t \<and> (\<forall>j. i \<le> j \<and> j < word_end t i \<longrightarrow> word_at t j) \<and> \<not> word_at t (word_end t i)"
proof (induction t i rule: word_end.induct)
  case (1 t i)
  show ?case
  proof (cases "word_at t i")
    case True
    then have e: "word_end t i = word_end t (Suc i)" by (subst word_end.simps) (simp add: word_at_def)
    have IH: "word_end t (Suc i) \<le> length t" "\<forall>j. Suc i \<le> j \<and> j < word_end t (Suc i) \<longrightarrow> word_at t j"
        "\<not> word_at t (word_end t (Suc i))"
      using 1(1) [OF True [unfolded word_at_def] Suc_leI] True unfolding word_at_def [of t i] by blast+
    have "word_at t j" if "i \<le> j" "j < word_end t (Suc i)" for j
      using IH(2) True that by (cases "i = j") auto
    then show ?thesis unfolding e using IH by blast
  next
    case False
    then have "word_end t i = i" by (subst word_end.simps) (auto simp: word_at_def)
    then show ?thesis using False 1(2) by auto
  qed
qed

lemma skip_ws_stop: "skip_ws t i < length t \<Longrightarrow> \<not> is_ws (at t (skip_ws t i))"
proof (induction t i rule: skip_ws.induct)
  case (1 t i)
  show ?case
  proof (cases "i < length t \<and> is_ws (at t i)")
    case True
    then have "skip_ws t i = skip_ws t (Suc i)" by (subst skip_ws.simps) simp
    then show ?thesis using 1 True by simp
  next
    case False
    then have "skip_ws t i = i" by (subst skip_ws.simps) auto
    then show ?thesis using 1(2) False by simp
  qed
qed

lemma gettoken_span:
  assumes "gettoken t i = (CHR ''a'', q, e, i')" and "NUL \<notin> set t"
  shows "span_ok t (q, e)"
proof -
  let ?s = "skip_ws t i" let ?c = "at t (skip_ws t i)"
  have c: "?c \<noteq> NUL" "?c \<notin> set ''|();&<''" "?c \<noteq> CHR ''>''" and qe: "q = ?s" "e = word_end t ?s"
    using assms(1) by (auto simp: gettoken_def Let_def split: if_splits)
  have l: "?s < length t" using c(1) by (auto simp: at_def split: if_splits)
  then have "word_at t ?s" using c skip_ws_stop [OF l] by (auto simp: word_at_def is_sym_def split: if_splits)
  moreover have "\<not> word_at t (word_end t ?s)" "?s \<le> word_end t ?s" "word_end t ?s \<le> length t"
      "\<forall>j. ?s \<le> j \<and> j < word_end t ?s \<longrightarrow> word_at t j"
    using word_end_spec [of ?s t] l word_end_le [of ?s t] by auto
  moreover have "?s \<noteq> word_end t ?s" using calculation(1,2) by metis
  ultimately show ?thesis unfolding span_ok_def qe by auto
qed

definition words_ok :: "string \<Rightarrow> (nat \<times> nat) cmd \<Rightarrow> bool" where
  "words_ok t c \<longleftrightarrow> (\<forall>w \<in> set_cmd c. span_ok t w)"

definition yields :: "('c \<Rightarrow> bool) \<Rightarrow> ('c \<times> nat) outcome \<Rightarrow> bool" where
  "yields P m \<longleftrightarrow> (\<forall>c j. m = Ok (c, j) \<longrightarrow> P c)"

lemma yields_simps [simp]: "yields P (Ok (c, j)) \<longleftrightarrow> P c" "yields P (Panic e)" "yields P Spin"
  by (simp_all add: yields_def)

lemma yields_bind:
  assumes "yields P m" and "\<And>c j. P c \<Longrightarrow> yields Q (f (c, j))"
  shows "yields Q (bindO m f)"
proof (cases m)
  case (Ok x)
  then obtain c j where "x = (c, j)" "P c" using assms(1) by (cases x) auto
  then show ?thesis using Ok assms(2) by simp
qed simp_all

lemma words_ok_simps [simp]:
  "words_ok t (EXEC ws) \<longleftrightarrow> list_all (span_ok t) ws" "words_ok t (REDIR c f m fd) \<longleftrightarrow> words_ok t c \<and> span_ok t f"
  "words_ok t (PIPE c d) \<longleftrightarrow> words_ok t c \<and> words_ok t d" "words_ok t (LIST c d) \<longleftrightarrow> words_ok t c \<and> words_ok t d"
  "words_ok t (BACK c) \<longleftrightarrow> words_ok t c"
  by (auto simp: words_ok_def list_all_iff)

lemma words_ok_add_arg: "words_ok t c \<Longrightarrow> span_ok t w \<Longrightarrow> words_ok t (add_arg w c)"
  by (induction w c rule: add_arg.induct) auto

lemma parseredirs_words:
  assumes "NUL \<notin> set t" and "words_ok t c"
  shows "yields (words_ok t) (parseredirs t c i)"
  using assms(2)
proof (induction "length t - i" arbitrary: c i rule: less_induct)
  case less
  obtain b i1 where p: "peek t i ''<>'' = (b, i1)" by fastforce
  obtain tok q e i2 where g: "gettoken t i1 = (tok, q, e, i2)" by (metis prod_cases4)
  obtain tok2 q2 e2 i3 where g2: "gettoken t i2 = (tok2, q2, e2, i3)" by (metis prod_cases4)
  have "yields (words_ok t) (parseredirs t (redircmd tok (q2, e2) c) i3)" if "b" "tok2 = CHR ''a''"
  proof (rule less.hyps)
    show "length t - i3 < length t - i" using redir_progress [of t i i1 tok q e i2] p g g2 that by simp
    show "words_ok t (redircmd tok (q2, e2) c)"
      using less.prems gettoken_span [OF _ assms(1)] g2 that by (simp add: redircmd_def)
  qed
  then show ?case using less.prems p g g2 by (subst parseredirs.simps) (auto split: bool.splits)
qed

lemma parse_args_words:
  assumes "NUL \<notin> set t" and "words_ok t c"
  shows "yields (words_ok t) (parse_args t c argc i)"
  using assms(2)
proof (induction "MAXARGS - argc" arbitrary: argc c i rule: less_induct)
  case less
  obtain b i1 where p: "peek t i ''|)&;'' = (b, i1)" by fastforce
  obtain tok q e i2 where g: "gettoken t i1 = (tok, q, e, i2)" by (metis prod_cases4)
  have "yields (words_ok t) (bindO (parseredirs t (add_arg (q, e) c) i2) (\<lambda>(c, i). parse_args t c (Suc argc) i))"
    if "tok = CHR ''a''" "\<not> MAXARGS \<le> Suc argc"
  proof (rule yields_bind)
    show "yields (words_ok t) (parseredirs t (add_arg (q, e) c) i2)"
      using less.prems gettoken_span [OF _ assms(1)] g that(1) by (intro parseredirs_words [OF assms(1)] words_ok_add_arg) auto
  qed (use less.hyps that(2) in auto)
  then show ?case using less.prems p g by (subst parse_args.simps) (auto split: bool.splits)
qed

lemma parse_backs_words: "words_ok t c \<Longrightarrow> words_ok t (fst (parse_backs t c i))"
proof (induction "length t - i" arbitrary: c i rule: less_induct)
  case less
  obtain b i1 where p: "peek t i ''&'' = (b, i1)" by fastforce
  obtain tok q e i2 where g: "gettoken t i1 = (tok, q, e, i2)" by (metis prod_cases4)
  have "parse_backs t c i = (if b then parse_backs t (BACK c) i2 else (c, i1))"
    using p g by (subst parse_backs.simps) (simp split: bool.splits)
  then show ?case using less back_progress [of t i i1] p g by (cases b) auto
qed

lemma parse_words:
  assumes nul: "NUL \<notin> set t"
  shows "yields (words_ok t) (parseline n t i) \<and> yields (words_ok t) (parsepipe n t i) \<and>
     yields (words_ok t) (parseexec n t i) \<and> yields (words_ok t) (parseblock n t i)"
proof (induction n arbitrary: i)
  case (Suc n)
  have backs: "parse_backs t c i = (c', j) \<Longrightarrow> words_ok t c \<Longrightarrow> words_ok t c'" for c c' i j
    using parse_backs_words [of t c i] by simp
  have line: "yields (words_ok t) (parseline (Suc n) t i)"
    by (auto split: prod.splits bool.splits intro!: yields_bind [where P = "words_ok t"] simp: Suc) (blast dest: backs)+
  moreover have "yields (words_ok t) (parsepipe (Suc n) t i)"
    by (auto split: prod.splits bool.splits intro!: yields_bind [where P = "words_ok t"] simp: Suc)
  moreover have "yields (words_ok t) (parseexec (Suc n) t i)"
    by (auto split: prod.splits bool.splits intro!: yields_bind [where P = "words_ok t"] parseredirs_words [OF nul] parse_args_words [OF nul] simp: Suc)
  moreover have "yields (words_ok t) (parseblock (Suc n) t i)"
    by (auto split: prod.splits bool.splits intro!: yields_bind [where P = "words_ok t"] parseredirs_words [OF nul] simp: Suc)
  ultimately show ?case by blast
qed simp

lemma bindP_eq_Ret: "bindP t f = Ret v \<longleftrightarrow> (\<exists>u. t = Ret u \<and> f u = Ret v)"
  by (cases t) auto

lemma nulterminate_apply: "nulterminate c b a = (if a \<in> snd ` set_cmd c then NUL else b a)"
proof (induction c arbitrary: b)
  case (EXEC ws)
  have "fold (\<lambda>(q, eq) b. b(eq := NUL)) ws b a = (if a \<in> snd ` set ws then NUL else b a)"
    by (induction ws arbitrary: b) auto
  then show ?case by simp
qed auto

lemma cstr_of_span:
  assumes nul: "NUL \<notin> set t" and ok: "words_ok t c" and w: "(q, e) \<in> set_cmd c"
  shows "cstr_from (length t) (nulterminate c (at t)) q = take (e - q) (drop q t)"
proof -
  let ?b = "nulterminate c (at t)"
  have span: "q < e" "e \<le> length t" "\<And>i. q \<le> i \<Longrightarrow> i < e \<Longrightarrow> word_at t i"
    using ok w by (auto simp: words_ok_def span_ok_def)
  have keep: "?b i = t ! i \<and> t ! i \<noteq> NUL" if "q \<le> i" "i < e" for i
  proof -
    have "i \<notin> snd ` set_cmd c" using span(3) [OF that] ok by (auto simp: words_ok_def span_ok_def)
    then show ?thesis using that span(2) nul by (auto simp: nulterminate_apply at_def) (metis nth_mem order_less_le_trans)
  qed
  have e: "?b e = NUL" using w by (force simp: nulterminate_apply)
  have "map ?b [q..<length t] = map ?b [q..<e] @ map ?b [e..<length t]"
    using upt_add_eq_append [of q e "length t - e"] span by simp
  moreover have "takeWhile (\<lambda>c. c \<noteq> NUL) (map ?b [e..<length t]) = []"
    using e by (cases "e < length t") (simp_all add: upt_conv_Cons)
  moreover have "map ?b [q..<e] = take (e - q) (drop q t)"
    using span keep by (intro nth_equalityI) auto
  moreover have "\<forall>c \<in> set (map ?b [q..<e]). c \<noteq> NUL" using keep by auto
  ultimately show ?thesis unfolding cstr_from_def by (simp add: takeWhile_append2)
qed

text \<open>
  C27: terminating the words of a parsed line in place is safe. Although \<open>nulterminate\<close>
  overwrites the characters behind the words, which may be operators of the line, every word
  that \<open>runcmd\<close> finds in the buffer is the whole word of the line, not empty and free of blanks
  and operators.
\<close>

theorem nulterminate_words:
  assumes "NUL \<notin> set t" and "parsecmd t = Ret c"
  shows "parsed t c = map_cmd (\<lambda>(q, e). take (e - q) (drop q t)) c \<and>
     (\<forall>w \<in> set_cmd (parsed t c). w \<noteq> [] \<and> (\<forall>x \<in> set w. \<not> is_ws x \<and> \<not> is_sym x))"
proof -
  obtain i where "parseline (parse_depth t) t 0 = Ok (c, i)"
    using assms(2) by (auto simp: parsecmd_def sh_panic_def bindP_eq_Ret exitP_def Let_def split: outcome.splits if_splits)
  then have ok: "words_ok t c" using parse_words [OF assms(1), of "parse_depth t" 0] by (simp add: yields_def)
  have eq: "parsed t c = map_cmd (\<lambda>(q, e). take (e - q) (drop q t)) c"
    unfolding parsed_def using cstr_of_span [OF assms(1) ok] by (intro cmd.map_cong0) auto
  have "w \<noteq> [] \<and> (\<forall>x \<in> set w. \<not> is_ws x \<and> \<not> is_sym x)" if w: "w \<in> set_cmd (parsed t c)" for w
  proof -
    obtain q e where qe: "(q, e) \<in> set_cmd c" "w = take (e - q) (drop q t)"
      using w unfolding eq by (auto simp: cmd.set_map)
    then have span: "q < e" "e \<le> length t" "\<And>i. q \<le> i \<Longrightarrow> i < e \<Longrightarrow> word_at t i"
      using ok by (auto simp: words_ok_def span_ok_def)
    have "\<not> is_ws x \<and> \<not> is_sym x" if "x \<in> set w" for x
    proof -
      obtain j where "j < e - q" "x = t ! (q + j)" using \<open>x \<in> set w\<close> qe(2) span by (auto simp: in_set_conv_nth)
      then show ?thesis using span(2) span(3) [of "q + j"] by (simp add: word_at_def at_def)
    qed
    moreover have "w \<noteq> []" using span qe(2) by simp
    ultimately show ?thesis by blast
  qed
  then show ?thesis using eq by blast
qed

theorem nulterminate_words_witness:
  "parsed ''ls>f'' (REDIR (EXEC [(0, 2)]) (3, 4) 0x601 1) = REDIR (EXEC [''ls'']) ''f'' 0x601 1"
proof -
  let ?t = "''ls>f''"
  have "parseline (parse_depth ?t) ?t 0 = Ok (REDIR (EXEC [(0, 2)]) (3, 4) 0x601 1, 4)" "snd (peek ?t 4 []) = 4"
    by code_simp+
  then have "parsecmd ?t = Ret (REDIR (EXEC [(0, 2)]) (3, 4) 0x601 1)" by (simp add: parsecmd_def)
  then show ?thesis using nulterminate_words [of ?t "REDIR (EXEC [(0, 2)]) (3, 4) 0x601 1"] by simp
qed

section \<open>Printing and parsing\<close>

fun join :: "string list \<Rightarrow> string" where
  "join [] = []"
| "join [w] = w"
| "join (w # ws) = w @ CHR '' '' # join ws"

text \<open>A command as a line: everything but the words of a simple command goes into parentheses.\<close>

primrec show_cmd :: "string cmd \<Rightarrow> string" where
  "show_cmd (EXEC ws) = join ws"
| "show_cmd (REDIR c f mode fd) =
     ''('' @ show_cmd c @ '')'' @ (if fd = 0 then ''<'' else if mode = 0x601 then ''>'' else ''>>'') @ f"
| "show_cmd (PIPE l r) = ''('' @ show_cmd l @ '')|('' @ show_cmd r @ '')''"
| "show_cmd (LIST l r) = ''('' @ show_cmd l @ '');('' @ show_cmd r @ '')''"
| "show_cmd (BACK c) = ''('' @ show_cmd c @ '')&''"

definition is_word :: "string \<Rightarrow> bool" where
  "is_word w \<longleftrightarrow> w \<noteq> [] \<and> list_all (\<lambda>c. \<not> is_ws c \<and> \<not> is_sym c \<and> c \<noteq> NUL) w"

text \<open>The trees that lines stand for: at most nine words each, and the three redirections.\<close>

primrec wf_cmd :: "string cmd \<Rightarrow> bool" where
  "wf_cmd (EXEC ws) \<longleftrightarrow> length ws < MAXARGS \<and> list_all is_word ws"
| "wf_cmd (REDIR c f mode fd) \<longleftrightarrow> wf_cmd c \<and> is_word f \<and> (mode, fd) \<in> {(0, 0), (0x601, 1), (0x201, 1)}"
| "wf_cmd (PIPE l r) \<longleftrightarrow> wf_cmd l \<and> wf_cmd r"
| "wf_cmd (LIST l r) \<longleftrightarrow> wf_cmd l \<and> wf_cmd r"
| "wf_cmd (BACK c) \<longleftrightarrow> wf_cmd c"

definition sub :: "string \<Rightarrow> nat \<times> nat \<Rightarrow> string" where
  "sub t = (\<lambda>(q, e). take (e - q) (drop q t))"

text \<open>A text stands at a position of the line.\<close>

definition here :: "string \<Rightarrow> nat \<Rightarrow> string \<Rightarrow> bool" where
  "here t i s \<longleftrightarrow> i + length s \<le> length t \<and> take (length s) (drop i t) = s"

lemma here_append [simp]: "here t i (a @ b) \<longleftrightarrow> here t i a \<and> here t (i + length a) b"
proof -
  have "take (length a + length b) (drop i t) = take (length a) (drop i t) @ take (length b) (drop (i + length a) t)"
    by (simp add: take_add add.commute)
  moreover have "length (take (length a) (drop i t)) = length a" if "i + length a + length b \<le> length t" using that by simp
  ultimately show ?thesis unfolding here_def by (auto simp: append_eq_append_conv add.assoc)
qed

lemma here_Nil [simp]: "here t i [] \<longleftrightarrow> i \<le> length t"
  by (simp add: here_def)

lemma here_Cons [simp]: "here t i (c # s) \<longleftrightarrow> i < length t \<and> at t i = c \<and> here t (Suc i) s"
proof (cases "i < length t")
  case True
  then have "drop i t = t ! i # drop (Suc i) t" by (rule Cons_nth_drop_Suc [symmetric])
  then show ?thesis using True by (auto simp: here_def at_def)
qed (auto simp: here_def)

lemma here_nth: "here t i s \<Longrightarrow> j < length s \<Longrightarrow> at t (i + j) = s ! j \<and> i + j < length t"
  by (auto simp: here_def at_def) (metis length_take nth_drop nth_take min.absorb4 add_leD1)

lemma here_sub: "here t i s \<Longrightarrow> sub t (i, i + length s) = s"
  by (simp add: here_def sub_def)

text \<open>Where a command may end: at the end of the line or at a closing parenthesis.\<close>

definition closes :: "string \<Rightarrow> nat \<Rightarrow> bool" where
  "closes t i \<longleftrightarrow> i = length t \<or> at t i = CHR '')''"

lemma closes_at: "closes t i \<Longrightarrow> at t i = NUL \<or> at t i = CHR '')''"
  by (auto simp: closes_def at_def)

lemma not_ws [simp]: "\<not> is_ws NUL" "\<not> is_ws CHR ''('' " "\<not> is_ws CHR '')''" "\<not> is_ws CHR ''|''" "\<not> is_ws CHR '';''"
  "\<not> is_ws CHR ''&''" "\<not> is_ws CHR ''<''" "\<not> is_ws CHR ''>''"
  by (simp_all add: is_ws_def)

lemma syms [simp]: "is_sym CHR ''(''" "is_sym CHR '')''" "is_sym CHR ''|''" "is_sym CHR '';''" "is_sym CHR ''&''" "is_sym CHR ''<''" "is_sym CHR ''>''"
  "is_ws CHR '' ''"
  by (simp_all add: is_sym_def is_ws_def)

lemma closes_ws: "closes t i \<Longrightarrow> \<not> is_ws (at t i)"
  by (auto dest: closes_at)

lemma skip_none: "\<not> is_ws (at t i) \<Longrightarrow> skip_ws t i = i"
  by (subst skip_ws.simps) simp

lemma strchr_mem: "u_strchr s c \<noteq> None \<longleftrightarrow> c \<in> set s"
  by (induction s) auto

lemma peek_at: "\<not> is_ws (at t i) \<Longrightarrow> peek t i toks = (at t i \<noteq> NUL \<and> at t i \<in> set toks, i)"
  unfolding peek_def strchr_mem by (simp add: skip_none Let_def)

lemma gettoken_sym:
  assumes "at t i \<in> set ''|();&<''" and "\<not> is_ws (at t (Suc i))"
  shows "gettoken t i = (at t i, i, Suc i, Suc i)"
proof -
  have "skip_ws t i = i" using assms(1) by (intro skip_none) auto
  then show ?thesis using assms skip_none [of t "Suc i"] by (auto simp: gettoken_def Let_def)
qed

lemma word_end_word: "here t i w \<Longrightarrow> list_all (\<lambda>c. \<not> is_ws c \<and> \<not> is_sym c) w \<Longrightarrow> word_end t i = word_end t (i + length w)"
proof (induction w arbitrary: i)
  case (Cons c w)
  then have "word_end t i = word_end t (Suc i)" by (subst word_end.simps) auto
  then show ?case using Cons by simp
qed simp

lemma gettoken_word:
  assumes "here t i w" and w: "is_word w" and "\<not> word_at t (i + length w)"
  shows "gettoken t i = (CHR ''a'', i, i + length w, skip_ws t (i + length w))"
proof -
  obtain c v where c: "w = c # v" "\<not> is_ws c" "\<not> is_sym c" "c \<noteq> NUL" using w by (cases w) (auto simp: is_word_def)
  then have at: "at t i = c" using assms(1) by simp
  have "list_all (\<lambda>c. \<not> is_ws c \<and> \<not> is_sym c) w" using w by (auto simp: is_word_def list_all_iff)
  then have "word_end t i = word_end t (i + length w)" using word_end_word [OF assms(1)] by simp
  also have "\<dots> = i + length w" using assms(3) by (subst word_end.simps) (auto simp: word_at_def)
  finally have "word_end t i = i + length w" .
  moreover have "c \<notin> set ''|();&<>''" using c(3) by (auto simp: is_sym_def)
  ultimately show ?thesis using c at skip_none [of t i] by (auto simp: gettoken_def Let_def)
qed

text \<open>Nothing to redirect here.\<close>

lemma parseredirs_none:
  "\<not> is_ws (at t i) \<Longrightarrow> at t i \<noteq> CHR ''<'' \<Longrightarrow> at t i \<noteq> CHR ''>'' \<Longrightarrow> parseredirs t c i = Ok (c, i)"
  by (subst parseredirs.simps) (simp add: peek_at)

lemma word_first:
  assumes "here t i w" and "is_word w"
  shows "\<not> is_ws (at t i)" "\<not> is_sym (at t i)" "at t i \<noteq> NUL" "i < length t"
  using assms by (cases w; auto simp: is_word_def)+

lemma closes_not_word: "closes t i \<Longrightarrow> \<not> word_at t i"
  by (auto simp: closes_def word_at_def)

lemma add_args: "fold add_arg vs (EXEC us) = EXEC (us @ vs)"
  by (induction vs arbitrary: us) auto

lemma parse_args_end: "closes t i \<Longrightarrow> parse_args t c argc i = Ok (c, i)"
  using closes_ws [of t i] skip_none [of t i] closes_at [of t i]
  by (subst parse_args.simps) (auto simp: peek_at gettoken_def Let_def)

lemma parse_args_join:
  assumes "list_all is_word ws" and "argc + length ws < MAXARGS" and "here t i (join ws)" and "closes t (i + length (join ws))"
  shows "\<exists>vs. parse_args t c argc i = Ok (fold add_arg vs c, i + length (join ws)) \<and> map (sub t) vs = ws"
  using assms
proof (induction ws arbitrary: c argc i rule: join.induct)
  case 1
  then show ?case by (intro exI [of _ "[]"]) (simp add: parse_args_end)
next
  case (2 w)
  then have w: "here t i w" "is_word w" "closes t (i + length w)" by simp_all
  let ?v = "(i, i + length w)"
  have "gettoken t i = (CHR ''a'', i, i + length w, i + length w)"
    using gettoken_word [OF w(1,2) closes_not_word [OF w(3)]] skip_none closes_ws [OF w(3)] by simp
  moreover have "parseredirs t (add_arg ?v c) (i + length w) = Ok (add_arg ?v c, i + length w)"
    using closes_at [OF w(3)] closes_ws [OF w(3)] by (intro parseredirs_none) auto
  moreover have "peek t i ''|)&;'' = (False, i)" using word_first [OF w(1,2)] by (auto simp: peek_at is_sym_def)
  ultimately have "parse_args t c argc i = Ok (add_arg ?v c, i + length w)"
    using 2(2) w(3) by (subst parse_args.simps) (simp add: parse_args_end)
  then show ?case using here_sub [OF w(1)] by (intro exI [of _ "[?v]"]) simp
next
  case (3 w w' ws)
  let ?v = "(i, i + length w)" and ?j = "Suc (i + length w)"
  have w: "here t i w" "is_word w" "at t (i + length w) = CHR '' ''" "here t ?j (join (w' # ws))"
      "is_word w'" "list_all is_word ws"
    using 3(2,4) by simp_all
  have first: "here t ?j w'" using w(4) by (cases ws) simp_all
  note f = word_first [OF first w(5)]
  have "skip_ws t (i + length w) = ?j" using w(3) f(4) skip_none [OF f(1)] by (subst skip_ws.simps) simp
  then have "gettoken t i = (CHR ''a'', i, i + length w, ?j)"
    using gettoken_word [OF w(1,2)] w(3) by (simp add: word_at_def)
  moreover have "parseredirs t (add_arg ?v c) ?j = Ok (add_arg ?v c, ?j)"
    using f by (intro parseredirs_none) auto
  moreover have "peek t i ''|)&;'' = (False, i)" using word_first [OF w(1,2)] by (auto simp: peek_at is_sym_def)
  ultimately have step: "parse_args t c argc i = parse_args t (add_arg ?v c) (Suc argc) ?j"
    using 3(3) by (subst parse_args.simps) simp
  have "list_all is_word (w' # ws)" "Suc argc + length (w' # ws) < MAXARGS" "closes t (?j + length (join (w' # ws)))"
    using w 3(3,5) by (simp_all add: add.assoc)
  from 3(1) [OF this(1,2) w(4) this(3), of "add_arg ?v c"]
  obtain vs where "parse_args t (add_arg ?v c) (Suc argc) ?j = Ok (fold add_arg vs (add_arg ?v c), ?j + length (join (w' # ws))) \<and>
      map (sub t) vs = w' # ws"
    by (rule exE)
  then show ?case using step here_sub [OF w(1)] by (intro exI [of _ "?v # vs"]) simp
qed

lemma parseredirs_one:
  assumes rest: "closes t (i + length r + length f)" and f: "is_word f" and "here t i (r @ f)"
    and r: "(r, mode, fd) \<in> {(''<'', 0, 0), (''>'', 0x601, 1), (''>>'', 0x201, 1)}"
  shows "\<exists>v. parseredirs t c i = Ok (REDIR c v mode fd, i + length r + length f) \<and> sub t v = f"
proof -
  let ?k = "i + length r"
  have here: "here t i r" "here t ?k f" using assms(3) by simp_all
  note first = word_first [OF here(2) f]
  have gf: "gettoken t ?k = (CHR ''a'', ?k, ?k + length f, ?k + length f)"
    using gettoken_word [OF here(2) f closes_not_word [OF rest]] skip_none closes_ws [OF rest] by simp
  have stop: "parseredirs t d (?k + length f) = Ok (d, ?k + length f)" for d
    using closes_at [OF rest] closes_ws [OF rest] by (intro parseredirs_none) auto
  have neq: "at t ?k \<noteq> CHR ''>''" using first(2) by auto
  have op: "peek t i ''<>'' = (True, i)" "fst (gettoken t i) = (if fd = 0 then CHR ''<'' else if mode = 0x601 then CHR ''>'' else CHR ''+'')"
      "behind (gettoken t i) = ?k"
    using r here(1) neq skip_none [OF first(1)] by (auto simp: peek_at gettoken_def Let_def behind_def skip_none)
  obtain tok q e where g: "gettoken t i = (tok, q, e, ?k)" using op(3) by (metis behind_def prod_cases4 snd_conv)
  have "parseredirs t c i = Ok (REDIR c (?k, ?k + length f) mode fd, ?k + length f)"
    using op g gf stop r by (subst parseredirs.simps) (auto simp: redircmd_def)
  then show ?thesis using here_sub [OF here(2)] by blast
qed

text \<open>What the main lemma says of one command.\<close>

definition parses :: "string \<Rightarrow> string cmd \<Rightarrow> bool" where
  "parses t c \<longleftrightarrow>
     (\<forall>i n. here t i (show_cmd c) \<longrightarrow> closes t (i + length (show_cmd c)) \<longrightarrow> 4 * length (show_cmd c) + 4 \<le> n \<longrightarrow>
       (\<exists>c'. parseline n t i = Ok (c', i + length (show_cmd c)) \<and> map_cmd (sub t) c' = c))"

lemma show_first:
  assumes "here t i (show_cmd c)" and "closes t (i + length (show_cmd c))" and "wf_cmd c"
  shows "\<not> is_ws (at t i)"
proof (cases c)
  case (EXEC ws)
  show ?thesis
  proof (cases ws)
    case Nil
    then show ?thesis using assms EXEC closes_ws by simp
  next
    case (Cons w ws')
    then have "here t i w" "is_word w" using assms(1,3) EXEC by (cases ws'; simp)+
    then show ?thesis using word_first(1) by blast
  qed
qed (use assms in simp_all)

lemma parseexec_block:
  assumes "parses t c" and "wf_cmd c" and h: "here t i (''('' @ show_cmd c @ '')'')"
    and next_ok: "\<not> is_ws (at t (i + length (show_cmd c) + 2))" and "4 * length (show_cmd c) + 6 \<le> n"
  shows "\<exists>c'. parseexec n t i = parseredirs t c' (i + length (show_cmd c) + 2) \<and> map_cmd (sub t) c' = c"
proof -
  obtain m where n: "n = Suc (Suc m)" "4 * length (show_cmd c) + 4 \<le> m" using assms(5) by (cases n; cases "n - 1") auto
  let ?j = "Suc i + length (show_cmd c)"
  have at: "at t i = CHR ''(''" "here t (Suc i) (show_cmd c)" "at t ?j = CHR '')''" using h by simp_all
  have c1: "closes t ?j" using at(3) by (simp add: closes_def)
  obtain c' where c': "parseline m t (Suc i) = Ok (c', ?j)" "map_cmd (sub t) c' = c"
    using assms(1) at(2) c1 n(2) unfolding parses_def by blast
  have "gettoken t i = (CHR ''('', i, Suc i, Suc i)"
    using gettoken_sym [of t i] at(1) show_first [OF at(2) c1 assms(2)] by simp
  moreover have "gettoken t ?j = (CHR '')'', ?j, Suc ?j, Suc ?j)"
    using gettoken_sym [of t ?j] at(3) next_ok by simp
  ultimately have "parseexec n t i = parseredirs t c' (Suc ?j)"
    using n(1) c'(1) at(1,3) by (simp add: peek_at)
  then show ?thesis using c'(2) by auto
qed

text \<open>A command that ends where a pipe, a list or a background job would go on.\<close>

lemma parsepipe_last:
  assumes "parseexec n t i = Ok (c, j)" and "\<not> is_ws (at t j)" and "at t j \<noteq> CHR ''|''"
  shows "parsepipe (Suc n) t i = Ok (c, j)"
  using assms by (simp add: peek_at)

lemma parse_backs_none: "\<not> is_ws (at t j) \<Longrightarrow> at t j \<noteq> CHR ''&'' \<Longrightarrow> parse_backs t c j = (c, j)"
  by (subst parse_backs.simps) (simp add: peek_at)

lemma parseline_last:
  assumes "parsepipe n t i = Ok (c, j)" and "closes t j"
  shows "parseline (Suc n) t i = Ok (c, j)"
  using assms(1) closes_at [OF assms(2)] closes_ws [OF assms(2)] by (auto simp: peek_at parse_backs_none)

lemma parseline_exec:
  assumes "parseexec n t i = Ok (c, j)" and "closes t j"
  shows "parseline (Suc (Suc n)) t i = Ok (c, j)"
  using parseline_last [OF parsepipe_last] assms closes_at [OF assms(2)] closes_ws [OF assms(2)] by auto

lemma parseexec_closed:
  assumes "parses t c" and "wf_cmd c" and "here t i (''('' @ show_cmd c @ '')'')"
    and next_ok: "\<not> is_ws (at t (i + length (show_cmd c) + 2))"
      "at t (i + length (show_cmd c) + 2) \<noteq> CHR ''<''" "at t (i + length (show_cmd c) + 2) \<noteq> CHR ''>''"
    and "4 * length (show_cmd c) + 6 \<le> n"
  shows "\<exists>c'. parseexec n t i = Ok (c', i + length (show_cmd c) + 2) \<and> map_cmd (sub t) c' = c"
  using parseexec_block [OF assms(1,2,3) next_ok(1) assms(7)] parseredirs_none [OF next_ok] by auto

lemma parses_EXEC:
  assumes wf: "wf_cmd (EXEC ws)"
  shows "parses t (EXEC ws)"
  unfolding parses_def
proof (intro allI impI)
  fix i n
  assume h: "here t i (show_cmd (EXEC ws))" "closes t (i + length (show_cmd (EXEC ws)))" "4 * length (show_cmd (EXEC ws)) + 4 \<le> n"
  define m where "m = n - 3"
  have n: "n = Suc (Suc (Suc m))" using h(3) by (simp add: m_def)
  have first: "\<not> is_ws (at t i)" "at t i \<noteq> CHR ''(''" "at t i \<noteq> CHR ''<''" "at t i \<noteq> CHR ''>''"
  proof -
    have "\<not> is_ws (at t i) \<and> (at t i = NUL \<or> at t i = CHR '')'' \<or> \<not> is_sym (at t i))"
    proof (cases ws)
      case Nil
      then show ?thesis using h(2) closes_at [of t i] closes_ws [of t i] by auto
    next
      case (Cons w ws')
      then have "here t i w" "is_word w" using h(1) wf by (cases ws'; simp)+
      then show ?thesis using word_first by blast
    qed
    then show "\<not> is_ws (at t i)" "at t i \<noteq> CHR ''(''" "at t i \<noteq> CHR ''<''" "at t i \<noteq> CHR ''>''" by auto
  qed
  obtain vs where "parse_args t (EXEC []) 0 i = Ok (fold add_arg vs (EXEC []), i + length (join ws)) \<and> map (sub t) vs = ws"
    using parse_args_join [of ws 0 t i "EXEC []"] h wf by auto
  then have e: "parseexec (Suc m) t i = Ok (EXEC vs, i + length (join ws))" "map (sub t) vs = ws"
    using first by (auto simp: peek_at parseredirs_none add_args)
  have "parseline n t i = Ok (EXEC vs, i + length (join ws))"
    unfolding n using h(2) by (intro parseline_exec e) simp
  then show "\<exists>c'. parseline n t i = Ok (c', i + length (show_cmd (EXEC ws))) \<and> map_cmd (sub t) c' = EXEC ws"
    using e(2) by auto
qed

lemma parses_REDIR:
  assumes c: "parses t c" and wf: "wf_cmd (REDIR c f mode fd)"
  shows "parses t (REDIR c f mode fd)"
  unfolding parses_def
proof (intro allI impI)
  fix i n
  let ?s = "show_cmd (REDIR c f mode fd)" and ?r = "if fd = 0 then ''<'' else if mode = 0x601 then ''>'' else ''>>''"
  let ?j = "i + length (show_cmd c) + 2"
  assume h: "here t i ?s" "closes t (i + length ?s)" "4 * length ?s + 4 \<le> n"
  define m where "m = n - 2"
  have n: "n = Suc (Suc m)" "4 * length (show_cmd c) + 6 \<le> m" using h(3) by (simp_all add: m_def)
  have len: "i + length ?s = ?j + length ?r + length f" by simp
  have redir: "(?r, mode, fd) \<in> {(''<'', 0, 0), (''>'', 0x601, 1), (''>>'', 0x201, 1)}" using wf by auto
  have parts: "here t i (''('' @ show_cmd c @ '')'')" "here t ?j (?r @ f)" using h(1) by (auto simp: add.assoc)
  then have "\<not> is_ws (at t ?j)" by (auto split: if_splits)
  then obtain c' where c': "parseexec m t i = parseredirs t c' ?j" "map_cmd (sub t) c' = c"
    using parseexec_block [OF c _ parts(1) _ n(2)] wf by auto
  obtain v where v: "parseredirs t c' ?j = Ok (REDIR c' v mode fd, i + length ?s)" "sub t v = f"
    using parseredirs_one [OF _ _ parts(2) redir, of c'] h(2) wf unfolding len by auto
  have "parseline n t i = Ok (REDIR c' v mode fd, i + length ?s)"
    unfolding n(1) using c'(1) v(1) h(2) by (intro parseline_exec) simp_all
  then show "\<exists>c'. parseline n t i = Ok (c', i + length ?s) \<and> map_cmd (sub t) c' = REDIR c f mode fd"
    using c'(2) v(2) by auto
qed

lemma parses_BACK:
  assumes c: "parses t c" and wf: "wf_cmd (BACK c)"
  shows "parses t (BACK c)"
  unfolding parses_def
proof (intro allI impI)
  fix i n
  let ?s = "show_cmd (BACK c)" and ?j = "i + length (show_cmd c) + 2"
  assume h: "here t i ?s" "closes t (i + length ?s)" "4 * length ?s + 4 \<le> n"
  define m where "m = n - 2"
  have n: "n = Suc (Suc m)" "4 * length (show_cmd c) + 6 \<le> m" using h(3) by (simp_all add: m_def)
  have len: "i + length ?s = Suc ?j" by simp
  have parts: "here t i (''('' @ show_cmd c @ '')'')" "at t ?j = CHR ''&''" using h(1) by (auto simp: add.assoc)
  obtain c' where c': "parseexec m t i = Ok (c', ?j)" "map_cmd (sub t) c' = c"
    using parseexec_closed [OF c _ parts(1) _ _ _ n(2)] wf parts(2) by auto
  have "parsepipe (Suc m) t i = Ok (c', ?j)" using parsepipe_last [OF c'(1)] parts(2) by simp
  moreover have "parse_backs t c' ?j = (BACK c', Suc ?j)"
  proof -
    have "\<not> is_ws (at t (Suc ?j))" "at t (Suc ?j) \<noteq> CHR ''&''" using h(2) closes_at closes_ws unfolding len by fastforce+
    then show ?thesis
      using parts(2) gettoken_sym [of t ?j] by (subst parse_backs.simps) (simp add: peek_at parse_backs_none)
  qed
  ultimately have "parseline n t i = Ok (BACK c', i + length ?s)"
    unfolding n(1) using h(2) closes_at [of t "Suc ?j"] closes_ws [of t "Suc ?j"] by (auto simp: peek_at)
  then show "\<exists>c'. parseline n t i = Ok (c', i + length ?s) \<and> map_cmd (sub t) c' = BACK c"
    using c'(2) by auto
qed

lemma parses_PIPE:
  assumes l: "parses t l" and r: "parses t r" and wf: "wf_cmd (PIPE l r)"
  shows "parses t (PIPE l r)"
  unfolding parses_def
proof (intro allI impI)
  fix i n
  let ?s = "show_cmd (PIPE l r)" and ?j = "i + length (show_cmd l) + 2"
  let ?k = "Suc ?j + length (show_cmd r) + 2"
  assume h: "here t i ?s" "closes t (i + length ?s)" "4 * length ?s + 4 \<le> n"
  define m where "m = n - 3"
  have n: "n = Suc (Suc (Suc m))" "4 * length (show_cmd l) + 6 \<le> Suc m" "4 * length (show_cmd r) + 6 \<le> m"
    using h(3) by (simp_all add: m_def)
  have len: "i + length ?s = ?k" by simp
  have parts: "here t i (''('' @ show_cmd l @ '')'')" "at t ?j = CHR ''|''" "here t (Suc ?j) (''('' @ show_cmd r @ '')'')"
    using h(1) by (auto simp: add.assoc)
  have stop: "closes t ?k" "\<not> is_ws (at t ?k)" "at t ?k \<noteq> CHR ''<''" "at t ?k \<noteq> CHR ''>''" "at t ?k \<noteq> CHR ''|''"
    using h(2) closes_at [of t ?k] closes_ws [of t ?k] unfolding len by auto
  obtain l' where l': "parseexec (Suc m) t i = Ok (l', ?j)" "map_cmd (sub t) l' = l"
    using parseexec_closed [OF l _ parts(1) _ _ _ n(2)] wf parts(2) by auto
  obtain r' where r': "parseexec m t (Suc ?j) = Ok (r', ?k)" "map_cmd (sub t) r' = r"
    using parseexec_closed [OF r _ parts(3) _ _ _ n(3)] wf stop by auto
  have "parsepipe (Suc m) t (Suc ?j) = Ok (r', ?k)" using parsepipe_last [OF r'(1) stop(2,5)] .
  moreover have "gettoken t ?j = (CHR ''|'', ?j, Suc ?j, Suc ?j)" using gettoken_sym [of t ?j] parts(2,3) by simp
  ultimately have "parsepipe (Suc (Suc m)) t i = Ok (PIPE l' r', ?k)"
    using l'(1) parts(2) by (subst parsepipe.simps) (simp add: peek_at del: parseexec.simps parsepipe.simps)
  then have "parseline n t i = Ok (PIPE l' r', i + length ?s)"
    unfolding n(1) len by (intro parseline_last stop)
  then show "\<exists>c'. parseline n t i = Ok (c', i + length ?s) \<and> map_cmd (sub t) c' = PIPE l r"
    using l'(2) r'(2) by auto
qed

lemma parses_LIST:
  assumes l: "parses t l" and r: "parses t r" and wf: "wf_cmd (LIST l r)"
  shows "parses t (LIST l r)"
  unfolding parses_def
proof (intro allI impI)
  fix i n
  let ?s = "show_cmd (LIST l r)" and ?j = "i + length (show_cmd l) + 2"
  let ?k = "Suc ?j + length (show_cmd r) + 2"
  assume h: "here t i ?s" "closes t (i + length ?s)" "4 * length ?s + 4 \<le> n"
  define m where "m = n - 3"
  have n: "n = Suc (Suc (Suc m))" "4 * length (show_cmd l) + 6 \<le> Suc m" "4 * length (show_cmd r) + 6 \<le> m"
    using h(3) by (simp_all add: m_def)
  have len: "i + length ?s = ?k" by simp
  have parts: "here t i (''('' @ show_cmd l @ '')'')" "at t ?j = CHR '';''" "here t (Suc ?j) (''('' @ show_cmd r @ '')'')"
    using h(1) by (auto simp: add.assoc)
  have stop: "closes t ?k" "\<not> is_ws (at t ?k)" "at t ?k \<noteq> CHR ''<''" "at t ?k \<noteq> CHR ''>''"
    using h(2) closes_at [of t ?k] closes_ws [of t ?k] unfolding len by auto
  obtain l' where l': "parseexec (Suc m) t i = Ok (l', ?j)" "map_cmd (sub t) l' = l"
    using parseexec_closed [OF l _ parts(1) _ _ _ n(2)] wf parts(2) by auto
  obtain r' where r': "parseexec m t (Suc ?j) = Ok (r', ?k)" "map_cmd (sub t) r' = r"
    using parseexec_closed [OF r _ parts(3) _ _ _ n(3)] wf stop by auto
  have "parsepipe (Suc (Suc m)) t i = Ok (l', ?j)" using parsepipe_last [OF l'(1)] parts(2) by simp
  moreover have "parse_backs t l' ?j = (l', ?j)" using parts(2) by (intro parse_backs_none) simp_all
  moreover have "parseline (Suc (Suc m)) t (Suc ?j) = Ok (r', ?k)" by (rule parseline_exec [OF r'(1) stop(1)])
  moreover have "gettoken t ?j = (CHR '';'', ?j, Suc ?j, Suc ?j)" using gettoken_sym [of t ?j] parts(2,3) by simp
  ultimately have "parseline n t i = Ok (LIST l' r', i + length ?s)"
    unfolding n(1) len using parts(2) by (subst parseline.simps) (simp add: peek_at del: parseline.simps parsepipe.simps)
  then show "\<exists>c'. parseline n t i = Ok (c', i + length ?s) \<and> map_cmd (sub t) c' = LIST l r"
    using l'(2) r'(2) by auto
qed

lemma parses_show: "wf_cmd c \<Longrightarrow> parses t c"
  by (induction c) (simp_all add: parses_EXEC parses_REDIR parses_PIPE parses_LIST parses_BACK)

text \<open>
  C28: printing and parsing. Every command tree with at most nine words per simple command can be
  written as a line, with parentheses, that \<open>parsecmd\<close> turns back into the same tree: the
  operators, their nesting and order, the redirections with their modes and descriptors, and
  every word.
\<close>

theorem parse_show:
  assumes "wf_cmd c"
  shows "\<exists>c'. parsecmd (show_cmd c) = Ret c' \<and> map_cmd (\<lambda>(q, e). take (e - q) (drop q (show_cmd c))) c' = c"
proof -
  let ?t = "show_cmd c"
  obtain c' where c': "parseline (parse_depth ?t) ?t 0 = Ok (c', length ?t)" "map_cmd (sub ?t) c' = c"
    using parses_show [OF assms, of ?t] unfolding parses_def by (auto simp: here_def closes_def parse_depth_def)
  have "snd (peek ?t (length ?t) []) = length ?t" by (simp add: peek_at at_def)
  then have "parsecmd ?t = Ret c'" using c'(1) by (simp add: parsecmd_def)
  then show ?thesis using c'(2) by (auto simp: sub_def)
qed

theorem parse_show_witness:
  "\<exists>c'. parsecmd ''((ls -l)|(wc))>f'' = Ret c' \<and>
     map_cmd (\<lambda>(q, e). take (e - q) (drop q ''((ls -l)|(wc))>f'')) c' = REDIR (PIPE (EXEC [''ls'', ''-l'']) (EXEC [''wc''])) ''f'' 0x601 1"
  using parse_show [of "REDIR (PIPE (EXEC [''ls'', ''-l'']) (EXEC [''wc''])) ''f'' 0x601 1"]
  by (simp add: is_word_def is_ws_def is_sym_def)

section \<open>Running a command\<close>

text \<open>A program comes to an end, or to a call of \<open>exit\<close>, from every state of the kernel.\<close>

definition ends :: "(sysreq \<Rightarrow> 'k \<Rightarrow> sysans \<times> 'k) \<Rightarrow> 'v prog \<Rightarrow> bool" where
  "ends sys t \<longleftrightarrow> (\<forall>k. \<exists>r k'. does sys t k r k')"

definition exits :: "(sysreq \<Rightarrow> 'k \<Rightarrow> sysans \<times> 'k) \<Rightarrow> 'v prog \<Rightarrow> bool" where
  "exits sys t \<longleftrightarrow> (\<forall>k. \<exists>n k'. does sys t k (Inl n) k')"

lemma ends_bind:
  assumes "ends sys t" and "\<And>v. ends sys (f v)"
  shows "ends sys (bindP t f)"
  unfolding ends_def
proof
  fix k
  obtain r k1 where r: "does sys t k r k1" using assms(1) unfolding ends_def by blast
  show "\<exists>r k'. does sys (bindP t f) k r k'"
  proof (cases r)
    case (Inl n)
    then show ?thesis using does_bindP_exit [OF r] by blast
  next
    case (Inr v)
    obtain r' k' where "does sys (f v) k1 r' k'" using assms(2) unfolding ends_def by blast
    then show ?thesis using does_bindP [OF r Inr] by blast
  qed
qed

lemma exits_bind:
  assumes "ends sys t" and "\<And>v. exits sys (f v)"
  shows "exits sys (bindP t f)"
  unfolding exits_def
proof
  fix k
  obtain r k1 where r: "does sys t k r k1" using assms(1) unfolding ends_def by blast
  show "\<exists>n k'. does sys (bindP t f) k (Inl n) k'"
  proof (cases r)
    case (Inl n)
    then show ?thesis using does_bindP_exit [OF r] by blast
  next
    case (Inr v)
    obtain n k' where "does sys (f v) k1 (Inl n) k'" using assms(2) unfolding exits_def by blast
    then show ?thesis using does_bindP [OF r Inr] by blast
  qed
qed

lemma exits_ends: "exits sys t \<Longrightarrow> ends sys t"
  unfolding exits_def ends_def by blast

lemma ends_simps [simp]:
  "ends sys (Ret v)" "ends sys (Exited n)" "exits sys (exitP n)" "ends sys (callP q)" "ends sys (sysP q)"
  by (auto simp: ends_def exits_def exitP_def callP_def sysP_def)

lemma ends_putc [simp]: "ends sys (putc fd c)"
  unfolding putc_def by (intro ends_bind ends_simps)

lemma ends_each: "(\<And>x. ends sys (f x)) \<Longrightarrow> ends sys (eachP f xs)"
  by (induction xs) (auto intro: ends_bind)

lemma ends_printptr: "ends sys (u_printptr_from n fd x)"
  by (induction n arbitrary: x) (auto intro: ends_bind)

lemma ends_directive: "ends sys (u_directive fd c args)"
proof -
  note rules = ends_bind ends_simps ends_putc ends_each ends_printptr
  have ptr: "ends sys (bindP (u_printptr fd x) (\<lambda>_. Ret v))" for x v unfolding u_printptr_def by (intro rules)
  have num: "ends sys (bindP (u_printint fd x b sg) (\<lambda>_. Ret v))" for x b sg v unfolding u_printint_def by (intro rules)
  have str: "ends sys (bindP (eachP (putc fd) s) (\<lambda>_. Ret v))" for s v by (intro rules)
  have chr: "ends sys (bindP (putc fd x) (\<lambda>_. Ret v))" "ends sys (bindP (putc fd y) (\<lambda>_. bindP (putc fd x) (\<lambda>_. Ret v)))" for x y v
    by (intro rules)+
  show ?thesis by (auto simp: ptr num str chr simp del: bindP_simps split: list.split uarg.split)
qed

lemma ends_vprintf: "ends sys (vprintf_from fd fmt b args)"
  by (induction fmt arbitrary: b args) (auto intro!: ends_bind ends_directive simp del: u_directive.simps)

lemma ends_fprintf [simp]: "ends sys (u_fprintf fd fmt args)"
  by (simp add: u_fprintf_def vprintf_def ends_vprintf)

lemma exits_panic [simp]: "exits sys (sh_panic s)"
  unfolding sh_panic_def by (intro exits_bind) simp_all

lemma ends_fork1 [simp]: "ends sys fork1"
  unfolding fork1_def by (intro ends_bind) (auto intro: exits_ends)


end
