(* ===== verification/Umalloc.thy ===== *)
theory Umalloc
  imports Prelude
begin

text \<open>
  The allocator of user programs, \<^verbatim>\<open>user/umalloc.c\<close>: a circular list of free chunks in the
  order of their addresses. A pointer is a byte address; the fields of the headers are maps from
  addresses, so the memory between headers, which belongs to the program, is not represented.
  Both loops may run forever on a damaged list: not returning is \<open>None\<close>. \<^verbatim>\<open>sbrk\<close> is a
  parameter: from the end of the process's memory and an increment it gives its result and the
  new end.
\<close>

section \<open>Definitions\<close>

record uheap =
  h_ptr :: "nat \<Rightarrow> nat"
  h_size :: "nat \<Rightarrow> uint32"
  u_freep :: nat
  u_brk :: nat

definition set_ptr :: "nat \<Rightarrow> nat \<Rightarrow> uheap \<Rightarrow> uheap" where
  "set_ptr p x s = s\<lparr>h_ptr := (h_ptr s)(p := x)\<rparr>"

definition set_size :: "nat \<Rightarrow> uint32 \<Rightarrow> uheap \<Rightarrow> uheap" where
  "set_size p n s = s\<lparr>h_size := (h_size s)(p := n)\<rparr>"

text \<open>Pointer arithmetic on headers of 16 bytes.\<close>

definition hdr_add :: "nat \<Rightarrow> uint32 \<Rightarrow> nat" where
  "hdr_add p n = p + 16 * unat n"

partial_function (option) free_find :: "nat \<Rightarrow> nat \<Rightarrow> uheap \<Rightarrow> nat option" where
  "free_find bp p s =
     (if bp > p \<and> bp < h_ptr s p then Some p
      else if p \<ge> h_ptr s p \<and> (bp > p \<or> bp < h_ptr s p) then Some p
      else free_find bp (h_ptr s p) s)"

definition ufree :: "nat \<Rightarrow> uheap \<Rightarrow> uheap option" where
  "ufree ap s =
     (let bp = ap - 16 in
      Option.bind (free_find bp (u_freep s) s) (\<lambda>p.
      let s = (if hdr_add bp (h_size s bp) = h_ptr s p
               then let s = set_size bp (h_size s bp + h_size s (h_ptr s p)) s in set_ptr bp (h_ptr s (h_ptr s p)) s
               else set_ptr bp (h_ptr s p) s);
          s = (if hdr_add p (h_size s p) = bp
               then let s = set_size p (h_size s p + h_size s bp) s in set_ptr p (h_ptr s bp) s
               else set_ptr p bp s) in
      Some (s\<lparr>u_freep := p\<rparr>)))"

definition morecore :: "(nat \<Rightarrow> int \<Rightarrow> int \<times> nat) \<Rightarrow> uint32 \<Rightarrow> uheap \<Rightarrow> (nat \<times> uheap) option" where
  "morecore sbrk nu s =
     (let nu = (if nu < 4096 then 4096 else nu);
          r = sbrk (u_brk s) (sint (ucast (ucast nu * 16 :: uint64) :: uint32));
          s = s\<lparr>u_brk := snd r\<rparr> in
      if fst r = -1 then Some (0, s)
      else
        let hp = nat (fst r); s = set_size hp nu s in
        Option.bind (ufree (hp + 16) s) (\<lambda>s. Some (u_freep s, s)))"

definition malloc_take :: "uint32 \<Rightarrow> nat \<Rightarrow> nat \<Rightarrow> uheap \<Rightarrow> nat \<times> uheap" where
  "malloc_take nunits prevp p s =
     (if h_size s p = nunits then (p + 16, (set_ptr prevp (h_ptr s p) s)\<lparr>u_freep := prevp\<rparr>)
      else
        let s = set_size p (h_size s p - nunits) s; p = hdr_add p (h_size s p); s = set_size p nunits s in
        (p + 16, s\<lparr>u_freep := prevp\<rparr>))"

partial_function (option) malloc_loop :: "(nat \<Rightarrow> int \<Rightarrow> int \<times> nat) \<Rightarrow> uint32 \<Rightarrow> nat \<Rightarrow> nat \<Rightarrow> uheap \<Rightarrow> (nat \<times> uheap) option" where
  "malloc_loop sbrk nunits prevp p s =
     (if h_size s p \<ge> nunits then Some (malloc_take nunits prevp p s)
      else if p = u_freep s
      then Option.bind (morecore sbrk nunits s) (\<lambda>r.
        if fst r = 0 then Some (0, snd r) else malloc_loop sbrk nunits (fst r) (h_ptr (snd r) (fst r)) (snd r))
      else malloc_loop sbrk nunits p (h_ptr s p) s)"

definition malloc_units :: "uint32 \<Rightarrow> uint32" where
  "malloc_units nbytes = ucast ((ucast nbytes + 16 - 1 :: uint64) div 16 + 1)"

definition umalloc :: "(nat \<Rightarrow> int \<Rightarrow> int \<times> nat) \<Rightarrow> nat \<Rightarrow> uint32 \<Rightarrow> uheap \<Rightarrow> (nat \<times> uheap) option" where
  "umalloc sbrk base nbytes s =
     (let nunits = malloc_units nbytes;
          s = (if u_freep s = 0 then set_size base 0 ((set_ptr base base s)\<lparr>u_freep := base\<rparr>) else s) in
      malloc_loop sbrk nunits (u_freep s) (h_ptr s (u_freep s)) s)"

declare free_find.simps [code] malloc_loop.simps [code]

lemma set_sel [simp]:
  "h_ptr (set_ptr p x s) = (h_ptr s)(p := x)" "h_size (set_ptr p x s) = h_size s" "u_freep (set_ptr p x s) = u_freep s" "u_brk (set_ptr p x s) = u_brk s"
  "h_ptr (set_size p n s) = h_ptr s" "h_size (set_size p n s) = (h_size s)(p := n)" "u_freep (set_size p n s) = u_freep s" "u_brk (set_size p n s) = u_brk s"
  by (simp_all add: set_ptr_def set_size_def)

section \<open>The free list\<close>

text \<open>
  \<open>links\<close>: the pointers form a ring that starts at the static header. \<open>chunks\<close>: the chunks are in
  the order of their addresses, and no two of them touch.
\<close>

definition links :: "nat \<Rightarrow> (nat \<Rightarrow> nat) \<Rightarrow> nat list \<Rightarrow> bool" where
  "links base f cs \<longleftrightarrow> cs \<noteq> [] \<and> hd cs = base \<and> map f cs = tl cs @ [base]"

definition chunks :: "nat \<Rightarrow> (nat \<Rightarrow> nat) \<Rightarrow> nat \<Rightarrow> nat list \<Rightarrow> bool" where
  "chunks base g hi cs \<longleftrightarrow> sorted_wrt (\<lambda>a b. a + g a < b) cs \<and> g base = 0 \<and>
     (\<forall>c \<in> set (tl cs). 0 < g c \<and> base + 16 \<le> c \<and> c + g c \<le> hi)"

definition ext :: "uheap \<Rightarrow> nat \<Rightarrow> nat" where
  "ext s c = 16 * unat (h_size s c)"

definition arena :: "nat \<Rightarrow> uheap \<Rightarrow> nat list \<Rightarrow> bool" where
  "arena base s cs \<longleftrightarrow> links base (h_ptr s) cs \<and> chunks base (ext s) (u_brk s) cs \<and> u_freep s \<in> set cs \<and>
     0 < base \<and> base + 16 \<le> u_brk s \<and> u_brk s \<le> 2 ^ 31"

definition free_bytes :: "(nat \<Rightarrow> nat) \<Rightarrow> nat list \<Rightarrow> nat set" where
  "free_bytes g cs = (\<Union>c \<in> set cs. {c..<c + g c})"

lemma links_split:
  "links base f (xs @ p # ys) \<longleftrightarrow> hd (xs @ [p]) = base \<and> map f xs = tl (xs @ [p]) \<and> f p = hd (ys @ [base]) \<and> map f ys = tl (ys @ [base])"
proof -
  have "tl (xs @ p # ys) @ [base] = tl (xs @ [p]) @ ys @ [base]" by (cases xs) simp_all
  moreover have "map f xs @ us = tl (xs @ [p]) @ vs \<longleftrightarrow> map f xs = tl (xs @ [p]) \<and> us = vs" for us vs
    by (rule append_eq_append_conv) simp
  ultimately have "map f (xs @ p # ys) = tl (xs @ p # ys) @ [base] \<longleftrightarrow> map f xs = tl (xs @ [p]) \<and> f p # map f ys = ys @ [base]"
    by (simp only: map_append list.map)
  moreover have "f p # map f ys = ys @ [base] \<longleftrightarrow> f p = hd (ys @ [base]) \<and> map f ys = tl (ys @ [base])" by (cases ys) auto
  moreover have "hd (xs @ p # ys) = hd (xs @ [p])" by (cases xs) simp_all
  ultimately show ?thesis by (auto simp: links_def)
qed

lemma links_cong: "(\<And>c. c \<in> set cs \<Longrightarrow> f c = f' c) \<Longrightarrow> links base f cs = links base f' cs"
  unfolding links_def using map_cong [of cs cs f f'] by metis

lemma links_after:
  assumes "links base f cs" and "a \<in> set cs" and "f a \<noteq> base"
  shows "\<exists>xs ys. cs = xs @ a # f a # ys"
proof -
  obtain xs ys where cs: "cs = xs @ a # ys" using split_list [OF assms(2)] by blast
  then have "f a = hd (ys @ [base])" using assms(1) by (simp add: links_split)
  then show ?thesis using assms(3) cs by (cases ys) auto
qed

lemma links_closed:
  assumes "links base f cs" and "c \<in> set cs"
  shows "f c \<in> set cs"
proof -
  have "f ` set cs = set (tl cs @ [base])" using assms(1) unfolding links_def by (metis set_map)
  moreover have "set (tl cs @ [base]) \<subseteq> set cs" using assms(1) by (cases cs) (auto simp: links_def)
  ultimately show ?thesis using assms(2) by blast
qed

lemma links_insert:
  assumes "links base f (xs @ p # ys)" and "b \<notin> set (xs @ p # ys)" and "distinct (xs @ p # ys)"
  shows "links base (f(b := hd (ys @ [base]), p := b)) (xs @ p # b # ys)"
proof -
  let ?f = "f(b := hd (ys @ [base]), p := b)"
  have "map ?f xs = map f xs" "map ?f ys = map f ys" using assms(2,3) by (auto intro!: map_cong)
  then show ?thesis using assms(1,2) unfolding links_split [of base f] links_split [of base ?f xs p "b # ys"] by auto
qed

lemma links_remove:
  assumes "links base f (xs @ p # q # ys)" and "distinct (xs @ p # q # ys)"
  shows "links base (f(p := f q)) (xs @ p # ys)"
proof -
  let ?f = "f(p := f q)"
  have "map ?f xs = map f xs" "map ?f ys = map f ys" using assms(2) by (auto intro!: map_cong)
  moreover have "f q = hd (ys @ [base])" "map f ys = tl (ys @ [base])"
    using assms(1) by (simp_all add: links_split [of base f xs p "q # ys"]) (cases ys; auto)+
  ultimately show ?thesis using assms(1) unfolding links_split [of base f xs p "q # ys"] links_split [of base ?f xs p ys] by simp
qed

lemma chunks_sorted: "chunks base g hi cs \<Longrightarrow> sorted_wrt (<) cs"
  unfolding chunks_def by (auto elim!: sorted_wrt_mono_rel [rotated])

lemma chunks_cong: "(\<And>c. c \<in> insert base (set cs) \<Longrightarrow> g c = g' c) \<Longrightarrow> chunks base g hi cs = chunks base g' hi cs"
proof -
  assume e: "\<And>c. c \<in> insert base (set cs) \<Longrightarrow> g c = g' c"
  have "sorted_wrt (\<lambda>a b. a + g a < b) cs = sorted_wrt (\<lambda>a b. a + g' a < b) cs"
    using e by (intro iffI; elim sorted_wrt_mono_rel [rotated]) auto
  moreover have "g base = g' base" using e by blast
  moreover have "g c = g' c" if "c \<in> set (tl cs)" for c using that by (intro e) (cases cs; simp)
  ultimately show ?thesis unfolding chunks_def by simp
qed

lemma tl_middle: "set (tl (xs @ p # ys)) = (if xs = [] then set ys else set (tl xs) \<union> insert p (set ys))"
  by (cases xs) auto

lemma chunks_drop: "chunks base g hi (xs @ p # q # ys) \<Longrightarrow> chunks base g hi (xs @ p # ys)"
  by (auto simp: chunks_def sorted_wrt_append tl_middle split: if_splits)

lemma chunks_insert:
  assumes "chunks base g hi (xs @ p # ys)" and "p + g p < b" and "\<And>y. y \<in> set ys \<Longrightarrow> b + n < y"
    and "0 < n" and "base + 16 \<le> b" and "b + n \<le> hi"
  shows "chunks base (g(b := n)) hi (xs @ p # b # ys)"
proof -
  have x: "x + g x < p" if "x \<in> set xs" for x using assms(1) that by (auto simp: chunks_def sorted_wrt_append)
  have "b \<notin> set ys" using assms(3,4) by force
  moreover have "b \<notin> insert p (set xs)" using assms(2) x by force
  ultimately have "chunks base (g(b := n)) hi (xs @ p # ys) = chunks base g hi (xs @ p # ys)" using assms(5) by (intro chunks_cong) auto
  then have c: "chunks base (g(b := n)) hi (xs @ p # ys)" using assms(1) by simp
  have "x + (g(b := n)) x < b" if "x \<in> set xs" for x using x [OF that] assms(2) by auto
  then show ?thesis using c assms by (auto simp: chunks_def sorted_wrt_append tl_middle split: if_splits)
qed

lemma chunks_resize:
  assumes "chunks base g hi (xs @ p # ys)" and "p \<noteq> base" and "\<And>y. y \<in> set ys \<Longrightarrow> p + n < y" and "0 < n" and "p + n \<le> hi" and "hd (xs @ [p]) = base"
  shows "chunks base (g(p := n)) hi (xs @ p # ys)"
proof -
  have "sorted_wrt (<) (xs @ p # ys)" by (rule chunks_sorted [OF assms(1)])
  then have "p \<notin> set xs" "p \<notin> set ys" by (auto simp: sorted_wrt_append)
  moreover have "xs \<noteq> []" using assms(2,6) by auto
  moreover have "sorted_wrt (\<lambda>a b. a + (if a = p then n else g a) < b) zs = sorted_wrt (\<lambda>a b. a + g a < b) zs" if "p \<notin> set zs" for zs
    using that by (intro iffI; elim sorted_wrt_mono_rel [rotated]) (auto split: if_splits)
  ultimately show ?thesis using assms by (auto simp: chunks_def sorted_wrt_append tl_middle)
qed

section \<open>Finding the place of a chunk\<close>

lemma free_find_go:
  "\<not> (p < bp \<and> bp < h_ptr s p) \<Longrightarrow> \<not> (h_ptr s p \<le> p \<and> (p < bp \<or> bp < h_ptr s p)) \<Longrightarrow> free_find bp p s = free_find bp (h_ptr s p) s"
  by (subst free_find.simps) auto

lemma free_find_pred:
  assumes l: "links base (h_ptr s) cs" and sorted: "sorted_wrt (<) cs" and cs: "cs = xs @ p # ys"
    and bp: "p < bp" "\<And>y. y \<in> set ys \<Longrightarrow> bp < y" and q: "q \<in> set cs"
  shows "free_find bp q s = Some p"
proof -
  have next_p: "h_ptr s p = hd (ys @ [base])" using l cs by (simp add: links_split)
  have base: "base \<le> c" if "c \<in> set cs" for c
    using l sorted that by (cases cs) (auto simp: links_def)
  have base_bp: "base < bp" using base [of p] bp(1) by (simp add: cs)
  have late: "c \<in> set ys" if "c \<in> set cs" "bp < c" for c using that sorted bp(1) by (auto simp: cs sorted_wrt_append)
  have here: "free_find bp p s = Some p"
    using next_p bp base [of p] cs by (subst free_find.simps) (cases ys; auto)
  have before: "free_find bp c s = Some p" if "cs = as @ c # bs @ p # ys" for as c bs
    using that
  proof (induction bs arbitrary: as c)
    case Nil
    then have "h_ptr s c = p" "c < p" using l sorted by (simp_all add: links_split sorted_wrt_append)
    then show ?case using free_find_go [of c bp s] bp(1) here by simp
  next
    case (Cons d bs)
    then have "h_ptr s c = d" "c < d" "d < p" using l sorted by (simp_all add: links_split sorted_wrt_append)
    then show ?case using free_find_go [of c bp s] bp(1) Cons.IH [of "as @ [c]" d] Cons.prems by simp
  qed
  have start: "free_find bp base s = Some p"
  proof (cases xs)
    case Nil
    then show ?thesis using l cs here by (simp add: links_def)
  next
    case (Cons x bs)
    then show ?thesis using l cs before [of "[]" x bs] by (simp add: links_def)
  qed
  have after: "free_find bp c s = Some p" if "cs = as @ c # bs" "c \<in> set ys" for as c bs
    using that
  proof (induction bs arbitrary: as c)
    case Nil
    then have "h_ptr s c = base" using l by (simp add: links_split)
    moreover have "bp < c" using bp(2) Nil.prems by simp
    ultimately show ?case using free_find_go [of c bp s] start base_bp by simp
  next
    case (Cons d bs)
    then have d: "h_ptr s c = d" "c < d" using l sorted by (simp_all add: links_split sorted_wrt_append)
    moreover have "bp < c" using bp Cons.prems by simp
    moreover have "d \<in> set ys" using Cons.prems(1) d(2) \<open>bp < c\<close> by (intro late) simp_all
    ultimately show ?case using free_find_go [of c bp s] Cons.IH [of "as @ [c]" d] Cons.prems by simp
  qed
  from q cs consider "q \<in> set xs" | "q = p" | "q \<in> set ys" by auto
  then show ?thesis
  proof cases
    case 1
    then obtain as bs where "xs = as @ q # bs" by (meson split_list)
    then show ?thesis using before [of as q bs] cs by simp
  next
    case 2
    then show ?thesis using here by simp
  next
    case 3
    then obtain as bs where "cs = as @ q # bs" using q by (meson split_list)
    then show ?thesis using after 3 by blast
  qed
qed

section \<open>Giving memory back\<close>

lemma sorted_place:
  fixes b :: nat
  assumes "sorted_wrt (<) cs" and "cs \<noteq> []" and "hd cs < b" and "b \<notin> set cs"
  shows "\<exists>xs p ys. cs = xs @ p # ys \<and> p < b \<and> (\<forall>y \<in> set ys. b < y)"
  using assms
proof (induction cs)
  case (Cons c cs)
  show ?case
  proof (cases "cs \<noteq> [] \<and> hd cs < b")
    case True
    then obtain xs p ys where "cs = xs @ p # ys" "p < b" "\<forall>y \<in> set ys. b < y" using Cons by auto
    then show ?thesis by (intro exI [of _ "c # xs"] exI [of _ p] exI [of _ ys]) simp
  next
    case False
    have "\<forall>y \<in> set cs. b < y"
    proof
      fix y
      assume y: "y \<in> set cs"
      then have "hd cs \<le> y" using Cons.prems(1) by (cases cs) auto
      then show "b < y" using False y Cons.prems(4) by (cases cs) (auto simp: not_less dest: le_neq_implies_less)
    qed
    then show ?thesis using Cons.prems(3) by (intro exI [of _ "[]"] exI [of _ c] exI [of _ cs]) simp
  qed
qed simp

lemma free_bytes_append: "free_bytes g (xs @ ys) = free_bytes g xs \<union> free_bytes g ys" "free_bytes g (c # ys) = {c..<c + g c} \<union> free_bytes g ys" "free_bytes g [] = {}"
  by (auto simp: free_bytes_def)

lemma free_bytes_cong: "(\<And>c. c \<in> set cs \<Longrightarrow> g c = g' c) \<Longrightarrow> free_bytes g cs = free_bytes g' cs"
  by (auto simp: free_bytes_def)

text \<open>The first half of \<open>free\<close>: the new chunk takes in the one after it if they touch.\<close>

lemma join_next:
  assumes l: "links base f (xs @ p # ys)" and c: "chunks base g hi (xs @ p # ys)"
    and b: "base < b" "\<And>y. y \<in> set ys \<Longrightarrow> b + n \<le> y" "0 < n" "b + n \<le> hi"
  shows "\<exists>ys'. (if b + n = f p then f (f p) else f p) = hd (ys' @ [base]) \<and> set ys' \<subseteq> set ys \<and>
     links base (f(p := hd (ys' @ [base]))) (xs @ p # ys') \<and> chunks base g hi (xs @ p # ys') \<and>
     (\<forall>y \<in> set ys'. b + (if b + n = f p then n + g (f p) else n) < y) \<and> b + (if b + n = f p then n + g (f p) else n) \<le> hi \<and>
     free_bytes g (xs @ p # ys') \<union> {b..<b + (if b + n = f p then n + g (f p) else n)} = free_bytes g (xs @ p # ys) \<union> {b..<b + n}"
proof -
  have sorted: "sorted_wrt (<) (xs @ p # ys)" by (rule chunks_sorted [OF c])
  then have dist: "distinct (xs @ p # ys)" by (simp only: strict_sorted_iff)
  have fp: "f p = hd (ys @ [base])" using l by (simp add: links_split)
  show ?thesis
  proof (cases "b + n = f p")
    case True
    then obtain q zs where ys: "ys = q # zs" "f p = q" using fp b(1) by (cases ys) auto
    have q: "b + n = q" using True ys(2) by simp
    have "f q = hd (zs @ [base])" using l unfolding ys links_split [of base f xs p "q # zs"] by (cases zs) auto
    moreover have "links base (f(p := f q)) (xs @ p # zs)" using l dist unfolding ys by (rule links_remove)
    moreover have "chunks base g hi (xs @ p # zs)" using c unfolding ys by (rule chunks_drop)
    moreover have "\<forall>y \<in> set zs. q + g q < y" "q + g q \<le> hi" using c ys by (auto simp: chunks_def sorted_wrt_append tl_middle split: if_splits)
    ultimately show ?thesis
      using True ys q by (intro exI [of _ zs]) (auto simp: free_bytes_append)
  next
    case False
    have "b + n < y" if y: "y \<in> set ys" for y
    proof (cases ys)
      case (Cons q zs)
      then have "b + n < q" using b(2) [of q] False fp by simp
      then show ?thesis using y Cons sorted by (auto simp: sorted_wrt_append)
    qed (use y in simp)
    moreover have "f(p := hd (ys @ [base])) = f" using fp by auto
    ultimately show ?thesis using False fp l c b(4) by (intro exI [of _ ys]) simp
  qed
qed

lemma unat_sum:
  fixes a b :: uint32
  assumes "16 * unat a + 16 * unat b < 2 ^ 31"
  shows "unat (a + b) = unat a + unat b"
proof -
  have "unat a + unat b < 2 ^ 32" using assms by simp
  then show ?thesis using unat_add_lem [of a b] by simp
qed

text \<open>The second half: it is taken in by the chunk before it, or follows it in the ring.\<close>

lemma join_prev:
  assumes l: "links base (f(p := nx)) (xs @ p # ys)" and c: "chunks base g hi (xs @ p # ys)" and nx: "nx = hd (ys @ [base])"
    and b: "\<And>y. y \<in> set ys \<Longrightarrow> b + k < y" "b + k \<le> hi" "p + g p = b" "base + 16 \<le> b" "0 < k" "b \<notin> set (xs @ p # ys)"
  shows "links base (f(b := nx, p := nx)) (xs @ p # ys)" "chunks base (g(b := k, p := g p + k)) hi (xs @ p # ys)"
    "free_bytes (g(b := k, p := g p + k)) (xs @ p # ys) = free_bytes g (xs @ p # ys) \<union> {b..<b + k}"
proof -
  have hd: "hd (xs @ [p]) = base" using l by (simp add: links_split)
  have dist: "distinct (xs @ p # ys)" using chunks_sorted [OF c] by (simp only: strict_sorted_iff)
  have pb: "p \<noteq> base" using c b(3,4) by (auto simp: chunks_def)
  show "links base (f(b := nx, p := nx)) (xs @ p # ys)"
    using l b(6) by (subst links_cong [where f' = "f(p := nx)"]) auto
  have e: "p + (g p + k) = b + k" using b(3) by simp
  have "chunks base (g(p := g p + k)) hi (xs @ p # ys)" using b(1,2,5) by (intro chunks_resize [OF c pb _ _ _ hd]) (simp_all only: e add_gr_0 simp_thms)
  then show "chunks base (g(b := k, p := g p + k)) hi (xs @ p # ys)"
    using b(4,6) by (subst chunks_cong [where g' = "g(p := g p + k)"]) auto
  have "free_bytes (g(b := k, p := g p + k)) zs = free_bytes g zs" if "zs = xs \<or> zs = ys" for zs
    using that dist b(6) by (intro free_bytes_cong) auto
  then show "free_bytes (g(b := k, p := g p + k)) (xs @ p # ys) = free_bytes g (xs @ p # ys) \<union> {b..<b + k}"
    using b(3) by (auto simp: free_bytes_append)
qed

lemma link_prev:
  assumes l: "links base (f(p := nx)) (xs @ p # ys)" and c: "chunks base g hi (xs @ p # ys)" and nx: "nx = hd (ys @ [base])"
    and b: "\<And>y. y \<in> set ys \<Longrightarrow> b + k < y" "b + k \<le> hi" "p + g p < b" "base + 16 \<le> b" "0 < k" "b \<notin> set (xs @ p # ys)"
  shows "links base (f(b := nx, p := b)) (xs @ p # b # ys)" "chunks base (g(b := k)) hi (xs @ p # b # ys)"
    "free_bytes (g(b := k)) (xs @ p # b # ys) = free_bytes g (xs @ p # ys) \<union> {b..<b + k}"
proof -
  have dist: "distinct (xs @ p # ys)" using chunks_sorted [OF c] by (simp only: strict_sorted_iff)
  have "links base ((f(p := nx))(b := nx, p := b)) (xs @ p # b # ys)" using links_insert [OF l b(6) dist] nx by simp
  moreover have "(f(p := nx))(b := nx, p := b) = f(b := nx, p := b)" by (auto simp: fun_eq_iff)
  ultimately show "links base (f(b := nx, p := b)) (xs @ p # b # ys)" by simp
  show "chunks base (g(b := k)) hi (xs @ p # b # ys)" using c b by (intro chunks_insert) auto
  have "free_bytes (g(b := k)) zs = free_bytes g zs" if "zs = xs \<or> zs = p # ys" for zs
    using that b(6) by (intro free_bytes_cong) auto
  then have "free_bytes (g(b := k)) xs = free_bytes g xs" "free_bytes (g(b := k)) (p # ys) = free_bytes g (p # ys)" by blast+
  then show "free_bytes (g(b := k)) (xs @ p # b # ys) = free_bytes g (xs @ p # ys) \<union> {b..<b + k}"
    using b(6) by (auto simp: free_bytes_append)
qed

lemma ufree_eq:
  assumes "free_find bp (u_freep s) s = Some p" and "p \<noteq> bp"
  defines "m \<equiv> (if bp + ext s bp = h_ptr s p then h_size s bp + h_size s (h_ptr s p) else h_size s bp)"
    and "nx \<equiv> (if bp + ext s bp = h_ptr s p then h_ptr s (h_ptr s p) else h_ptr s p)"
  shows "ufree (bp + 16) s = Some
     (if p + ext s p = bp
      then s\<lparr>h_ptr := (h_ptr s)(bp := nx, p := nx), h_size := (h_size s)(bp := m, p := h_size s p + m), u_freep := p\<rparr>
      else s\<lparr>h_ptr := (h_ptr s)(bp := nx, p := bp), h_size := (h_size s)(bp := m), u_freep := p\<rparr>)"
proof (cases "bp + ext s bp = h_ptr s p")
  case True
  then show ?thesis using assms by (simp add: ufree_def Let_def hdr_add_def ext_def set_ptr_def set_size_def)
next
  case False
  then show ?thesis using assms by (simp add: ufree_def Let_def hdr_add_def ext_def set_ptr_def set_size_def)
qed

text \<open>A chunk that is not free, with its header.\<close>

definition used :: "nat \<Rightarrow> uheap \<Rightarrow> nat list \<Rightarrow> nat \<Rightarrow> bool" where
  "used base s cs b \<longleftrightarrow> 0 < ext s b \<and> base + 16 \<le> b \<and> b + ext s b \<le> u_brk s \<and> {b..<b + ext s b} \<inter> free_bytes (ext s) cs = {}"

lemma used_between:
  assumes A: "arena base s (xs @ p # ys)" and U: "used base s (xs @ p # ys) b" and b: "p < b" "\<And>y. y \<in> set ys \<Longrightarrow> b < y"
  shows "p + ext s p \<le> b" "\<And>y. y \<in> set ys \<Longrightarrow> b + ext s b \<le> y"
proof -
  have disj: "x \<notin> {b..<b + ext s b}" if "c \<in> set (xs @ p # ys)" "x \<in> {c..<c + ext s c}" for c x
  proof -
    have "x \<in> free_bytes (ext s) (xs @ p # ys)" unfolding free_bytes_def using that by blast
    then show ?thesis using U unfolding used_def by blast
  qed
  show "p + ext s p \<le> b"
  proof (rule ccontr)
    assume "\<not> p + ext s p \<le> b"
    then have "b \<in> {p..<p + ext s p}" using b(1) by simp
    then show False using disj [of p b] U by (simp add: used_def)
  qed
  show "b + ext s b \<le> y" if y: "y \<in> set ys" for y
  proof (rule ccontr)
    assume "\<not> b + ext s b \<le> y"
    then have "y \<in> {b..<b + ext s b}" using b(2) [OF y] by simp
    moreover have "0 < ext s y" using A y by (auto simp: arena_def chunks_def tl_middle)
    then have "y \<in> {y..<y + ext s y}" by simp
    ultimately show False using disj [of y y] y by simp
  qed
qed

lemma ufree_arena:
  assumes A: "arena base s cs" and U: "used base s cs b"
  shows "\<exists>s' cs'. ufree (b + 16) s = Some s' \<and> arena base s' cs' \<and> free_bytes (ext s') cs' = free_bytes (ext s) cs \<union> {b..<b + ext s b} \<and>
     u_brk s' = u_brk s \<and> (\<forall>a. a \<notin> set cs \<longrightarrow> a \<noteq> b \<longrightarrow> h_ptr s' a = h_ptr s a \<and> h_size s' a = h_size s a) \<and> (\<exists>c \<in> set cs'. ext s b \<le> ext s' c)"
proof -
  have l: "links base (h_ptr s) cs" and c: "chunks base (ext s) (u_brk s) cs" and brk: "0 < base" "base + 16 \<le> u_brk s" "u_brk s \<le> 2 ^ 31" "u_freep s \<in> set cs"
    using A by (simp_all add: arena_def)
  have sorted: "sorted_wrt (<) cs" by (rule chunks_sorted [OF c])
  have u: "0 < ext s b" "base + 16 \<le> b" "b + ext s b \<le> u_brk s" using U by (simp_all add: used_def)
  have "b \<notin> set cs"
  proof
    assume "b \<in> set cs"
    then have "b \<in> free_bytes (ext s) cs" using u(1) by (auto simp: free_bytes_def)
    moreover have "b \<in> {b..<b + ext s b}" using u(1) by simp
    ultimately show False using U unfolding used_def by blast
  qed
  moreover have "hd cs < b" "cs \<noteq> []" using l u(2) by (simp_all add: links_def)
  ultimately obtain xs p ys where cs: "cs = xs @ p # ys" and p: "p < b" "\<And>y. y \<in> set ys \<Longrightarrow> b < y"
    using sorted_place [OF sorted] by blast
  note bt = used_between [OF A [unfolded cs] U [unfolded cs] p]
  have found: "free_find b (u_freep s) s = Some p" by (rule free_find_pred [OF l sorted cs p brk(4)])
  let ?j = "b + ext s b = h_ptr s p"
  let ?m = "if ?j then h_size s b + h_size s (h_ptr s p) else h_size s b"
  let ?nx = "if ?j then h_ptr s (h_ptr s p) else h_ptr s p"
  let ?k = "if ?j then ext s b + ext s (h_ptr s p) else ext s b"
  obtain ys' where j: "?nx = hd (ys' @ [base])" "set ys' \<subseteq> set ys" "links base ((h_ptr s)(p := ?nx)) (xs @ p # ys')"
    "chunks base (ext s) (u_brk s) (xs @ p # ys')" "\<And>y. y \<in> set ys' \<Longrightarrow> b + ?k < y" "b + ?k \<le> u_brk s"
    "free_bytes (ext s) (xs @ p # ys') \<union> {b..<b + ?k} = free_bytes (ext s) cs \<union> {b..<b + ext s b}"
    using join_next [OF l [unfolded cs] c [unfolded cs] _ bt(2) u(1,3)] u(2) unfolding cs by auto
  have m: "16 * unat ?m = ?k"
  proof (cases ?j)
    case True
    then have "16 * unat (h_size s b) + 16 * unat (h_size s (h_ptr s p)) < 2 ^ 31" using j(6) u(2) brk(1,3) by (simp add: ext_def)
    from unat_sum [OF this] show ?thesis using True by (simp add: ext_def)
  qed (simp add: ext_def)
  have bn: "b \<notin> set (xs @ p # ys')" using \<open>b \<notin> set cs\<close> j(2) by (auto simp: cs)
  have base_p: "base \<le> p" using l sorted unfolding cs links_def by (cases xs) auto
  have k: "0 < ?k" "ext s b \<le> ?k" using u(1) by simp_all
  show ?thesis
  proof (cases "p + ext s p = b")
    case True
    let ?s = "s\<lparr>h_ptr := (h_ptr s)(b := ?nx, p := ?nx), h_size := (h_size s)(b := ?m, p := h_size s p + ?m), u_freep := p\<rparr>"
    have "16 * unat (h_size s p) + 16 * unat ?m = ext s p + ?k" using m ext_def [of s p] by linarith
    moreover have "ext s p + ?k < 2 ^ 31" using True j(6) brk(3) p(1) base_p brk(1) by linarith
    ultimately have "16 * unat (h_size s p + ?m) = ext s p + ?k" using unat_sum [of "h_size s p" ?m] by linarith
    then have e: "ext ?s = (ext s)(b := ?k, p := ext s p + ?k)" using m by (auto simp: ext_def fun_eq_iff)
    have "arena base ?s (xs @ p # ys')"
      using join_prev [OF j(3,4,1,5,6) True u(2) k(1) bn] brk unfolding arena_def e by simp
    moreover have "free_bytes (ext ?s) (xs @ p # ys') = free_bytes (ext s) cs \<union> {b..<b + ext s b}"
      using join_prev(3) [OF j(3,4,1,5,6) True u(2) k(1) bn] j(7) unfolding e by simp
    moreover have "ufree (b + 16) s = Some ?s" using ufree_eq [OF found] p(1) True by simp
    moreover have "ext s b \<le> ext ?s p" using k(2) unfolding e by simp
    ultimately show ?thesis by (intro exI [of _ ?s] exI [of _ "xs @ p # ys'"]) (simp add: cs)
  next
    case False
    let ?s = "s\<lparr>h_ptr := (h_ptr s)(b := ?nx, p := b), h_size := (h_size s)(b := ?m), u_freep := p\<rparr>"
    have lt: "p + ext s p < b" using False bt(1) by simp
    have e: "ext ?s = (ext s)(b := ?k)" using m by (auto simp: ext_def fun_eq_iff)
    have "arena base ?s (xs @ p # b # ys')"
      using link_prev [OF j(3,4,1,5,6) lt u(2) k(1) bn] brk unfolding arena_def e by simp
    moreover have "free_bytes (ext ?s) (xs @ p # b # ys') = free_bytes (ext s) cs \<union> {b..<b + ext s b}"
      using link_prev(3) [OF j(3,4,1,5,6) lt u(2) k(1) bn] j(7) unfolding e by simp
    moreover have "ufree (b + 16) s = Some ?s" using ufree_eq [OF found] p(1) False by simp
    moreover have "ext s b \<le> ext ?s b" using k(2) unfolding e by simp
    ultimately show ?thesis by (intro exI [of _ ?s] exI [of _ "xs @ p # b # ys'"]) (simp add: cs)
  qed
qed

section \<open>Walking the ring\<close>

lemma links_from:
  assumes "links base f (xs @ x # ys)"
  shows "map f (x # ys @ xs) = (ys @ xs) @ [x]"
proof -
  have l: "hd (xs @ [x]) = base" "map f xs = tl (xs @ [x])" "f x = hd (ys @ [base])" "map f ys = tl (ys @ [base])"
    using assms by (simp_all add: links_split)
  have "f x # map f ys = ys @ [base]" using l(3,4) by (cases ys) auto
  moreover have "base # map f xs = xs @ [x]" using l(1,2) by (cases xs) auto
  ultimately show ?thesis by (simp add: append_eq_append_conv2 [symmetric]) (metis append.assoc append_Cons append_Nil)
qed

abbreviation fetch_more :: "(nat \<Rightarrow> int \<Rightarrow> int \<times> nat) \<Rightarrow> uint32 \<Rightarrow> uheap \<Rightarrow> (nat \<times> uheap) option" where
  "fetch_more sbrk n s \<equiv> Option.bind (morecore sbrk n s) (\<lambda>r.
     if fst r = 0 then Some (0, snd r) else malloc_loop sbrk n (fst r) (h_ptr (snd r) (fst r)) (snd r))"

lemma malloc_loop_path:
  assumes "map (h_ptr s) (q # ws) = ws @ [u_freep s]" and "u_freep s \<notin> set ws"
  shows "(\<exists>w \<in> set (q # ws). n \<le> h_size s (h_ptr s w) \<and> malloc_loop sbrk n q (h_ptr s q) s = Some (malloc_take n w (h_ptr s w) s)) \<or>
     (\<forall>w \<in> set (q # ws). h_size s (h_ptr s w) < n) \<and> malloc_loop sbrk n q (h_ptr s q) s = fetch_more sbrk n s"
  using assms
proof (induction ws arbitrary: q)
  case Nil
  then show ?case by (subst (1 2) malloc_loop.simps) (auto simp: not_le)
next
  case (Cons w ws)
  have w: "h_ptr s q = w" "w \<noteq> u_freep s" using Cons.prems by auto
  show ?case
  proof (cases "n \<le> h_size s w")
    case True
    then have "malloc_loop sbrk n q (h_ptr s q) s = Some (malloc_take n q (h_ptr s q) s)" by (subst malloc_loop.simps) (simp add: w)
    then show ?thesis using True w by auto
  next
    case False
    then have "malloc_loop sbrk n q (h_ptr s q) s = malloc_loop sbrk n w (h_ptr s w) s" by (subst malloc_loop.simps) (simp add: w)
    then show ?thesis using Cons.IH [of w] Cons.prems False w by (auto simp: not_le)
  qed
qed

lemma malloc_loop_walk:
  assumes "arena base s cs"
  shows "(\<exists>w \<in> set cs. n \<le> h_size s (h_ptr s w) \<and> malloc_loop sbrk n (u_freep s) (h_ptr s (u_freep s)) s = Some (malloc_take n w (h_ptr s w) s)) \<or>
     (\<forall>c \<in> set cs. h_size s c < n) \<and> malloc_loop sbrk n (u_freep s) (h_ptr s (u_freep s)) s = fetch_more sbrk n s"
proof -
  have l: "links base (h_ptr s) cs" and c: "chunks base (ext s) (u_brk s) cs" and f: "u_freep s \<in> set cs" using assms by (simp_all add: arena_def)
  have dist: "distinct cs" using chunks_sorted [OF c] by (simp only: strict_sorted_iff)
  obtain xs ys where cs: "cs = xs @ u_freep s # ys" using split_list [OF f] by blast
  have path: "map (h_ptr s) (u_freep s # ys @ xs) = (ys @ xs) @ [u_freep s]" by (rule links_from) (use l cs in simp)
  have notin: "u_freep s \<notin> set (ys @ xs)" using dist by (subst (asm) cs) simp
  have all: "set (u_freep s # ys @ xs) = set cs" using arg_cong [OF cs, of set] by auto
  have "h_ptr s ` set (u_freep s # ys @ xs) = set ((ys @ xs) @ [u_freep s])" using arg_cong [OF path, of set] by (simp only: set_map)
  also have "\<dots> = set cs" using all by auto
  finally have image: "h_ptr s ` set cs = set cs" unfolding all .
  have "(\<forall>c \<in> h_ptr s ` set cs. h_size s c < n) \<longleftrightarrow> (\<forall>w \<in> set cs. h_size s (h_ptr s w) < n)" by simp
  then show ?thesis using malloc_loop_path [OF path notin, of n sbrk] unfolding all image by simp
qed

section \<open>Taking a chunk\<close>

lemma unat_minus_le:
  fixes a b :: uint32
  shows "b \<le> a \<Longrightarrow> unat (a - b) = unat a - unat b"
  by (rule unat_sub)

lemma malloc_take_arena:
  assumes A: "arena base s cs" and w: "w \<in> set cs" and n: "n \<le> h_size s (h_ptr s w)" "0 < n"
  shows "\<exists>b s' cs'. malloc_take n w (h_ptr s w) s = (b + 16, s') \<and> arena base s' cs' \<and> h_size s' b = n \<and>
     {b..<b + 16 * unat n} \<subseteq> free_bytes (ext s) cs \<and> free_bytes (ext s') cs' = free_bytes (ext s) cs - {b..<b + 16 * unat n} \<and>
     u_brk s' = u_brk s \<and> (\<forall>a. a \<notin> free_bytes (ext s) cs \<longrightarrow> a \<noteq> base \<longrightarrow> h_ptr s' a = h_ptr s a \<and> h_size s' a = h_size s a)"
proof -
  have l: "links base (h_ptr s) cs" and c: "chunks base (ext s) (u_brk s) cs" and brk: "0 < base" "base + 16 \<le> u_brk s" "u_brk s \<le> 2 ^ 31" "u_freep s \<in> set cs"
    using A by (simp_all add: arena_def)
  have un: "0 < unat n" "unat n \<le> unat (h_size s (h_ptr s w))" using n by (simp_all add: word_less_nat_alt word_le_nat_alt)
  obtain q where q: "h_ptr s w = q" by simp
  have "q \<noteq> base" using c un q by (auto simp: chunks_def ext_def)
  then obtain xs ys where cs: "cs = xs @ w # q # ys" using links_after [OF l w] q by auto
  have sorted: "sorted_wrt (\<lambda>a b. a + ext s a < b) cs" using c by (simp add: chunks_def)
  have dist: "distinct cs" using chunks_sorted [OF c] by (simp only: strict_sorted_iff)
  have free: "{q..<q + ext s q} \<subseteq> free_bytes (ext s) cs" by (auto simp: free_bytes_def cs)
  have rest: "free_bytes (ext s) cs - {q..<q + ext s q} = free_bytes (ext s) (xs @ w # ys)"
    using sorted by (auto simp: free_bytes_def cs sorted_wrt_append)
  have head: "c \<in> free_bytes (ext s) cs \<or> c = base" if "c \<in> set cs" for c
    using that c l by (cases cs) (auto simp: chunks_def links_def free_bytes_def)
  have wq: "w \<in> free_bytes (ext s) cs \<or> w = base" "q \<in> free_bytes (ext s) cs" using head [of w] head [of q] w \<open>q \<noteq> base\<close> by (auto simp: cs)
  show ?thesis
  proof (cases "h_size s q = n")
    case True
    let ?s = "(set_ptr w (h_ptr s q) s)\<lparr>u_freep := w\<rparr>"
    have e: "ext ?s = ext s" "16 * unat n = ext s q" using True by (auto simp: ext_def fun_eq_iff)
    have "links base (h_ptr ?s) (xs @ w # ys)" using links_remove [OF l [unfolded cs]] dist by (simp add: cs)
    moreover have "chunks base (ext s) (u_brk s) (xs @ w # ys)" using c unfolding cs by (rule chunks_drop)
    ultimately have "arena base ?s (xs @ w # ys)" using brk unfolding arena_def e by simp
    moreover have "malloc_take n w q s = (q + 16, ?s)" using True by (simp add: malloc_take_def)
    ultimately show ?thesis
      using True wq free rest unfolding q by (intro exI [of _ q] exI [of _ ?s] exI [of _ "xs @ w # ys"]) (auto simp: e)
  next
    case False
    let ?k = "16 * unat (h_size s q - n)" and ?s = "(set_size (hdr_add q (h_size s q - n)) n (set_size q (h_size s q - n) s))\<lparr>u_freep := w\<rparr>"
    let ?b = "q + ?k"
    have k: "?k + 16 * unat n = ext s q" using un q unat_minus_le [OF n(1)] by (simp add: ext_def)
    have "unat n \<noteq> unat (h_size s q)" using False word_unat_eq_iff [of n "h_size s q"] by auto
    then have k0: "0 < ?k" using k by (simp add: ext_def)
    have y: "q + ext s q < y" if "y \<in> set ys" for y using sorted that by (simp add: cs sorted_wrt_append)
    have x: "x < q" if "x \<in> insert w (set xs)" for x using sorted that by (auto simp: cs sorted_wrt_append)
    have hi: "q + ext s q \<le> u_brk s" "base < q" using c by (auto simp: cs chunks_def tl_middle split: if_splits)
    have b: "?b \<notin> set cs" using x [of ?b] y [of ?b] k k0 un by (auto simp: cs)
    have bb: "?b \<noteq> base" using hi(2) by simp
    have bin: "{?b..<?b + 16 * unat n} \<subseteq> {q..<q + ext s q}" "?b \<in> {q..<q + ext s q}" using k un by auto
    have e: "ext ?s = (ext s)(q := ?k, ?b := 16 * unat n)" by (auto simp: ext_def fun_eq_iff hdr_add_def)
    have hd: "hd ((xs @ [w]) @ [q]) = base" using l by (cases xs) (simp_all add: cs links_def)
    have "chunks base ((ext s)(q := ?k)) (u_brk s) ((xs @ [w]) @ q # ys)"
      using c l y hi(1) k k0 un \<open>q \<noteq> base\<close> by (intro chunks_resize [OF _ _ _ _ _ hd]) (fastforce simp: cs)+
    then have "chunks base (ext ?s) (u_brk s) cs" using b bb unfolding e by (subst chunks_cong [where g' = "(ext s)(q := ?k)"]) (auto simp: cs)
    then have "arena base ?s cs" using l w brk unfolding arena_def by simp
    moreover have "malloc_take n w q s = (?b + 16, ?s)" using False by (simp add: malloc_take_def Let_def hdr_add_def)
    moreover have "free_bytes (ext ?s) cs = free_bytes (ext s) cs - {?b..<?b + 16 * unat n}"
    proof -
      have same: "free_bytes (ext ?s) zs = free_bytes (ext s) zs" if "set zs \<subseteq> set (xs @ w # ys)" for zs
        using that b dist unfolding e by (intro free_bytes_cong) (auto simp: cs)
      have "free_bytes (ext ?s) xs = free_bytes (ext s) xs" by (rule same) auto
      moreover have "free_bytes (ext ?s) ys = free_bytes (ext s) ys" by (rule same) auto
      moreover have "ext ?s w = ext s w" "ext ?s q = ?k" using b dist k0 unfolding e by (auto simp: cs)
      ultimately have "free_bytes (ext ?s) cs = free_bytes (ext s) (xs @ w # ys) \<union> {q..<q + ?k}"
        unfolding cs free_bytes_append by (simp only: Un_ac)
      also have "\<dots> = (free_bytes (ext s) cs - {q..<q + ext s q}) \<union> {q..<q + ?k}" by (simp only: rest)
      also have "{q..<q + ?k} = {q..<q + ext s q} - {?b..<?b + 16 * unat n}" using k un by auto
      finally show ?thesis using free bin(1) by blast
    qed
    moreover have "?b \<in> free_bytes (ext s) cs" "{?b..<?b + 16 * unat n} \<subseteq> free_bytes (ext s) cs" using free bin by blast+
    moreover from this wq have "\<forall>a. a \<notin> free_bytes (ext s) cs \<longrightarrow> a \<noteq> base \<longrightarrow> h_ptr ?s a = h_ptr s a \<and> h_size ?s a = h_size s a"
      by (auto simp: hdr_add_def)
    moreover have "h_size ?s ?b = n" "u_brk ?s = u_brk s" by (simp_all add: hdr_add_def)
    ultimately show ?thesis unfolding q by blast
  qed
qed

section \<open>Asking for more memory\<close>

text \<open>What \<^verbatim>\<open>sbrk\<close> does with a size: it refuses, or gives the memory after the end of the process.\<close>

definition sbrk_grows :: "(nat \<Rightarrow> int \<Rightarrow> int \<times> nat) \<Rightarrow> bool" where
  "sbrk_grows sbrk \<longleftrightarrow> (\<forall>brk n. 0 \<le> n \<longrightarrow> sbrk brk n = (-1, brk) \<or> sbrk brk n = (int brk, brk + nat n) \<and> brk + nat n \<le> 2 ^ 31)"

lemma sbrk_argument:
  fixes nu :: uint32
  assumes "16 * unat nu < 2 ^ 31"
  shows "sint (ucast (ucast nu * 16 :: uint64) :: uint32) = int (16 * unat nu)"
proof -
  have "unat (ucast nu * 16 :: uint64) = unat nu * 16" using assms unat_mult_lem [of "ucast nu :: uint64" 16] by simp
  then have "unat (ucast (ucast nu * 16 :: uint64) :: uint32) = 16 * unat nu" using assms by (simp add: unsigned_ucast_eq take_bit_nat_eq_self)
  then have "uint (ucast (ucast nu * 16 :: uint64) :: uint32) = int (16 * unat nu)" by (simp only: uint_nat)
  moreover have "signed_take_bit 31 (int k) = int k" if "k < 2 ^ 31" for k using that by (intro signed_take_bit_int_eq_self) simp_all
  note this [OF assms]
  ultimately show ?thesis unfolding sint_uint by (simp del: of_nat_mult)
qed

lemma free_below:
  assumes "arena base s cs" and "a \<in> free_bytes (ext s) cs"
  shows "base + 16 \<le> a" "a < u_brk s"
proof -
  obtain c where c: "c \<in> set cs" "c \<le> a" "a < c + ext s c" using assms(2) by (auto simp: free_bytes_def)
  moreover have "ext s base = 0" "hd cs = base" "cs \<noteq> []" using assms(1) by (simp_all add: arena_def chunks_def links_def)
  ultimately have "c \<in> set (tl cs)" by (cases cs) auto
  then show "base + 16 \<le> a" "a < u_brk s" using assms(1) c by (auto simp: arena_def chunks_def)
qed

lemma head_below:
  assumes "arena base s cs" and "c \<in> set cs"
  shows "base \<le> c" "c < u_brk s" "c \<in> free_bytes (ext s) cs \<or> c = base"
proof -
  have "c = base \<or> c \<in> set (tl cs)" using assms by (cases cs) (auto simp: arena_def links_def)
  then show "base \<le> c" "c < u_brk s" "c \<in> free_bytes (ext s) cs \<or> c = base"
    using assms by (auto simp: arena_def chunks_def free_bytes_def)
qed

lemma morecore_arena:
  assumes A: "arena base s cs" and n: "0 < n" "16 * unat n < 2 ^ 31" and sb: "sbrk_grows sbrk"
  shows "morecore sbrk n s = Some (0, s) \<and> (\<exists>k. 0 \<le> k \<and> fst (sbrk (u_brk s) k) = -1) \<or>
     (\<exists>s' cs'. morecore sbrk n s = Some (u_freep s', s') \<and> arena base s' cs' \<and> free_bytes (ext s') cs' = free_bytes (ext s) cs \<union> {u_brk s..<u_brk s'} \<and>
       (\<forall>a. a \<notin> free_bytes (ext s) cs \<longrightarrow> a \<noteq> base \<longrightarrow> a < u_brk s \<longrightarrow> h_ptr s' a = h_ptr s a \<and> h_size s' a = h_size s a) \<and>
       u_brk s \<le> u_brk s' \<and> (\<exists>c \<in> set cs'. n \<le> h_size s' c))"
proof -
  let ?nu = "if n < 4096 then 4096 else n" and ?hp = "u_brk s"
  have nu: "n \<le> ?nu" "16 * unat ?nu < 2 ^ 31" "0 < unat ?nu" using n by (auto simp: word_less_nat_alt word_le_nat_alt)
  let ?r = "sbrk (u_brk s) (int (16 * unat ?nu))"
  consider "?r = (-1, ?hp)" | "?r = (int ?hp, ?hp + 16 * unat ?nu)" "?hp + 16 * unat ?nu \<le> 2 ^ 31"
    using sb unfolding sbrk_grows_def by (metis nat_int of_nat_0_le_iff)
  then show ?thesis
  proof cases
    case 1
    then have "fst ?r = -1" by simp
    then have "\<exists>k. 0 \<le> k \<and> fst (sbrk (u_brk s) k) = -1" by (intro exI conjI) simp_all
    then show ?thesis using 1 by (simp add: morecore_def Let_def sbrk_argument [OF nu(2)])
  next
    case 2
    let ?s = "set_size ?hp ?nu (s\<lparr>u_brk := ?hp + 16 * unat ?nu\<rparr>)"
    have more: "morecore sbrk n s = Option.bind (ufree (?hp + 16) ?s) (\<lambda>s. Some (u_freep s, s))"
      using 2 by (simp add: morecore_def Let_def sbrk_argument [OF nu(2)])
    have e: "ext ?s = (ext s)(?hp := 16 * unat ?nu)" by (auto simp: ext_def fun_eq_iff)
    have hp: "?hp \<notin> set cs" "?hp \<noteq> base" using head_below [OF A] A by (auto simp: arena_def)
    have "chunks base (ext ?s) (u_brk s) cs" using A hp unfolding e arena_def by (subst chunks_cong [where g' = "ext s"]) auto
    then have "chunks base (ext ?s) (u_brk ?s) cs" by (fastforce simp: chunks_def)
    then have A': "arena base ?s cs" using A 2(2) by (simp add: arena_def)
    have fr: "free_bytes (ext ?s) cs = free_bytes (ext s) cs" using hp unfolding e by (intro free_bytes_cong) auto
    have "{?hp..<?hp + ext ?s ?hp} \<inter> free_bytes (ext s) cs = {}" using free_below(2) [OF A] by fastforce
    then have U: "used base ?s cs ?hp" using A nu(3) unfolding used_def fr unfolding e by (simp add: arena_def)
    obtain s' cs' where f: "ufree (?hp + 16) ?s = Some s'" "arena base s' cs'" "free_bytes (ext s') cs' = free_bytes (ext ?s) cs \<union> {?hp..<?hp + ext ?s ?hp}"
      "u_brk s' = u_brk ?s" "\<forall>a. a \<notin> set cs \<longrightarrow> a \<noteq> ?hp \<longrightarrow> h_ptr s' a = h_ptr ?s a \<and> h_size s' a = h_size ?s a" "\<exists>c \<in> set cs'. ext ?s ?hp \<le> ext s' c"
      using ufree_arena [OF A' U] by blast
    have "\<exists>c \<in> set cs'. n \<le> h_size s' c" using f(6) nu(1) by (auto simp: ext_def word_le_nat_alt intro: order_trans)
    moreover have "ext ?s ?hp = 16 * unat ?nu" "u_brk s' = ?hp + 16 * unat ?nu" using f(4) by (simp_all add: e)
    moreover have "\<forall>a. a \<notin> free_bytes (ext s) cs \<longrightarrow> a \<noteq> base \<longrightarrow> a < u_brk s \<longrightarrow> h_ptr s' a = h_ptr s a \<and> h_size s' a = h_size s a"
      using f(5) head_below(3) [OF A] by fastforce
    ultimately show ?thesis using f(1-3) unfolding more fr by auto
  qed
qed

lemma malloc_loop_arena:
  assumes A: "arena base s cs" and n: "0 < n" "16 * unat n < 2 ^ 31" and sb: "sbrk_grows sbrk"
  defines "F \<equiv> free_bytes (ext s) cs"
  shows "malloc_loop sbrk n (u_freep s) (h_ptr s (u_freep s)) s = Some (0, s) \<and> (\<exists>k. 0 \<le> k \<and> fst (sbrk (u_brk s) k) = -1) \<or>
     (\<exists>b s' cs'. malloc_loop sbrk n (u_freep s) (h_ptr s (u_freep s)) s = Some (b + 16, s') \<and> arena base s' cs' \<and> h_size s' b = n \<and>
       {b..<b + 16 * unat n} \<subseteq> F \<union> {u_brk s..<u_brk s'} \<and> free_bytes (ext s') cs' = (F \<union> {u_brk s..<u_brk s'}) - {b..<b + 16 * unat n} \<and>
       u_brk s \<le> u_brk s' \<and> (\<forall>a. a \<notin> F \<longrightarrow> a \<noteq> base \<longrightarrow> a < u_brk s \<longrightarrow> h_ptr s' a = h_ptr s a \<and> h_size s' a = h_size s a))"
    (is "?refused \<or> ?got (malloc_loop sbrk n (u_freep s) (h_ptr s (u_freep s)) s)")
proof -
  have fits: "?got (malloc_loop sbrk n (u_freep t) (h_ptr t (u_freep t)) t)"
    if t: "arena base t ds" "c \<in> set ds" "n \<le> h_size t c" "free_bytes (ext t) ds = F \<union> {u_brk s..<u_brk t}" "u_brk s \<le> u_brk t"
      "\<And>a. a \<notin> F \<Longrightarrow> a \<noteq> base \<Longrightarrow> a < u_brk s \<Longrightarrow> h_ptr t a = h_ptr s a \<and> h_size t a = h_size s a" for t ds c
  proof -
    have "\<not> (\<forall>c \<in> set ds. h_size t c < n)" using t(2,3) by (auto simp: not_less)
    then obtain w where w: "w \<in> set ds" "n \<le> h_size t (h_ptr t w)" "malloc_loop sbrk n (u_freep t) (h_ptr t (u_freep t)) t = Some (malloc_take n w (h_ptr t w) t)"
      using malloc_loop_walk [OF t(1), of n sbrk] by blast
    from malloc_take_arena [OF t(1) w(1,2) n(1)] obtain b s' cs' where
      "malloc_take n w (h_ptr t w) t = (b + 16, s')" "arena base s' cs'" "h_size s' b = n" "{b..<b + 16 * unat n} \<subseteq> F \<union> {u_brk s..<u_brk t}"
      "free_bytes (ext s') cs' = (F \<union> {u_brk s..<u_brk t}) - {b..<b + 16 * unat n}" "u_brk s' = u_brk t"
      "\<forall>a. a \<notin> F \<union> {u_brk s..<u_brk t} \<longrightarrow> a \<noteq> base \<longrightarrow> h_ptr s' a = h_ptr t a \<and> h_size s' a = h_size t a" unfolding t(4) by blast
    then show ?thesis using w(3) t(5,6) by (intro exI [of _ b] exI [of _ s'] exI [of _ cs']) auto
  qed
  show ?thesis
  proof (cases "\<exists>c \<in> set cs. n \<le> h_size s c")
    case True
    then show ?thesis using fits [OF A] by (auto simp: F_def)
  next
    case False
    then have loop: "malloc_loop sbrk n (u_freep s) (h_ptr s (u_freep s)) s = fetch_more sbrk n s"
      using malloc_loop_walk [OF A, of n sbrk] links_closed A unfolding arena_def by blast
    from morecore_arena [OF A n sb] show ?thesis
    proof (elim disjE exE conjE bexE)
      fix t ds c
      assume t: "morecore sbrk n s = Some (u_freep t, t)" "arena base t ds" "free_bytes (ext t) ds = free_bytes (ext s) cs \<union> {u_brk s..<u_brk t}"
        "\<forall>a. a \<notin> free_bytes (ext s) cs \<longrightarrow> a \<noteq> base \<longrightarrow> a < u_brk s \<longrightarrow> h_ptr t a = h_ptr s a \<and> h_size t a = h_size s a" "u_brk s \<le> u_brk t" "c \<in> set ds" "n \<le> h_size t c"
      have "u_freep t \<noteq> 0" using head_below(1) [OF t(2), of "u_freep t"] t(2) by (auto simp: arena_def)
      then show ?thesis using fits [OF t(2,6,7)] t unfolding loop F_def by simp
    qed (auto simp: loop)
  qed
qed

section \<open>What a program sees\<close>

text \<open>\<open>F\<close>: the free bytes. \<open>U\<close>: the headers of the blocks the program has; none of them overlaps another or a free byte.\<close>

definition block :: "uheap \<Rightarrow> nat \<Rightarrow> nat set" where
  "block s b = {b..<b + ext s b}"

definition heap :: "nat \<Rightarrow> uheap \<Rightarrow> nat set \<Rightarrow> nat set \<Rightarrow> bool" where
  "heap base s F U \<longleftrightarrow> 0 < base \<and> base + 16 \<le> u_brk s \<and> u_brk s \<le> 2 ^ 31 \<and>
     (if u_freep s = 0 then F = {} \<and> U = {} else \<exists>cs. arena base s cs \<and> F = free_bytes (ext s) cs) \<and>
     (\<forall>b \<in> U. 0 < ext s b \<and> block s b \<subseteq> {base + 16..<u_brk s} - F) \<and> (\<forall>b \<in> U. \<forall>c \<in> U. b \<noteq> c \<longrightarrow> block s b \<inter> block s c = {})"

definition keeps_blocks :: "uheap \<Rightarrow> uheap \<Rightarrow> nat set \<Rightarrow> bool" where
  "keeps_blocks s s' U \<longleftrightarrow> (\<forall>b \<in> U. \<forall>a \<in> block s b. h_ptr s' a = h_ptr s a \<and> h_size s' a = h_size s a)"

lemma keeps_block:
  assumes "keeps_blocks s s' U" and "b \<in> U" and "0 < ext s b"
  shows "ext s' b = ext s b" "block s' b = block s b"
proof -
  have "b \<in> block s b" using assms(3) by (simp add: block_def)
  then show "ext s' b = ext s b" using assms(1,2) by (simp add: keeps_blocks_def ext_def)
  then show "block s' b = block s b" by (simp add: block_def)
qed

lemma heap_step:
  assumes h: "heap base s F U" and k: "keeps_blocks s s' V" "V \<subseteq> U" and a: "arena base s' cs" and brk: "u_brk s \<le> u_brk s'"
    and F: "\<And>b. b \<in> V \<Longrightarrow> block s b \<inter> free_bytes (ext s') cs = {}"
  shows "heap base s' (free_bytes (ext s') cs) V"
proof -
  have V: "0 < ext s b" "ext s' b = ext s b" "block s' b = block s b" "block s b \<subseteq> {base + 16..<u_brk s}" if "b \<in> V" for b
  proof -
    have "b \<in> U" using that k(2) by blast
    then show "0 < ext s b" "block s b \<subseteq> {base + 16..<u_brk s}" using h unfolding heap_def by auto
    then show "ext s' b = ext s b" "block s' b = block s b" using keeps_block [OF k(1) that] by simp_all
  qed
  have "u_freep s' \<noteq> 0" using head_below(1) [OF a, of "u_freep s'"] a by (auto simp: arena_def)
  moreover have "0 < base \<and> base + 16 \<le> u_brk s' \<and> u_brk s' \<le> 2 ^ 31" using a unfolding arena_def by blast
  moreover have "\<forall>b \<in> V. 0 < ext s' b \<and> block s' b \<subseteq> {base + 16..<u_brk s'} - free_bytes (ext s') cs"
    using V F brk by fastforce
  moreover have "\<forall>b \<in> V. \<forall>c \<in> V. b \<noteq> c \<longrightarrow> block s' b \<inter> block s' c = {}"
    using h k(2) V(3) unfolding heap_def by (metis subsetD)
  ultimately show ?thesis using a unfolding heap_def by auto
qed

lemma heap_insert:
  assumes "heap base s F U" and "u_freep s \<noteq> 0" and "0 < ext s b" and "block s b \<subseteq> {base + 16..<u_brk s} - F"
    and "\<And>c. c \<in> U \<Longrightarrow> block s c \<inter> block s b = {}"
  shows "heap base s F (insert b U)"
  using assms(1-4) assms(5) unfolding heap_def by (simp add: Int_commute)

lemma heap_arena:
  assumes "heap base s F U" and "u_freep s \<noteq> 0"
  obtains cs where "arena base s cs" and "F = free_bytes (ext s) cs"
  using assms unfolding heap_def by auto

lemma malloc_units_eq: "unat (malloc_units nbytes) = (unat nbytes + 15) div 16 + 1"
proof -
  have nb: "unat nbytes < 2 ^ 32" using unsigned_less [of nbytes] by simp
  have "(ucast nbytes + 16 - 1 :: uint64) = ucast nbytes + 15" by simp
  moreover have "unat (ucast nbytes + 15 :: uint64) = unat nbytes + 15" using nb unat_add_lem [of "ucast nbytes :: uint64" 15] by simp
  ultimately have "unat ((ucast nbytes + 16 - 1 :: uint64) div 16) = (unat nbytes + 15) div 16" by (simp only: unat_div_distrib) simp
  moreover have "(unat nbytes + 15) div 16 + 1 < 2 ^ 32" using nb by simp
  ultimately have "unat ((ucast nbytes + 16 - 1 :: uint64) div 16 + 1) = (unat nbytes + 15) div 16 + 1" "(unat nbytes + 15) div 16 + 1 < 2 ^ 32"
    using unat_add_lem [of "(ucast nbytes + 16 - 1 :: uint64) div 16" 1] by simp_all
  then show ?thesis unfolding malloc_units_def by (simp only: unsigned_ucast_eq) (simp add: take_bit_nat_eq_self)
qed

lemma ufree_heap:
  assumes h: "heap base s F U" and b: "b \<in> U"
  shows "\<exists>s'. ufree (b + 16) s = Some s' \<and> heap base s' (F \<union> block s b) (U - {b}) \<and> u_brk s' = u_brk s \<and> keeps_blocks s s' (U - {b})"
proof -
  have fp: "u_freep s \<noteq> 0" using h b unfolding heap_def by (auto split: if_splits)
  obtain cs where cs: "arena base s cs" "F = free_bytes (ext s) cs" by (rule heap_arena [OF h fp])
  have B: "0 < ext s c" "block s c \<subseteq> {base + 16..<u_brk s} - F" if "c \<in> U" for c using h that unfolding heap_def by blast+
  have "b + ext s b - 1 \<in> block s b" "b \<in> block s b" using B(1) [OF b] by (auto simp: block_def)
  then have "b + ext s b - 1 < u_brk s" "base + 16 \<le> b" using B(2) [OF b] by auto
  then have "used base s cs b" using B [OF b] unfolding used_def block_def cs(2) by auto
  from ufree_arena [OF cs(1) this] obtain s' cs' where f: "ufree (b + 16) s = Some s'" "arena base s' cs'"
    "free_bytes (ext s') cs' = F \<union> block s b" "u_brk s' = u_brk s" "\<forall>a. a \<notin> set cs \<longrightarrow> a \<noteq> b \<longrightarrow> h_ptr s' a = h_ptr s a \<and> h_size s' a = h_size s a"
    unfolding cs(2) block_def by blast
  have disj: "block s c \<inter> block s b = {}" if "c \<in> U - {b}" for c using h b that unfolding heap_def by blast
  have keep: "keeps_blocks s s' (U - {b})" unfolding keeps_blocks_def
  proof (intro ballI)
    fix c a
    assume c: "c \<in> U - {b}" and a: "a \<in> block s c"
    have "a \<in> {base + 16..<u_brk s} - F" using B(2) [of c] c a by blast
    then have "a \<notin> set cs" using head_below(3) [OF cs(1), of a] cs(2) by auto
    moreover have "a \<noteq> b" using disj [OF c] a \<open>b \<in> block s b\<close> by blast
    ultimately show "h_ptr s' a = h_ptr s a \<and> h_size s' a = h_size s a" using f(5) by blast
  qed
  have "block s c \<inter> free_bytes (ext s') cs' = {}" if "c \<in> U - {b}" for c unfolding f(3) using disj [OF that] B(2) [of c] that by blast
  from heap_step [OF h keep _ f(2) _ this] f keep show ?thesis by auto
qed

lemma heap_started:
  assumes h: "heap base s F U"
  defines "t \<equiv> (if u_freep s = 0 then set_size base 0 ((set_ptr base base s)\<lparr>u_freep := base\<rparr>) else s)"
  shows "heap base t F U" "u_freep t \<noteq> 0" "u_brk t = u_brk s" "keeps_blocks s t U" "\<And>b. b \<in> U \<Longrightarrow> block t b = block s b"
proof -
  have "heap base t F U \<and> u_freep t \<noteq> 0 \<and> u_brk t = u_brk s \<and> keeps_blocks s t U \<and> (\<forall>b \<in> U. block t b = block s b)"
  proof (cases "u_freep s = 0")
    case True
    then have t: "t = set_size base 0 ((set_ptr base base s)\<lparr>u_freep := base\<rparr>)" by (simp add: t_def)
    have FU: "F = {}" "U = {}" "0 < base" "base + 16 \<le> u_brk s" "u_brk s \<le> 2 ^ 31" using h True unfolding heap_def by simp_all
    have "ext t base = 0" by (simp add: t ext_def)
    then have "arena base t [base]" "free_bytes (ext t) [base] = {}"
      using FU by (simp_all add: arena_def links_def chunks_def free_bytes_def) (simp_all add: t)
    then have "heap base t {} {}" using FU unfolding heap_def by (auto simp: t)
    then show ?thesis using FU by (simp add: keeps_blocks_def) (simp add: t)
  qed (use h in \<open>simp add: t_def keeps_blocks_def\<close>)
  then show "heap base t F U" "u_freep t \<noteq> 0" "u_brk t = u_brk s" "keeps_blocks s t U" "\<And>b. b \<in> U \<Longrightarrow> block t b = block s b" by blast+
qed

lemma malloc_loop_heap:
  assumes h: "heap base s F U" and fp: "u_freep s \<noteq> 0" and n: "0 < n" "16 * unat n < 2 ^ 31" and sb: "sbrk_grows sbrk"
  shows "malloc_loop sbrk n (u_freep s) (h_ptr s (u_freep s)) s = Some (0, s) \<and> (\<exists>k. 0 \<le> k \<and> fst (sbrk (u_brk s) k) = -1) \<or>
     (\<exists>b s'. malloc_loop sbrk n (u_freep s) (h_ptr s (u_freep s)) s = Some (b + 16, s') \<and> b \<notin> U \<and> ext s' b = 16 * unat n \<and>
       heap base s' (F \<union> {u_brk s..<u_brk s'} - block s' b) (insert b U) \<and> keeps_blocks s s' U)"
proof -
  obtain cs where cs: "arena base s cs" "F = free_bytes (ext s) cs" by (rule heap_arena [OF h fp])
  have B: "0 < ext s c" "block s c \<subseteq> {base + 16..<u_brk s} - F" if "c \<in> U" for c using h that unfolding heap_def by blast+
  from malloc_loop_arena [OF cs(1) n sb] consider (refused) "malloc_loop sbrk n (u_freep s) (h_ptr s (u_freep s)) s = Some (0, s)" "\<exists>k. 0 \<le> k \<and> fst (sbrk (u_brk s) k) = -1"
    | (got) b s' cs' where "malloc_loop sbrk n (u_freep s) (h_ptr s (u_freep s)) s = Some (b + 16, s')" "arena base s' cs'" "h_size s' b = n"
       "{b..<b + 16 * unat n} \<subseteq> F \<union> {u_brk s..<u_brk s'}" "free_bytes (ext s') cs' = (F \<union> {u_brk s..<u_brk s'}) - {b..<b + 16 * unat n}"
       "u_brk s \<le> u_brk s'" "\<forall>a. a \<notin> F \<longrightarrow> a \<noteq> base \<longrightarrow> a < u_brk s \<longrightarrow> h_ptr s' a = h_ptr s a \<and> h_size s' a = h_size s a"
    unfolding cs(2) by blast
  then show ?thesis
  proof cases
    case got
    have blk: "block s' b = {b..<b + 16 * unat n}" "ext s' b = 16 * unat n" "0 < unat n" using got(3) n(1) by (simp_all add: block_def ext_def word_less_nat_alt)
    have keep: "keeps_blocks s s' U" unfolding keeps_blocks_def using B(2) got(7) by fastforce
    have apart: "block s c \<inter> (F \<union> {u_brk s..<u_brk s'}) = {}" if "c \<in> U" for c using B(2) [OF that] by fastforce
    have "block s c \<inter> free_bytes (ext s') cs' = {}" if "c \<in> U" for c using apart [OF that] got(5) by blast
    from heap_step [OF h keep subset_refl got(2,6) this] have h': "heap base s' (F \<union> {u_brk s..<u_brk s'} - block s' b) U" unfolding got(5) blk .
    have F: "F \<subseteq> {base + 16..<u_brk s}" using free_below [OF cs(1)] cs(2) by auto
    have fp': "u_freep s' \<noteq> 0" using head_below(1) [OF got(2), of "u_freep s'"] got(2) unfolding arena_def by linarith
    have "base + 16 \<le> u_brk s" using h unfolding heap_def by blast
    then have inside: "block s' b \<subseteq> {base + 16..<u_brk s'} - (F \<union> {u_brk s..<u_brk s'} - block s' b)" using got(4,6) F unfolding blk by fastforce
    have same: "block s' c \<inter> block s' b = {}" if "c \<in> U" for c
      using keeps_block(2) [OF keep that B(1) [OF that]] apart [OF that] got(4) unfolding blk by blast
    have "b \<notin> U"
    proof
      assume "b \<in> U"
      then have "block s' b = {}" using same [of b] by blast
      then show False using blk by simp
    qed
    moreover have "heap base s' (F \<union> {u_brk s..<u_brk s'} - block s' b) (insert b U)"
      using heap_insert [OF h' fp' _ inside same] blk by simp
    ultimately show ?thesis using got(1) blk(2) keep by blast
  qed blast
qed

text \<open>A kernel that gives memory up to 2 GB; a program that has not asked for memory yet, and one that has a block of 32 bytes.\<close>

definition demo_sbrk :: "nat \<Rightarrow> int \<Rightarrow> int \<times> nat" where
  "demo_sbrk brk n = (if 0 \<le> n \<and> brk + nat n \<le> 2 ^ 31 then (int brk, brk + nat n) else (-1, brk))"

definition demo_uheap :: uheap where
  "demo_uheap = \<lparr>h_ptr = (\<lambda>_. 0), h_size = (\<lambda>_. 0), u_freep = 0, u_brk = 4096\<rparr>"

definition demo_used :: uheap where
  "demo_used = \<lparr>h_ptr = (\<lambda>_. 128), h_size = (\<lambda>a. if a = 4096 then 2 else 0), u_freep = 128, u_brk = 8192\<rparr>"

lemma demo_sbrk_grows: "sbrk_grows demo_sbrk"
  by (simp add: sbrk_grows_def demo_sbrk_def)

lemma demo_uheap_heap: "heap 128 demo_uheap {} {}"
  by (simp add: heap_def demo_uheap_def)

lemma demo_used_heap: "heap 128 demo_used {} {4096}"
proof -
  have "arena 128 demo_used [128]" "free_bytes (ext demo_used) [128] = {}"
    by (simp_all add: arena_def links_def chunks_def free_bytes_def ext_def demo_used_def)
  then show ?thesis unfolding heap_def by (auto simp: demo_used_def block_def ext_def)
qed



text \<open>C36: \<open>free\<close> of a block of the program returns; exactly the bytes of the block become free, and no other block is touched.\<close>

theorem ufree_frees:
  assumes "heap base s F U" and "b \<in> U"
  shows "\<exists>s'. ufree (b + 16) s = Some s' \<and> heap base s' (F \<union> block s b) (U - {b}) \<and> u_brk s' = u_brk s \<and> keeps_blocks s s' (U - {b})"
  by (rule ufree_heap [OF assms])

theorem ufree_frees_witness: "heap 128 demo_used {} {4096} \<and> (\<exists>s'. ufree 4112 demo_used = Some s' \<and> heap 128 s' {4096..<4128} {})"
  using ufree_frees [of 128 demo_used "{}" "{4096}" 4096] demo_used_heap by (auto simp: block_def ext_def demo_used_def)

end
