(* ===== verification/Spec2Isabelle.thy ===== *)
theory Spec2Isabelle
  imports Multicore Trap Logops Grep Ucmds Shparse Umalloc
begin

text \<open>
  A verification development for an xv6 kernel for RISC-V extended with UNIX-like signals
  and binary semaphores.

  \<^bold>\<open>Parts.\<close> The kernel is layered. Spinlocks (\<^verbatim>\<open>kernel/spinlock.c\<close>) protect
  every shared table; the page allocator (\<^verbatim>\<open>kernel/kalloc.c\<close>) hands out physical
  pages.

  \<^bold>\<open>State.\<close> The whole kernel state is one extensible record: \<open>machine\<close> (memory, the
  registers of the running hart, the CPUs, all spinlocks), extended by \<open>kmem\<close>.
  Operations are polymorphic in what comes after the record they need.
\<close>

end
